(* ===== verification/Prelude.thy ===== *)
theory Prelude
  imports Main "HOL-Library.Word" "HOL-Library.AList"
begin

text \<open>
  Shared vocabulary of the development: the machine types, the error type of
  \<^verbatim>\<open>ruxmsg-core/src/error.rs\<close>, the error monad that stands for Rust's \<^verbatim>\<open>Result\<close> and
  \<^verbatim>\<open>?\<close>, big-endian byte strings, UTF-8 strings, and the generic facts about them that
  the component theories use.
\<close>

named_theorems res_simps \<open>case analysis for the error monad\<close>

section \<open>Machine types\<close>

type_synonym u8 = "8 word"
type_synonym u64 = "64 word"
type_synonym bytes = "8 word list"

text \<open>
  Rust's unsigned lengths and counters that the code never lets wrap are naturals, with the
  range checks of the code written out against these two bounds. The bit set of the replay
  window, which is shifted, keeps its width.
\<close>

definition u64_max :: nat where
  "u64_max = 18446744073709551615"

definition u32_max :: nat where
  "u32_max = 4294967295"

section \<open>Errors\<close>

text \<open>\<^verbatim>\<open>error.rs\<close>: one constructor per variant, in the order of the source.\<close>

datatype error =
    UnsupportedVersion nat
  | UnknownMessageType nat
  | InvalidFrameLength nat
  | InvalidDirection nat
  | InvalidLength string nat nat
  | Storage string
  | InvalidIdentityKey
  | AllZeroSharedSecret
  | SignatureInvalid
  | ConfirmationInvalid
  | KeyDerivation
  | AeadFailure
  | Encoding string
  | TruncatedFrame
  | InvalidPayloadShape
  | InvalidMapKey
  | DuplicateMapKey nat
  | NonCanonicalEncoding
  | ReplayRejected
  | MessageKeyUnavailable nat
  | SkippedKeyLimit
  | CounterOverflow
  | InvalidStateTransition
  | TransportTimeout
  | InvalidDataPayload
  | InvalidPadding
  | DataTooLarge
  | InvalidHandshake
  | InvalidClosePayload
  | SasRejected
  | IdentityMismatch

type_synonym 'a res = "error + 'a"

text \<open>\<open>rbind m f\<close> is \<^verbatim>\<open>f(m?)\<close>: an error returns early, a value goes on.\<close>

fun rbind :: "'e + 'a \<Rightarrow> ('a \<Rightarrow> 'e + 'b) \<Rightarrow> 'e + 'b" where
  "rbind (Inl e) f = Inl e"
| "rbind (Inr x) f = f x"

fun map_err :: "('e \<Rightarrow> 'f) \<Rightarrow> 'e + 'a \<Rightarrow> 'f + 'a" where
  "map_err g (Inl e) = Inl (g e)"
| "map_err g (Inr x) = Inr x"

text \<open>\<^verbatim>\<open>option.ok_or(e)\<close>.\<close>

fun ok_or :: "'a option \<Rightarrow> 'e \<Rightarrow> 'e + 'a" where
  "ok_or None e = Inl e"
| "ok_or (Some x) e = Inr x"

text \<open>\<^verbatim>\<open>option.map(f).transpose()\<close>.\<close>

fun traverse_opt :: "('a \<Rightarrow> 'e + 'b) \<Rightarrow> 'a option \<Rightarrow> 'e + 'b option" where
  "traverse_opt f None = Inr None"
| "traverse_opt f (Some x) = rbind (f x) (\<lambda>y. Inr (Some y))"

text \<open>\<^verbatim>\<open>iter.map(f).collect::<Result<Vec<_>>>()\<close>: the first error wins.\<close>

fun traverse_list :: "('a \<Rightarrow> 'e + 'b) \<Rightarrow> 'a list \<Rightarrow> 'e + 'b list" where
  "traverse_list f [] = Inr []"
| "traverse_list f (x # xs) = rbind (f x) (\<lambda>y. rbind (traverse_list f xs) (\<lambda>ys. Inr (y # ys)))"

text \<open>\<open>if c { return Err(e) }\<close>.\<close>

definition guard :: "bool \<Rightarrow> 'e \<Rightarrow> 'e + unit" where
  "guard c e = (if c then Inr () else Inl e)"

lemma rbind_Inr_iff [res_simps]: "rbind m f = Inr y \<longleftrightarrow> (\<exists>x. m = Inr x \<and> f x = Inr y)"
  by (cases m) auto

lemma rbind_Inl_iff: "rbind m f = Inl e \<longleftrightarrow> m = Inl e \<or> (\<exists>x. m = Inr x \<and> f x = Inl e)"
  by (cases m) auto

lemma map_err_Inr_iff [res_simps]: "map_err g m = Inr y \<longleftrightarrow> m = Inr y"
  by (cases m) auto

lemma ok_or_Inr_iff [res_simps]: "ok_or m e = Inr y \<longleftrightarrow> m = Some y"
  by (cases m) auto

lemma traverse_opt_Inr_iff [res_simps]:
  "traverse_opt f m = Inr y \<longleftrightarrow>
     (case m of None \<Rightarrow> y = None | Some x \<Rightarrow> (\<exists>z. f x = Inr z \<and> y = Some z))"
  by (cases m) (auto simp: res_simps)

lemma guard_Inr_iff [res_simps]: "guard c e = Inr u \<longleftrightarrow> c"
  by (simp add: guard_def)

lemma guard_True [simp]: "guard True e = Inr ()"
  by (simp add: guard_def)

lemma guard_False [simp]: "guard False e = Inl e"
  by (simp add: guard_def)

lemma rbind_assoc: "rbind (rbind m f) g = rbind m (\<lambda>x. rbind (f x) g)"
  by (cases m) auto

lemma rbind_cong [fundef_cong]:
  "m = m' \<Longrightarrow> (\<And>x. m' = Inr x \<Longrightarrow> f x = g x) \<Longrightarrow> rbind m f = rbind m' g"
  by (cases m') auto

lemma traverse_list_all:
  "(\<And>x. x \<in> set xs \<Longrightarrow> f x = Inr (g x)) \<Longrightarrow> traverse_list f xs = Inr (map g xs)"
  by (induction xs) auto

section \<open>Big-endian byte strings\<close>

text \<open>\<open>be_bytes k n\<close> is \<^verbatim>\<open>n.to_be_bytes()\<close> for a \<open>k\<close>-byte integer.\<close>

fun be_bytes :: "nat \<Rightarrow> nat \<Rightarrow> bytes" where
  "be_bytes 0 n = []"
| "be_bytes (Suc k) n = be_bytes k (n div 256) @ [word_of_nat n]"

text \<open>\<^verbatim>\<open>u32::from_be_bytes\<close> and its like.\<close>

definition be_value :: "bytes \<Rightarrow> nat" where
  "be_value bs = foldl (\<lambda>v b. 256 * v + unat b) 0 bs"

lemma length_be_bytes [simp]: "length (be_bytes k n) = k"
  by (induction k arbitrary: n) auto

lemma be_value_Nil [simp]: "be_value [] = 0"
  by (simp add: be_value_def)

lemma be_value_snoc: "be_value (bs @ [b]) = 256 * be_value bs + unat b"
  by (simp add: be_value_def)

lemma unat_word_of_nat_u8: "unat (word_of_nat n :: u8) = n mod 256"
  by (simp add: unat_of_nat)

lemma be_value_be_bytes: "n < 256 ^ k \<Longrightarrow> be_value (be_bytes k n) = n"
proof (induction k arbitrary: n)
  case 0
  then show ?case by simp
next
  case (Suc k)
  from Suc.prems have "n div 256 < 256 ^ k"
    by (simp add: less_mult_imp_div_less mult.commute)
  then have "be_value (be_bytes k (n div 256)) = n div 256"
    by (rule Suc.IH)
  then show ?case
    by (simp add: be_value_snoc unat_word_of_nat_u8)
qed

lemma u8_bound: "unat (b :: u8) < 256"
  using unsigned_less[of b] by simp

lemma be_value_less: "be_value bs < 256 ^ length bs"
proof (induction bs rule: rev_induct)
  case Nil
  then show ?case by simp
next
  case (snoc b bs)
  with u8_bound[of b] show ?case
    by (simp add: be_value_snoc)
qed

lemma u8_256 [simp]: "(256 :: u8) = 0"
  by simp

lemma word_of_nat_unat_add [simp]: "word_of_nat (256 * v + unat b) = (b :: u8)"
  by simp

lemma be_bytes_be_value: "be_bytes (length bs) (be_value bs) = bs"
proof (induction bs rule: rev_induct)
  case Nil
  then show ?case by simp
next
  case (snoc b bs)
  have "(256 * be_value bs + unat b) div 256 = be_value bs"
    using u8_bound[of b] by simp
  with snoc show ?case
    by (simp add: be_value_snoc del: div_mult_self1 div_mult_self2)
qed

section \<open>Strings\<close>

text \<open>
  A Rust \<^verbatim>\<open>String\<close> is the list of its Unicode scalar values (what \<^verbatim>\<open>chars()\<close> yields);
  \<^verbatim>\<open>len()\<close> counts the bytes of its UTF-8 form.
\<close>

type_synonym ustr = "nat list"

definition lit :: "string \<Rightarrow> ustr" where
  "lit s = map of_char s"

definition scalar_value :: "nat \<Rightarrow> bool" where
  "scalar_value c \<longleftrightarrow> c < 55296 \<or> (57344 \<le> c \<and> c < 1114112)"

text \<open>\<^verbatim>\<open>char::len_utf8\<close> and \<^verbatim>\<open>char::encode_utf8\<close>.\<close>

definition len_utf8 :: "nat \<Rightarrow> nat" where
  "len_utf8 c = (if c < 128 then 1 else if c < 2048 then 2 else if c < 65536 then 3 else 4)"

definition utf8_char :: "nat \<Rightarrow> bytes" where
  "utf8_char c =
     (if c < 128 then [word_of_nat c]
      else if c < 2048 then [word_of_nat (192 + c div 64), word_of_nat (128 + c mod 64)]
      else if c < 65536 then
        [word_of_nat (224 + c div 4096), word_of_nat (128 + c div 64 mod 64),
         word_of_nat (128 + c mod 64)]
      else
        [word_of_nat (240 + c div 262144), word_of_nat (128 + c div 4096 mod 64),
         word_of_nat (128 + c div 64 mod 64), word_of_nat (128 + c mod 64)])"

definition utf8 :: "ustr \<Rightarrow> bytes" where
  "utf8 s = concat (map utf8_char s)"

definition str_len :: "ustr \<Rightarrow> nat" where
  "str_len s = (\<Sum>c\<leftarrow>s. len_utf8 c)"

lemma length_utf8_char [simp]: "length (utf8_char c) = len_utf8 c"
  by (simp add: utf8_char_def len_utf8_def)

lemma length_utf8: "length (utf8 s) = str_len s"
  by (induction s) (auto simp: utf8_def str_len_def)

lemma str_len_Nil [simp]: "str_len [] = 0"
  by (simp add: str_len_def)

lemma str_len_Cons [simp]: "str_len (c # s) = len_utf8 c + str_len s"
  by (simp add: str_len_def)

lemma str_len_append [simp]: "str_len (s @ t) = str_len s + str_len t"
  by (simp add: str_len_def)

lemma len_utf8_bounds: "1 \<le> len_utf8 c" "len_utf8 c \<le> 4"
  by (auto simp: len_utf8_def)

lemma length_le_str_len: "length s \<le> str_len s"
proof (induction s)
  case (Cons c s)
  with len_utf8_bounds(1)[of c] show ?case by simp
qed simp

section \<open>Association lists\<close>

text \<open>
  A \<^verbatim>\<open>BTreeMap\<close> whose order no code observes is an association list with distinct keys,
  with the library's \<open>AList.update\<close> and \<open>AList.delete\<close>.
\<close>

lemma length_update_fresh: "k \<notin> fst ` set m \<Longrightarrow> length (AList.update k v m) = Suc (length m)"
  by (induction m) auto

lemma length_delete_present:
  "distinct (map fst m) \<Longrightarrow> k \<in> fst ` set m \<Longrightarrow> Suc (length (AList.delete k m)) = length m"
proof (induction m)
  case (Cons p m)
  show ?case
  proof (cases "fst p = k")
    case True
    with Cons.prems have "k \<notin> fst ` set m" by auto
    then have "AList.delete k m = m"
      by (simp add: AList.delete_notin_dom)
    with True show ?thesis by (cases p) simp
  next
    case False
    with Cons show ?thesis by (cases p) auto
  qed
qed simp

end
