(* ===== verification/Protocol.thy ===== *)
theory Protocol
  imports Prelude
begin

text \<open>
  \<^verbatim>\<open>ruxmsg-core/src/protocol.rs\<close>: the wire registries, the protocol bounds and the
  identifiers, with \<^verbatim>\<open>close.rs\<close>'s reasons and \<^verbatim>\<open>handshake.rs\<close>'s roles, which
  are registries too. Every registry is an enumeration with a number per variant and a partial
  \<^verbatim>\<open>TryFrom\<close> back; the locale \<open>wire_code\<close> is that contract, and each registry is an
  interpretation of it.
\<close>

section \<open>Bounds\<close>

definition MAX_FRAME_SIZE :: nat where "MAX_FRAME_SIZE = 1048576"
definition REPLAY_WINDOW_SIZE :: nat where "REPLAY_WINDOW_SIZE = 64"
definition MAX_SKIPPED_KEYS :: nat where "MAX_SKIPPED_KEYS = 64"
definition DEFAULT_PADDING_QUANTUM :: nat where "DEFAULT_PADDING_QUANTUM = 256"
definition REKEY_DRAIN_TIMEOUT_SECS :: nat where "REKEY_DRAIN_TIMEOUT_SECS = 15"
definition REKEY_INTERVAL_SECS :: nat where "REKEY_INTERVAL_SECS = 24 * 60 * 60"
definition REKEY_MESSAGE_LIMIT :: nat where "REKEY_MESSAGE_LIMIT = 1000000"
definition HANDSHAKE_FRAME_TIMEOUT_SECS :: nat where "HANDSHAKE_FRAME_TIMEOUT_SECS = 15"
definition SAS_DECISION_TIMEOUT_SECS :: nat where "SAS_DECISION_TIMEOUT_SECS = 120"
definition HANDSHAKE_TOTAL_TIMEOUT_SECS :: nat where "HANDSHAKE_TOTAL_TIMEOUT_SECS = 180"
definition MAX_UNAUTHENTICATED_HANDSHAKES :: nat where "MAX_UNAUTHENTICATED_HANDSHAKES = 4"
definition REKEY_RETRY_SECS :: nat where "REKEY_RETRY_SECS = 30"
definition MAX_PREPARED_KEYS :: nat where "MAX_PREPARED_KEYS = 128"
definition MAX_CONTENT :: nat where "MAX_CONTENT = 65536"

lemmas bounds_defs = MAX_FRAME_SIZE_def REPLAY_WINDOW_SIZE_def MAX_SKIPPED_KEYS_def
  DEFAULT_PADDING_QUANTUM_def REKEY_DRAIN_TIMEOUT_SECS_def REKEY_INTERVAL_SECS_def
  REKEY_MESSAGE_LIMIT_def HANDSHAKE_FRAME_TIMEOUT_SECS_def SAS_DECISION_TIMEOUT_SECS_def
  HANDSHAKE_TOTAL_TIMEOUT_SECS_def MAX_UNAUTHENTICATED_HANDSHAKES_def REKEY_RETRY_SECS_def
  MAX_PREPARED_KEYS_def MAX_CONTENT_def u64_max_def u32_max_def

section \<open>Registries\<close>

datatype protocol_version = V1

definition version_code :: "protocol_version \<Rightarrow> nat" where
  "version_code v = 1"

definition version_try_from :: "nat \<Rightarrow> protocol_version res" where
  "version_try_from value = (if value = 1 then Inr V1 else Inl (UnsupportedVersion value))"

datatype handshake_purpose = PInitial | PRekey

primrec purpose_code :: "handshake_purpose \<Rightarrow> nat" where
  "purpose_code PInitial = 0"
| "purpose_code PRekey = 1"

definition purpose_try_from :: "nat \<Rightarrow> handshake_purpose res" where
  "purpose_try_from value =
     (if value = 0 then Inr PInitial
      else if value = 1 then Inr PRekey
      else Inl InvalidHandshake)"

datatype message_type = MHandshake | MSessionConfirm | MData | MRekey | MClose

primrec type_code :: "message_type \<Rightarrow> nat" where
  "type_code MHandshake = 1"
| "type_code MSessionConfirm = 2"
| "type_code MData = 3"
| "type_code MRekey = 4"
| "type_code MClose = 5"

definition type_try_from :: "nat \<Rightarrow> message_type res" where
  "type_try_from value =
     (if value = 1 then Inr MHandshake
      else if value = 2 then Inr MSessionConfirm
      else if value = 3 then Inr MData
      else if value = 4 then Inr MRekey
      else if value = 5 then Inr MClose
      else Inl (UnknownMessageType value))"

primrec max_payload :: "message_type \<Rightarrow> nat" where
  "max_payload MHandshake = 1024"
| "max_payload MRekey = 1024"
| "max_payload MSessionConfirm = 128"
| "max_payload MClose = 256"
| "max_payload MData = MAX_FRAME_SIZE"

datatype direction_id = InitiatorToResponder | ResponderToInitiator

primrec direction_code :: "direction_id \<Rightarrow> nat" where
  "direction_code InitiatorToResponder = 1"
| "direction_code ResponderToInitiator = 2"

definition direction_try_from :: "nat \<Rightarrow> direction_id res" where
  "direction_try_from value =
     (if value = 1 then Inr InitiatorToResponder
      else if value = 2 then Inr ResponderToInitiator
      else Inl (InvalidDirection value))"

datatype hello_role = Initiator | Responder

primrec role_code :: "hello_role \<Rightarrow> nat" where
  "role_code Initiator = 0"
| "role_code Responder = 1"

definition role_try_from :: "nat \<Rightarrow> hello_role res" where
  "role_try_from value =
     (if value = 0 then Inr Initiator
      else if value = 1 then Inr Responder
      else Inl InvalidHandshake)"

datatype close_reason = RNormal | RProtocolError | RAuthenticationFailure | RIdentityChanged
  | RResourceLimit | RShutdown

primrec reason_code :: "close_reason \<Rightarrow> nat" where
  "reason_code RNormal = 0"
| "reason_code RProtocolError = 1"
| "reason_code RAuthenticationFailure = 2"
| "reason_code RIdentityChanged = 3"
| "reason_code RResourceLimit = 4"
| "reason_code RShutdown = 5"

definition reason_try_from :: "nat \<Rightarrow> close_reason res" where
  "reason_try_from value =
     (if value = 0 then Inr RNormal
      else if value = 1 then Inr RProtocolError
      else if value = 2 then Inr RAuthenticationFailure
      else if value = 3 then Inr RIdentityChanged
      else if value = 4 then Inr RResourceLimit
      else if value = 5 then Inr RShutdown
      else Inl InvalidClosePayload)"

text \<open>
  \<^verbatim>\<open>FrameLength::new\<close>; the new type is the natural it wraps. A \<^verbatim>\<open>SessionId\<close> and a
  \<^verbatim>\<open>PeerIdentity\<close> wrap a byte array whose length the Rust type fixes (16 and 32).
\<close>

definition frame_length_new :: "nat \<Rightarrow> nat res" where
  "frame_length_new value =
     (if value \<le> MAX_FRAME_SIZE then Inr value else Inl (InvalidFrameLength value))"

type_synonym session_id = bytes
type_synonym peer_identity = bytes

definition session_id_ok :: "session_id \<Rightarrow> bool" where
  "session_id_ok s \<longleftrightarrow> length s = 16"

definition identity_ok :: "peer_identity \<Rightarrow> bool" where
  "identity_ok p \<longleftrightarrow> length p = 32"

section \<open>The registry contract\<close>

locale wire_code =
  fixes code :: "'a \<Rightarrow> nat"
    and try_from :: "nat \<Rightarrow> error + 'a"
  assumes try_from_code: "try_from (code a) = Inr a"
    and code_try_from: "try_from n = Inr a \<Longrightarrow> code a = n"
begin

lemma code_inject: "code a = code b \<longleftrightarrow> a = b"
  by (metis try_from_code sum.inject(2))

lemma try_from_iff: "try_from n = Inr a \<longleftrightarrow> n = code a"
  using try_from_code code_try_from by metis

lemma unregistered: "n \<notin> range code \<longleftrightarrow> (\<exists>e. try_from n = Inl e)"
proof
  assume "n \<notin> range code"
  then show "\<exists>e. try_from n = Inl e"
    by (cases "try_from n") (auto dest: code_try_from)
next
  assume "\<exists>e. try_from n = Inl e"
  then show "n \<notin> range code"
    by (auto simp: try_from_code)
qed

end

interpretation version: wire_code version_code version_try_from
proof
  show "version_try_from (version_code a) = Inr a" for a
    by (cases a) (simp add: version_code_def version_try_from_def)
qed (auto simp: version_code_def version_try_from_def split: if_splits)

interpretation purpose: wire_code purpose_code purpose_try_from
proof
  show "purpose_try_from (purpose_code a) = Inr a" for a
    by (cases a) (simp_all add: purpose_try_from_def)
qed (auto simp: purpose_try_from_def split: if_splits)

interpretation mtype: wire_code type_code type_try_from
proof
  show "type_try_from (type_code a) = Inr a" for a
    by (cases a) (simp_all add: type_try_from_def)
qed (auto simp: type_try_from_def split: if_splits)

interpretation direction: wire_code direction_code direction_try_from
proof
  show "direction_try_from (direction_code a) = Inr a" for a
    by (cases a) (simp_all add: direction_try_from_def)
qed (auto simp: direction_try_from_def split: if_splits)

interpretation role: wire_code role_code role_try_from
proof
  show "role_try_from (role_code a) = Inr a" for a
    by (cases a) (simp_all add: role_try_from_def)
qed (auto simp: role_try_from_def split: if_splits)

interpretation reason: wire_code reason_code reason_try_from
proof
  show "reason_try_from (reason_code a) = Inr a" for a
    by (cases a) (simp_all add: reason_try_from_def)
qed (auto simp: reason_try_from_def split: if_splits)

lemmas registry_simps [simp] = version.try_from_code purpose.try_from_code mtype.try_from_code
  direction.try_from_code role.try_from_code reason.try_from_code

lemma type_code_bounds: "1 \<le> type_code t" "type_code t \<le> 5"
  by (cases t; simp)+

lemma purpose_code_bound: "purpose_code p \<le> 1"
  by (cases p) auto

lemma role_code_bound: "role_code r \<le> 1"
  by (cases r) auto

lemma reason_code_bound: "reason_code r \<le> 5"
  by (cases r) auto

lemma direction_code_bound: "direction_code d \<le> 2"
  by (cases d) auto

lemma max_payload_le: "max_payload t \<le> MAX_FRAME_SIZE"
  by (cases t) (simp_all add: MAX_FRAME_SIZE_def)

end
