(* ===== verification/External.thy ===== *)
theory External
  imports Protocol
begin

text \<open>
  The third-party code the program calls: \<^verbatim>\<open>ciborium\<close> (CBOR), \<^verbatim>\<open>sha2\<close>,
  \<^verbatim>\<open>hkdf\<close>, \<^verbatim>\<open>hmac\<close>, \<^verbatim>\<open>ed25519-dalek\<close>, \<^verbatim>\<open>x25519-dalek\<close>,
  \<^verbatim>\<open>chacha20poly1305\<close> and \<^verbatim>\<open>bip39\<close>. None of it is in the repository, so it is a
  parameter: a record of functions that every definition using it takes as an argument. What the
  program relies on is stated as the predicates \<open>cbor_ok\<close> and \<open>crypto_ok\<close>: the
  byte format of RFC 8949 for maps of integers and strings, and the documented input and output
  lengths and round trips of the primitives. Nothing about secrecy or unforgeability is assumed.
\<close>

section \<open>CBOR values\<close>

text \<open>\<^verbatim>\<open>ciborium::value::Value\<close>, as its public type; an \<^verbatim>\<open>f64\<close> is its bit pattern.\<close>

datatype cvalue =
    CInteger int
  | CBytes bytes
  | CFloat u64
  | CText ustr
  | CBool bool
  | CNull
  | CTag nat cvalue
  | CArray "cvalue list"
  | CMap "(cvalue \<times> cvalue) list"

record ext =
  cbor_ser :: "cvalue \<Rightarrow> string + bytes"
  cbor_de :: "bytes \<Rightarrow> string + (cvalue \<times> nat)"
  sha256 :: "bytes \<Rightarrow> bytes"
  hkdf_expand :: "bytes \<Rightarrow> bytes \<Rightarrow> bytes \<Rightarrow> nat \<Rightarrow> bytes option"
  hmac_sha256 :: "bytes \<Rightarrow> bytes \<Rightarrow> bytes"
  ed_public :: "bytes \<Rightarrow> bytes"
  ed_sign :: "bytes \<Rightarrow> bytes \<Rightarrow> bytes"
  ed_key_valid :: "bytes \<Rightarrow> bool"
  ed_verify_strict :: "bytes \<Rightarrow> bytes \<Rightarrow> bytes \<Rightarrow> bool"
  x_public :: "bytes \<Rightarrow> bytes"
  x_diffie_hellman :: "bytes \<Rightarrow> bytes \<Rightarrow> bytes"
  x_was_contributory :: "bytes \<Rightarrow> bool"
  aead_encrypt :: "bytes \<Rightarrow> bytes \<Rightarrow> bytes \<Rightarrow> bytes \<Rightarrow> bytes option"
  aead_decrypt :: "bytes \<Rightarrow> bytes \<Rightarrow> bytes \<Rightarrow> bytes \<Rightarrow> bytes option"
  bip39_words :: "string list"

section \<open>The RFC 8949 form of the values the program builds\<close>

text \<open>
  The head of a data item: three bits of major type and the argument in its shortest form.
  The program only serialises maps from integers to integers, byte strings and texts.
\<close>

definition cbor_head :: "nat \<Rightarrow> nat \<Rightarrow> bytes" where
  "cbor_head major n =
     (if n < 24 then [word_of_nat (32 * major + n)]
      else if n < 256 then word_of_nat (32 * major + 24) # be_bytes 1 n
      else if n < 65536 then word_of_nat (32 * major + 25) # be_bytes 2 n
      else if n < 4294967296 then word_of_nat (32 * major + 26) # be_bytes 4 n
      else word_of_nat (32 * major + 27) # be_bytes 8 n)"

fun scalar_ok :: "cvalue \<Rightarrow> bool" where
  "scalar_ok (CInteger i) = (0 \<le> i \<and> i \<le> int u64_max)"
| "scalar_ok (CBytes b) = (length b \<le> u64_max)"
| "scalar_ok (CText s) = (str_len s \<le> u64_max \<and> (\<forall>c \<in> set s. scalar_value c))"
| "scalar_ok _ = False"

fun scalar_bytes :: "cvalue \<Rightarrow> bytes" where
  "scalar_bytes (CInteger i) = cbor_head 0 (nat i)"
| "scalar_bytes (CBytes b) = cbor_head 2 (length b) @ b"
| "scalar_bytes (CText s) = cbor_head 3 (str_len s) @ utf8 s"
| "scalar_bytes _ = []"

definition flat_map :: "(cvalue \<times> cvalue) list \<Rightarrow> bool" where
  "flat_map es \<longleftrightarrow> length es < 24 \<and> (\<forall>(k, v) \<in> set es. scalar_ok k \<and> scalar_ok v)"

definition entry_bytes :: "cvalue \<times> cvalue \<Rightarrow> bytes" where
  "entry_bytes e = scalar_bytes (fst e) @ scalar_bytes (snd e)"

definition map_bytes :: "(cvalue \<times> cvalue) list \<Rightarrow> bytes" where
  "map_bytes es = cbor_head 5 (length es) @ concat (map entry_bytes es)"

section \<open>What the program relies on\<close>

definition cbor_ok :: "ext \<Rightarrow> bool" where
  "cbor_ok X \<longleftrightarrow>
     (\<forall>es. flat_map es \<longrightarrow> cbor_ser X (CMap es) = Inr (map_bytes es)) \<and>
     (\<forall>es rest. flat_map es \<longrightarrow>
        cbor_de X (map_bytes es @ rest) = Inr (CMap es, length (map_bytes es)))"

definition crypto_ok :: "ext \<Rightarrow> bool" where
  "crypto_ok X \<longleftrightarrow>
     (\<forall>m. length (sha256 X m) = 32) \<and>
     (\<forall>s k i n. n \<le> 255 * 32 \<longrightarrow> (\<exists>out. hkdf_expand X s k i n = Some out \<and> length out = n)) \<and>
     (\<forall>k m. length (hmac_sha256 X k m) = 32) \<and>
     (\<forall>s. length s = 32 \<longrightarrow> length (ed_public X s) = 32 \<and> ed_key_valid X (ed_public X s)) \<and>
     (\<forall>s m. length (ed_sign X s m) = 64) \<and>
     (\<forall>s m. length s = 32 \<longrightarrow> ed_verify_strict X (ed_public X s) m (ed_sign X s m)) \<and>
     (\<forall>s. length s = 32 \<longrightarrow> length (x_public X s) = 32) \<and>
     (\<forall>s p. length (x_diffie_hellman X s p) = 32) \<and>
     (\<forall>s t. length s = 32 \<longrightarrow> length t = 32 \<longrightarrow>
        x_diffie_hellman X s (x_public X t) = x_diffie_hellman X t (x_public X s)) \<and>
     (\<forall>k n a m. length k = 32 \<longrightarrow> length n = 12 \<longrightarrow> length m \<le> MAX_FRAME_SIZE \<longrightarrow>
        (\<exists>c. aead_encrypt X k n a m = Some c \<and> length c = length m + 16 \<and>
             aead_decrypt X k n a c = Some m)) \<and>
     length (bip39_words X) = 2048"

lemma cbor_ok_ser: "cbor_ok X \<Longrightarrow> flat_map es \<Longrightarrow> cbor_ser X (CMap es) = Inr (map_bytes es)"
  by (simp add: cbor_ok_def)

lemma cbor_ok_de:
  "cbor_ok X \<Longrightarrow> flat_map es \<Longrightarrow>
   cbor_de X (map_bytes es @ rest) = Inr (CMap es, length (map_bytes es))"
  by (simp add: cbor_ok_def)

lemma cbor_ok_de_all:
  "cbor_ok X \<Longrightarrow> flat_map es \<Longrightarrow> cbor_de X (map_bytes es) = Inr (CMap es, length (map_bytes es))"
  using cbor_ok_de[of X es "[]"] by simp

lemma crypto_ok_hash: "crypto_ok X \<Longrightarrow> length (sha256 X m) = 32"
  by (simp add: crypto_ok_def)

lemma crypto_ok_hkdf:
  "crypto_ok X \<Longrightarrow> n \<le> 8160 \<Longrightarrow> \<exists>out. hkdf_expand X s k i n = Some out \<and> length out = n"
  by (simp add: crypto_ok_def)

lemma crypto_ok_aead:
  "crypto_ok X \<Longrightarrow> length k = 32 \<Longrightarrow> length n = 12 \<Longrightarrow> length m \<le> MAX_FRAME_SIZE \<Longrightarrow>
   \<exists>c. aead_encrypt X k n a m = Some c \<and> length c = length m + 16 \<and> aead_decrypt X k n a c = Some m"
  by (simp add: crypto_ok_def)

lemma crypto_ok_hmac: "crypto_ok X \<Longrightarrow> length (hmac_sha256 X k m) = 32"
  by (simp add: crypto_ok_def)

lemma crypto_ok_sign: "crypto_ok X \<Longrightarrow> length (ed_sign X s m) = 64"
  by (simp add: crypto_ok_def)

lemma crypto_ok_public:
  "crypto_ok X \<Longrightarrow> length s = 32 \<Longrightarrow> length (ed_public X s) = 32 \<and> ed_key_valid X (ed_public X s)"
  by (simp add: crypto_ok_def)

lemma crypto_ok_verify:
  "crypto_ok X \<Longrightarrow> length s = 32 \<Longrightarrow> ed_verify_strict X (ed_public X s) m (ed_sign X s m)"
  by (simp add: crypto_ok_def)

lemma crypto_ok_x_public: "crypto_ok X \<Longrightarrow> length s = 32 \<Longrightarrow> length (x_public X s) = 32"
  by (simp add: crypto_ok_def)

lemma crypto_ok_dh_length: "crypto_ok X \<Longrightarrow> length (x_diffie_hellman X s p) = 32"
  by (simp add: crypto_ok_def)

lemma crypto_ok_dh:
  "crypto_ok X \<Longrightarrow> length s = 32 \<Longrightarrow> length t = 32 \<Longrightarrow>
   x_diffie_hellman X s (x_public X t) = x_diffie_hellman X t (x_public X s)"
  by (simp add: crypto_ok_def)

section \<open>Sizes of encoded values\<close>

definition head_len :: "nat \<Rightarrow> nat" where
  "head_len n = (if n < 24 then 1 else if n < 256 then 2 else if n < 65536 then 3
     else if n < 4294967296 then 5 else 9)"

lemma length_cbor_head [simp]: "length (cbor_head major n) = head_len n"
  by (simp add: cbor_head_def head_len_def)

lemma head_len_pos: "1 \<le> head_len n"
  by (simp add: head_len_def)

lemma map_bytes_nonempty: "map_bytes es \<noteq> []"
proof -
  have "0 < length (map_bytes es)"
    using head_len_pos[of "length es"] by (simp add: map_bytes_def)
  then show ?thesis by auto
qed

end
