(* ===== verification/Wire.thy ===== *)
theory Wire
  imports External
begin

unbundle bit_operations_syntax

text \<open>
  \<^verbatim>\<open>ruxmsg-core/src/wire.rs\<close>: outer frames and the strict validation of CBOR payloads.
  First the frame codec with its round trip, then the non-recursive structural pass
  \<^verbatim>\<open>validate_cbor_structure\<close> (a loop over an explicit stack of remaining item counts,
  proved to terminate), then \<^verbatim>\<open>validate_cbor_map_payload\<close>, which decodes, sorts,
  re-encodes and compares.
\<close>

section \<open>Frames\<close>

definition HEADER_SIZE :: nat where "HEADER_SIZE = 6"
definition MAX_CBOR_NESTING :: nat where "MAX_CBOR_NESTING = 32"

record frame =
  f_version :: protocol_version
  f_type :: message_type
  f_payload :: bytes

definition check_length :: "message_type \<Rightarrow> nat \<Rightarrow> nat res" where
  "check_length message_type len =
     (if len > max_payload message_type then Inl (InvalidFrameLength len)
      else frame_length_new len)"

text \<open>\<^verbatim>\<open>payload.len().try_into::<u32>()\<close>, with the error the code maps it to.\<close>

definition len_u32 :: "bytes \<Rightarrow> nat res" where
  "len_u32 payload =
     (if length payload \<le> u32_max then Inr (length payload) else Inl (InvalidFrameLength u32_max))"

definition frame_new :: "message_type \<Rightarrow> bytes \<Rightarrow> frame res" where
  "frame_new message_type payload =
     rbind (len_u32 payload) (\<lambda>len.
     rbind (check_length message_type len) (\<lambda>_.
     Inr \<lparr>f_version = V1, f_type = message_type, f_payload = payload\<rparr>))"

definition frame_encode :: "frame \<Rightarrow> bytes res" where
  "frame_encode f =
     rbind (len_u32 (f_payload f)) (\<lambda>len.
     rbind (check_length (f_type f) len) (\<lambda>checked.
     Inr ([word_of_nat (version_code (f_version f)), word_of_nat (type_code (f_type f))]
          @ be_bytes 4 checked @ f_payload f)))"

text \<open>The header is the array of six bytes the Rust signature asks for.\<close>

definition parse_header :: "bytes \<Rightarrow> (protocol_version \<times> message_type \<times> nat) res" where
  "parse_header header =
     rbind (version_try_from (unat (header ! 0))) (\<lambda>version.
     rbind (type_try_from (unat (header ! 1))) (\<lambda>message_type.
     let declared = be_value (take 4 (drop 2 header)) in
     rbind (check_length message_type declared) (\<lambda>_.
     Inr (version, message_type, declared))))"

definition frame_decode :: "bytes \<Rightarrow> (frame \<times> nat) res" where
  "frame_decode input =
     (if length input < HEADER_SIZE then Inl TruncatedFrame
      else
        rbind (parse_header (take HEADER_SIZE input)) (\<lambda>(version, message_type, declared).
        if HEADER_SIZE + declared > u64_max then Inl (InvalidFrameLength declared)
        else let total = HEADER_SIZE + declared in
          if length input < total then Inl TruncatedFrame
          else Inr (\<lparr>f_version = version, f_type = message_type,
                     f_payload = take declared (drop HEADER_SIZE input)\<rparr>, total)))"

text \<open>A frame whose payload respects the limit of its type, as \<^verbatim>\<open>Frame::new\<close> makes it.\<close>

definition frame_ok :: "frame \<Rightarrow> bool" where
  "frame_ok f \<longleftrightarrow> length (f_payload f) \<le> max_payload (f_type f)"

lemma check_length_iff [res_simps]:
  "check_length t n = Inr m \<longleftrightarrow> n \<le> max_payload t \<and> m = n"
  using max_payload_le[of t] by (auto simp: check_length_def frame_length_new_def)

lemma len_u32_iff [res_simps]:
  "len_u32 p = Inr n \<longleftrightarrow> length p \<le> u32_max \<and> n = length p"
  by (auto simp: len_u32_def)

lemma frame_ok_u32: "frame_ok f \<Longrightarrow> length (f_payload f) \<le> u32_max"
  using max_payload_le[of "f_type f"] by (simp add: frame_ok_def bounds_defs)

lemma max_payload_u32: "n \<le> max_payload t \<Longrightarrow> n \<le> u32_max"
  using max_payload_le[of t] by (simp add: bounds_defs)

lemma frame_new_iff:
  "frame_new t p = Inr f \<longleftrightarrow>
   length p \<le> max_payload t \<and> f = \<lparr>f_version = V1, f_type = t, f_payload = p\<rparr>"
  by (auto simp: frame_new_def res_simps dest: max_payload_u32)

lemma frame_new_ok: "frame_new t p = Inr f \<Longrightarrow> frame_ok f"
  by (auto simp: frame_new_iff frame_ok_def)

lemma frame_encode_ok:
  assumes "frame_ok f"
  shows "frame_encode f =
    Inr ([1, word_of_nat (type_code (f_type f))] @ be_bytes 4 (length (f_payload f)) @ f_payload f)"
proof -
  have "len_u32 (f_payload f) = Inr (length (f_payload f))"
    using frame_ok_u32[OF assms] by (simp add: res_simps)
  moreover have "check_length (f_type f) (length (f_payload f)) = Inr (length (f_payload f))"
    using assms by (simp add: frame_ok_def res_simps)
  ultimately show ?thesis
    by (simp add: frame_encode_def version_code_def)
qed

lemma frame_encode_iff:
  "frame_encode f = Inr bs \<longleftrightarrow> frame_ok f \<and>
    bs = [1, word_of_nat (type_code (f_type f))] @ be_bytes 4 (length (f_payload f)) @ f_payload f"
proof
  assume "frame_encode f = Inr bs"
  then have "frame_ok f"
    by (auto simp: frame_encode_def frame_ok_def res_simps)
  with \<open>frame_encode f = Inr bs\<close> show "frame_ok f \<and>
    bs = [1, word_of_nat (type_code (f_type f))] @ be_bytes 4 (length (f_payload f)) @ f_payload f"
    by (simp add: frame_encode_ok)
next
  assume "frame_ok f \<and>
    bs = [1, word_of_nat (type_code (f_type f))] @ be_bytes 4 (length (f_payload f)) @ f_payload f"
  then show "frame_encode f = Inr bs"
    by (simp add: frame_encode_ok)
qed

lemma unat_type_code [simp]: "unat (word_of_nat (type_code t) :: u8) = type_code t"
  using type_code_bounds[of t] by (simp add: unat_word_of_nat_u8)

text \<open>The header of an encoded frame, followed by anything, parses back.\<close>

lemma parse_header_encoded:
  assumes "n \<le> max_payload t"
  shows "parse_header ([1, word_of_nat (type_code t)] @ be_bytes 4 n) = Inr (V1, t, n)"
proof -
  have "n < 256 ^ 4"
    using max_payload_u32[OF assms] by (simp add: u32_max_def)
  then have "be_value (be_bytes 4 n) = n"
    by (rule be_value_be_bytes)
  moreover have "check_length t n = Inr n"
    using assms by (simp add: res_simps)
  ultimately show ?thesis
    by (simp add: parse_header_def version_try_from_def)
qed

lemma frame_decode_encoded:
  assumes "frame_encode f = Inr bs"
  shows "frame_decode (bs @ rest) = Inr (f, length bs)"
proof -
  let ?n = "length (f_payload f)"
  from assms have ok: "frame_ok f"
    and bs: "bs = [1, word_of_nat (type_code (f_type f))] @ be_bytes 4 ?n @ f_payload f"
    by (simp_all add: frame_encode_iff)
  have hdr: "take HEADER_SIZE (bs @ rest) = [1, word_of_nat (type_code (f_type f))] @ be_bytes 4 ?n"
    by (simp add: bs HEADER_SIZE_def)
  have "parse_header (take HEADER_SIZE (bs @ rest)) = Inr (V1, f_type f, ?n)"
    unfolding hdr using ok by (intro parse_header_encoded) (simp add: frame_ok_def)
  moreover have "HEADER_SIZE + ?n \<le> u64_max"
    using frame_ok_u32[OF ok] by (simp add: bounds_defs HEADER_SIZE_def)
  moreover have "take ?n (drop HEADER_SIZE (bs @ rest)) = f_payload f"
    by (simp add: bs HEADER_SIZE_def)
  moreover have "length bs = HEADER_SIZE + ?n"
    by (simp add: bs HEADER_SIZE_def)
  ultimately show ?thesis
    by (cases f, cases "f_version f") (simp add: frame_decode_def)
qed

text \<open>What decoding accepts is exactly an encoded frame at the front of the input.\<close>

lemma parse_header_Inr:
  assumes "parse_header h = Inr (v, t, n)" and "length h = 6"
  shows "v = V1 \<and> n \<le> max_payload t \<and> h = [1, word_of_nat (type_code t)] @ be_bytes 4 n"
proof -
  from assms(1) have t: "type_try_from (unat (h ! 1)) = Inr t"
    and v: "version_try_from (unat (h ! 0)) = Inr v"
    and n: "n = be_value (take 4 (drop 2 h))" and le: "n \<le> max_payload t"
    by (auto simp: parse_header_def Let_def res_simps)
  from v have "unat (h ! 0) = 1" by (auto simp: version_try_from_def split: if_splits)
  then have h0: "h ! 0 = 1" by (simp add: word_unat_eq_iff)
  from t have "unat (h ! 1) = type_code t" by (simp add: mtype.try_from_iff)
  then have h1: "h ! 1 = word_of_nat (type_code t)" by (simp add: word_unat_eq_iff)
  have "be_bytes (length (take 4 (drop 2 h))) n = take 4 (drop 2 h)"
    unfolding n by (rule be_bytes_be_value)
  then have tl: "be_bytes 4 n = drop 2 h"
    using assms(2) by simp
  have "h = [h ! 0, h ! 1] @ drop 2 h"
    using assms(2) by (cases h; cases "tl h") auto
  with h0 h1 tl le show ?thesis by (cases v) simp
qed

lemma frame_decode_Inr:
  assumes "frame_decode input = Inr (f, n)"
  shows "frame_encode f = Inr (take n input) \<and> n \<le> length input"
proof -
  obtain v t d where hdr: "parse_header (take HEADER_SIZE input) = Inr (v, t, d)"
    and len: "HEADER_SIZE \<le> length input" and total: "HEADER_SIZE + d \<le> length input"
    and n: "n = HEADER_SIZE + d"
    and f: "f = \<lparr>f_version = v, f_type = t, f_payload = take d (drop HEADER_SIZE input)\<rparr>"
    using assms by (auto simp: frame_decode_def Let_def res_simps split: if_splits)
  have "length (take HEADER_SIZE input) = 6"
    using len by (simp add: HEADER_SIZE_def)
  from parse_header_Inr[OF hdr this] have v: "v = V1" and d: "d \<le> max_payload t"
    and h: "take HEADER_SIZE input = [1, word_of_nat (type_code t)] @ be_bytes 4 d"
    by auto
  have plen: "length (f_payload f) = d"
    using total by (simp add: f)
  have "take n input = take HEADER_SIZE input @ take d (drop HEADER_SIZE input)"
    by (simp add: n take_add)
  then have "take n input = [1, word_of_nat (type_code (f_type f))] @ be_bytes 4 d @ f_payload f"
    by (simp add: h f)
  moreover have "frame_ok f"
    using d plen by (simp add: frame_ok_def f)
  ultimately show ?thesis
    using total plen by (simp add: frame_encode_iff n)
qed

section \<open>The structural pass\<close>

text \<open>\<^verbatim>\<open>read_cbor_argument\<close>: the value and the position after it.\<close>

definition fold_u64 :: "bytes \<Rightarrow> u64" where
  "fold_u64 encoded = foldl (\<lambda>value b. push_bit 8 value OR ucast b) 0 encoded"

definition read_cbor_argument :: "bytes \<Rightarrow> nat \<Rightarrow> nat \<Rightarrow> (nat \<times> nat) res" where
  "read_cbor_argument payload position additional =
     (if additional \<le> 23 then Inr (additional, position)
      else
        rbind (if additional = 24 then Inr 1 else if additional = 25 then Inr 2
               else if additional = 26 then Inr 4 else if additional = 27 then Inr 8
               else Inl NonCanonicalEncoding) (\<lambda>n.
        if position + n > u64_max \<or> position + n > length payload then Inl TruncatedFrame
        else
          let value = unat (fold_u64 (take n (drop position payload)));
              shortest = (if n = 1 then value \<ge> 24 else if n = 2 then value > 255
                          else if n = 4 then value > 65535 else value > u32_max)
          in if shortest then Inr (value, position + n) else Inl NonCanonicalEncoding))"

text \<open>
  One turn of the loop of \<^verbatim>\<open>validate_cbor_structure\<close>, after the count on top of the
  stack was decremented: read one item head, then (\<open>cbor_content\<close>, the match on the major
  type) skip a string or push a container. The stack is a list with its top first.
\<close>

definition cbor_content :: "bytes \<Rightarrow> nat \<Rightarrow> nat \<Rightarrow> nat \<Rightarrow> nat list \<Rightarrow> (nat \<times> nat list) res" where
  "cbor_content payload major argument position remaining =
     (if major = 0 \<or> major = 1 then Inr (position, remaining)
      else if major = 2 \<or> major = 3 then
        if position + argument > u64_max then Inl NonCanonicalEncoding
        else if position + argument > length payload then Inl TruncatedFrame
        else Inr (position + argument, remaining)
      else if major = 4 \<or> major = 5 then
        rbind (if major = 4 then Inr argument
               else if argument * 2 > u64_max then Inl NonCanonicalEncoding
               else Inr (argument * 2)) (\<lambda>items.
        if items > 0 then
          if length remaining \<ge> MAX_CBOR_NESTING then Inl NonCanonicalEncoding
          else Inr (position, items # remaining)
        else Inr (position, remaining))
      else Inl NonCanonicalEncoding)"

definition cbor_item :: "bytes \<Rightarrow> nat \<Rightarrow> nat list \<Rightarrow> (nat \<times> nat list) res" where
  "cbor_item payload position remaining =
     (if length payload \<le> position then Inl TruncatedFrame
      else
        let initial = payload ! position;
            major = unat (drop_bit 5 initial);
            additional = unat (initial AND 31)
        in rbind (read_cbor_argument payload (position + 1) additional) (\<lambda>(argument, position).
           cbor_content payload major argument position remaining))"

lemma read_cbor_argument_advances:
  "read_cbor_argument payload position additional = Inr (n, q) \<Longrightarrow> position \<le> q"
  by (auto simp: read_cbor_argument_def Let_def res_simps split: if_splits)

lemma cbor_content_advances:
  "cbor_content payload major n position remaining = Inr (q, r) \<Longrightarrow> position \<le> q"
  by (auto simp: cbor_content_def res_simps split: if_splits)

lemma cbor_item_advances:
  assumes "cbor_item payload position remaining = Inr (q, r)"
  shows "position < length payload \<and> position < q"
proof -
  have len: "position < length payload"
    using assms by (simp add: cbor_item_def split: if_split_asm)
  obtain n q' where "read_cbor_argument payload (position + 1) (unat (payload ! position AND 31)) = Inr (n, q')"
    and "cbor_content payload (unat (drop_bit 5 (payload ! position))) n q' remaining = Inr (q, r)"
    using assms len by (auto simp: cbor_item_def Let_def rbind_Inr_iff)
  with len show ?thesis
    by (auto dest!: read_cbor_argument_advances cbor_content_advances)
qed

function cbor_loop :: "bytes \<Rightarrow> nat \<Rightarrow> nat list \<Rightarrow> nat res" where
  "cbor_loop payload position remaining =
     (case dropWhile (\<lambda>count. count = 0) remaining of
        [] \<Rightarrow> Inr position
      | count # below \<Rightarrow>
          (case cbor_item payload position ((count - 1) # below) of
             Inl e \<Rightarrow> Inl e
           | Inr (q, r) \<Rightarrow> cbor_loop payload q r))"
  by pat_completeness auto
termination
proof (relation "measure (\<lambda>(payload, position, remaining). length payload - position)")
  fix payload :: bytes and position remaining count below pr q r
  assume "cbor_item payload position ((count - 1) # below) = Inr pr" and "(q, r) = pr"
  then have "position < length payload \<and> position < q"
    using cbor_item_advances by metis
  then show "((payload, q, r), payload, position, remaining)
      \<in> measure (\<lambda>(payload, position, remaining). length payload - position)"
    by auto
qed simp

declare cbor_loop.simps [simp del]

definition validate_cbor_structure :: "bytes \<Rightarrow> unit res" where
  "validate_cbor_structure payload =
     rbind (cbor_loop payload 0 [1]) (\<lambda>position.
     if position = length payload then Inr () else Inl NonCanonicalEncoding)"

section \<open>The semantic pass\<close>

text \<open>
  \<^verbatim>\<open>wipe_cbor_value\<close>: \<^verbatim>\<open>zeroize\<close> empties a vector or a string after
  overwriting it.
\<close>

fun wipe_cbor_value :: "cvalue \<Rightarrow> cvalue" where
  "wipe_cbor_value (CBytes b) = CBytes []"
| "wipe_cbor_value (CText s) = CText []"
| "wipe_cbor_value (CArray items) = CArray (map wipe_cbor_value items)"
| "wipe_cbor_value (CMap entries) =
     CMap (map (\<lambda>(k, v). (wipe_cbor_value k, wipe_cbor_value v)) entries)"
| "wipe_cbor_value v = v"

definition wipe_cbor_entries :: "(nat \<times> cvalue) list \<Rightarrow> (nat \<times> cvalue) list" where
  "wipe_cbor_entries entries = map (\<lambda>(k, v). (k, wipe_cbor_value v)) entries"

text \<open>The string contents a value still holds.\<close>

fun leaf_contents :: "cvalue \<Rightarrow> nat" where
  "leaf_contents (CBytes b) = length b"
| "leaf_contents (CText s) = length s"
| "leaf_contents (CArray items) = (\<Sum>v\<leftarrow>items. leaf_contents v)"
| "leaf_contents (CMap entries) = (\<Sum>(k, v)\<leftarrow>entries. leaf_contents k + leaf_contents v)"
| "leaf_contents (CTag t v) = 0"
| "leaf_contents _ = 0"

text \<open>\<^verbatim>\<open>u64::try_from(integer)\<close>.\<close>

definition int_u64 :: "int \<Rightarrow> 'e \<Rightarrow> 'e + nat" where
  "int_u64 i e = (if 0 \<le> i \<and> i \<le> int u64_max then Inr (nat i) else Inl e)"

text \<open>
  The loop over the decoded entries: the keys must be distinct unsigned integers. \<open>keys\<close>
  holds the ones seen so far.
\<close>

fun collect_entries ::
  "(cvalue \<times> cvalue) list \<Rightarrow> nat list \<Rightarrow> (nat \<times> cvalue) list \<Rightarrow> (nat \<times> cvalue) list res" where
  "collect_entries [] keys canonical_entries = Inr canonical_entries"
| "collect_entries ((key, val) # rest) keys canonical_entries =
     (case key of
        CInteger integer \<Rightarrow>
          rbind (int_u64 integer InvalidMapKey) (\<lambda>key_u64.
          if key_u64 \<in> set keys then Inl (DuplicateMapKey key_u64)
          else collect_entries rest (key_u64 # keys) (canonical_entries @ [(key_u64, val)]))
      | _ \<Rightarrow> Inl InvalidMapKey)"

definition value_entry :: "nat \<times> cvalue \<Rightarrow> cvalue \<times> cvalue" where
  "value_entry e = (CInteger (int (fst e)), snd e)"

definition entry_value :: "cvalue \<times> cvalue \<Rightarrow> (nat \<times> cvalue) res" where
  "entry_value e =
     (case fst e of
        CInteger key \<Rightarrow> rbind (int_u64 key InvalidMapKey) (\<lambda>k. Inr (k, snd e))
      | _ \<Rightarrow> Inl InvalidMapKey)"

definition validate_cbor_map_payload :: "ext \<Rightarrow> bytes \<Rightarrow> (nat \<times> cvalue) list res" where
  "validate_cbor_map_payload X payload =
     (if length payload > MAX_FRAME_SIZE then
        Inl (InvalidFrameLength (min (length payload) u32_max))
      else
        rbind (validate_cbor_structure payload) (\<lambda>_.
        rbind (map_err Encoding (cbor_de X payload)) (\<lambda>(value, position).
        if position \<noteq> length payload then Inl NonCanonicalEncoding
        else
          (case value of
             CMap entries \<Rightarrow>
               rbind (collect_entries entries [] []) (\<lambda>canonical_entries.
               let canonical = map value_entry (sort_key fst canonical_entries) in
               rbind (map_err Encoding (cbor_ser X (CMap canonical))) (\<lambda>bytes.
               if bytes \<noteq> payload then Inl NonCanonicalEncoding
               else traverse_list entry_value canonical))
           | _ \<Rightarrow> Inl InvalidPayloadShape))))"

definition validate_cbor_map :: "ext \<Rightarrow> frame \<Rightarrow> (nat \<times> cvalue) list res" where
  "validate_cbor_map X f = validate_cbor_map_payload X (f_payload f)"

end
