(* ===== verification/Wire_Canonical.thy ===== *)
theory Wire_Canonical
  imports Wire
begin

unbundle bit_operations_syntax

text \<open>
  Correctness of the payload validation of \<^verbatim>\<open>wire.rs\<close>. The structural pass reads the
  argument of an item head as its big-endian value, accepts the RFC 8949 form of every flat map,
  and never lets the stack grow beyond the nesting limit. The semantic pass accepts exactly the
  canonical byte string of the entries it returns, with strictly increasing keys.
\<close>

section \<open>Item heads\<close>

lemma unat_head_byte: "m < 8 \<Longrightarrow> a < 32 \<Longrightarrow> unat (word_of_nat (32 * m + a) :: u8) = 32 * m + a"
  by (simp only: unat_word_of_nat_u8) auto

lemma unat_AND_31: "unat (w AND 31 :: u8) = unat w mod 32"
proof -
  have "w AND 31 = take_bit 5 w"
    by (simp add: take_bit_eq_mask mask_eq_exp_minus_1)
  then have "unat (w AND 31) = unat (take_bit 5 w)" by (rule arg_cong)
  also have "\<dots> = unat w mod 2 ^ 5"
    by (simp add: take_bit_eq_mod unat_mod)
  finally show ?thesis by simp
qed

lemma unat_drop_5: "unat (drop_bit 5 w :: u8) = unat w div 32"
  by (simp add: drop_bit_eq_div unat_div)

lemma head_byte_fields:
  assumes "m < 8" "a < 32"
  shows "unat (drop_bit 5 (word_of_nat (32 * m + a) :: u8)) = m"
    and "unat (word_of_nat (32 * m + a) AND 31 :: u8) = a"
  using unat_head_byte[OF assms] assms unfolding unat_AND_31 unat_drop_5 by simp_all

lemma unat_shift_or:
  assumes "unat v < 2 ^ 56"
  shows "unat (push_bit 8 v OR ucast (b :: u8) :: u64) = 256 * unat v + unat b"
proof -
  have dis: "push_bit 8 v AND ucast b = (0 :: u64)"
    by (rule bit_eqI) (auto simp: bit_simps dest: bit_imp_le_length)
  have pv: "unat (push_bit 8 v) = 256 * unat v"
    using assms by (simp add: push_bit_eq_mult unat_word_ariths)
  have ub: "unat (ucast b :: u64) = unat b"
    using u8_bound[of b] by (simp add: unsigned_ucast_eq take_bit_nat_eq_self)
  have "push_bit 8 v OR ucast b = push_bit 8 v + (ucast b :: u64)"
    using dis by (rule disjunctive_add_eq_or[symmetric])
  moreover have "unat (push_bit 8 v + (ucast b :: u64)) = 256 * unat v + unat b"
    using assms u8_bound[of b] by (subst unat_word_ariths) (simp add: pv ub)
  ultimately show ?thesis by simp
qed

lemma fold_u64_snoc: "fold_u64 (bs @ [b]) = (push_bit 8 (fold_u64 bs) OR ucast b)"
  by (simp add: fold_u64_def)

lemma unat_fold_u64: "length bs \<le> 8 \<Longrightarrow> unat (fold_u64 bs) = be_value bs"
proof (induction bs rule: rev_induct)
  case Nil
  then show ?case by (simp add: fold_u64_def)
next
  case (snoc b bs)
  then have IH: "unat (fold_u64 bs) = be_value bs" and len: "length bs \<le> 7" by auto
  have "be_value bs < 256 ^ length bs" by (rule be_value_less)
  also have "\<dots> \<le> 256 ^ 7" using len by (intro power_increasing) auto
  finally have "unat (fold_u64 bs) < 2 ^ 56" using IH by simp
  then show ?case
    by (simp only: fold_u64_snoc unat_shift_or be_value_snoc IH)
qed

section \<open>Reading back a head\<close>

lemma read_extended:
  assumes k: "(additional, k) \<in> {(24, 1), (25, 2), (26, 4), (27, 8)}"
    and n: "n < 256 ^ k"
    and short: "if k = 1 then n \<ge> 24 else if k = 2 then n > 255 else if k = 4 then n > 65535
                else n > u32_max"
    and fits: "length (pre @ be_bytes k n @ post) \<le> u64_max"
  shows "read_cbor_argument (pre @ be_bytes k n @ post) (length pre) additional = Inr (n, length pre + k)"
proof -
  have v: "unat (fold_u64 (be_bytes k n)) = n"
    using k n by (subst unat_fold_u64) (auto simp: be_value_be_bytes)
  consider "additional = 24" "k = 1" | "additional = 25" "k = 2" | "additional = 26" "k = 4"
    | "additional = 27" "k = 8"
    using k by auto
  then show ?thesis
    using short fits v by cases (simp_all add: read_cbor_argument_def)
qed

text \<open>The two shapes of a head: the argument in the initial byte, or in 1, 2, 4 or 8 bytes after it.\<close>

lemma head_form:
  assumes "n \<le> u64_max"
  obtains (small) "n < 24"
  | (ext) additional k where
      "(additional, k) \<in> {(24, 1), (25, 2), (26, 4), (27, 8)}"
      "cbor_head m n = word_of_nat (32 * m + additional) # be_bytes k n" "n < 256 ^ k"
      "if k = 1 then n \<ge> 24 else if k = 2 then n > 255 else if k = 4 then n > 65535 else n > u32_max"
      "head_len n = k + 1"
proof -
  consider "n < 24" | "24 \<le> n" "n < 256" | "256 \<le> n" "n < 65536"
    | "65536 \<le> n" "n < 4294967296" | "4294967296 \<le> n"
    by linarith
  then show thesis
  proof cases
    case 1
    then show ?thesis by (rule small)
  next
    case 2
    then show ?thesis by (intro ext[of 24 1]) (auto simp: cbor_head_def head_len_def)
  next
    case 3
    then show ?thesis by (intro ext[of 25 2]) (auto simp: cbor_head_def head_len_def)
  next
    case 4
    then show ?thesis by (intro ext[of 26 4]) (auto simp: cbor_head_def head_len_def)
  next
    case 5
    then show ?thesis
      using assms by (intro ext[of 27 8]) (auto simp: cbor_head_def head_len_def bounds_defs)
  qed
qed

lemma read_head:
  assumes n: "n \<le> u64_max" and m: "m < 8"
    and fits: "length (pre @ cbor_head m n @ post) \<le> u64_max"
  defines "payload \<equiv> pre @ cbor_head m n @ post"
  shows "unat (drop_bit 5 (payload ! length pre)) = m
    \<and> read_cbor_argument payload (length pre + 1) (unat (payload ! length pre AND 31))
        = Inr (n, length pre + head_len n)"
proof -
  consider (small) "n < 24" | (ext) additional k where
      "(additional, k) \<in> {(24, 1), (25, 2), (26, 4), (27, 8)}"
      "cbor_head m n = word_of_nat (32 * m + additional) # be_bytes k n" "n < 256 ^ k"
      "if k = 1 then n \<ge> 24 else if k = 2 then n > 255 else if k = 4 then n > 65535 else n > u32_max"
      "head_len n = k + 1"
    by (rule head_form[OF n, where m = m]) (auto intro: that)
  then show ?thesis
  proof cases
    case small
    have "payload ! length pre = word_of_nat (32 * m + n)"
      using small by (simp add: payload_def cbor_head_def)
    then show ?thesis
      using small m head_byte_fields[of m n]
      by (simp add: read_cbor_argument_def head_len_def)
  next
    case ext
    have a: "additional < 32" using ext(1) by auto
    have at: "payload ! length pre = word_of_nat (32 * m + additional)"
      by (simp add: payload_def ext(2))
    have split: "payload = (pre @ [word_of_nat (32 * m + additional)]) @ be_bytes k n @ post"
      by (simp add: payload_def ext(2))
    have "read_cbor_argument payload (length (pre @ [word_of_nat (32 * m + additional) :: u8])) additional
        = Inr (n, length (pre @ [word_of_nat (32 * m + additional) :: u8]) + k)"
      unfolding split using fits ext by (intro read_extended) simp_all
    then show ?thesis
      using head_byte_fields[OF m a] ext(5) by (simp add: at)
  qed
qed

section \<open>The structural pass accepts the canonical form of a flat map\<close>

lemma cbor_item_head:
  assumes "n \<le> u64_max" "m < 8" "length (pre @ cbor_head m n @ post) \<le> u64_max"
  shows "cbor_item (pre @ cbor_head m n @ post) (length pre) remaining =
         cbor_content (pre @ cbor_head m n @ post) m n (length pre + head_len n) remaining"
  using read_head[OF assms] head_len_pos[of n]
  by (simp add: cbor_item_def Let_def)

lemma cbor_item_scalar:
  assumes "scalar_ok v" and "length (pre @ scalar_bytes v @ post) \<le> u64_max"
  shows "cbor_item (pre @ scalar_bytes v @ post) (length pre) remaining =
         Inr (length pre + length (scalar_bytes v), remaining)"
proof (cases v)
  case (CInteger i)
  with assms have "nat i \<le> u64_max" by auto
  with CInteger assms show ?thesis
    by (simp add: cbor_item_head cbor_content_def)
next
  case (CBytes b)
  with assms show ?thesis
    using cbor_item_head[of "length b" 2 pre "b @ post" remaining]
    by (simp add: cbor_content_def)
next
  case (CText s)
  with assms show ?thesis
    using cbor_item_head[of "str_len s" 3 pre "utf8 s @ post" remaining]
    by (simp add: cbor_content_def length_utf8)
qed (use assms in auto)

lemma entry_bytes_pair [simp]: "entry_bytes (k, v) = scalar_bytes k @ scalar_bytes v"
  by (simp add: entry_bytes_def)

lemma cbor_loop_step:
  assumes "cbor_item payload position (c # below) = Inr (q, r)"
  shows "cbor_loop payload position (Suc c # below) = cbor_loop payload q r"
  using assms by (subst cbor_loop.simps) simp

lemma cbor_loop_entries:
  assumes "\<forall>(k, v) \<in> set es. scalar_ok k \<and> scalar_ok v"
    and "length (pre @ concat (map entry_bytes es) @ post) \<le> u64_max"
  shows "cbor_loop (pre @ concat (map entry_bytes es) @ post) (length pre) ((2 * length es) # below)
       = cbor_loop (pre @ concat (map entry_bytes es) @ post)
           (length pre + length (concat (map entry_bytes es))) (0 # below)"
  using assms
proof (induction es arbitrary: pre)
  case Nil
  then show ?case by simp
next
  case (Cons e es)
  obtain k v where e: "e = (k, v)" by (cases e)
  let ?tail = "concat (map entry_bytes es) @ post"
  let ?payload = "pre @ concat (map entry_bytes (e # es)) @ post"
  have ok: "scalar_ok k" "scalar_ok v" using Cons.prems e by auto
  have fits: "length ?payload \<le> u64_max" using Cons.prems(2) .
  have k: "?payload = pre @ scalar_bytes k @ (scalar_bytes v @ ?tail)"
    by (simp add: e)
  have v: "?payload = (pre @ scalar_bytes k) @ scalar_bytes v @ ?tail"
    by (simp add: e)
  have t: "?payload = (pre @ scalar_bytes k @ scalar_bytes v) @ ?tail"
    by (simp add: e)
  have "cbor_item ?payload (length pre) (Suc (2 * length es) # below)
      = Inr (length (pre @ scalar_bytes k), Suc (2 * length es) # below)"
    unfolding k using ok(1) fits[unfolded k] by (subst cbor_item_scalar) auto
  moreover have "cbor_item ?payload (length (pre @ scalar_bytes k)) (2 * length es # below)
      = Inr (length (pre @ scalar_bytes k @ scalar_bytes v), 2 * length es # below)"
    unfolding v using ok(2) fits[unfolded v] by (subst cbor_item_scalar) auto
  ultimately have "cbor_loop ?payload (length pre) ((2 * length (e # es)) # below)
      = cbor_loop ?payload (length (pre @ scalar_bytes k @ scalar_bytes v)) (2 * length es # below)"
    by (simp add: cbor_loop_step)
  also have "\<dots> = cbor_loop ?payload
      (length (pre @ scalar_bytes k @ scalar_bytes v) + length (concat (map entry_bytes es))) (0 # below)"
    unfolding t using Cons.prems(1) fits[unfolded t] by (intro Cons.IH) auto
  finally show ?case
    by (simp add: e add.assoc)
qed

lemma cbor_loop_done: "cbor_loop payload position [] = Inr position"
  by (simp add: cbor_loop.simps)

lemma cbor_loop_zeros: "cbor_loop payload position [0, 0] = Inr position"
  by (simp add: cbor_loop.simps)

lemma structure_map_bytes:
  assumes "flat_map es" and "length (map_bytes es) \<le> u64_max"
  shows "validate_cbor_structure (map_bytes es) = Inr ()"
proof -
  let ?body = "concat (map entry_bytes es)"
  let ?p = "map_bytes es"
  have len: "length es < 24" using assms by (simp add: flat_map_def)
  have p: "?p = [] @ cbor_head 5 (length es) @ ?body" by (simp add: map_bytes_def)
  have "cbor_item ?p 0 [0] = cbor_content ?p 5 (length es) (head_len (length es)) [0]"
    using cbor_item_head[of "length es" 5 "[]" ?body "[0]"] len assms(2)
    by (simp add: p u64_max_def map_bytes_def)
  moreover have "cbor_content ?p 5 (length es) (head_len (length es)) [0] =
     Inr (head_len (length es), if es = [] then [0] else [2 * length es, 0])"
    using len by (auto simp: cbor_content_def u64_max_def MAX_CBOR_NESTING_def)
  ultimately have "cbor_item ?p 0 [0] = Inr (head_len (length es),
     if es = [] then [0] else [2 * length es, 0])" by simp
  then have step: "cbor_loop ?p 0 [1] = cbor_loop ?p (head_len (length es))
     (if es = [] then [0] else [2 * length es, 0])"
    using cbor_loop_step[of ?p 0 0 "[]"] by simp
  have "cbor_loop ?p 0 [1] = Inr (length ?p)"
  proof (cases "es = []")
    case True
    then show ?thesis
      using step by (simp add: cbor_loop.simps map_bytes_def)
  next
    case False
    then have "cbor_loop ?p 0 [1] = cbor_loop ?p (head_len (length es)) [2 * length es, 0]"
      using step by simp
    also have "\<dots> = cbor_loop ?p (head_len (length es) + length ?body) [0, 0]"
      using cbor_loop_entries[of es "cbor_head 5 (length es)" "[]" "[0]"] assms
      by (simp add: map_bytes_def flat_map_def)
    finally show ?thesis
      by (simp add: cbor_loop_zeros map_bytes_def)
  qed
  then show ?thesis by (simp add: validate_cbor_structure_def)
qed

section \<open>The work of the structural pass is bounded\<close>

text \<open>
  The states the loop goes through: after \<open>n\<close> turns it is at a position with a stack. Every
  turn consumes at least one byte, and the stack never exceeds \<^verbatim>\<open>MAX_CBOR_NESTING\<close>.
\<close>

inductive cbor_turns :: "bytes \<Rightarrow> nat \<Rightarrow> nat \<Rightarrow> nat list \<Rightarrow> bool" for payload where
  start: "cbor_turns payload 0 0 [1]"
| turn: "cbor_turns payload n position remaining \<Longrightarrow>
    dropWhile (\<lambda>count. count = 0) remaining = count # below \<Longrightarrow>
    cbor_item payload position ((count - 1) # below) = Inr (q, r) \<Longrightarrow>
    cbor_turns payload (Suc n) q r"

lemma read_cbor_argument_within:
  "read_cbor_argument payload position additional = Inr (n, q) \<Longrightarrow> position \<le> length payload
   \<Longrightarrow> q \<le> length payload"
  by (auto simp: read_cbor_argument_def Let_def res_simps split: if_splits)

lemma cbor_content_within:
  "cbor_content payload major n position remaining = Inr (q, r) \<Longrightarrow> position \<le> length payload \<Longrightarrow>
   q \<le> length payload \<and> length r \<le> max (length remaining) MAX_CBOR_NESTING"
  by (auto simp: cbor_content_def res_simps split: if_splits)

lemma cbor_item_within:
  assumes "cbor_item payload position remaining = Inr (q, r)"
  shows "q \<le> length payload \<and> length r \<le> max (length remaining) MAX_CBOR_NESTING"
proof -
  have len: "position < length payload"
    using cbor_item_advances[OF assms] by simp
  obtain n q' where
    "read_cbor_argument payload (position + 1) (unat (payload ! position AND 31)) = Inr (n, q')"
    and "cbor_content payload (unat (drop_bit 5 (payload ! position))) n q' remaining = Inr (q, r)"
    using assms len by (auto simp: cbor_item_def Let_def rbind_Inr_iff)
  with len show ?thesis
    using read_cbor_argument_within cbor_content_within by (metis Suc_eq_plus1 Suc_leI)
qed

lemma length_dropWhile_Cons: "dropWhile P xs = y # ys \<Longrightarrow> length (z # ys) \<le> length xs"
  using length_dropWhile_le[of P xs] by simp

lemma cbor_turns_bounded:
  "cbor_turns payload n position remaining \<Longrightarrow>
   n \<le> position \<and> position \<le> length payload \<and> length remaining \<le> MAX_CBOR_NESTING"
proof (induction rule: cbor_turns.induct)
  case start
  then show ?case by (simp add: MAX_CBOR_NESTING_def)
next
  case (turn n position remaining count below q r)
  have "length ((count - 1) # below) \<le> MAX_CBOR_NESTING"
    using turn length_dropWhile_Cons[OF turn.hyps(2)] le_trans by blast
  with turn cbor_item_within[OF turn.hyps(3)] cbor_item_advances[OF turn.hyps(3)] show ?case
    by auto
qed

text \<open>The loop follows these turns, so its result is the position of a state they reach.\<close>

lemma cbor_loop_turns:
  "cbor_turns payload n position remaining \<Longrightarrow> cbor_loop payload position remaining = Inr q \<Longrightarrow>
   \<exists>m r. cbor_turns payload m q r \<and> (\<forall>count \<in> set r. count = 0)"
proof (induction payload position remaining arbitrary: n rule: cbor_loop.induct)
  case (1 payload position remaining)
  show ?case
  proof (cases "dropWhile (\<lambda>count. count = 0) remaining")
    case Nil
    with "1.prems" have "q = position" by (simp add: cbor_loop.simps)
    with Nil "1.prems"(1) show ?thesis by (auto simp: dropWhile_eq_Nil_conv)
  next
    case (Cons count below)
    with "1.prems"(2) obtain p r where
      item: "cbor_item payload position ((count - 1) # below) = Inr (p, r)"
      and loop: "cbor_loop payload p r = Inr q"
      by (subst (asm) cbor_loop.simps) (auto split: sum.splits)
    have "cbor_turns payload (Suc n) p r"
      using "1.prems"(1) Cons item by (rule cbor_turns.turn)
    then show ?thesis
      using "1.IH"[OF Cons item refl] loop by blast
  qed
qed

section \<open>The semantic pass\<close>

definition strict_keys :: "(nat \<times> cvalue) list \<Rightarrow> bool" where
  "strict_keys es \<longleftrightarrow> sorted_wrt (<) (map fst es)"

definition entries_ok :: "(nat \<times> cvalue) list \<Rightarrow> bool" where
  "entries_ok es \<longleftrightarrow> strict_keys es \<and> length es < 24 \<and>
     (\<forall>(k, v) \<in> set es. k \<le> u64_max \<and> scalar_ok v)"

text \<open>The payload whose entries are \<open>es\<close>.\<close>

definition payload_bytes :: "(nat \<times> cvalue) list \<Rightarrow> bytes" where
  "payload_bytes es = map_bytes (map value_entry es)"

lemma value_entry_simp [simp]: "value_entry (k, v) = (CInteger (int k), v)"
  by (simp add: value_entry_def)

lemma entries_ok_flat: "entries_ok es \<Longrightarrow> flat_map (map value_entry es)"
  by (auto simp: entries_ok_def flat_map_def value_entry_def split_beta)

lemma strict_keys_distinct: "strict_keys es \<Longrightarrow> distinct (map fst es)"
  by (simp add: strict_keys_def strict_sorted_iff)

lemma strict_keys_sort: "strict_keys es \<Longrightarrow> sort_key fst es = es"
  by (simp add: strict_keys_def strict_sorted_iff sorted_sort_id sort_key_id_if_sorted)

lemma collect_entries_values:
  assumes "distinct (map fst es)" "set (map fst es) \<inter> set keys = {}" "\<forall>(k, v) \<in> set es. k \<le> u64_max"
  shows "collect_entries (map value_entry es) keys acc = Inr (acc @ es)"
  using assms
proof (induction es arbitrary: keys acc)
  case (Cons e es)
  obtain k v where "e = (k, v)" by (cases e)
  with Cons show ?case by (auto simp: int_u64_def)
qed simp

lemma entry_values_back:
  assumes "\<forall>(k, v) \<in> set es. k \<le> u64_max"
  shows "traverse_list entry_value (map value_entry es) = Inr es"
proof -
  have "traverse_list entry_value (map value_entry es)
      = Inr (map (\<lambda>e. case fst e of CInteger i \<Rightarrow> (nat i, snd e)) (map value_entry es))"
    using assms by (intro traverse_list_all) (auto simp: entry_value_def int_u64_def)
  also have "map (\<lambda>e. case fst e of CInteger i \<Rightarrow> (nat i, snd e)) (map value_entry es) = es"
    by (induction es) auto
  finally show ?thesis .
qed

lemma validate_complete:
  assumes "cbor_ok X" "entries_ok es" "length (payload_bytes es) \<le> MAX_FRAME_SIZE"
  shows "validate_cbor_map_payload X (payload_bytes es) = Inr es"
proof -
  have flat: "flat_map (map value_entry es)" using assms(2) by (rule entries_ok_flat)
  have keys: "\<forall>(k, v) \<in> set es. k \<le> u64_max" using assms(2) by (auto simp: entries_ok_def)
  have strict: "strict_keys es" using assms(2) by (simp add: entries_ok_def)
  have "validate_cbor_structure (payload_bytes es) = Inr ()"
    unfolding payload_bytes_def using flat assms(3)
    by (intro structure_map_bytes) (simp_all add: payload_bytes_def bounds_defs)
  moreover have "cbor_de X (payload_bytes es)
      = Inr (CMap (map value_entry es), length (payload_bytes es))"
    unfolding payload_bytes_def by (rule cbor_ok_de_all[OF assms(1) flat])
  moreover have "collect_entries (map value_entry es) [] [] = Inr es"
    using collect_entries_values[of es "[]" "[]"] strict_keys_distinct[OF strict] keys by simp
  moreover have "cbor_ser X (CMap (map value_entry es)) = Inr (payload_bytes es)"
    unfolding payload_bytes_def by (rule cbor_ok_ser[OF assms(1) flat])
  ultimately show ?thesis
    using assms(3) by (simp add: validate_cbor_map_payload_def strict_keys_sort[OF strict]
        entry_values_back[OF keys])
qed

lemma collect_entries_distinct:
  "collect_entries es keys acc = Inr out \<Longrightarrow> distinct (map fst acc) \<Longrightarrow> set keys = set (map fst acc)
   \<Longrightarrow> (\<forall>(k, v) \<in> set acc. k \<le> u64_max)
   \<Longrightarrow> distinct (map fst out) \<and> (\<forall>(k, v) \<in> set out. k \<le> u64_max)"
proof (induction es keys acc rule: collect_entries.induct)
  case (2 key val rest keys acc)
  then obtain i where key: "key = CInteger i" by (auto split: cvalue.splits)
  with "2.prems"(1) obtain k where k: "int_u64 i InvalidMapKey = Inr k" "k \<notin> set keys"
    "collect_entries rest (k # keys) (acc @ [(k, val)]) = Inr out"
    by (auto simp: res_simps split: if_splits)
  moreover from k(1) have "k \<le> u64_max" by (auto simp: int_u64_def split: if_splits)
  ultimately show ?case
    using "2.prems" by (intro "2.IH"[OF key]) auto
qed simp

lemma validate_sound:
  assumes "validate_cbor_map_payload X payload = Inr es"
  shows "cbor_ser X (CMap (map value_entry es)) = Inr payload \<and> strict_keys es \<and>
    length payload \<le> MAX_FRAME_SIZE \<and> validate_cbor_structure payload = Inr ()"
proof -
  obtain entries pos collected where
    len: "length payload \<le> MAX_FRAME_SIZE" and str: "validate_cbor_structure payload = Inr ()"
    and col: "collect_entries entries [] [] = Inr collected"
    and ser: "cbor_ser X (CMap (map value_entry (sort_key fst collected))) = Inr payload"
    and es: "traverse_list entry_value (map value_entry (sort_key fst collected)) = Inr es"
    using assms
    by (auto simp: validate_cbor_map_payload_def res_simps Let_def split: if_splits cvalue.splits)
  from collect_entries_distinct[OF col]
  have d: "distinct (map fst collected)" and b: "\<forall>(k, v) \<in> set collected. k \<le> u64_max" by auto
  have "es = sort_key fst collected"
    using es b entry_values_back[of "sort_key fst collected"] by simp
  moreover have "strict_keys (sort_key fst collected)"
    using d by (simp add: strict_keys_def strict_sorted_iff distinct_map)
  ultimately show ?thesis
    using len str ser by simp
qed

end
