(* ===== verification/Encoding.thy ===== *)
theory Encoding
  imports Wire_Canonical
begin

text \<open>
  \<^verbatim>\<open>ruxmsg-core/src/encoding.rs\<close>: the handshake transcript and the helpers every payload
  schema uses to read CBOR fields. The locale \<open>payload_codec\<close> is the contract of a payload
  schema (its \<^verbatim>\<open>encode\<close> and \<^verbatim>\<open>decode\<close>), instantiated by the schemas of
  \<^verbatim>\<open>close.rs\<close> and \<^verbatim>\<open>handshake.rs\<close> inside \<open>cbor_lib\<close>, the assumption that the CBOR
  library follows RFC 8949.
\<close>

section \<open>Helpers\<close>

definition uint :: "nat \<Rightarrow> cvalue" where
  "uint value = CInteger (int (value mod 2 ^ 64))"

definition array_value :: "nat \<Rightarrow> cvalue \<Rightarrow> string \<Rightarrow> bytes res" where
  "array_value n value kind =
     (case value of
        CBytes bytes \<Rightarrow>
          if length bytes = n then Inr bytes else Inl (InvalidLength kind n (length bytes))
      | _ \<Rightarrow> Inl (InvalidLength kind 0 0))"

fun fill_fields :: "(nat \<times> cvalue) list \<Rightarrow> cvalue option list \<Rightarrow> error \<Rightarrow> cvalue option list res" where
  "fill_fields [] slots invalid = Inr slots"
| "fill_fields ((key, val) # rest) slots invalid =
     (if length slots \<le> key \<or> slots ! key \<noteq> None then Inl invalid
      else fill_fields rest (slots[key := Some val]) invalid)"

definition map_into_fields :: "(nat \<times> cvalue) list \<Rightarrow> nat \<Rightarrow> error \<Rightarrow> cvalue option list res" where
  "map_into_fields entries field_count invalid =
     fill_fields entries (replicate field_count None) invalid"

definition cbor_encode :: "ext \<Rightarrow> cvalue \<Rightarrow> bytes res" where
  "cbor_encode X v = map_err Encoding (cbor_ser X v)"

text \<open>The sort key \<^verbatim>\<open>close.rs\<close> and \<^verbatim>\<open>handshake.rs\<close> order their entries by.\<close>

definition entry_key :: "cvalue \<times> cvalue \<Rightarrow> nat" where
  "entry_key e =
     (case fst e of
        CInteger i \<Rightarrow> if 0 \<le> i \<and> i \<le> int u64_max then nat i else u64_max
      | _ \<Rightarrow> u64_max)"

section \<open>The transcript\<close>

record transcript =
  t_purpose :: handshake_purpose
  t_cipher_suite :: nat
  t_initiator_identity :: peer_identity
  t_responder_identity :: peer_identity
  t_initiator_ephemeral :: bytes
  t_responder_ephemeral :: bytes
  t_initiator_nonce :: bytes
  t_responder_nonce :: bytes
  t_previous_session_id :: "session_id option"

text \<open>The \<^verbatim>\<open>BTreeMap\<close> of the code is filled in ascending key order.\<close>

definition transcript_encode :: "ext \<Rightarrow> transcript \<Rightarrow> bytes res" where
  "transcript_encode X t =
     cbor_encode X (CMap (
       [(uint 0, uint (version_code V1)),
        (uint 1, uint (t_cipher_suite t)),
        (uint 2, uint (purpose_code (t_purpose t))),
        (uint 3, uint 0),
        (uint 4, uint 1)]
       @ (case t_previous_session_id t of None \<Rightarrow> [] | Some sid \<Rightarrow> [(uint 5, CBytes sid)])
       @ [(uint 6, CBytes (t_initiator_identity t)),
          (uint 7, CBytes (t_responder_identity t)),
          (uint 8, CBytes (t_initiator_ephemeral t)),
          (uint 9, CBytes (t_responder_ephemeral t)),
          (uint 10, CBytes (t_initiator_nonce t)),
          (uint 11, CBytes (t_responder_nonce t))]))"

text \<open>The array lengths the Rust type fixes.\<close>

definition transcript_wf :: "transcript \<Rightarrow> bool" where
  "transcript_wf t \<longleftrightarrow> t_cipher_suite t \<le> u64_max \<and>
     length (t_initiator_identity t) = 32 \<and> length (t_responder_identity t) = 32 \<and>
     length (t_initiator_ephemeral t) = 32 \<and> length (t_responder_ephemeral t) = 32 \<and>
     length (t_initiator_nonce t) = 16 \<and> length (t_responder_nonce t) = 16 \<and>
     (\<forall>s. t_previous_session_id t = Some s \<longrightarrow> length s = 16)"

section \<open>Facts about the helpers\<close>

lemma uint_eq: "n \<le> u64_max \<Longrightarrow> uint n = CInteger (int n)"
  by (simp add: uint_def u64_max_def)

lemma uint_small [simp]: "n < 256 \<Longrightarrow> uint n = CInteger (int n)"
  by (simp add: uint_eq u64_max_def)

lemma array_value_iff [res_simps]:
  "array_value n v kind = Inr b \<longleftrightarrow> v = CBytes b \<and> length b = n"
  by (auto simp: array_value_def split: cvalue.splits)

text \<open>What the fields hold after the loop: the entry of each key, where nothing was before.\<close>

definition filled :: "(nat \<times> cvalue) list \<Rightarrow> cvalue option list \<Rightarrow> cvalue option list" where
  "filled es slots = map (\<lambda>k. case map_of es k of Some v \<Rightarrow> Some v | None \<Rightarrow> slots ! k) [0..<length slots]"

lemma filled_update:
  assumes "k \<notin> fst ` set es" "k < length slots"
  shows "filled es (slots[k := Some v]) = filled ((k, v) # es) slots"
proof -
  have "map_of es k = None" using assms(1) by (simp add: map_of_eq_None_iff)
  then show ?thesis
    using assms(2) by (auto simp: filled_def nth_list_update split: option.splits)
qed

lemma fill_fields_iff:
  "fill_fields es slots invalid = Inr out \<longleftrightarrow>
     distinct (map fst es) \<and> (\<forall>k \<in> fst ` set es. k < length slots \<and> slots ! k = None) \<and>
     out = filled es slots"
proof (induction es arbitrary: slots)
  case Nil
  then show ?case by (auto simp: filled_def map_nth)
next
  case (Cons e es)
  obtain k v where e: "e = (k, v)" by (cases e)
  show ?case
  proof (cases "k < length slots \<and> slots ! k = None")
    case False
    then show ?thesis by (auto simp: e)
  next
    case True
    have upd: "(\<forall>j \<in> fst ` set es. j < length slots \<and> slots[k := Some v] ! j = None) \<longleftrightarrow>
        k \<notin> fst ` set es \<and> (\<forall>j \<in> fst ` set es. j < length slots \<and> slots ! j = None)"
      using True by (metis nth_list_update_eq nth_list_update_neq option.distinct(1))
    have "fill_fields (e # es) slots invalid = Inr out \<longleftrightarrow>
        distinct (map fst es) \<and> (k \<notin> fst ` set es \<and> (\<forall>j \<in> fst ` set es. j < length slots \<and> slots ! j = None)) \<and>
        out = filled es (slots[k := Some v])"
      using True Cons.IH[of "slots[k := Some v]"] unfolding e by (simp add: upd[simplified])
    then show ?thesis
      using True filled_update[of k es slots v] by (auto simp: e)
  qed
qed

lemma map_into_fields_iff:
  "map_into_fields es n invalid = Inr out \<longleftrightarrow>
     distinct (map fst es) \<and> (\<forall>k \<in> fst ` set es. k < n) \<and> out = map (map_of es) [0..<n]"
proof -
  have "filled es (replicate n None) = map (map_of es) [0..<n]"
    by (auto simp: filled_def split: option.splits)
  then show ?thesis
    by (auto simp: map_into_fields_def fill_fields_iff)
qed

lemma entry_key_value_entry: "k \<le> u64_max \<Longrightarrow> entry_key (value_entry (k, v)) = k"
  by (simp add: entry_key_def)

lemma sort_value_entries:
  assumes "\<forall>(k, v) \<in> set es. k \<le> u64_max"
  shows "sort_key entry_key (map value_entry es) = map value_entry (sort_key fst es)"
proof -
  have ins: "insort_key entry_key (value_entry e) (map value_entry xs) = map value_entry (insort_key fst e xs)"
    if "fst e \<le> u64_max" "\<forall>(k, v) \<in> set xs. k \<le> u64_max" for e xs
    using that by (induction xs; cases e) (auto simp: entry_key_def)
  show ?thesis
    using assms
  proof (induction es)
    case (Cons e es)
    then have "\<forall>(k, v) \<in> set (sort_key fst es). k \<le> u64_max" by auto
    with Cons ins[of e "sort_key fst es"] show ?case
      by (cases e) auto
  qed simp
qed

text \<open>Encoding a canonical list of entries and reading it back.\<close>

lemma cbor_encode_entries:
  "cbor_ok X \<Longrightarrow> entries_ok es \<Longrightarrow> cbor_encode X (CMap (map value_entry es)) = Inr (payload_bytes es)"
  by (simp add: cbor_encode_def payload_bytes_def cbor_ok_ser entries_ok_flat)

lemma validate_payload:
  assumes "cbor_ok X" "entries_ok es" "frame_new t (payload_bytes es) = Inr f"
  shows "validate_cbor_map X f = Inr es"
proof -
  from assms(3) have "length (payload_bytes es) \<le> MAX_FRAME_SIZE" "f_payload f = payload_bytes es"
    using max_payload_le[of t] by (auto simp: frame_new_iff)
  with validate_complete[OF assms(1,2)] show ?thesis
    by (simp add: validate_cbor_map_def)
qed

lemma length_payload_bytes:
  "length (payload_bytes es) = head_len (length es) +
     (\<Sum>e\<leftarrow>es. head_len (fst e) + length (scalar_bytes (snd e)))"
proof -
  have "length (concat (map entry_bytes (map value_entry es)))
      = (\<Sum>e\<leftarrow>es. head_len (fst e) + length (scalar_bytes (snd e)))"
    by (induction es) (auto simp: value_entry_def)
  then show ?thesis by (simp add: payload_bytes_def map_bytes_def)
qed

section \<open>The contract of a payload schema\<close>

locale cbor_lib =
  fixes X :: ext
  assumes lib: "cbor_ok X"

locale payload_codec =
  fixes encode :: "'p \<Rightarrow> frame res"
    and decode :: "frame \<Rightarrow> 'p res"
    and wf :: "'p \<Rightarrow> bool"
  assumes decode_encode: "wf p \<Longrightarrow> encode p = Inr f \<Longrightarrow> decode f = Inr p"
    and encode_limits: "encode p = Inr f \<Longrightarrow> frame_ok f"
begin

text \<open>Two well-formed payloads with the same frame are equal.\<close>

lemma encode_inject: "wf p \<Longrightarrow> wf q \<Longrightarrow> encode p = Inr f \<Longrightarrow> encode q = Inr f \<Longrightarrow> p = q"
  using decode_encode[of p f] decode_encode[of q f] by simp

text \<open>From a payload to the bytes on the wire and back, whatever bytes follow.\<close>

lemma wire_roundtrip:
  assumes "wf p" "encode p = Inr f"
  shows "\<exists>bs. frame_encode f = Inr bs \<and>
    (\<forall>rest. frame_decode (bs @ rest) = Inr (f, length bs)) \<and> decode f = Inr p"
proof -
  have "frame_ok f" using assms(2) by (rule encode_limits)
  then obtain bs where "frame_encode f = Inr bs" using frame_encode_ok by blast
  then show ?thesis using frame_decode_encoded decode_encode[OF assms] by blast
qed

end

section \<open>The transcript encoding is injective\<close>

definition transcript_entries :: "transcript \<Rightarrow> (nat \<times> cvalue) list" where
  "transcript_entries t =
     [(0, CInteger 1), (1, CInteger (int (t_cipher_suite t))),
      (2, CInteger (int (purpose_code (t_purpose t)))), (3, CInteger 0), (4, CInteger 1)]
     @ (case t_previous_session_id t of None \<Rightarrow> [] | Some sid \<Rightarrow> [(5, CBytes sid)])
     @ [(6, CBytes (t_initiator_identity t)), (7, CBytes (t_responder_identity t)),
        (8, CBytes (t_initiator_ephemeral t)), (9, CBytes (t_responder_ephemeral t)),
        (10, CBytes (t_initiator_nonce t)), (11, CBytes (t_responder_nonce t))]"

lemma transcript_entries_ok: "transcript_wf t \<Longrightarrow> entries_ok (transcript_entries t)"
  using purpose_code_bound[of "t_purpose t"]
  by (auto simp: transcript_wf_def entries_ok_def strict_keys_def transcript_entries_def
      u64_max_def split: option.splits)

lemma transcript_encode_entries:
  assumes "cbor_ok X" "transcript_wf t"
  shows "transcript_encode X t = Inr (payload_bytes (transcript_entries t))"
proof -
  have "transcript_encode X t = cbor_encode X (CMap (map value_entry (transcript_entries t)))"
    using assms(2) purpose_code_bound[of "t_purpose t"]
    by (auto simp: transcript_encode_def transcript_entries_def version_code_def uint_eq
        transcript_wf_def split: option.splits)
  then show ?thesis
    by (simp add: cbor_encode_entries[OF assms(1) transcript_entries_ok[OF assms(2)]])
qed

end
