(* ===== verification/Crypto.thy ===== *)
theory Crypto
  imports Encoding
begin

unbundle bit_operations_syntax

text \<open>
  \<^verbatim>\<open>ruxmsg-core/src/crypto.rs\<close>: domain-separated hashing and signing, the SAS indices,
  the key schedule, confirmation MACs, the message ratchet step, nonces and the AEAD calls. The
  primitives are the parameter \<open>X\<close>; the byte strings they are applied to are the code's.
\<close>

definition ascii :: "string \<Rightarrow> bytes" where
  "ascii s = map (\<lambda>c. word_of_nat (of_char c)) s"

definition HASH_DOMAIN :: bytes where "HASH_DOMAIN = ascii ''RUXMSG/1/TRANSCRIPT''"
definition INITIATOR_SIGNATURE_DOMAIN :: bytes where
  "INITIATOR_SIGNATURE_DOMAIN = ascii ''RUXMSG/1/initiator''"
definition RESPONDER_SIGNATURE_DOMAIN :: bytes where
  "RESPONDER_SIGNATURE_DOMAIN = ascii ''RUXMSG/1/responder''"
definition INITIATOR_CONFIRM_DOMAIN :: bytes where
  "INITIATOR_CONFIRM_DOMAIN = ascii ''RUXMSG/1/confirm/I''"
definition RESPONDER_CONFIRM_DOMAIN :: bytes where
  "RESPONDER_CONFIRM_DOMAIN = ascii ''RUXMSG/1/confirm/R''"
definition ZERO_SALT :: bytes where "ZERO_SALT = replicate 32 0"
definition COMMIT_DOMAIN :: bytes where "COMMIT_DOMAIN = ascii ''RUXMSG/1/COMMIT''"

lemmas domain_defs = HASH_DOMAIN_def INITIATOR_SIGNATURE_DOMAIN_def RESPONDER_SIGNATURE_DOMAIN_def
  INITIATOR_CONFIRM_DOMAIN_def RESPONDER_CONFIRM_DOMAIN_def COMMIT_DOMAIN_def

section \<open>Identities and signatures\<close>

text \<open>An \<^verbatim>\<open>IdentityKeypair\<close> is its 32-byte seed.\<close>

type_synonym identity_keypair = bytes

definition identity_of :: "ext \<Rightarrow> identity_keypair \<Rightarrow> peer_identity" where
  "identity_of X secret = ed_public X secret"

definition signature_domain :: "bool \<Rightarrow> bytes" where
  "signature_domain initiator =
     (if initiator then INITIATOR_SIGNATURE_DOMAIN else RESPONDER_SIGNATURE_DOMAIN)"

definition sign_transcript :: "ext \<Rightarrow> identity_keypair \<Rightarrow> bytes \<Rightarrow> bool \<Rightarrow> bytes" where
  "sign_transcript X secret hash initiator = ed_sign X secret (signature_domain initiator @ hash)"

definition verify_transcript_signature ::
  "ext \<Rightarrow> peer_identity \<Rightarrow> bytes \<Rightarrow> bytes \<Rightarrow> bool \<Rightarrow> unit res" where
  "verify_transcript_signature X identity hash signature initiator =
     (if \<not> ed_key_valid X identity then Inl InvalidIdentityKey
      else if ed_verify_strict X identity (signature_domain initiator @ hash) signature then Inr ()
      else Inl SignatureInvalid)"

section \<open>Ephemeral keys\<close>

record ephemeral_keypair =
  e_secret :: bytes
  e_public :: bytes

definition ephemeral_from_bytes :: "ext \<Rightarrow> bytes \<Rightarrow> ephemeral_keypair" where
  "ephemeral_from_bytes X secret = \<lparr>e_secret = secret, e_public = x_public X secret\<rparr>"

definition shared_secret :: "ext \<Rightarrow> ephemeral_keypair \<Rightarrow> bytes \<Rightarrow> bytes res" where
  "shared_secret X pair remote_public =
     (let shared = x_diffie_hellman X (e_secret pair) remote_public in
      if \<not> x_was_contributory X shared then Inl AllZeroSharedSecret else Inr shared)"

section \<open>Hashes\<close>

text \<open>\<^verbatim>\<open>(len as u32).to_be_bytes()\<close> keeps the low 32 bits of the length.\<close>

definition transcript_hash :: "ext \<Rightarrow> bytes \<Rightarrow> bytes" where
  "transcript_hash X t = sha256 X (HASH_DOMAIN @ be_bytes 4 (length t mod 2 ^ 32) @ t)"

definition commit_hash :: "ext \<Rightarrow> bytes \<Rightarrow> bytes" where
  "commit_hash X hello = sha256 X (COMMIT_DOMAIN @ be_bytes 4 (length hello mod 2 ^ 32) @ hello)"

section \<open>Short authentication strings\<close>

record sas_index =
  sas_first :: "16 word"
  sas_second :: "16 word"
  sas_third :: "16 word"

definition sas_packed :: "bytes \<Rightarrow> u64" where
  "sas_packed hash =
     push_bit 25 (ucast (hash ! 0)) OR push_bit 17 (ucast (hash ! 1)) OR
     push_bit 9 (ucast (hash ! 2)) OR push_bit 1 (ucast (hash ! 3)) OR
     ucast (drop_bit 7 (hash ! 4))"

definition sas_indices :: "bytes \<Rightarrow> sas_index" where
  "sas_indices hash =
     (let packed = sas_packed hash in
      \<lparr>sas_first = ucast (drop_bit 22 packed AND 0x7ff),
       sas_second = ucast (drop_bit 11 packed AND 0x7ff),
       sas_third = ucast (packed AND 0x7ff)\<rparr>)"

definition sas_words :: "ext \<Rightarrow> bytes \<Rightarrow> string list" where
  "sas_words X hash =
     (let indices = sas_indices hash; words = bip39_words X in
      [words ! unat (sas_first indices), words ! unat (sas_second indices),
       words ! unat (sas_third indices)])"

section \<open>Key schedule\<close>

record session_keys =
  k_root_key :: bytes
  k_initiator_to_responder :: bytes
  k_responder_to_initiator :: bytes
  k_session_id :: session_id
  k_confirmation_key :: bytes

definition expand_key :: "ext \<Rightarrow> bytes \<Rightarrow> bytes \<Rightarrow> string \<Rightarrow> nat \<Rightarrow> bytes res" where
  "expand_key X salt ikm info n = ok_or (hkdf_expand X salt ikm (ascii info) n) KeyDerivation"

definition derive_session_keys :: "ext \<Rightarrow> bytes \<Rightarrow> bytes \<Rightarrow> session_keys res" where
  "derive_session_keys X shared hash =
     rbind (expand_key X hash shared ''RUXMSG/1/root'' 32) (\<lambda>root.
     rbind (expand_key X hash shared ''RUXMSG/1/I-to-R'' 32) (\<lambda>i2r.
     rbind (expand_key X hash shared ''RUXMSG/1/R-to-I'' 32) (\<lambda>r2i.
     rbind (expand_key X hash shared ''RUXMSG/1/session-id'' 16) (\<lambda>sid.
     rbind (expand_key X hash shared ''RUXMSG/1/session-confirm'' 32) (\<lambda>confirm.
     Inr \<lparr>k_root_key = root, k_initiator_to_responder = i2r, k_responder_to_initiator = r2i,
          k_session_id = sid, k_confirmation_key = confirm\<rparr>)))))"

section \<open>Confirmation\<close>

definition confirmation_mac :: "ext \<Rightarrow> bytes \<Rightarrow> bytes \<Rightarrow> bool \<Rightarrow> bytes" where
  "confirmation_mac X key hash initiator =
     hmac_sha256 X key
       ((if initiator then INITIATOR_CONFIRM_DOMAIN else RESPONDER_CONFIRM_DOMAIN) @ hash)"

definition verify_confirmation :: "ext \<Rightarrow> bytes \<Rightarrow> bytes \<Rightarrow> bytes \<Rightarrow> bool \<Rightarrow> unit res" where
  "verify_confirmation X key hash expected initiator =
     (if confirmation_mac X key hash initiator = expected then Inr () else Inl ConfirmationInvalid)"

section \<open>Message keys\<close>

text \<open>
  \<^verbatim>\<open>expect("fixed HKDF output")\<close>: HKDF-SHA-256 refuses only outputs over 255 * 32 bytes, so
  the option is never \<open>None\<close> under \<open>crypto_ok\<close> (lemma \<open>derive_message_key_no_panic\<close>).
\<close>

definition direction_info :: "string \<Rightarrow> direction_id \<Rightarrow> bytes" where
  "direction_info label direction = ascii label @ be_bytes 4 (direction_code direction)"

definition derive_message_key :: "ext \<Rightarrow> bytes \<Rightarrow> direction_id \<Rightarrow> bytes \<times> bytes" where
  "derive_message_key X chain_key direction =
     (the (hkdf_expand X ZERO_SALT chain_key (direction_info ''RUXMSG/1/message-key'' direction) 32),
      the (hkdf_expand X ZERO_SALT chain_key (direction_info ''RUXMSG/1/chain-key'' direction) 32))"

definition message_nonce :: "direction_id \<Rightarrow> nat \<Rightarrow> bytes" where
  "message_nonce direction counter = be_bytes 4 (direction_code direction) @ be_bytes 8 counter"

definition encrypt_message :: "ext \<Rightarrow> bytes \<Rightarrow> bytes \<Rightarrow> bytes \<Rightarrow> bytes \<Rightarrow> bytes res" where
  "encrypt_message X key nonce aad plaintext = ok_or (aead_encrypt X key nonce aad plaintext) AeadFailure"

definition decrypt_message :: "ext \<Rightarrow> bytes \<Rightarrow> bytes \<Rightarrow> bytes \<Rightarrow> bytes \<Rightarrow> bytes res" where
  "decrypt_message X key nonce aad ciphertext = ok_or (aead_decrypt X key nonce aad ciphertext) AeadFailure"

section \<open>Facts\<close>

lemma verify_own_signature:
  "crypto_ok X \<Longrightarrow> length secret = 32 \<Longrightarrow>
   verify_transcript_signature X (identity_of X secret) hash (sign_transcript X secret hash r) r = Inr ()"
  by (simp add: verify_transcript_signature_def identity_of_def sign_transcript_def
      crypto_ok_public crypto_ok_verify)

lemma signature_domains_differ: "signature_domain True @ h \<noteq> signature_domain False @ h'"
  by (simp add: signature_domain_def domain_defs ascii_def)

lemma confirm_domains_differ: "INITIATOR_CONFIRM_DOMAIN @ h \<noteq> RESPONDER_CONFIRM_DOMAIN @ h'"
  by (simp add: domain_defs ascii_def)

lemma derive_message_key_no_panic:
  "crypto_ok X \<Longrightarrow> \<exists>k c. hkdf_expand X s ck i 32 = Some k \<and> hkdf_expand X s ck j 32 = Some c"
  using crypto_ok_hkdf[of X 32 s ck i] crypto_ok_hkdf[of X 32 s ck j] by auto

lemma derive_message_key_lengths:
  assumes "crypto_ok X"
  shows "length (fst (derive_message_key X ck d)) = 32 \<and> length (snd (derive_message_key X ck d)) = 32"
proof -
  obtain k where "hkdf_expand X ZERO_SALT ck (direction_info ''RUXMSG/1/message-key'' d) 32 = Some k"
    "length k = 32"
    using crypto_ok_hkdf[OF assms, of 32] by fastforce
  moreover obtain c where "hkdf_expand X ZERO_SALT ck (direction_info ''RUXMSG/1/chain-key'' d) 32 = Some c"
    "length c = 32"
    using crypto_ok_hkdf[OF assms, of 32] by fastforce
  ultimately show ?thesis by (simp add: derive_message_key_def)
qed

lemma length_message_nonce [simp]: "length (message_nonce d c) = 12"
  by (simp add: message_nonce_def)

lemma message_nonce_inject:
  assumes "c \<le> u64_max" "c' \<le> u64_max" "message_nonce d c = message_nonce d' c'"
  shows "d = d' \<and> c = c'"
proof -
  have eqs: "be_bytes 4 (direction_code d) = be_bytes 4 (direction_code d')"
    "be_bytes 8 c = be_bytes 8 c'"
    using assms(3) by (simp_all add: message_nonce_def)
  have "direction_code d = direction_code d'"
    using arg_cong[OF eqs(1), of be_value] direction_code_bound[of d] direction_code_bound[of d']
    by (simp add: be_value_be_bytes)
  moreover have "c = c'"
    using arg_cong[OF eqs(2), of be_value] assms(1,2) by (simp add: be_value_be_bytes u64_max_def)
  ultimately show ?thesis by (simp add: direction.code_inject)
qed

lemma derive_session_keys_ok:
  assumes "crypto_ok X"
  shows "\<exists>keys. derive_session_keys X shared hash = Inr keys \<and> length (k_session_id keys) = 16 \<and>
    length (k_initiator_to_responder keys) = 32 \<and> length (k_responder_to_initiator keys) = 32 \<and>
    length (k_confirmation_key keys) = 32"
proof -
  have "\<exists>k. expand_key X hash shared info n = Inr k \<and> length k = n" if "n \<le> 32" for info n
    using crypto_ok_hkdf[OF assms, of n hash shared "ascii info"] that
    by (auto simp: expand_key_def)
  then show ?thesis
    unfolding derive_session_keys_def
    by (metis (no_types, lifting) rbind.simps(2) session_keys.select_convs le_refl
        numeral_le_iff semiring_norm(68,71,72))
qed

lemma shared_secret_agree:
  assumes "crypto_ok X" "length a = 32" "length b = 32"
  shows "shared_secret X (ephemeral_from_bytes X a) (e_public (ephemeral_from_bytes X b))
       = shared_secret X (ephemeral_from_bytes X b) (e_public (ephemeral_from_bytes X a))"
  using crypto_ok_dh[OF assms] by (simp add: shared_secret_def ephemeral_from_bytes_def)

end
