(* ===== verification/Ratchet.thy ===== *)
theory Ratchet
  imports Crypto
begin

unbundle bit_operations_syntax

text \<open>
  \<^verbatim>\<open>ruxmsg-core/src/ratchet.rs\<close>: the replay window and the receiving chain. The window is
  shown to refine the set of accepted counters; the chain is shown to hand out exactly the keys of
  the ideal key sequence, within the cache ceiling. Two locales state what the data layer relies
  on: \<open>replay_filter\<close> (a counter is accepted at most once) and \<open>key_store\<close> (a
  prepared key is the right one and stays until it is committed).
\<close>

section \<open>The replay window\<close>

datatype replay_status = New | Duplicate | TooOld

record replay_window =
  w_highest :: "nat option"
  w_bits :: u64

definition window_new :: replay_window where
  "window_new = \<lparr>w_highest = None, w_bits = 0\<rparr>"

definition window_classify :: "replay_window \<Rightarrow> nat \<Rightarrow> replay_status" where
  "window_classify w counter =
     (case w_highest w of
        None \<Rightarrow> New
      | Some highest \<Rightarrow>
          if counter > highest then New
          else
            let distance = highest - counter in
            if distance \<ge> REPLAY_WINDOW_SIZE then TooOld
            else if w_bits w AND push_bit distance 1 \<noteq> 0 then Duplicate
            else New)"

definition window_accept :: "replay_window \<Rightarrow> nat \<Rightarrow> replay_window res" where
  "window_accept w counter =
     (if window_classify w counter \<noteq> New then Inl ReplayRejected
      else
        (case w_highest w of
           None \<Rightarrow> Inr \<lparr>w_highest = Some counter, w_bits = 1\<rparr>
         | Some highest \<Rightarrow>
             if counter > highest then
               let shift = counter - highest in
               Inr \<lparr>w_highest = Some counter,
                    w_bits = (if shift \<ge> 64 then 1 else push_bit shift (w_bits w) OR 1)\<rparr>
             else Inr (w\<lparr>w_bits := w_bits w OR push_bit (highest - counter) 1\<rparr>)))"

text \<open>Its meaning: the set of counters accepted so far.\<close>

definition window_rel :: "replay_window \<Rightarrow> nat set \<Rightarrow> bool" where
  "window_rel w S \<longleftrightarrow> finite S \<and>
     (case w_highest w of
        None \<Rightarrow> S = {} \<and> w_bits w = 0
      | Some h \<Rightarrow> h \<in> S \<and> (\<forall>c \<in> S. c \<le> h) \<and>
          (\<forall>i < 64. bit (w_bits w) i \<longleftrightarrow> i \<le> h \<and> h - i \<in> S))"

definition spec_classify :: "nat set \<Rightarrow> nat \<Rightarrow> replay_status" where
  "spec_classify S c =
     (if \<exists>h \<in> S. c + REPLAY_WINDOW_SIZE \<le> h then TooOld else if c \<in> S then Duplicate else New)"

lemma and_push_bit_one: "(w AND push_bit n 1 \<noteq> (0 :: u64)) \<longleftrightarrow> bit w n"
  by (simp add: push_bit_eq_mult and_exp_eq_0_iff_not_bit)

lemma window_rel_new: "window_rel window_new {}"
  by (simp add: window_rel_def window_new_def)

lemma classify_refines:
  assumes "window_rel w S"
  shows "window_classify w c = spec_classify S c"
proof (cases "w_highest w")
  case None
  with assms show ?thesis
    by (simp add: window_rel_def window_classify_def spec_classify_def)
next
  case (Some h)
  with assms have h: "h \<in> S" "\<And>d. d \<in> S \<Longrightarrow> d \<le> h"
    and b: "\<And>i. i < 64 \<Longrightarrow> bit (w_bits w) i \<longleftrightarrow> i \<le> h \<and> h - i \<in> S"
    by (auto simp: window_rel_def)
  have old: "(\<exists>d \<in> S. c + 64 \<le> d) \<longleftrightarrow> c + 64 \<le> h"
    using h by (auto intro: le_trans)
  consider "h < c" | "c \<le> h" "c + 64 \<le> h" | "c \<le> h" "\<not> c + 64 \<le> h" by linarith
  then show ?thesis
  proof cases
    case 1
    then have "c \<notin> S" using h(2) by (auto dest: h(2))
    with 1 Some old show ?thesis
      by (simp add: window_classify_def spec_classify_def REPLAY_WINDOW_SIZE_def)
  next
    case 2
    then have "64 \<le> h - c" by linarith
    with 2 Some old show ?thesis
      by (simp add: window_classify_def spec_classify_def REPLAY_WINDOW_SIZE_def Let_def)
  next
    case 3
    then have d: "h - c < 64" "h - c \<le> h" "h - (h - c) = c" by auto
    have "(w_bits w AND push_bit (h - c) 1 \<noteq> 0) \<longleftrightarrow> c \<in> S"
      using and_push_bit_one b[OF d(1)] d by simp
    with 3 Some old d show ?thesis
      by (auto simp: window_classify_def spec_classify_def REPLAY_WINDOW_SIZE_def Let_def)
  qed
qed

lemma accept_refines:
  assumes rel: "window_rel w S" and acc: "window_accept w c = Inr w'"
  shows "spec_classify S c = New \<and> window_rel w' (insert c S)"
proof -
  have new: "window_classify w c = New"
    using acc by (simp add: window_accept_def split: if_splits)
  have "window_rel w' (insert c S)"
  proof (cases "w_highest w")
    case None
    then have "w' = \<lparr>w_highest = Some c, w_bits = 1\<rparr>" "S = {}"
      using acc new rel by (auto simp: window_accept_def window_rel_def)
    then show ?thesis by (auto simp: window_rel_def bit_simps)
  next
    case (Some h)
    then have h: "h \<in> S" "\<And>d. d \<in> S \<Longrightarrow> d \<le> h" and fin: "finite S"
      and b: "\<And>i. i < 64 \<Longrightarrow> bit (w_bits w) i \<longleftrightarrow> i \<le> h \<and> h - i \<in> S"
      using rel by (auto simp: window_rel_def)
    show ?thesis
    proof (cases "h < c")
      case True
      let ?bits = "if c - h \<ge> 64 then 1 else push_bit (c - h) (w_bits w) OR 1 :: u64"
      have w': "w' = \<lparr>w_highest = Some c, w_bits = ?bits\<rparr>"
        using acc new Some True by (simp add: window_accept_def Let_def)
      have "bit ?bits i \<longleftrightarrow> i \<le> c \<and> c - i \<in> insert c S" if i: "i < 64" for i
      proof (cases "i = 0")
        case True
        then show ?thesis by (simp add: bit_simps)
      next
        case False
        have "c - i \<in> S \<longleftrightarrow> c - h \<le> i \<and> h - (i - (c - h)) \<in> S" if "i \<le> c"
        proof (cases "c - h \<le> i")
          case True
          then have "c - i = h - (i - (c - h))" using \<open>h < c\<close> that by auto
          with True show ?thesis by simp
        next
          case F: False
          then have "c - i > h" using \<open>h < c\<close> by auto
          with F h(2) show ?thesis by (meson leD)
        qed
        moreover have "bit (push_bit (c - h) (w_bits w)) i \<longleftrightarrow>
            c - h \<le> i \<and> i - (c - h) \<le> h \<and> h - (i - (c - h)) \<in> S"
          using i b[of "i - (c - h)"] by (auto simp: bit_simps)
        ultimately show ?thesis
          using False i \<open>h < c\<close> by (auto simp: bit_simps)
      qed
      then show ?thesis
        using fin h(2) True by (auto simp: window_rel_def w' dest: h(2))
    next
      case False
      have w': "w' = w\<lparr>w_bits := w_bits w OR push_bit (h - c) 1\<rparr>"
        using acc new Some False by (simp add: window_accept_def)
      have "bit (w_bits w OR push_bit (h - c) 1) i \<longleftrightarrow> i \<le> h \<and> h - i \<in> insert c S" if "i < 64" for i
        using b[OF that] that False by (auto simp: bit_simps)
      then show ?thesis
        using fin h False Some by (auto simp: window_rel_def w')
    qed
  qed
  with new classify_refines[OF rel, of c] show ?thesis by simp
qed

lemma accept_new: "window_classify w c = New \<Longrightarrow> \<exists>w'. window_accept w c = Inr w'"
  by (auto simp: window_accept_def Let_def split: option.splits)

section \<open>What a replay filter promises\<close>

fun accept_run :: "('w \<Rightarrow> nat \<Rightarrow> 'w res) \<Rightarrow> 'w \<Rightarrow> nat list \<Rightarrow> nat list" where
  "accept_run accept w [] = []"
| "accept_run accept w (c # cs) =
     (case accept w c of Inl e \<Rightarrow> accept_run accept w cs | Inr w' \<Rightarrow> c # accept_run accept w' cs)"

locale replay_filter =
  fixes classify :: "'w \<Rightarrow> nat \<Rightarrow> replay_status"
    and accept :: "'w \<Rightarrow> nat \<Rightarrow> 'w res"
    and seen :: "'w \<Rightarrow> nat set \<Rightarrow> bool"
  assumes classify_seen: "seen w S \<Longrightarrow> c \<in> S \<Longrightarrow> classify w c \<noteq> New"
    and accept_iff: "seen w S \<Longrightarrow> (\<exists>w'. accept w c = Inr w') \<longleftrightarrow> classify w c = New"
    and accept_seen: "seen w S \<Longrightarrow> accept w c = Inr w' \<Longrightarrow> seen w' (insert c S)"
begin

lemma accept_fresh: "seen w S \<Longrightarrow> accept w c = Inr w' \<Longrightarrow> c \<notin> S"
  using classify_seen accept_iff by blast

lemma run_avoids: "seen w S \<Longrightarrow> set (accept_run accept w cs) \<inter> S = {}"
proof (induction cs arbitrary: w S)
  case (Cons c cs)
  show ?case
  proof (cases "accept w c")
    case (Inr w')
    with Cons.prems have "seen w' (insert c S)" "c \<notin> S"
      using accept_seen accept_fresh by blast+
    with Cons.IH[of w' "insert c S"] Inr show ?thesis by auto
  qed (use Cons in auto)
qed simp

text \<open>Whatever counters arrive, in whatever order, none is accepted twice.\<close>

lemma run_distinct: "seen w S \<Longrightarrow> distinct (accept_run accept w cs)"
proof (induction cs arbitrary: w S)
  case (Cons c cs)
  show ?case
  proof (cases "accept w c")
    case (Inr w')
    with Cons.prems have s: "seen w' (insert c S)" using accept_seen by blast
    with run_avoids[OF s, of cs] Cons.IH[OF s] Inr show ?thesis by auto
  qed (use Cons in auto)
qed simp

end

interpretation window: replay_filter window_classify window_accept window_rel
proof
  fix w S c
  assume rel: "window_rel w S"
  show "c \<in> S \<Longrightarrow> window_classify w c \<noteq> New"
    by (simp add: classify_refines[OF rel] spec_classify_def)
  show "(\<exists>w'. window_accept w c = Inr w') \<longleftrightarrow> window_classify w c = New"
    using accept_new accept_refines[OF rel] classify_refines[OF rel] by metis
next
  fix w S c w'
  assume "window_rel w S" "window_accept w c = Inr w'"
  then show "window_rel w' (insert c S)" using accept_refines by blast
qed

section \<open>The receiving chain\<close>

record receiving_chain =
  rc_chain_key :: bytes
  rc_next_counter :: nat
  rc_skipped :: "(nat \<times> bytes) list"
  rc_direction :: direction_id

definition chain_new :: "bytes \<Rightarrow> direction_id \<Rightarrow> receiving_chain" where
  "chain_new chain_key direction =
     \<lparr>rc_chain_key = chain_key, rc_next_counter = 0, rc_skipped = [], rc_direction = direction\<rparr>"

text \<open>Derive the key of the next counter, keep it, and advance.\<close>

definition chain_step :: "ext \<Rightarrow> receiving_chain \<Rightarrow> receiving_chain" where
  "chain_step X rc =
     (let (key, next) = derive_message_key X (rc_chain_key rc) (rc_direction rc) in
      rc\<lparr>rc_skipped := AList.update (rc_next_counter rc) key (rc_skipped rc),
         rc_chain_key := next, rc_next_counter := rc_next_counter rc + 1\<rparr>)"

function derive_skipped :: "ext \<Rightarrow> receiving_chain \<Rightarrow> nat \<Rightarrow> receiving_chain" where
  "derive_skipped X rc counter =
     (if rc_next_counter rc < counter then derive_skipped X (chain_step X rc) counter else rc)"
  by pat_completeness auto
termination
  by (relation "measure (\<lambda>(X, rc, counter). counter - rc_next_counter rc)")
    (auto simp: chain_step_def split: prod.split)

declare derive_skipped.simps [simp del]

text \<open>
  \<^verbatim>\<open>prepare_message_key\<close>; it returns the key and the new chain, and no error of it
  changes the chain. After the loop the target key is derived and kept by the same step.
\<close>

definition prepare_message_key :: "ext \<Rightarrow> receiving_chain \<Rightarrow> nat \<Rightarrow> (bytes \<times> receiving_chain) res" where
  "prepare_message_key X rc counter =
     (case map_of (rc_skipped rc) counter of
        Some key \<Rightarrow> Inr (key, rc)
      | None \<Rightarrow>
          if counter < rc_next_counter rc then Inl (MessageKeyUnavailable counter)
          else if counter = u64_max then Inl CounterOverflow
          else
            let gap = counter - rc_next_counter rc in
            if gap > MAX_SKIPPED_KEYS then Inl SkippedKeyLimit
            else if length (rc_skipped rc) + gap + 1 > MAX_PREPARED_KEYS then Inl SkippedKeyLimit
            else
              let rc1 = derive_skipped X rc counter;
                  (key, next) = derive_message_key X (rc_chain_key rc1) (rc_direction rc1)
              in Inr (key, rc1\<lparr>rc_chain_key := next, rc_next_counter := rc_next_counter rc1 + 1,
                               rc_skipped := AList.update counter key (rc_skipped rc1)\<rparr>))"

definition commit_message_key :: "receiving_chain \<Rightarrow> nat \<Rightarrow> receiving_chain res" where
  "commit_message_key rc counter =
     (case map_of (rc_skipped rc) counter of
        Some _ \<Rightarrow> Inr (rc\<lparr>rc_skipped := AList.delete counter (rc_skipped rc)\<rparr>)
      | None \<Rightarrow> Inl (MessageKeyUnavailable counter))"

section \<open>The ideal key sequence\<close>

fun chain_key_at :: "ext \<Rightarrow> direction_id \<Rightarrow> bytes \<Rightarrow> nat \<Rightarrow> bytes" where
  "chain_key_at X d ck 0 = ck"
| "chain_key_at X d ck (Suc n) = snd (derive_message_key X (chain_key_at X d ck n) d)"

definition message_key_at :: "ext \<Rightarrow> direction_id \<Rightarrow> bytes \<Rightarrow> nat \<Rightarrow> bytes" where
  "message_key_at X d ck n = fst (derive_message_key X (chain_key_at X d ck n) d)"

text \<open>
  \<open>chain_rel X d ck rc U\<close>: the chain started from \<open>ck\<close> holds exactly the keys of the
  counters below the next one that are not in \<open>U\<close>, the used ones.
\<close>

definition chain_rel :: "ext \<Rightarrow> direction_id \<Rightarrow> bytes \<Rightarrow> receiving_chain \<Rightarrow> nat set \<Rightarrow> bool" where
  "chain_rel X d ck rc U \<longleftrightarrow>
     rc_direction rc = d \<and> rc_chain_key rc = chain_key_at X d ck (rc_next_counter rc) \<and>
     distinct (map fst (rc_skipped rc)) \<and>
     (\<forall>n. map_of (rc_skipped rc) n =
        (if n < rc_next_counter rc \<and> n \<notin> U then Some (message_key_at X d ck n) else None)) \<and>
     (\<forall>n \<in> U. n < rc_next_counter rc) \<and>
     length (rc_skipped rc) \<le> MAX_PREPARED_KEYS \<and> rc_next_counter rc \<le> u64_max"

lemma chain_rel_new: "chain_rel X d ck (chain_new ck d) {}"
  by (simp add: chain_rel_def chain_new_def MAX_PREPARED_KEYS_def)

lemma chain_step_simps:
  "rc_next_counter (chain_step X rc) = rc_next_counter rc + 1"
  "rc_direction (chain_step X rc) = rc_direction rc"
  "rc_chain_key (chain_step X rc) = snd (derive_message_key X (rc_chain_key rc) (rc_direction rc))"
  "rc_skipped (chain_step X rc) = AList.update (rc_next_counter rc)
     (fst (derive_message_key X (rc_chain_key rc) (rc_direction rc))) (rc_skipped rc)"
  by (simp_all add: chain_step_def split_beta)

lemma map_of_None_keys: "map_of m k = None \<longleftrightarrow> k \<notin> fst ` set m"
  by (simp add: map_of_eq_None_iff)

lemma chain_rel_step:
  assumes rel: "chain_rel X d ck rc U" and room: "length (rc_skipped rc) < MAX_PREPARED_KEYS"
    and max: "rc_next_counter rc < u64_max"
  shows "chain_rel X d ck (chain_step X rc) U \<and>
    length (rc_skipped (chain_step X rc)) = Suc (length (rc_skipped rc))"
proof -
  have "map_of (rc_skipped rc) (rc_next_counter rc) = None"
    using rel by (simp add: chain_rel_def)
  then have fresh: "rc_next_counter rc \<notin> fst ` set (rc_skipped rc)"
    by (simp add: map_of_None_keys)
  then have len: "length (rc_skipped (chain_step X rc)) = Suc (length (rc_skipped rc))"
    by (simp add: chain_step_simps length_update_fresh)
  have "distinct (map fst (rc_skipped (chain_step X rc)))"
    using rel by (simp add: chain_step_simps chain_rel_def AList.distinct_update)
  moreover have "map_of (rc_skipped (chain_step X rc)) n =
      (if n < rc_next_counter (chain_step X rc) \<and> n \<notin> U then Some (message_key_at X d ck n) else None)" for n
    using rel by (auto simp: chain_step_simps chain_rel_def AList.update_conv' message_key_at_def less_Suc_eq)
  ultimately show ?thesis
    using rel len room max by (auto simp: chain_rel_def chain_step_simps)
qed

lemma derive_skipped_rel:
  assumes "chain_rel X d ck rc U" "rc_next_counter rc \<le> counter" "counter < u64_max"
    "length (rc_skipped rc) + (counter - rc_next_counter rc) \<le> MAX_PREPARED_KEYS"
  shows "chain_rel X d ck (derive_skipped X rc counter) U \<and>
    rc_next_counter (derive_skipped X rc counter) = counter \<and>
    length (rc_skipped (derive_skipped X rc counter)) =
      length (rc_skipped rc) + (counter - rc_next_counter rc)"
  using assms
proof (induction X rc counter rule: derive_skipped.induct)
  case (1 X rc counter)
  show ?case
  proof (cases "rc_next_counter rc < counter")
    case True
    have st: "chain_rel X d ck (chain_step X rc) U"
      "length (rc_skipped (chain_step X rc)) = Suc (length (rc_skipped rc))"
      using chain_rel_step[OF "1.prems"(1)] "1.prems" True by simp_all
    have "chain_rel X d ck (derive_skipped X (chain_step X rc) counter) U \<and>
      rc_next_counter (derive_skipped X (chain_step X rc) counter) = counter \<and>
      length (rc_skipped (derive_skipped X (chain_step X rc) counter)) =
        length (rc_skipped (chain_step X rc)) + (counter - rc_next_counter (chain_step X rc))"
      using st "1.prems" True by (intro "1.IH") (simp_all add: chain_step_simps)
    then show ?thesis
      using True st by (subst (1 2 3) derive_skipped.simps) (simp add: chain_step_simps)
  next
    case False
    with "1.prems" show ?thesis
      by (subst (1 2 3) derive_skipped.simps) simp
  qed
qed

text \<open>When the checks pass.\<close>

definition prepare_allowed :: "receiving_chain \<Rightarrow> nat \<Rightarrow> bool" where
  "prepare_allowed rc counter \<longleftrightarrow>
     rc_next_counter rc \<le> counter \<and> counter < u64_max \<and>
     counter - rc_next_counter rc \<le> MAX_SKIPPED_KEYS \<and>
     length (rc_skipped rc) + (counter - rc_next_counter rc) < MAX_PREPARED_KEYS"

text \<open>Preparing a counter that is not cached derives up to and including it.\<close>

lemma prepare_step:
  assumes "map_of (rc_skipped rc) counter = None" "counter \<le> u64_max"
    "prepare_message_key X rc counter = Inr (key, rc')"
  shows "prepare_allowed rc counter \<and>
    (let rc1 = derive_skipped X rc counter;
         (k, next) = derive_message_key X (rc_chain_key rc1) (rc_direction rc1)
     in key = k \<and> rc' = rc1\<lparr>rc_chain_key := next, rc_next_counter := rc_next_counter rc1 + 1,
                               rc_skipped := AList.update counter k (rc_skipped rc1)\<rparr>)"
  using assms
  by (auto simp: prepare_message_key_def prepare_allowed_def Let_def split_beta split: if_splits)

lemma prepare_succeeds:
  "map_of (rc_skipped rc) counter \<noteq> None \<or> prepare_allowed rc counter \<Longrightarrow>
   \<exists>key rc'. prepare_message_key X rc counter = Inr (key, rc')"
  by (auto simp: prepare_message_key_def prepare_allowed_def Let_def split_beta split: option.splits)

lemma prepare_correct:
  assumes rel: "chain_rel X d ck rc U" and max: "counter \<le> u64_max"
    and prep: "prepare_message_key X rc counter = Inr (key, rc')"
  shows "chain_rel X d ck rc' U \<and> key = message_key_at X d ck counter \<and>
    map_of (rc_skipped rc') counter = Some key \<and> rc_next_counter rc \<le> rc_next_counter rc' \<and>
    counter < rc_next_counter rc'"
proof (cases "map_of (rc_skipped rc) counter")
  case (Some k)
  then have "key = k" "rc' = rc" using prep by (auto simp: prepare_message_key_def)
  with Some rel show ?thesis by (auto simp: chain_rel_def split: if_splits)
next
  case None
  let ?rc1 = "derive_skipped X rc counter"
  from prepare_step[OF None max prep] have al: "prepare_allowed rc counter"
    and key: "key = fst (derive_message_key X (rc_chain_key ?rc1) (rc_direction ?rc1))"
    and rc': "rc' = ?rc1\<lparr>rc_chain_key := snd (derive_message_key X (rc_chain_key ?rc1) (rc_direction ?rc1)),
       rc_next_counter := rc_next_counter ?rc1 + 1,
       rc_skipped := AList.update counter key (rc_skipped ?rc1)\<rparr>"
    by (auto simp: Let_def split_beta)
  have d: "chain_rel X d ck ?rc1 U" "rc_next_counter ?rc1 = counter"
    "length (rc_skipped ?rc1) = length (rc_skipped rc) + (counter - rc_next_counter rc)"
    using derive_skipped_rel[OF rel, of counter] al by (auto simp: prepare_allowed_def)
  have "rc' = chain_step X ?rc1"
    by (simp add: rc' key chain_step_def split_beta d(2))
  then have "chain_rel X d ck rc' U"
    using chain_rel_step[OF d(1)] d al by (auto simp: prepare_allowed_def)
  moreover have "key = message_key_at X d ck counter"
    using d(1,2) by (simp add: key message_key_at_def chain_rel_def)
  ultimately show ?thesis
    using al d(2) by (auto simp: rc' AList.update_conv' prepare_allowed_def)
qed

lemma prepare_errors_iff:
  assumes "chain_rel X d ck rc U" "counter \<le> u64_max"
  shows "(\<exists>e. prepare_message_key X rc counter = Inl e) \<longleftrightarrow>
    counter \<in> U \<or> rc_next_counter rc \<le> counter \<and> \<not> prepare_allowed rc counter"
proof (cases "map_of (rc_skipped rc) counter")
  case (Some k)
  then have "counter < rc_next_counter rc" "counter \<notin> U"
    using assms(1) by (auto simp: chain_rel_def split: if_splits)
  with Some show ?thesis by (simp add: prepare_message_key_def)
next
  case None
  then have "rc_next_counter rc \<le> counter \<or> counter \<in> U"
    using assms(1) by (auto simp: chain_rel_def split: if_splits)
  moreover have "counter \<in> U \<Longrightarrow> counter < rc_next_counter rc"
    using assms(1) by (simp add: chain_rel_def)
  moreover have "(\<exists>e. prepare_message_key X rc counter = Inl e) \<longleftrightarrow> \<not> prepare_allowed rc counter"
    using prepare_step[OF None assms(2)] prepare_succeeds[of rc counter X]
    by (metis (no_types, opaque_lifting) Inl_Inr_False old.prod.exhaust sum.exhaust)
  ultimately show ?thesis
    by (auto simp: prepare_allowed_def)
qed

lemma commit_correct:
  assumes rel: "chain_rel X d ck rc U" and com: "commit_message_key rc counter = Inr rc'"
  shows "counter \<notin> U \<and> chain_rel X d ck rc' (insert counter U)"
proof -
  from com obtain k where k: "map_of (rc_skipped rc) counter = Some k"
    and rc': "rc' = rc\<lparr>rc_skipped := AList.delete counter (rc_skipped rc)\<rparr>"
    by (auto simp: commit_message_key_def split: option.splits)
  have "length (AList.delete counter (rc_skipped rc)) \<le> length (rc_skipped rc)"
    by (rule AList.length_delete_le)
  then show ?thesis
    using rel k by (auto simp: chain_rel_def rc' AList.delete_conv' AList.distinct_delete split: if_splits)
qed

lemma commit_prepared: "map_of (rc_skipped rc) counter = Some k \<Longrightarrow> \<exists>rc'. commit_message_key rc counter = Inr rc'"
  by (simp add: commit_message_key_def)

section \<open>What a key store promises\<close>

text \<open>
  \<open>holds s U\<close>: store \<open>s\<close> has used the keys of \<open>U\<close>. Preparing gives the key of the
  counter and uses nothing; what was prepared can be prepared again, with the same key, until it
  is committed; a committed counter is never prepared again.
\<close>

locale key_store =
  fixes prepare :: "'s \<Rightarrow> nat \<Rightarrow> (bytes \<times> 's) res"
    and commit :: "'s \<Rightarrow> nat \<Rightarrow> 's res"
    and key_at :: "nat \<Rightarrow> bytes"
    and holds :: "'s \<Rightarrow> nat set \<Rightarrow> bool"
  assumes prepare_key: "holds s U \<Longrightarrow> n \<le> u64_max \<Longrightarrow> prepare s n = Inr (k, s') \<Longrightarrow>
      holds s' U \<and> k = key_at n"
    and prepare_again: "holds s U \<Longrightarrow> n \<le> u64_max \<Longrightarrow> prepare s n = Inr (k, s') \<Longrightarrow>
      prepare s' n = Inr (k, s') \<and> (\<exists>s''. commit s' n = Inr s'')"
    and commit_uses: "holds s U \<Longrightarrow> commit s n = Inr s' \<Longrightarrow> n \<notin> U \<and> holds s' (insert n U)"
    and used_gone: "holds s U \<Longrightarrow> n \<in> U \<Longrightarrow> n \<le> u64_max \<Longrightarrow> \<exists>e. prepare s n = Inl e"
begin

text \<open>A key that was prepared and committed once cannot be had again.\<close>

lemma commit_final:
  "holds s U \<Longrightarrow> commit s n = Inr s' \<Longrightarrow> n \<le> u64_max \<Longrightarrow> \<exists>e. prepare s' n = Inl e"
  using commit_uses used_gone by blast

text \<open>Failed authentication keeps the key: preparing any number of times is preparing once.\<close>

lemma prepare_idempotent:
  assumes "holds s U" "n \<le> u64_max" "prepare s n = Inr (k, s')" "prepare s' n = Inr (k', s'')"
  shows "k' = k \<and> s'' = s'"
proof -
  have "prepare s' n = Inr (k, s')" using prepare_again[OF assms(1,2,3)] by blast
  with assms(4) show ?thesis by simp
qed

end

interpretation chain: key_store "prepare_message_key X" commit_message_key "message_key_at X d ck"
  "chain_rel X d ck" for X d ck
proof
  fix s U n k s'
  assume rel: "chain_rel X d ck s U"
  show "n \<le> u64_max \<Longrightarrow> prepare_message_key X s n = Inr (k, s') \<Longrightarrow>
      chain_rel X d ck s' U \<and> k = message_key_at X d ck n"
    using prepare_correct[OF rel] by blast
  show "n \<le> u64_max \<Longrightarrow> prepare_message_key X s n = Inr (k, s') \<Longrightarrow>
      prepare_message_key X s' n = Inr (k, s') \<and> (\<exists>s''. commit_message_key s' n = Inr s'')"
    using prepare_correct[OF rel, of n k s'] commit_prepared[of s' n k]
    by (simp add: prepare_message_key_def)
  show "commit_message_key s n = Inr s' \<Longrightarrow> n \<notin> U \<and> chain_rel X d ck s' (insert n U)"
    by (rule commit_correct[OF rel])
  show "n \<in> U \<Longrightarrow> n \<le> u64_max \<Longrightarrow> \<exists>e. prepare_message_key X s n = Inl e"
    using prepare_errors_iff[OF rel] by blast
qed

end
