(* ===== verification/Data.thy ===== *)
theory Data
  imports Ratchet
begin

text \<open>
  \<^verbatim>\<open>ruxmsg-core/src/data.rs\<close>: padding, the plaintext map, the DATA payload, and the
  sending and receiving halves of a session. Sender and receiver are state-passing functions that
  return the result with the state the Rust method leaves behind, on the error paths too.
\<close>

definition AEAD_TAG_SIZE :: nat where "AEAD_TAG_SIZE = 16"

section \<open>Padding\<close>

definition bstr_header_len :: "nat \<Rightarrow> nat" where
  "bstr_header_len n = (if n \<le> 23 then 1 else if n \<le> 255 then 2 else if n \<le> 65535 then 3 else 5)"

record data_plaintext =
  p_content :: bytes
  p_padding :: bytes

text \<open>The loop of \<^verbatim>\<open>padded\<close>, from a candidate padding length upwards.\<close>

function pad_search :: "nat \<Rightarrow> nat \<Rightarrow> nat res" where
  "pad_search fixed padding_len =
     (if (fixed + bstr_header_len padding_len + padding_len + AEAD_TAG_SIZE)
           mod DEFAULT_PADDING_QUANTUM = 0
      then Inr padding_len
      else if padding_len + 1 > MAX_FRAME_SIZE then Inl DataTooLarge
      else pad_search fixed (padding_len + 1))"
  by pat_completeness auto
termination
  by (relation "measure (\<lambda>(fixed, padding_len). MAX_FRAME_SIZE - padding_len)") auto

declare pad_search.simps [simp del]

definition padded :: "bytes \<Rightarrow> data_plaintext res" where
  "padded content =
     (if length content > MAX_CONTENT then Inl DataTooLarge
      else
        rbind (pad_search (3 + bstr_header_len (length content) + length content) 0) (\<lambda>padding_len.
        Inr \<lparr>p_content = content, p_padding = replicate padding_len 0\<rparr>))"

section \<open>The plaintext map\<close>

definition plaintext_encode :: "ext \<Rightarrow> data_plaintext \<Rightarrow> bytes res" where
  "plaintext_encode X p =
     cbor_encode X (CMap [(uint 0, CBytes (p_content p)), (uint 1, CBytes (p_padding p))])"

definition data_bytes_value :: "cvalue \<Rightarrow> bytes res" where
  "data_bytes_value v = (case v of CBytes b \<Rightarrow> Inr b | _ \<Rightarrow> Inl InvalidDataPayload)"

definition data_uint_value :: "cvalue \<Rightarrow> nat res" where
  "data_uint_value v =
     (case v of CInteger i \<Rightarrow> int_u64 i InvalidDataPayload | _ \<Rightarrow> Inl InvalidDataPayload)"

fun plaintext_fields ::
  "(nat \<times> cvalue) list \<Rightarrow> bytes option \<Rightarrow> bytes option \<Rightarrow> (bytes option \<times> bytes option) res" where
  "plaintext_fields [] content padding = Inr (content, padding)"
| "plaintext_fields ((key, val) # rest) content padding =
     (if key = 0 then rbind (data_bytes_value val) (\<lambda>b. plaintext_fields rest (Some b) padding)
      else if key = 1 then rbind (data_bytes_value val) (\<lambda>b. plaintext_fields rest content (Some b))
      else Inl InvalidDataPayload)"

definition plaintext_decode :: "ext \<Rightarrow> bytes \<Rightarrow> data_plaintext res" where
  "plaintext_decode X bytes =
     rbind (validate_cbor_map_payload X bytes) (\<lambda>entries.
     rbind (guard (length entries = 2) InvalidDataPayload) (\<lambda>_.
     rbind (plaintext_fields entries None None) (\<lambda>(content, padding).
     rbind (ok_or padding InvalidDataPayload) (\<lambda>padding.
     rbind (ok_or content InvalidDataPayload) (\<lambda>content.
     rbind (guard (length content \<le> MAX_CONTENT) DataTooLarge) (\<lambda>_.
     rbind (guard (\<not> list_ex (\<lambda>byte. byte \<noteq> 0) padding) InvalidPadding) (\<lambda>_.
     Inr \<lparr>p_content = content, p_padding = padding\<rparr>)))))))"

section \<open>The DATA payload\<close>

record data_payload =
  d_session_id :: session_id
  d_direction :: direction_id
  d_counter :: nat
  d_ciphertext :: bytes

definition encode_payload :: "ext \<Rightarrow> data_payload \<Rightarrow> frame res" where
  "encode_payload X p =
     rbind (cbor_encode X (CMap
       [(uint 0, CBytes (d_session_id p)),
        (uint 1, uint (direction_code (d_direction p))),
        (uint 2, uint (d_counter p)),
        (uint 3, CBytes (d_ciphertext p))])) (\<lambda>encoded.
     frame_new MData encoded)"

text \<open>The fields seen so far: session, direction, counter, ciphertext.\<close>

type_synonym payload_slots = "session_id option \<times> direction_id option \<times> nat option \<times> bytes option"

fun payload_fields :: "(nat \<times> cvalue) list \<Rightarrow> payload_slots \<Rightarrow> payload_slots res" where
  "payload_fields [] slots = Inr slots"
| "payload_fields ((key, val) # rest) (sid, dir, counter, ct) =
     (if key = 0 then
        rbind (data_bytes_value val) (\<lambda>b.
        rbind (guard (length b = 16) InvalidDataPayload) (\<lambda>_.
        payload_fields rest (Some b, dir, counter, ct)))
      else if key = 1 then
        rbind (data_uint_value val) (\<lambda>n.
        rbind (guard (n \<le> u32_max) InvalidDataPayload) (\<lambda>_.
        rbind (direction_try_from n) (\<lambda>d.
        payload_fields rest (sid, Some d, counter, ct))))
      else if key = 2 then
        rbind (data_uint_value val) (\<lambda>n. payload_fields rest (sid, dir, Some n, ct))
      else if key = 3 then
        rbind (data_bytes_value val) (\<lambda>b. payload_fields rest (sid, dir, counter, Some b))
      else Inl InvalidDataPayload)"

definition decode_payload :: "ext \<Rightarrow> bytes \<Rightarrow> data_payload res" where
  "decode_payload X bytes =
     rbind (validate_cbor_map_payload X bytes) (\<lambda>entries.
     rbind (guard (length entries = 4) InvalidDataPayload) (\<lambda>_.
     rbind (payload_fields entries (None, None, None, None)) (\<lambda>(sid, dir, counter, ct).
     rbind (ok_or ct InvalidDataPayload) (\<lambda>ciphertext.
     rbind (guard (AEAD_TAG_SIZE \<le> length ciphertext) InvalidDataPayload) (\<lambda>_.
     rbind (ok_or sid InvalidDataPayload) (\<lambda>sid.
     rbind (ok_or dir InvalidDataPayload) (\<lambda>dir.
     rbind (ok_or counter InvalidDataPayload) (\<lambda>counter.
     Inr \<lparr>d_session_id = sid, d_direction = dir, d_counter = counter, d_ciphertext = ciphertext\<rparr>))))))))"

definition data_aad :: "ext \<Rightarrow> session_id \<Rightarrow> direction_id \<Rightarrow> nat \<Rightarrow> bytes res" where
  "data_aad X sid direction counter =
     cbor_encode X (CMap
       [(uint 0, uint 1),
        (uint 1, CBytes sid),
        (uint 2, uint (type_code MData)),
        (uint 3, uint (direction_code direction)),
        (uint 4, uint counter)])"

section \<open>The sender\<close>

record data_sender =
  ds_session_id :: session_id
  ds_direction :: direction_id
  ds_chain_key :: bytes
  ds_counter :: nat

definition sender_new :: "session_id \<Rightarrow> direction_id \<Rightarrow> bytes \<Rightarrow> data_sender" where
  "sender_new sid direction chain_key =
     \<lparr>ds_session_id = sid, ds_direction = direction, ds_chain_key = chain_key, ds_counter = 0\<rparr>"

text \<open>
  Steps 1 to 4 of \<^verbatim>\<open>encrypt\<close>, which change nothing: the ciphertext and the next chain
  key. Step 5 commits the chain and the counter, step 6 encodes the frame.
\<close>

definition encrypt_steps :: "ext \<Rightarrow> data_sender \<Rightarrow> bytes \<Rightarrow> (bytes \<times> bytes) res" where
  "encrypt_steps X s content =
     rbind (guard (length content \<le> MAX_CONTENT) DataTooLarge) (\<lambda>_.
     rbind (guard (ds_counter s + 1 \<le> u64_max) CounterOverflow) (\<lambda>_.
     rbind (rbind (padded content) (plaintext_encode X)) (\<lambda>plaintext.
     let (message_key, next_chain) = derive_message_key X (ds_chain_key s) (ds_direction s) in
     rbind (data_aad X (ds_session_id s) (ds_direction s) (ds_counter s)) (\<lambda>aad.
     rbind (encrypt_message X message_key (message_nonce (ds_direction s) (ds_counter s)) aad plaintext)
       (\<lambda>ciphertext. Inr (ciphertext, next_chain))))))"

definition sender_encrypt :: "ext \<Rightarrow> data_sender \<Rightarrow> bytes \<Rightarrow> frame res \<times> data_sender" where
  "sender_encrypt X s content =
     (case encrypt_steps X s content of
        Inl e \<Rightarrow> (Inl e, s)
      | Inr (ciphertext, next_chain) \<Rightarrow>
          (encode_payload X \<lparr>d_session_id = ds_session_id s, d_direction = ds_direction s,
                             d_counter = ds_counter s, d_ciphertext = ciphertext\<rparr>,
           s\<lparr>ds_chain_key := next_chain, ds_counter := ds_counter s + 1\<rparr>))"

section \<open>The receiver\<close>

record data_receiver =
  dr_session_id :: session_id
  dr_chain :: receiving_chain
  dr_replay :: replay_window
  dr_direction :: direction_id

definition receiver_new :: "session_id \<Rightarrow> direction_id \<Rightarrow> bytes \<Rightarrow> data_receiver" where
  "receiver_new sid direction chain_key =
     \<lparr>dr_session_id = sid, dr_chain = chain_new chain_key direction, dr_replay = window_new,
      dr_direction = direction\<rparr>"

text \<open>The checks before the ratchet is touched: frame type, payload, session, direction, replay.\<close>

definition receive_checks :: "ext \<Rightarrow> data_receiver \<Rightarrow> frame \<Rightarrow> data_payload res" where
  "receive_checks X r f =
     rbind (guard (f_type f = MData) InvalidDataPayload) (\<lambda>_.
     rbind (decode_payload X (f_payload f)) (\<lambda>payload.
     rbind (guard (d_session_id payload = dr_session_id r) InvalidDataPayload) (\<lambda>_.
     rbind (guard (d_direction payload = dr_direction r) InvalidDataPayload) (\<lambda>_.
     rbind (guard (window_classify (dr_replay r) (d_counter payload) = New) ReplayRejected) (\<lambda>_.
     Inr payload)))))"

text \<open>AUTHENTICATE and VALIDATE with a prepared key.\<close>

definition open_payload :: "ext \<Rightarrow> data_receiver \<Rightarrow> data_payload \<Rightarrow> bytes \<Rightarrow> data_plaintext res" where
  "open_payload X r payload message_key =
     rbind (data_aad X (dr_session_id r) (d_direction payload) (d_counter payload)) (\<lambda>aad.
     rbind (decrypt_message X message_key (message_nonce (d_direction payload) (d_counter payload)) aad
              (d_ciphertext payload)) (\<lambda>plaintext.
     plaintext_decode X plaintext))"

definition receiver_decrypt :: "ext \<Rightarrow> data_receiver \<Rightarrow> frame \<Rightarrow> bytes res \<times> data_receiver" where
  "receiver_decrypt X r f =
     (case receive_checks X r f of
        Inl e \<Rightarrow> (Inl e, r)
      | Inr payload \<Rightarrow>
          (case prepare_message_key X (dr_chain r) (d_counter payload) of
             Inl e \<Rightarrow> (Inl e, r)
           | Inr (message_key, chain) \<Rightarrow>
               let prepared = r\<lparr>dr_chain := chain\<rparr> in
               (case open_payload X r payload message_key of
                  Inl e \<Rightarrow> (Inl e, prepared)
                | Inr decoded \<Rightarrow>
                    (case commit_message_key chain (d_counter payload) of
                       Inl e \<Rightarrow> (Inl e, prepared)
                     | Inr chain \<Rightarrow>
                         let committed = prepared\<lparr>dr_chain := chain\<rparr> in
                         (case window_accept (dr_replay r) (d_counter payload) of
                            Inl e \<Rightarrow> (Inl e, committed)
                          | Inr replay \<Rightarrow>
                              (Inr (p_content decoded), committed\<lparr>dr_replay := replay\<rparr>))))))"

end
