(* ===== verification/Handshake.thy ===== *)
theory Handshake
  imports Crypto
begin

text \<open>
  \<^verbatim>\<open>ruxmsg-core/src/handshake.rs\<close>: the COMMIT, HELLO, AUTH and SESSION_CONFIRM payloads,
  the transcript both sides build from the HELLOs, and the verification of AUTH and
  SESSION_CONFIRM. The definitions come first; their round trips are in
  \<open>Handshake_Codecs\<close>.
\<close>

section \<open>Shared checks\<close>

definition message_type_for_purpose :: "handshake_purpose \<Rightarrow> message_type" where
  "message_type_for_purpose purpose = (case purpose of PInitial \<Rightarrow> MHandshake | PRekey \<Rightarrow> MRekey)"

text \<open>An initial handshake has no previous session, a rekey names one.\<close>

definition purpose_mismatch :: "handshake_purpose \<Rightarrow> session_id option \<Rightarrow> bool" where
  "purpose_mismatch purpose previous \<longleftrightarrow>
     purpose = PInitial \<and> previous \<noteq> None \<or> purpose = PRekey \<and> previous = None"

definition hs_uint_value :: "cvalue \<Rightarrow> nat res" where
  "hs_uint_value v = (case v of CInteger i \<Rightarrow> int_u64 i InvalidHandshake | _ \<Rightarrow> Inl InvalidHandshake)"

definition identity_value :: "cvalue \<Rightarrow> peer_identity res" where
  "identity_value v = array_value 32 v ''identity''"

text \<open>\<^verbatim>\<open>fields[i].take().ok_or(invalid)?\<close>\<close>

definition required :: "cvalue option list \<Rightarrow> nat \<Rightarrow> error \<Rightarrow> cvalue res" where
  "required slots i invalid = ok_or (slots ! i) invalid"

definition required_uint :: "cvalue option list \<Rightarrow> nat \<Rightarrow> nat res" where
  "required_uint slots i = rbind (required slots i InvalidHandshake) hs_uint_value"

definition required_array :: "cvalue option list \<Rightarrow> nat \<Rightarrow> nat \<Rightarrow> string \<Rightarrow> bytes res" where
  "required_array slots i n kind =
     rbind (required slots i InvalidHandshake) (\<lambda>v. array_value n v kind)"

definition optional_array :: "cvalue option list \<Rightarrow> nat \<Rightarrow> nat \<Rightarrow> string \<Rightarrow> bytes option res" where
  "optional_array slots i n kind = traverse_opt (\<lambda>v. array_value n v kind) (slots ! i)"

definition optional_entry :: "nat \<Rightarrow> bytes option \<Rightarrow> (cvalue \<times> cvalue) list" where
  "optional_entry k v = (case v of None \<Rightarrow> [] | Some b \<Rightarrow> [(uint k, CBytes b)])"

section \<open>HELLO\<close>

record hello_payload =
  h_cipher_suite :: nat
  h_purpose :: handshake_purpose
  h_role :: hello_role
  h_identity :: peer_identity
  h_ephemeral :: bytes
  h_nonce :: bytes
  h_previous :: "session_id option"

definition hello_encode :: "ext \<Rightarrow> hello_payload \<Rightarrow> frame res" where
  "hello_encode X h =
     rbind (guard (h_cipher_suite h = 1) InvalidHandshake) (\<lambda>_.
     rbind (guard (\<not> purpose_mismatch (h_purpose h) (h_previous h)) InvalidHandshake) (\<lambda>_.
     rbind (cbor_encode X (CMap (
       [(uint 0, uint 1),
        (uint 1, uint (h_cipher_suite h)),
        (uint 2, uint (purpose_code (h_purpose h))),
        (uint 3, uint (role_code (h_role h))),
        (uint 4, CBytes (h_identity h)),
        (uint 5, CBytes (h_ephemeral h)),
        (uint 6, CBytes (h_nonce h))]
       @ optional_entry 7 (h_previous h)))) (\<lambda>encoded.
     frame_new (message_type_for_purpose (h_purpose h)) encoded)))"

definition hello_decode :: "ext \<Rightarrow> frame \<Rightarrow> hello_payload res" where
  "hello_decode X f =
     rbind (guard (f_type f = MHandshake \<or> f_type f = MRekey) InvalidHandshake) (\<lambda>_.
     rbind (validate_cbor_map X f) (\<lambda>entries.
     rbind (guard (7 \<le> length entries \<and> length entries \<le> 8) InvalidHandshake) (\<lambda>_.
     rbind (map_into_fields entries 8 InvalidHandshake) (\<lambda>slots.
     rbind (required_uint slots 0) (\<lambda>protocol_version.
     rbind (guard (protocol_version = 1) (UnsupportedVersion protocol_version)) (\<lambda>_.
     rbind (required_uint slots 1) (\<lambda>cipher_suite.
     rbind (guard (cipher_suite = 1) InvalidHandshake) (\<lambda>_.
     rbind (rbind (required_uint slots 2) purpose_try_from) (\<lambda>purpose.
     rbind (rbind (required_uint slots 3) role_try_from) (\<lambda>role.
     rbind (rbind (required slots 4 InvalidHandshake) identity_value) (\<lambda>identity.
     rbind (required_array slots 5 32 ''ephemeral'') (\<lambda>ephemeral.
     rbind (required_array slots 6 16 ''nonce'') (\<lambda>nonce.
     rbind (optional_array slots 7 16 ''session ID'') (\<lambda>previous.
     rbind (guard (\<not> purpose_mismatch purpose previous) InvalidHandshake) (\<lambda>_.
     rbind (guard (f_type f = message_type_for_purpose purpose) InvalidHandshake) (\<lambda>_.
     Inr \<lparr>h_cipher_suite = cipher_suite, h_purpose = purpose, h_role = role, h_identity = identity,
          h_ephemeral = ephemeral, h_nonce = nonce, h_previous = previous\<rparr>))))))))))))))))"

section \<open>COMMIT\<close>

record commit_payload =
  m_cipher_suite :: nat
  m_purpose :: handshake_purpose
  m_commitment :: bytes
  m_previous :: "session_id option"

definition commit_encode :: "ext \<Rightarrow> commit_payload \<Rightarrow> frame res" where
  "commit_encode X c =
     rbind (guard (m_cipher_suite c = 1) InvalidHandshake) (\<lambda>_.
     rbind (guard (\<not> purpose_mismatch (m_purpose c) (m_previous c)) InvalidHandshake) (\<lambda>_.
     rbind (cbor_encode X (CMap (
       [(uint 0, uint 1),
        (uint 1, uint (m_cipher_suite c)),
        (uint 2, uint (purpose_code (m_purpose c))),
        (uint 3, CBytes (m_commitment c))]
       @ optional_entry 4 (m_previous c)))) (\<lambda>encoded.
     frame_new (message_type_for_purpose (m_purpose c)) encoded)))"

definition commit_decode :: "ext \<Rightarrow> frame \<Rightarrow> commit_payload res" where
  "commit_decode X f =
     rbind (guard (f_type f = MHandshake \<or> f_type f = MRekey) InvalidHandshake) (\<lambda>_.
     rbind (validate_cbor_map X f) (\<lambda>entries.
     rbind (guard (4 \<le> length entries \<and> length entries \<le> 5) InvalidHandshake) (\<lambda>_.
     rbind (map_into_fields entries 5 InvalidHandshake) (\<lambda>slots.
     rbind (required_uint slots 0) (\<lambda>protocol_version.
     rbind (guard (protocol_version = 1) (UnsupportedVersion protocol_version)) (\<lambda>_.
     rbind (required_uint slots 1) (\<lambda>cipher_suite.
     rbind (guard (cipher_suite = 1) InvalidHandshake) (\<lambda>_.
     rbind (rbind (required_uint slots 2) purpose_try_from) (\<lambda>purpose.
     rbind (required_array slots 3 32 ''commitment'') (\<lambda>commitment.
     rbind (optional_array slots 4 16 ''session ID'') (\<lambda>previous.
     rbind (guard (\<not> purpose_mismatch purpose previous) InvalidHandshake) (\<lambda>_.
     rbind (guard (f_type f = message_type_for_purpose purpose) InvalidHandshake) (\<lambda>_.
     Inr \<lparr>m_cipher_suite = cipher_suite, m_purpose = purpose, m_commitment = commitment,
          m_previous = previous\<rparr>)))))))))))))"

section \<open>The transcript of two HELLOs\<close>

definition transcript_from_hellos :: "hello_payload \<Rightarrow> hello_payload \<Rightarrow> transcript res" where
  "transcript_from_hellos initiator responder =
     (if h_role initiator \<noteq> Initiator \<or> h_role responder \<noteq> Responder
         \<or> h_cipher_suite initiator \<noteq> h_cipher_suite responder
         \<or> h_purpose initiator \<noteq> h_purpose responder
         \<or> h_previous initiator \<noteq> h_previous responder
      then Inl InvalidHandshake
      else Inr \<lparr>t_purpose = h_purpose initiator, t_cipher_suite = h_cipher_suite initiator,
        t_initiator_identity = h_identity initiator, t_responder_identity = h_identity responder,
        t_initiator_ephemeral = h_ephemeral initiator, t_responder_ephemeral = h_ephemeral responder,
        t_initiator_nonce = h_nonce initiator, t_responder_nonce = h_nonce responder,
        t_previous_session_id = h_previous initiator\<rparr>)"

section \<open>AUTH\<close>

record handshake_payload =
  a_purpose :: handshake_purpose
  a_stage :: nat
  a_cipher_suite :: nat
  a_initiator_identity :: peer_identity
  a_responder_identity :: peer_identity
  a_initiator_ephemeral :: bytes
  a_responder_ephemeral :: bytes
  a_initiator_nonce :: bytes
  a_responder_nonce :: bytes
  a_previous :: "session_id option"
  a_initiator_signature :: bytes
  a_responder_signature :: "bytes option"

definition auth_transcript :: "handshake_payload \<Rightarrow> transcript" where
  "auth_transcript a =
     \<lparr>t_purpose = a_purpose a, t_cipher_suite = a_cipher_suite a,
      t_initiator_identity = a_initiator_identity a, t_responder_identity = a_responder_identity a,
      t_initiator_ephemeral = a_initiator_ephemeral a, t_responder_ephemeral = a_responder_ephemeral a,
      t_initiator_nonce = a_initiator_nonce a, t_responder_nonce = a_responder_nonce a,
      t_previous_session_id = a_previous a\<rparr>"

definition auth_encode :: "ext \<Rightarrow> handshake_payload \<Rightarrow> frame res" where
  "auth_encode X a =
     rbind (guard (a_cipher_suite a = 1) InvalidHandshake) (\<lambda>_.
     rbind (guard (\<not> (a_stage a > 1 \<or> (a_stage a = 0 \<and> a_responder_signature a \<noteq> None)))
              InvalidHandshake) (\<lambda>_.
     rbind (guard (\<not> (a_purpose a = PInitial \<and> a_previous a \<noteq> None)) InvalidHandshake) (\<lambda>_.
     rbind (guard (\<not> (a_purpose a = PRekey \<and> a_previous a = None)) InvalidHandshake) (\<lambda>_.
     rbind (cbor_encode X (CMap (sort_key entry_key (
       [(uint 0, uint (purpose_code (a_purpose a))),
        (uint 1, uint (a_stage a)),
        (uint 2, uint (a_cipher_suite a)),
        (uint 3, CBytes (a_initiator_identity a)),
        (uint 4, CBytes (a_responder_identity a)),
        (uint 5, CBytes (a_initiator_ephemeral a)),
        (uint 6, CBytes (a_responder_ephemeral a)),
        (uint 7, CBytes (a_initiator_nonce a)),
        (uint 8, CBytes (a_responder_nonce a)),
        (uint 10, CBytes (a_initiator_signature a))]
       @ optional_entry 9 (a_previous a)
       @ optional_entry 11 (a_responder_signature a))))) (\<lambda>encoded.
     frame_new (message_type_for_purpose (a_purpose a)) encoded)))))"

definition auth_decode :: "ext \<Rightarrow> frame \<Rightarrow> handshake_payload res" where
  "auth_decode X f =
     rbind (guard (f_type f = MHandshake \<or> f_type f = MRekey) InvalidHandshake) (\<lambda>_.
     rbind (validate_cbor_map X f) (\<lambda>entries.
     rbind (map_into_fields entries 12 InvalidHandshake) (\<lambda>slots.
     rbind (rbind (required_uint slots 0) purpose_try_from) (\<lambda>purpose.
     rbind (required_uint slots 1) (\<lambda>stage.
     rbind (guard (stage \<le> 255) InvalidHandshake) (\<lambda>_.
     rbind (required_uint slots 2) (\<lambda>cipher_suite.
     rbind (guard (cipher_suite = 1) InvalidHandshake) (\<lambda>_.
     rbind (rbind (required slots 3 InvalidHandshake) identity_value) (\<lambda>initiator_identity.
     rbind (rbind (required slots 4 InvalidHandshake) identity_value) (\<lambda>responder_identity.
     rbind (required_array slots 5 32 ''ephemeral'') (\<lambda>initiator_ephemeral.
     rbind (required_array slots 6 32 ''ephemeral'') (\<lambda>responder_ephemeral.
     rbind (required_array slots 7 16 ''nonce'') (\<lambda>initiator_nonce.
     rbind (required_array slots 8 16 ''nonce'') (\<lambda>responder_nonce.
     rbind (optional_array slots 9 16 ''session ID'') (\<lambda>previous.
     rbind (required_array slots 10 64 ''signature'') (\<lambda>initiator_signature.
     rbind (optional_array slots 11 64 ''signature'') (\<lambda>responder_signature.
     rbind (guard (\<not> (stage > 1 \<or> (stage = 1 \<and> responder_signature = None)
                        \<or> (stage = 0 \<and> responder_signature \<noteq> None))) InvalidHandshake) (\<lambda>_.
     rbind (guard (\<not> (purpose = PInitial \<and> previous \<noteq> None)) InvalidHandshake) (\<lambda>_.
     rbind (guard (\<not> (purpose = PRekey \<and> previous = None)) InvalidHandshake) (\<lambda>_.
     rbind (guard (f_type f = message_type_for_purpose purpose) InvalidHandshake) (\<lambda>_.
     Inr \<lparr>a_purpose = purpose, a_stage = stage, a_cipher_suite = cipher_suite,
          a_initiator_identity = initiator_identity, a_responder_identity = responder_identity,
          a_initiator_ephemeral = initiator_ephemeral, a_responder_ephemeral = responder_ephemeral,
          a_initiator_nonce = initiator_nonce, a_responder_nonce = responder_nonce,
          a_previous = previous, a_initiator_signature = initiator_signature,
          a_responder_signature = responder_signature\<rparr>)))))))))))))))))))))"

section \<open>SESSION_CONFIRM\<close>

record confirm_payload =
  s_session_id :: session_id
  s_role :: hello_role
  s_confirmation :: bytes

definition confirm_encode :: "ext \<Rightarrow> confirm_payload \<Rightarrow> frame res" where
  "confirm_encode X s =
     rbind (cbor_encode X (CMap
       [(uint 0, CBytes (s_session_id s)),
        (uint 1, uint (role_code (s_role s))),
        (uint 2, CBytes (s_confirmation s))])) (\<lambda>encoded.
     frame_new MSessionConfirm encoded)"

definition confirm_decode :: "ext \<Rightarrow> frame \<Rightarrow> confirm_payload res" where
  "confirm_decode X f =
     rbind (guard (f_type f = MSessionConfirm) ConfirmationInvalid) (\<lambda>_.
     rbind (validate_cbor_map X f) (\<lambda>entries.
     rbind (guard (length entries = 3) ConfirmationInvalid) (\<lambda>_.
     rbind (map_into_fields entries 3 ConfirmationInvalid) (\<lambda>slots.
     rbind (rbind (required slots 0 ConfirmationInvalid) (\<lambda>v. array_value 16 v ''session ID'')) (\<lambda>sid.
     rbind (rbind (required slots 1 ConfirmationInvalid) (\<lambda>v.
              rbind (hs_uint_value v) (\<lambda>n. map_err (\<lambda>_. ConfirmationInvalid) (role_try_from n)))) (\<lambda>role.
     rbind (rbind (required slots 2 ConfirmationInvalid) (\<lambda>v. array_value 32 v ''confirmation''))
       (\<lambda>confirmation.
     Inr \<lparr>s_session_id = sid, s_role = role, s_confirmation = confirmation\<rparr>)))))))"

definition confirm_verify :: "ext \<Rightarrow> confirm_payload \<Rightarrow> session_keys \<Rightarrow> bytes \<Rightarrow> unit res" where
  "confirm_verify X s keys hash =
     (if s_session_id s \<noteq> k_session_id keys then Inl ConfirmationInvalid
      else verify_confirmation X (k_confirmation_key keys) hash (s_confirmation s)
             (s_role s = Initiator))"

definition confirm_verify_from ::
  "ext \<Rightarrow> confirm_payload \<Rightarrow> session_keys \<Rightarrow> bytes \<Rightarrow> hello_role \<Rightarrow> unit res" where
  "confirm_verify_from X s keys hash expected_role =
     (if s_role s \<noteq> expected_role then Inl ConfirmationInvalid else confirm_verify X s keys hash)"

section \<open>Verifying AUTH\<close>

definition verify_handshake_for_role ::
  "ext \<Rightarrow> handshake_payload \<Rightarrow> transcript \<Rightarrow> bytes \<Rightarrow> bool \<Rightarrow> (session_keys \<times> bytes) res" where
  "verify_handshake_for_role X payload local_transcript shared sas_approved =
     rbind (guard sas_approved SasRejected) (\<lambda>_.
     rbind (guard (auth_transcript payload = local_transcript) InvalidHandshake) (\<lambda>_.
     rbind (transcript_encode X local_transcript) (\<lambda>encoded.
     let hash = transcript_hash X encoded in
     rbind (verify_transcript_signature X (a_initiator_identity payload) hash
              (a_initiator_signature payload) True) (\<lambda>_.
     rbind (case a_responder_signature payload of
              Some signature \<Rightarrow>
                verify_transcript_signature X (a_responder_identity payload) hash signature False
            | None \<Rightarrow> guard (a_stage payload = 0) InvalidHandshake) (\<lambda>_.
     rbind (derive_session_keys X shared hash) (\<lambda>keys. Inr (keys, hash)))))))"

text \<open>Comparison of the raw keys as unsigned lexicographic byte strings.\<close>

fun bytes_greater :: "bytes \<Rightarrow> bytes \<Rightarrow> bool" where
  "bytes_greater [] ys = False"
| "bytes_greater (x # xs) [] = True"
| "bytes_greater (x # xs) (y # ys) = (y < x \<or> x = y \<and> bytes_greater xs ys)"

definition local_identity_wins_rekey_glare :: "peer_identity \<Rightarrow> peer_identity \<Rightarrow> bool" where
  "local_identity_wins_rekey_glare local_id remote_initiator = bytes_greater local_id remote_initiator"

section \<open>Facts about verification\<close>

lemma glare_total: "bytes_greater a b \<or> a = b \<or> bytes_greater b a"
  by (induction a b rule: bytes_greater.induct) (auto simp: neq_Nil_conv, (case_tac ys; simp)+)

lemma glare_asym: "bytes_greater a b \<Longrightarrow> \<not> bytes_greater b a"
  by (induction a b rule: bytes_greater.induct) auto

lemma verify_handshake_binds:
  assumes "verify_handshake_for_role X payload local_transcript shared approved = Inr (keys, hash)"
  shows "approved \<and> auth_transcript payload = local_transcript \<and>
    (\<exists>encoded. transcript_encode X local_transcript = Inr encoded \<and> hash = transcript_hash X encoded) \<and>
    ed_verify_strict X (t_initiator_identity local_transcript)
      (signature_domain True @ hash) (a_initiator_signature payload) \<and>
    (\<forall>sig. a_responder_signature payload = Some sig \<longrightarrow>
       ed_verify_strict X (t_responder_identity local_transcript) (signature_domain False @ hash) sig) \<and>
    derive_session_keys X shared hash = Inr keys"
  using assms
  by (auto simp: verify_handshake_for_role_def Let_def res_simps auth_transcript_def
      verify_transcript_signature_def split: if_splits option.splits)

lemma confirm_verify_from_binds:
  "confirm_verify_from X s keys hash role = Inr () \<longleftrightarrow>
   s_role s = role \<and> s_session_id s = k_session_id keys \<and>
   s_confirmation s = confirmation_mac X (k_confirmation_key keys) hash (role = Initiator)"
  by (auto simp: confirm_verify_from_def confirm_verify_def verify_confirmation_def split: if_splits)

end
