(* ===== verification/Close_Payload.thy ===== *)
theory Close_Payload
  imports Encoding
begin

text \<open>
  \<^verbatim>\<open>ruxmsg-core/src/close.rs\<close>: the CLOSE payload. Encoding bounds the detail and sorts
  the entries by key; decoding checks the frame type, the number of fields, and every field. Its
  round trip is an instance of the payload contract.
\<close>

definition MAX_DETAIL_BYTES :: nat where "MAX_DETAIL_BYTES = 128"

record close_payload =
  c_session_id :: "session_id option"
  c_reason :: close_reason
  c_detail :: "ustr option"

definition close_encode :: "ext \<Rightarrow> close_payload \<Rightarrow> frame res" where
  "close_encode X p =
     (if (case c_detail p of None \<Rightarrow> False | Some detail \<Rightarrow> str_len detail > MAX_DETAIL_BYTES)
      then Inl InvalidClosePayload
      else
        let entries = sort_key entry_key
          ([(uint 1, uint (reason_code (c_reason p)))]
           @ (case c_session_id p of None \<Rightarrow> [] | Some sid \<Rightarrow> [(uint 0, CBytes sid)])
           @ (case c_detail p of None \<Rightarrow> [] | Some detail \<Rightarrow> [(uint 2, CText detail)]))
        in rbind (cbor_encode X (CMap entries)) (\<lambda>encoded. frame_new MClose encoded))"

definition close_uint_value :: "cvalue \<Rightarrow> nat res" where
  "close_uint_value v =
     (case v of CInteger i \<Rightarrow> int_u64 i InvalidClosePayload | _ \<Rightarrow> Inl InvalidClosePayload)"

definition close_detail_value :: "cvalue \<Rightarrow> ustr res" where
  "close_detail_value v =
     (case v of
        CText text \<Rightarrow>
          if str_len text > MAX_DETAIL_BYTES then Inl InvalidClosePayload else Inr text
      | _ \<Rightarrow> Inl InvalidClosePayload)"

definition close_decode :: "ext \<Rightarrow> frame \<Rightarrow> close_payload res" where
  "close_decode X f =
     (if f_type f \<noteq> MClose then Inl InvalidClosePayload
      else
        rbind (validate_cbor_map X f) (\<lambda>entries.
        if \<not> (1 \<le> length entries \<and> length entries \<le> 3) then Inl InvalidClosePayload
        else
          rbind (map_into_fields entries 3 InvalidClosePayload) (\<lambda>slots.
          rbind (traverse_opt (\<lambda>v. map_err (\<lambda>_. InvalidClosePayload) (array_value 16 v ''session ID''))
                   (slots ! 0)) (\<lambda>sid.
          rbind (ok_or (slots ! 1) InvalidClosePayload) (\<lambda>r.
          rbind (close_uint_value r) (\<lambda>n.
          rbind (reason_try_from n) (\<lambda>reason.
          rbind (traverse_opt close_detail_value (slots ! 2)) (\<lambda>detail.
          Inr \<lparr>c_session_id = sid, c_reason = reason, c_detail = detail\<rparr>))))))))"

text \<open>A \<^verbatim>\<open>SessionId\<close> has 16 bytes and a \<^verbatim>\<open>String\<close> holds scalar values.\<close>

definition close_wf :: "close_payload \<Rightarrow> bool" where
  "close_wf p \<longleftrightarrow> (\<forall>s. c_session_id p = Some s \<longrightarrow> length s = 16) \<and>
     (\<forall>d. c_detail p = Some d \<longrightarrow> (\<forall>c \<in> set d. scalar_value c))"

definition close_detail_fits :: "close_payload \<Rightarrow> bool" where
  "close_detail_fits p \<longleftrightarrow> (\<forall>d. c_detail p = Some d \<longrightarrow> str_len d \<le> MAX_DETAIL_BYTES)"

definition close_entries :: "close_payload \<Rightarrow> (nat \<times> cvalue) list" where
  "close_entries p =
     (case c_session_id p of None \<Rightarrow> [] | Some sid \<Rightarrow> [(0, CBytes sid)])
     @ [(1, CInteger (int (reason_code (c_reason p))))]
     @ (case c_detail p of None \<Rightarrow> [] | Some detail \<Rightarrow> [(2, CText detail)])"

lemma close_entries_ok: "close_wf p \<Longrightarrow> close_detail_fits p \<Longrightarrow> entries_ok (close_entries p)"
  using reason_code_bound[of "c_reason p"]
  by (auto simp: close_wf_def close_detail_fits_def entries_ok_def strict_keys_def close_entries_def
      u64_max_def MAX_DETAIL_BYTES_def split: option.splits)

lemma close_payload_size:
  assumes "close_wf p" "close_detail_fits p"
  shows "length (payload_bytes (close_entries p)) \<le> max_payload MClose"
proof -
  have "head_len (str_len d) \<le> 2" if "c_detail p = Some d" for d
    using assms(2) that by (auto simp: close_detail_fits_def MAX_DETAIL_BYTES_def head_len_def)
  moreover have "str_len d \<le> 128" if "c_detail p = Some d" for d
    using assms(2) that by (auto simp: close_detail_fits_def MAX_DETAIL_BYTES_def)
  ultimately show ?thesis
    using assms(1) reason_code_bound[of "c_reason p"]
    by (auto simp: length_payload_bytes close_entries_def close_wf_def head_len_def length_utf8
        split: option.splits)
qed

lemma close_encode_entries:
  assumes "cbor_ok X" "close_wf p" "close_detail_fits p"
  shows "close_encode X p =
    Inr \<lparr>f_version = V1, f_type = MClose, f_payload = payload_bytes (close_entries p)\<rparr>"
proof -
  have "sort_key entry_key
      ([(uint 1, uint (reason_code (c_reason p)))]
       @ (case c_session_id p of None \<Rightarrow> [] | Some sid \<Rightarrow> [(uint 0, CBytes sid)])
       @ (case c_detail p of None \<Rightarrow> [] | Some detail \<Rightarrow> [(uint 2, CText detail)]))
      = map value_entry (close_entries p)"
    using reason_code_bound[of "c_reason p"]
    by (auto simp: close_entries_def entry_key_def u64_max_def split: option.splits)
  moreover have "frame_new MClose (payload_bytes (close_entries p)) =
      Inr \<lparr>f_version = V1, f_type = MClose, f_payload = payload_bytes (close_entries p)\<rparr>"
    using close_payload_size[OF assms(2,3)] by (simp add: frame_new_iff)
  ultimately show ?thesis
    using assms(3) cbor_encode_entries[OF assms(1) close_entries_ok[OF assms(2,3)]]
    by (auto simp: close_encode_def close_detail_fits_def split: option.splits)
qed

lemma close_encode_fits: "close_encode X p = Inr f \<Longrightarrow> close_detail_fits p"
  by (auto simp: close_encode_def close_detail_fits_def split: if_splits option.splits)

lemma close_encode_frame_ok: "close_encode X p = Inr f \<Longrightarrow> frame_ok f"
  by (auto simp: close_encode_def res_simps Let_def dest: frame_new_ok split: if_splits)

lemma close_decode_encode:
  assumes "cbor_ok X" "close_wf p" "close_encode X p = Inr f"
  shows "close_decode X f = Inr p"
proof -
  have fits: "close_detail_fits p" by (rule close_encode_fits[OF assms(3)])
  have f: "f = \<lparr>f_version = V1, f_type = MClose, f_payload = payload_bytes (close_entries p)\<rparr>"
    using assms(3) close_encode_entries[OF assms(1,2) fits] by simp
  have val: "validate_cbor_map X f = Inr (close_entries p)"
    using assms(1) close_entries_ok[OF assms(2) fits] close_payload_size[OF assms(2) fits]
    by (intro validate_payload[where t = MClose]) (simp_all add: f frame_new_iff)
  have slots: "map_into_fields (close_entries p) 3 InvalidClosePayload =
      Inr [map_option CBytes (c_session_id p), Some (CInteger (int (reason_code (c_reason p)))),
           map_option CText (c_detail p)]"
    by (auto simp: map_into_fields_iff close_entries_def upt_rec split: option.splits)
  have "close_uint_value (CInteger (int (reason_code (c_reason p)))) = Inr (reason_code (c_reason p))"
    using reason_code_bound[of "c_reason p"] by (simp add: close_uint_value_def int_u64_def u64_max_def)
  moreover have "traverse_opt (\<lambda>v. map_err (\<lambda>_. InvalidClosePayload) (array_value 16 v ''session ID''))
      (map_option CBytes (c_session_id p)) = Inr (c_session_id p)"
    using assms(2) by (cases "c_session_id p") (auto simp: close_wf_def array_value_def)
  moreover have "traverse_opt close_detail_value (map_option CText (c_detail p)) = Inr (c_detail p)"
    using fits by (cases "c_detail p") (auto simp: close_detail_fits_def close_detail_value_def)
  moreover have "1 \<le> length (close_entries p) \<and> length (close_entries p) \<le> 3"
    by (auto simp: close_entries_def split: option.splits)
  ultimately show ?thesis
    using val slots by (simp add: close_decode_def f numeral_2_eq_2)
qed

sublocale cbor_lib \<subseteq> close: payload_codec "close_encode X" "close_decode X" close_wf
  using lib close_decode_encode close_encode_frame_ok by unfold_locales blast+

end
