(* ===== verification/Machine.thy ===== *)
theory Machine
  imports Data Handshake Close_Payload
begin

text \<open>
  \<^verbatim>\<open>ruxmsg-core/src/machine.rs\<close>: the sans-IO engine. A method that takes
  \<^verbatim>\<open>&mut self\<close> and the effect vector \<^verbatim>\<open>out\<close> is a function on the pair of both
  (\<open>ctx\<close>); effects are appended, so the list is in the order the driver applies them. A
  fallible method returns the result beside the pair: what it changed or emitted before an error
  stays. The handshake run, which the code moves out of \<^verbatim>\<open>self.run\<close> while it is driven
  and drops on an error, is passed and returned explicitly. The random source is the infinite byte
  sequence it will yield.
\<close>

definition LATE_REKEY_FRAME_GRACE :: nat where "LATE_REKEY_FRAME_GRACE = 8"
definition REKEY_REJECTION_WARNING_THRESHOLD :: nat where "REKEY_REJECTION_WARNING_THRESHOLD = 3"

section \<open>Inputs, effects and events\<close>

type_synonym deadline_id = nat

datatype deadline_kind = KHandshakeFrame | KSasDecision | KHandshakeTotal | KRekeyDue | KDrain

datatype rekey_failure = FTimeout | FIdentityMismatch | FInvalid | FRepeated

datatype send_rejection = NotActive | TooLarge

datatype close_cause = CLocal | CPeerUnauthenticated close_reason | CTransportLost | CProtocolError
  | CAuthenticationFailure | CSasRejected | CTimeout

datatype event = Established peer_identity | RekeyStarted | RekeyCompleted
  | RekeyFailed rekey_failure | DataRejected | SendRejected send_rejection | Closed close_cause

datatype input = Start | FrameReceived frame | SasDecision bool | LocalSend bytes
  | LocalClose close_reason | RequestRekey | Timeout deadline_id | TransportClosed | Malformed bool

text \<open>A \<^verbatim>\<open>Duration\<close> is its number of seconds.\<close>

datatype effect = Send frame | SetDeadline deadline_id deadline_kind nat
  | CancelDeadline deadline_id | RequestSas "string list" peer_identity | Deliver bytes
  | Notify event | CloseTransport

datatype engine_state = SIdle | SHandshaking | SActive | SRekeying | SClosed

section \<open>The engine\<close>

datatype phase = PhIdle | PhHandshaking | PhEstablished | PhClosed

datatype step = Hello | Reveal | Sas | AuthResp | AuthInit | ConfirmResp | ConfirmInit

record session =
  sn_id :: session_id
  sn_peer :: peer_identity
  sn_sender :: data_sender
  sn_receiver :: data_receiver

definition session_new :: "session_keys \<Rightarrow> hello_role \<Rightarrow> peer_identity \<Rightarrow> session" where
  "session_new keys role peer =
     (let (send_dir, send_key, recv_dir, recv_key) =
        (case role of
           Initiator \<Rightarrow> (InitiatorToResponder, k_initiator_to_responder keys,
                         ResponderToInitiator, k_responder_to_initiator keys)
         | Responder \<Rightarrow> (ResponderToInitiator, k_responder_to_initiator keys,
                         InitiatorToResponder, k_initiator_to_responder keys))
      in \<lparr>sn_id = k_session_id keys, sn_peer = peer,
          sn_sender = sender_new (k_session_id keys) send_dir send_key,
          sn_receiver = receiver_new (k_session_id keys) recv_dir recv_key\<rparr>)"

record run =
  ru_purpose :: handshake_purpose
  ru_role :: hello_role
  ru_previous :: "session_id option"
  ru_ephemeral :: ephemeral_keypair
  ru_local_hello :: hello_payload
  ru_local_hello_frame :: "frame option"
  ru_commit :: "commit_payload option"
  ru_step :: step
  ru_remote_identity :: "peer_identity option"
  ru_shared :: "bytes option"
  ru_transcript :: "transcript option"
  ru_hash :: "bytes option"
  ru_keys :: "session_keys option"
  ru_early :: "frame option"

record candidate =
  ca_keys :: session_keys
  ca_peer :: peer_identity
  ca_role :: hello_role

record engine =
  en_role :: hello_role
  en_identity :: identity_keypair
  en_entropy :: "nat \<Rightarrow> u8"
  en_phase :: phase
  en_run :: "run option"
  en_active :: "session option"
  en_draining :: "session option"
  en_deadlines :: "(deadline_id \<times> deadline_kind) list"
  en_next_deadline :: nat
  en_messages :: nat
  en_rekey_message_limit :: nat
  en_rekey_blocked :: bool
  en_late_rekey_frames :: nat
  en_consecutive_rekey_rejections :: nat

definition engine_new :: "hello_role \<Rightarrow> identity_keypair \<Rightarrow> (nat \<Rightarrow> u8) \<Rightarrow> engine" where
  "engine_new role identity entropy =
     \<lparr>en_role = role, en_identity = identity, en_entropy = entropy, en_phase = PhIdle, en_run = None,
      en_active = None, en_draining = None, en_deadlines = [], en_next_deadline = 0, en_messages = 0,
      en_rekey_message_limit = REKEY_MESSAGE_LIMIT, en_rekey_blocked = False,
      en_late_rekey_frames = 0, en_consecutive_rekey_rejections = 0\<rparr>"

definition set_rekey_message_limit :: "nat \<Rightarrow> engine \<Rightarrow> engine" where
  "set_rekey_message_limit limit en = en\<lparr>en_rekey_message_limit := max limit 1\<rparr>"

definition engine_state :: "engine \<Rightarrow> engine_state" where
  "engine_state en =
     (case en_phase en of
        PhIdle \<Rightarrow> SIdle
      | PhHandshaking \<Rightarrow> SHandshaking
      | PhEstablished \<Rightarrow> if en_run en \<noteq> None then SRekeying else SActive
      | PhClosed \<Rightarrow> SClosed)"

definition peer_identity :: "engine \<Rightarrow> peer_identity option" where
  "peer_identity en = map_option sn_peer (en_active en)"

definition active_session_id :: "engine \<Rightarrow> session_id option" where
  "active_session_id en = map_option sn_id (en_active en)"

definition draining_session_id :: "engine \<Rightarrow> session_id option" where
  "draining_session_id en = map_option sn_id (en_draining en)"

definition armed_deadlines :: "engine \<Rightarrow> nat" where
  "armed_deadlines en = length (en_deadlines en)"

type_synonym ctx = "engine \<times> effect list"

abbreviation emit :: "effect \<Rightarrow> ctx \<Rightarrow> ctx" where
  "emit e c \<equiv> (fst c, snd c @ [e])"

abbreviation upd :: "(engine \<Rightarrow> engine) \<Rightarrow> ctx \<Rightarrow> ctx" where
  "upd f c \<equiv> (f (fst c), snd c)"

text \<open>\<open>sbind (m, c) f\<close>: \<^verbatim>\<open>?\<close> in a method that has reached the state \<open>c\<close>.\<close>

fun sbind :: "'a res \<times> 's \<Rightarrow> ('a \<Rightarrow> 's \<Rightarrow> 'b res \<times> 's) \<Rightarrow> 'b res \<times> 's" where
  "sbind (Inl e, c) f = (Inl e, c)"
| "sbind (Inr x, c) f = f x c"

section \<open>Deadlines\<close>

definition cancel :: "deadline_kind \<Rightarrow> ctx \<Rightarrow> ctx" where
  "cancel kind c =
     (let ds = en_deadlines (fst c) in
      ((fst c)\<lparr>en_deadlines := filter (\<lambda>(id, existing). existing \<noteq> kind) ds\<rparr>,
       snd c @ map (\<lambda>(id, existing). CancelDeadline id) (filter (\<lambda>(id, existing). existing = kind) ds)))"

definition arm :: "deadline_kind \<Rightarrow> nat \<Rightarrow> ctx \<Rightarrow> ctx" where
  "arm kind after c =
     (let c = cancel kind c;
          id = en_next_deadline (fst c);
          c = upd (\<lambda>en. en\<lparr>en_next_deadline := id + 1, en_deadlines := en_deadlines en @ [(id, kind)]\<rparr>) c
      in emit (SetDeadline id kind after) c)"

definition cancel_all :: "ctx \<Rightarrow> ctx" where
  "cancel_all c =
     ((fst c)\<lparr>en_deadlines := []\<rparr>,
      snd c @ map (\<lambda>(id, kind). CancelDeadline id) (en_deadlines (fst c)))"

definition rearm_frame_deadline :: "handshake_purpose \<Rightarrow> step \<Rightarrow> ctx \<Rightarrow> ctx" where
  "rearm_frame_deadline purpose st c =
     (let c = cancel KHandshakeFrame c;
          bounded = (case purpose of
                       PRekey \<Rightarrow> True
                     | PInitial \<Rightarrow> st = Hello \<or> st = Reveal \<or> st = ConfirmResp \<or> st = ConfirmInit)
      in if bounded then arm KHandshakeFrame HANDSHAKE_FRAME_TIMEOUT_SECS c else c)"

section \<open>Ending\<close>

definition terminate :: "ext \<Rightarrow> close_cause \<Rightarrow> close_reason option \<Rightarrow> ctx \<Rightarrow> ctx" where
  "terminate X cause notify_peer c =
     (let c = cancel_all c;
          c = (case notify_peer of
                 None \<Rightarrow> c
               | Some reason \<Rightarrow>
                   (case close_encode X \<lparr>c_session_id = active_session_id (fst c), c_reason = reason,
                                         c_detail = None\<rparr> of
                      Inl e \<Rightarrow> c
                    | Inr f \<Rightarrow> emit (Send f) c));
          c = emit (Notify (Closed cause)) c;
          c = emit CloseTransport c
      in upd (\<lambda>en. en\<lparr>en_run := None, en_active := None, en_draining := None, en_phase := PhClosed\<rparr>) c)"

abbreviation protocol_error :: "ext \<Rightarrow> ctx \<Rightarrow> ctx" where
  "protocol_error X c \<equiv> terminate X CProtocolError (Some RProtocolError) c"

definition fail_initial :: "ext \<Rightarrow> error \<Rightarrow> ctx \<Rightarrow> ctx" where
  "fail_initial X e c =
     (let (cause, reason) =
        (case e of
           SasRejected \<Rightarrow> (CSasRejected, RAuthenticationFailure)
         | SignatureInvalid \<Rightarrow> (CAuthenticationFailure, RAuthenticationFailure)
         | ConfirmationInvalid \<Rightarrow> (CAuthenticationFailure, RAuthenticationFailure)
         | IdentityMismatch \<Rightarrow> (CAuthenticationFailure, RIdentityChanged)
         | _ \<Rightarrow> (CProtocolError, RProtocolError))
      in terminate X cause (Some reason) c)"

definition fail_rekey :: "error \<Rightarrow> ctx \<Rightarrow> ctx" where
  "fail_rekey e c =
     (let c = upd (\<lambda>en. en\<lparr>en_run := None, en_late_rekey_frames := LATE_REKEY_FRAME_GRACE\<rparr>) c;
          c = cancel KHandshakeFrame c;
          c = cancel KHandshakeTotal c;
          c = upd (\<lambda>en. en\<lparr>en_rekey_blocked := True\<rparr>) c;
          c = arm KRekeyDue REKEY_RETRY_SECS c;
          failure = (case e of
                       TransportTimeout \<Rightarrow> FTimeout
                     | IdentityMismatch \<Rightarrow> FIdentityMismatch
                     | _ \<Rightarrow> FInvalid)
      in emit (Notify (RekeyFailed failure)) c)"

definition note_rekey_rejection :: "ctx \<Rightarrow> ctx" where
  "note_rekey_rejection c =
     (let n = en_consecutive_rekey_rejections (fst c) in
      if n < REKEY_REJECTION_WARNING_THRESHOLD then
        let c = upd (\<lambda>en. en\<lparr>en_consecutive_rekey_rejections := n + 1\<rparr>) c in
        if n + 1 = REKEY_REJECTION_WARNING_THRESHOLD then emit (Notify (RekeyFailed FRepeated)) c else c
      else c)"

section \<open>Starting a run\<close>

text \<open>\<^verbatim>\<open>entropy.fill\<close> takes the next bytes of the source.\<close>

definition fill :: "nat \<Rightarrow> ctx \<Rightarrow> bytes \<times> ctx" where
  "fill n c =
     (map (en_entropy (fst c)) [0..<n], upd (\<lambda>en. en\<lparr>en_entropy := (\<lambda>i. en_entropy en (i + n))\<rparr>) c)"

definition fresh_keys :: "ext \<Rightarrow> ctx \<Rightarrow> (ephemeral_keypair \<times> bytes) \<times> ctx" where
  "fresh_keys X c =
     (let (secret, c) = fill 32 c;
          (nonce, c) = fill 16 c
      in ((ephemeral_from_bytes X secret, nonce), c))"

definition start_initiator_run ::
  "ext \<Rightarrow> handshake_purpose \<Rightarrow> session_id option \<Rightarrow> ctx \<Rightarrow> unit res \<times> ctx" where
  "start_initiator_run X purpose previous c =
     (let ((ephemeral, nonce), c) = fresh_keys X c;
          local_hello = \<lparr>h_cipher_suite = 1, h_purpose = purpose, h_role = Initiator,
            h_identity = identity_of X (en_identity (fst c)), h_ephemeral = e_public ephemeral,
            h_nonce = nonce, h_previous = previous\<rparr>
      in sbind (hello_encode X local_hello, c) (\<lambda>hello_frame c.
         sbind (commit_encode X \<lparr>m_cipher_suite = 1, m_purpose = purpose,
                  m_commitment = commit_hash X (f_payload hello_frame), m_previous = previous\<rparr>, c)
           (\<lambda>commit_frame c.
         let c = emit (Send commit_frame) c in
         (Inr (), upd (\<lambda>en. en\<lparr>en_run := Some \<lparr>ru_purpose = purpose, ru_role = Initiator,
            ru_previous = previous, ru_ephemeral = ephemeral, ru_local_hello = local_hello,
            ru_local_hello_frame = Some hello_frame, ru_commit = None, ru_step = Hello,
            ru_remote_identity = None, ru_shared = None, ru_transcript = None, ru_hash = None,
            ru_keys = None, ru_early = None\<rparr>\<rparr>) c))))"

definition start_responder_run :: "ext \<Rightarrow> commit_payload \<Rightarrow> bool \<Rightarrow> ctx \<Rightarrow> unit res \<times> ctx" where
  "start_responder_run X commit emit_rekey_started c =
     (let ((ephemeral, nonce), c) = fresh_keys X c;
          local_hello = \<lparr>h_cipher_suite = m_cipher_suite commit, h_purpose = m_purpose commit,
            h_role = Responder, h_identity = identity_of X (en_identity (fst c)),
            h_ephemeral = e_public ephemeral, h_nonce = nonce, h_previous = m_previous commit\<rparr>
      in sbind (hello_encode X local_hello, c) (\<lambda>hello_frame c.
         let c = emit (Send hello_frame) c;
             purpose = m_purpose commit;
             c = upd (\<lambda>en. en\<lparr>en_run := Some \<lparr>ru_purpose = purpose, ru_role = Responder,
               ru_previous = m_previous commit, ru_ephemeral = ephemeral, ru_local_hello = local_hello,
               ru_local_hello_frame = None, ru_commit = Some commit, ru_step = Reveal,
               ru_remote_identity = None, ru_shared = None, ru_transcript = None, ru_hash = None,
               ru_keys = None, ru_early = None\<rparr>\<rparr>) c;
             c = (if purpose = PRekey then
                    let c = arm KHandshakeTotal HANDSHAKE_TOTAL_TIMEOUT_SECS c in
                    if emit_rekey_started then emit (Notify RekeyStarted) c else c
                  else c)
         in (Inr (), rearm_frame_deadline purpose Reveal c)))"

definition start :: "ext \<Rightarrow> ctx \<Rightarrow> ctx" where
  "start X c =
     (if en_phase (fst c) \<noteq> PhIdle then c
      else
        let c = upd (\<lambda>en. en\<lparr>en_phase := PhHandshaking\<rparr>) c;
            c = arm KHandshakeTotal HANDSHAKE_TOTAL_TIMEOUT_SECS c
        in if en_role (fst c) = Initiator then
             (case start_initiator_run X PInitial None c of
                (Inl e, c) \<Rightarrow> fail_initial X e c
              | (Inr _, c) \<Rightarrow> rearm_frame_deadline PInitial Hello c)
           else arm KHandshakeFrame HANDSHAKE_FRAME_TIMEOUT_SECS c)"

section \<open>Driving a run\<close>

definition check_remote_hello :: "engine \<Rightarrow> run \<Rightarrow> hello_payload \<Rightarrow> hello_role \<Rightarrow> unit res" where
  "check_remote_hello en run remote expected_role =
     rbind (guard (\<not> (h_role remote \<noteq> expected_role
              \<or> h_cipher_suite remote \<noteq> h_cipher_suite (ru_local_hello run)
              \<or> h_purpose remote \<noteq> ru_purpose run
              \<or> h_previous remote \<noteq> ru_previous run
              \<or> h_identity remote = h_identity (ru_local_hello run)
              \<or> h_ephemeral remote = h_ephemeral (ru_local_hello run))) InvalidHandshake) (\<lambda>_.
     if ru_purpose run = PRekey then
       rbind (ok_or (map_option sn_peer (en_active en)) InvalidStateTransition) (\<lambda>peer.
       guard (h_identity remote = peer) IdentityMismatch)
     else Inr ())"

definition verify_auth :: "ext \<Rightarrow> run \<Rightarrow> handshake_payload \<Rightarrow> (session_keys \<times> bytes) res" where
  "verify_auth X run auth =
     rbind (ok_or (ru_transcript run) InvalidStateTransition) (\<lambda>transcript.
     rbind (ok_or (ru_shared run) InvalidStateTransition) (\<lambda>shared.
     verify_handshake_for_role X auth transcript shared True))"

definition run_candidate :: "run \<Rightarrow> session_keys \<Rightarrow> candidate res" where
  "run_candidate run keys =
     rbind (ok_or (ru_remote_identity run) InvalidStateTransition) (\<lambda>peer.
     Inr \<lparr>ca_keys = keys, ca_peer = peer, ca_role = ru_role run\<rparr>)"

text \<open>The AUTH payload both sides build from the transcript.\<close>

definition auth_from_transcript ::
  "transcript \<Rightarrow> nat \<Rightarrow> bytes \<Rightarrow> bytes option \<Rightarrow> handshake_payload" where
  "auth_from_transcript t stage initiator_signature responder_signature =
     \<lparr>a_purpose = t_purpose t, a_stage = stage, a_cipher_suite = t_cipher_suite t,
      a_initiator_identity = t_initiator_identity t, a_responder_identity = t_responder_identity t,
      a_initiator_ephemeral = t_initiator_ephemeral t, a_responder_ephemeral = t_responder_ephemeral t,
      a_initiator_nonce = t_initiator_nonce t, a_responder_nonce = t_responder_nonce t,
      a_previous = t_previous_session_id t, a_initiator_signature = initiator_signature,
      a_responder_signature = responder_signature\<rparr>"

type_synonym step_result = "(candidate option \<times> run) res \<times> ctx"

definition step_auth_init :: "ext \<Rightarrow> run \<Rightarrow> frame \<Rightarrow> ctx \<Rightarrow> step_result" where
  "step_auth_init X run f c =
     sbind (auth_decode X f, c) (\<lambda>auth c.
     sbind (guard (\<not> (a_stage auth \<noteq> 0 \<or> a_responder_signature auth \<noteq> None)) InvalidHandshake, c) (\<lambda>_ c.
     sbind (verify_auth X run auth, c) (\<lambda>(keys, hash) c.
     sbind (ok_or (ru_transcript run) InvalidStateTransition, c) (\<lambda>transcript c.
     sbind (auth_encode X (auth_from_transcript transcript 1 (a_initiator_signature auth)
              (Some (sign_transcript X (en_identity (fst c)) hash False))), c) (\<lambda>response c.
     let c = emit (Send response) c;
         run = run\<lparr>ru_keys := Some keys, ru_step := ConfirmInit\<rparr>;
         c = rearm_frame_deadline (ru_purpose run) (ru_step run) c
     in (Inr (None, run), c))))))"

text \<open>
  \<^verbatim>\<open>after_approval\<close>: the code's call back into \<^verbatim>\<open>step_run\<close> happens with the step
  just set to \<open>AuthInit\<close>, so it is that branch, which does not come back here.
\<close>

definition after_approval :: "ext \<Rightarrow> run \<Rightarrow> ctx \<Rightarrow> step_result" where
  "after_approval X run c =
     sbind (ok_or (ru_hash run) InvalidStateTransition, c) (\<lambda>hash c.
     sbind (ok_or (ru_transcript run) InvalidStateTransition, c) (\<lambda>transcript c.
     (case ru_role run of
        Initiator \<Rightarrow>
          sbind (auth_encode X (auth_from_transcript transcript 0
                   (sign_transcript X (en_identity (fst c)) hash True) None), c) (\<lambda>auth c.
          let c = emit (Send auth) c;
              run = run\<lparr>ru_step := AuthResp\<rparr>
          in (Inr (None, run), rearm_frame_deadline (ru_purpose run) (ru_step run) c))
      | Responder \<Rightarrow>
          let run = run\<lparr>ru_step := AuthInit\<rparr> in
          (case ru_early run of
             Some early \<Rightarrow> step_auth_init X (run\<lparr>ru_early := None\<rparr>) early c
           | None \<Rightarrow> (Inr (None, run), rearm_frame_deadline (ru_purpose run) (ru_step run) c)))))"

definition after_hellos :: "ext \<Rightarrow> run \<Rightarrow> hello_payload \<Rightarrow> ctx \<Rightarrow> step_result" where
  "after_hellos X run remote c =
     (let (initiator, responder) =
        (case ru_role run of
           Initiator \<Rightarrow> (ru_local_hello run, remote)
         | Responder \<Rightarrow> (remote, ru_local_hello run))
      in
      sbind (transcript_from_hellos initiator responder, c) (\<lambda>transcript c.
      sbind (transcript_encode X transcript, c) (\<lambda>encoded c.
      let hash = transcript_hash X encoded in
      sbind (shared_secret X (ru_ephemeral run) (h_ephemeral remote), c) (\<lambda>shared c.
      let run = run\<lparr>ru_shared := Some shared, ru_transcript := Some transcript, ru_hash := Some hash,
                    ru_remote_identity := Some (h_identity remote)\<rparr>
      in (case ru_purpose run of
            PInitial \<Rightarrow>
              let run = run\<lparr>ru_step := Sas\<rparr>;
                  c = cancel KHandshakeFrame c;
                  c = arm KSasDecision SAS_DECISION_TIMEOUT_SECS c;
                  c = emit (RequestSas (sas_words X hash) (h_identity remote)) c
              in (Inr (None, run), c)
          | PRekey \<Rightarrow> after_approval X run c)))))"

definition step_hello :: "ext \<Rightarrow> run \<Rightarrow> frame \<Rightarrow> ctx \<Rightarrow> step_result" where
  "step_hello X run f c =
     sbind (hello_decode X f, c) (\<lambda>remote c.
     sbind (check_remote_hello (fst c) run remote Responder, c) (\<lambda>_ c.
     sbind (ok_or (ru_local_hello_frame run) InvalidStateTransition, c) (\<lambda>reveal c.
     after_hellos X (run\<lparr>ru_local_hello_frame := None\<rparr>) remote (emit (Send reveal) c))))"

definition step_reveal :: "ext \<Rightarrow> run \<Rightarrow> frame \<Rightarrow> ctx \<Rightarrow> step_result" where
  "step_reveal X run f c =
     sbind (hello_decode X f, c) (\<lambda>remote c.
     sbind (check_remote_hello (fst c) run remote Initiator, c) (\<lambda>_ c.
     sbind (ok_or (ru_commit run) InvalidStateTransition, c) (\<lambda>commit c.
     sbind (guard (commit_hash X (f_payload f) = m_commitment commit) InvalidHandshake, c) (\<lambda>_ c.
     after_hellos X run remote c))))"

definition step_sas :: "run \<Rightarrow> frame \<Rightarrow> ctx \<Rightarrow> step_result" where
  "step_sas run f c =
     (if ru_role run = Responder \<and> ru_early run = None \<and> f_type f = MHandshake
      then (Inr (None, run\<lparr>ru_early := Some f\<rparr>), c)
      else (Inl InvalidStateTransition, c))"

definition step_auth_resp :: "ext \<Rightarrow> run \<Rightarrow> frame \<Rightarrow> ctx \<Rightarrow> step_result" where
  "step_auth_resp X run f c =
     sbind (auth_decode X f, c) (\<lambda>auth c.
     sbind (guard (\<not> (a_stage auth \<noteq> 1 \<or> a_responder_signature auth = None)) InvalidHandshake, c) (\<lambda>_ c.
     sbind (verify_auth X run auth, c) (\<lambda>(keys, hash) c.
     sbind (confirm_encode X \<lparr>s_session_id = k_session_id keys, s_role = Initiator,
              s_confirmation = confirmation_mac X (k_confirmation_key keys) hash True\<rparr>, c) (\<lambda>confirm c.
     let c = emit (Send confirm) c;
         run = run\<lparr>ru_keys := Some keys, ru_step := ConfirmResp\<rparr>;
         c = rearm_frame_deadline (ru_purpose run) (ru_step run) c
     in (Inr (None, run), c)))))"

definition step_confirm_resp :: "ext \<Rightarrow> run \<Rightarrow> frame \<Rightarrow> ctx \<Rightarrow> step_result" where
  "step_confirm_resp X run f c =
     sbind (confirm_decode X f, c) (\<lambda>confirm c.
     sbind (ok_or (ru_keys run) InvalidStateTransition, c) (\<lambda>keys c.
     let run = run\<lparr>ru_keys := None\<rparr> in
     sbind (ok_or (ru_hash run) InvalidStateTransition, c) (\<lambda>hash c.
     sbind (confirm_verify_from X confirm keys hash Responder, c) (\<lambda>_ c.
     sbind (run_candidate run keys, c) (\<lambda>cand c. (Inr (Some cand, run), c))))))"

definition step_confirm_init :: "ext \<Rightarrow> run \<Rightarrow> frame \<Rightarrow> ctx \<Rightarrow> step_result" where
  "step_confirm_init X run f c =
     sbind (confirm_decode X f, c) (\<lambda>confirm c.
     sbind (ok_or (ru_keys run) InvalidStateTransition, c) (\<lambda>keys c.
     let run = run\<lparr>ru_keys := None\<rparr> in
     sbind (ok_or (ru_hash run) InvalidStateTransition, c) (\<lambda>hash c.
     sbind (confirm_verify_from X confirm keys hash Initiator, c) (\<lambda>_ c.
     sbind (confirm_encode X \<lparr>s_session_id = k_session_id keys, s_role = Responder,
              s_confirmation = confirmation_mac X (k_confirmation_key keys) hash False\<rparr>, c) (\<lambda>reply c.
     let c = emit (Send reply) c in
     sbind (run_candidate run keys, c) (\<lambda>cand c. (Inr (Some cand, run), c)))))))"

definition step_run :: "ext \<Rightarrow> run \<Rightarrow> frame \<Rightarrow> ctx \<Rightarrow> step_result" where
  "step_run X run f c =
     (case ru_step run of
        Hello \<Rightarrow> step_hello X run f c
      | Reveal \<Rightarrow> step_reveal X run f c
      | Sas \<Rightarrow> step_sas run f c
      | AuthResp \<Rightarrow> step_auth_resp X run f c
      | AuthInit \<Rightarrow> step_auth_init X run f c
      | ConfirmResp \<Rightarrow> step_confirm_resp X run f c
      | ConfirmInit \<Rightarrow> step_confirm_init X run f c)"

definition drive_run :: "ext \<Rightarrow> frame \<Rightarrow> ctx \<Rightarrow> candidate option res \<times> ctx" where
  "drive_run X f c =
     (case en_run (fst c) of
        None \<Rightarrow> (Inl InvalidStateTransition, c)
      | Some run \<Rightarrow>
          let c = upd (\<lambda>en. en\<lparr>en_run := None\<rparr>) c in
          (case step_run X run f c of
             (Inl e, c) \<Rightarrow> (Inl e, c)
           | (Inr (Some cand, run), c) \<Rightarrow> (Inr (Some cand), c)
           | (Inr (None, run), c) \<Rightarrow> (Inr None, upd (\<lambda>en. en\<lparr>en_run := Some run\<rparr>) c)))"

section \<open>Completion\<close>

definition complete_initial :: "candidate \<Rightarrow> ctx \<Rightarrow> ctx" where
  "complete_initial cand c =
     (let c = cancel KHandshakeFrame c;
          c = cancel KSasDecision c;
          c = cancel KHandshakeTotal c;
          c = upd (\<lambda>en. en\<lparr>en_active := Some (session_new (ca_keys cand) (ca_role cand) (ca_peer cand)),
                           en_phase := PhEstablished, en_messages := 0, en_late_rekey_frames := 0,
                           en_consecutive_rekey_rejections := 0\<rparr>) c;
          c = arm KRekeyDue REKEY_INTERVAL_SECS c
      in emit (Notify (Established (ca_peer cand))) c)"

definition complete_rekey :: "candidate \<Rightarrow> ctx \<Rightarrow> ctx" where
  "complete_rekey cand c =
     (let valid = (case en_active (fst c) of
                     None \<Rightarrow> False
                   | Some active \<Rightarrow> sn_peer active = ca_peer cand \<and> sn_id active \<noteq> k_session_id (ca_keys cand))
      in if \<not> valid then fail_rekey IdentityMismatch c
      else
        let c = cancel KHandshakeFrame c;
            c = cancel KHandshakeTotal c;
            replacement = session_new (ca_keys cand) (ca_role cand) (ca_peer cand);
            c = upd (\<lambda>en. en\<lparr>en_draining := en_active en, en_active := Some replacement\<rparr>) c;
            c = arm KDrain REKEY_DRAIN_TIMEOUT_SECS c;
            c = arm KRekeyDue REKEY_INTERVAL_SECS c;
            c = upd (\<lambda>en. en\<lparr>en_messages := 0, en_rekey_blocked := False, en_late_rekey_frames := 0,
                             en_consecutive_rekey_rejections := 0\<rparr>) c
        in emit (Notify RekeyCompleted) c)"

section \<open>Handshaking\<close>

definition accept_first_commit :: "ext \<Rightarrow> frame \<Rightarrow> ctx \<Rightarrow> unit res \<times> ctx" where
  "accept_first_commit X f c =
     sbind (commit_decode X f, c) (\<lambda>commit c.
     sbind (guard (\<not> (m_cipher_suite commit \<noteq> 1 \<or> m_purpose commit \<noteq> PInitial
                       \<or> m_previous commit \<noteq> None)) InvalidHandshake, c) (\<lambda>_ c.
     start_responder_run X commit True c))"

definition on_close_frame :: "ext \<Rightarrow> frame \<Rightarrow> ctx \<Rightarrow> ctx" where
  "on_close_frame X f c =
     (case close_decode X f of
        Inl e \<Rightarrow> protocol_error X c
      | Inr close \<Rightarrow>
          if en_phase (fst c) = PhHandshaking then
            if c_session_id close = None then terminate X (CPeerUnauthenticated (c_reason close)) None c
            else c
          else
            (case c_session_id close of
               None \<Rightarrow> c
             | Some sid \<Rightarrow>
                 if Some sid = active_session_id (fst c) then
                   terminate X (CPeerUnauthenticated (c_reason close)) None c
                 else if Some sid = draining_session_id (fst c) then
                   cancel KDrain (upd (\<lambda>en. en\<lparr>en_draining := None\<rparr>) c)
                 else c))"

definition on_frame_handshaking :: "ext \<Rightarrow> frame \<Rightarrow> ctx \<Rightarrow> ctx" where
  "on_frame_handshaking X f c =
     (if f_type f = MClose then on_close_frame X f c
      else
        (case (if en_run (fst c) = None then
                 sbind (accept_first_commit X f c) (\<lambda>_ c. (Inr None, c))
               else drive_run X f c) of
           (Inr (Some cand), c) \<Rightarrow> complete_initial cand c
         | (Inr None, c) \<Rightarrow> c
         | (Inl e, c) \<Rightarrow> fail_initial X e c))"

definition on_sas :: "ext \<Rightarrow> bool \<Rightarrow> ctx \<Rightarrow> ctx" where
  "on_sas X approved c =
     (case en_run (fst c) of
        None \<Rightarrow> c
      | Some run \<Rightarrow>
          if en_phase (fst c) \<noteq> PhHandshaking \<or> ru_step run \<noteq> Sas then c
          else
            let c = cancel KSasDecision c in
            if \<not> approved then terminate X CSasRejected (Some RAuthenticationFailure) c
            else
              let c = upd (\<lambda>en. en\<lparr>en_run := None\<rparr>) c in
              (case after_approval X run c of
                 (Inr (Some cand, run), c) \<Rightarrow> complete_initial cand c
               | (Inr (None, run), c) \<Rightarrow> upd (\<lambda>en. en\<lparr>en_run := Some run\<rparr>) c
               | (Inl e, c) \<Rightarrow> fail_initial X e c))"

section \<open>Rekeying\<close>

definition begin_rekey :: "ext \<Rightarrow> ctx \<Rightarrow> ctx" where
  "begin_rekey X c =
     (if en_phase (fst c) \<noteq> PhEstablished \<or> en_run (fst c) \<noteq> None then c
      else
        (case active_session_id (fst c) of
           None \<Rightarrow> c
         | Some previous \<Rightarrow>
             (case start_initiator_run X PRekey (Some previous) c of
                (Inl e, c) \<Rightarrow> fail_rekey e c
              | (Inr _, c) \<Rightarrow>
                  let c = arm KHandshakeTotal HANDSHAKE_TOTAL_TIMEOUT_SECS c;
                      c = rearm_frame_deadline PRekey Hello c
                  in emit (Notify RekeyStarted) c)))"

definition on_incoming_commit :: "ext \<Rightarrow> commit_payload \<Rightarrow> bool \<Rightarrow> ctx \<Rightarrow> ctx" where
  "on_incoming_commit X commit emit_rekey_started c =
     (let references_active =
        m_previous commit \<noteq> None \<and> m_previous commit = active_session_id (fst c)
      in if m_cipher_suite commit \<noteq> 1 \<or> m_purpose commit \<noteq> PRekey \<or> \<not> references_active
         then note_rekey_rejection c
         else
           let c = upd (\<lambda>en. en\<lparr>en_consecutive_rekey_rejections := 0\<rparr>) c in
           (case start_responder_run X commit emit_rekey_started c of
              (Inl e, c) \<Rightarrow> fail_rekey e c
            | (Inr _, c) \<Rightarrow> c))"

definition resolve_glare :: "ext \<Rightarrow> commit_payload \<Rightarrow> ctx \<Rightarrow> ctx" where
  "resolve_glare X commit c =
     (case peer_identity (fst c) of
        None \<Rightarrow> c
      | Some peer \<Rightarrow>
          if m_previous commit \<noteq> Option.bind (en_run (fst c)) ru_previous then note_rekey_rejection c
          else if local_identity_wins_rekey_glare (identity_of X (en_identity (fst c))) peer then c
          else
            let c = upd (\<lambda>en. en\<lparr>en_run := None\<rparr>) c;
                c = cancel KHandshakeFrame c;
                c = cancel KHandshakeTotal c
            in on_incoming_commit X commit False c)"

definition on_rekey_frame :: "ext \<Rightarrow> frame \<Rightarrow> ctx \<Rightarrow> ctx" where
  "on_rekey_frame X f c =
     (case en_run (fst c) of
        None \<Rightarrow>
          (let late =
             (if en_late_rekey_frames (fst c) > 0 then
                upd (\<lambda>en. en\<lparr>en_late_rekey_frames := en_late_rekey_frames en - 1\<rparr>) c
              else if f_type f = MSessionConfirm then protocol_error X c
              else note_rekey_rejection c)
           in (case (if f_type f = MRekey then commit_decode X f else Inl InvalidHandshake) of
                 Inr commit \<Rightarrow>
                   if m_cipher_suite commit = 1 \<and> m_purpose commit = PRekey \<and> m_previous commit \<noteq> None
                      \<and> m_previous commit = active_session_id (fst c)
                   then on_incoming_commit X commit True (upd (\<lambda>en. en\<lparr>en_late_rekey_frames := 0\<rparr>) c)
                   else late
               | Inl e \<Rightarrow> late))
      | Some run \<Rightarrow>
          (case (if ru_role run = Initiator \<and> ru_step run = Hello \<and> f_type f = MRekey
                 then commit_decode X f else Inl InvalidHandshake) of
             Inr commit \<Rightarrow> resolve_glare X commit c
           | Inl _ \<Rightarrow>
               (case drive_run X f c of
                  (Inr (Some cand), c) \<Rightarrow> complete_rekey cand c
                | (Inr None, c) \<Rightarrow> c
                | (Inl e, c) \<Rightarrow> fail_rekey e c)))"

section \<open>DATA\<close>

fun is_malformed :: "error \<Rightarrow> bool" where
  "is_malformed (Encoding _) = True"
| "is_malformed NonCanonicalEncoding = True"
| "is_malformed InvalidPayloadShape = True"
| "is_malformed InvalidMapKey = True"
| "is_malformed (DuplicateMapKey _) = True"
| "is_malformed (InvalidLength _ _ _) = True"
| "is_malformed (InvalidFrameLength _) = True"
| "is_malformed TruncatedFrame = True"
| "is_malformed DataTooLarge = True"
| "is_malformed _ = False"

definition maybe_trigger_rekey :: "ext \<Rightarrow> ctx \<Rightarrow> ctx" where
  "maybe_trigger_rekey X c =
     (if en_rekey_message_limit (fst c) \<le> en_messages (fst c) \<and> \<not> en_rekey_blocked (fst c)
         \<and> en_run (fst c) = None
      then begin_rekey X c else c)"

text \<open>\<^verbatim>\<open>messages.saturating_add(1)\<close>.\<close>

definition count_message :: "ctx \<Rightarrow> ctx" where
  "count_message c = upd (\<lambda>en. en\<lparr>en_messages := min (en_messages en + 1) u64_max\<rparr>) c"

definition on_send :: "ext \<Rightarrow> bytes \<Rightarrow> ctx \<Rightarrow> ctx" where
  "on_send X content c =
     (if length content > MAX_CONTENT then emit (Notify (SendRejected TooLarge)) c
      else
        (case (if en_phase (fst c) = PhEstablished then en_active (fst c) else None) of
           None \<Rightarrow> emit (Notify (SendRejected NotActive)) c
         | Some active \<Rightarrow>
             let (result, sender) = sender_encrypt X (sn_sender active) content;
                 c = upd (\<lambda>en. en\<lparr>en_active := Some (active\<lparr>sn_sender := sender\<rparr>)\<rparr>) c
             in (case result of
                   Inr f \<Rightarrow> maybe_trigger_rekey X (count_message (emit (Send f) c))
                 | Inl DataTooLarge \<Rightarrow> emit (Notify (SendRejected TooLarge)) c
                 | Inl _ \<Rightarrow> protocol_error X c)))"

definition on_data :: "ext \<Rightarrow> frame \<Rightarrow> ctx \<Rightarrow> ctx" where
  "on_data X f c =
     (case en_active (fst c) of
        None \<Rightarrow> c
      | Some active \<Rightarrow>
          let (result, receiver) = receiver_decrypt X (sn_receiver active) f;
              c = upd (\<lambda>en. en\<lparr>en_active := Some (active\<lparr>sn_receiver := receiver\<rparr>)\<rparr>) c
          in (case result of
                Inr plaintext \<Rightarrow> maybe_trigger_rekey X (count_message (emit (Deliver plaintext) c))
              | Inl active_error \<Rightarrow>
                  let rejected = (\<lambda>c. if is_malformed active_error then protocol_error X c
                                       else emit (Notify DataRejected) c)
                  in (case en_draining (fst c) of
                        None \<Rightarrow> rejected c
                      | Some draining \<Rightarrow>
                          let (result, receiver) = receiver_decrypt X (sn_receiver draining) f;
                              c = upd (\<lambda>en. en\<lparr>en_draining := Some (draining\<lparr>sn_receiver := receiver\<rparr>)\<rparr>) c
                          in (case result of
                                Inr plaintext \<Rightarrow> emit (Deliver plaintext) c
                              | Inl _ \<Rightarrow> rejected c))))"

section \<open>Dispatch\<close>

definition on_frame :: "ext \<Rightarrow> frame \<Rightarrow> ctx \<Rightarrow> ctx" where
  "on_frame X f c =
     (case en_phase (fst c) of
        PhIdle \<Rightarrow> protocol_error X c
      | PhClosed \<Rightarrow> protocol_error X c
      | PhHandshaking \<Rightarrow> on_frame_handshaking X f c
      | PhEstablished \<Rightarrow>
          (case f_type f of
             MData \<Rightarrow> on_data X f c
           | MClose \<Rightarrow> on_close_frame X f c
           | MRekey \<Rightarrow> on_rekey_frame X f c
           | MSessionConfirm \<Rightarrow> on_rekey_frame X f c
           | MHandshake \<Rightarrow> protocol_error X c))"

definition on_timeout :: "ext \<Rightarrow> deadline_id \<Rightarrow> ctx \<Rightarrow> ctx" where
  "on_timeout X expired c =
     (case find (\<lambda>(armed, _). armed = expired) (en_deadlines (fst c)) of
        None \<Rightarrow> c
      | Some (armed, kind) \<Rightarrow>
          let c = upd (\<lambda>en. en\<lparr>en_deadlines := remove1 (armed, kind) (en_deadlines en)\<rparr>) c;
              handshake_expired =
                (if en_phase (fst c) = PhHandshaking then terminate X CTimeout (Some RResourceLimit) c
                 else if en_run (fst c) \<noteq> None then fail_rekey TransportTimeout c
                 else c)
          in (case kind of
                KHandshakeFrame \<Rightarrow> handshake_expired
              | KHandshakeTotal \<Rightarrow> handshake_expired
              | KSasDecision \<Rightarrow> terminate X CTimeout (Some RAuthenticationFailure) c
              | KRekeyDue \<Rightarrow>
                  begin_rekey X
                    (upd (\<lambda>en. en\<lparr>en_rekey_blocked := False, en_late_rekey_frames := 0\<rparr>) c)
              | KDrain \<Rightarrow> upd (\<lambda>en. en\<lparr>en_draining := None\<rparr>) c))"

definition handle :: "ext \<Rightarrow> input \<Rightarrow> engine \<Rightarrow> engine \<times> effect list" where
  "handle X inp en =
     (let c = (en, []) in
      if en_phase en = PhClosed then c
      else
        (case inp of
           Start \<Rightarrow> start X c
         | FrameReceived f \<Rightarrow> on_frame X f c
         | SasDecision approved \<Rightarrow> on_sas X approved c
         | LocalSend content \<Rightarrow> on_send X content c
         | LocalClose reason \<Rightarrow> terminate X CLocal (Some reason) c
         | RequestRekey \<Rightarrow> begin_rekey X c
         | Timeout armed \<Rightarrow> on_timeout X armed c
         | TransportClosed \<Rightarrow> terminate X CTransportLost None c
         | Malformed respond \<Rightarrow>
             terminate X CProtocolError (if respond then Some RProtocolError else None) c))"

end
