(* ===== verification/Handshake_Codecs.thy ===== *)
theory Handshake_Codecs
  imports Handshake
begin

text \<open>
  Round trips of the four handshake payloads: for each, its canonical entries, the frame its
  \<^verbatim>\<open>encode\<close> makes, and that \<^verbatim>\<open>decode\<close> reads it back, as instances of the
  payload contract. The well-formedness predicates state the array lengths of the Rust types.
\<close>

definition hello_wf :: "hello_payload \<Rightarrow> bool" where
  "hello_wf h \<longleftrightarrow> length (h_identity h) = 32 \<and> length (h_ephemeral h) = 32 \<and>
     length (h_nonce h) = 16 \<and> (\<forall>s. h_previous h = Some s \<longrightarrow> length s = 16)"

definition commit_wf :: "commit_payload \<Rightarrow> bool" where
  "commit_wf c \<longleftrightarrow> length (m_commitment c) = 32 \<and> (\<forall>s. m_previous c = Some s \<longrightarrow> length s = 16)"

definition auth_wf :: "handshake_payload \<Rightarrow> bool" where
  "auth_wf a \<longleftrightarrow> transcript_wf (auth_transcript a) \<and> length (a_initiator_signature a) = 64 \<and>
     (\<forall>s. a_responder_signature a = Some s \<longrightarrow> length s = 64) \<and>
     (a_stage a = 1 \<longrightarrow> a_responder_signature a \<noteq> None)"

definition confirm_wf :: "confirm_payload \<Rightarrow> bool" where
  "confirm_wf s \<longleftrightarrow> length (s_session_id s) = 16 \<and> length (s_confirmation s) = 32"

definition opt_entry :: "nat \<Rightarrow> bytes option \<Rightarrow> (nat \<times> cvalue) list" where
  "opt_entry k v = (case v of None \<Rightarrow> [] | Some b \<Rightarrow> [(k, CBytes b)])"

lemma optional_entry_values: "k < 256 \<Longrightarrow> optional_entry k v = map value_entry (opt_entry k v)"
  by (auto simp: optional_entry_def opt_entry_def split: option.splits)

definition hello_entries :: "hello_payload \<Rightarrow> (nat \<times> cvalue) list" where
  "hello_entries h =
     [(0, CInteger 1), (1, CInteger (int (h_cipher_suite h))),
      (2, CInteger (int (purpose_code (h_purpose h)))), (3, CInteger (int (role_code (h_role h)))),
      (4, CBytes (h_identity h)), (5, CBytes (h_ephemeral h)), (6, CBytes (h_nonce h))]
     @ opt_entry 7 (h_previous h)"

definition commit_entries :: "commit_payload \<Rightarrow> (nat \<times> cvalue) list" where
  "commit_entries c =
     [(0, CInteger 1), (1, CInteger (int (m_cipher_suite c))),
      (2, CInteger (int (purpose_code (m_purpose c)))), (3, CBytes (m_commitment c))]
     @ opt_entry 4 (m_previous c)"

definition auth_entries :: "handshake_payload \<Rightarrow> (nat \<times> cvalue) list" where
  "auth_entries a =
     [(0, CInteger (int (purpose_code (a_purpose a)))), (1, CInteger (int (a_stage a))),
      (2, CInteger (int (a_cipher_suite a))), (3, CBytes (a_initiator_identity a)),
      (4, CBytes (a_responder_identity a)), (5, CBytes (a_initiator_ephemeral a)),
      (6, CBytes (a_responder_ephemeral a)), (7, CBytes (a_initiator_nonce a)),
      (8, CBytes (a_responder_nonce a))]
     @ opt_entry 9 (a_previous a) @ [(10, CBytes (a_initiator_signature a))]
     @ opt_entry 11 (a_responder_signature a)"

definition confirm_entries :: "confirm_payload \<Rightarrow> (nat \<times> cvalue) list" where
  "confirm_entries s =
     [(0, CBytes (s_session_id s)), (1, CInteger (int (role_code (s_role s)))),
      (2, CBytes (s_confirmation s))]"

lemma small_codes [simp]:
  "purpose_code p < 256" "role_code r < 256" "int (purpose_code p) \<le> int u64_max"
  "int (role_code r) \<le> int u64_max"
  using purpose_code_bound[of p] role_code_bound[of r] by (simp_all add: u64_max_def)

lemma hs_uint_value_small [simp]: "n < 256 \<Longrightarrow> hs_uint_value (CInteger (int n)) = Inr n"
  by (simp add: hs_uint_value_def int_u64_def u64_max_def)

lemma hs_uint_value_one [simp]: "hs_uint_value (CInteger 1) = Inr 1"
  using hs_uint_value_small[of 1] by simp

lemma hs_uint_value_zero [simp]: "hs_uint_value (CInteger 0) = Inr 0"
  using hs_uint_value_small[of 0] by simp

lemma optional_array_slot:
  "slots ! i = map_option CBytes v \<Longrightarrow> (\<forall>s. v = Some s \<longrightarrow> length s = n) \<Longrightarrow>
   optional_array slots i n kind = Inr v"
  by (cases v) (auto simp: optional_array_def array_value_def)

lemma map_of_opt_entry:
  "map_of (opt_entry k v @ es) j = (if j = k \<and> v \<noteq> None then map_option CBytes v else map_of es j)"
  by (auto simp: opt_entry_def split: option.splits)

section \<open>HELLO\<close>

lemma hello_entries_ok: "hello_wf h \<Longrightarrow> h_cipher_suite h = 1 \<Longrightarrow> entries_ok (hello_entries h)"
  using purpose_code_bound[of "h_purpose h"] role_code_bound[of "h_role h"]
  by (auto simp: hello_wf_def entries_ok_def strict_keys_def hello_entries_def opt_entry_def
      u64_max_def split: option.splits)

lemma hello_size:
  "hello_wf h \<Longrightarrow> h_cipher_suite h = 1 \<Longrightarrow>
   length (payload_bytes (hello_entries h)) \<le> max_payload (message_type_for_purpose p)"
  using purpose_code_bound[of "h_purpose h"] role_code_bound[of "h_role h"]
  by (cases p) (auto simp: length_payload_bytes hello_entries_def hello_wf_def opt_entry_def
      head_len_def message_type_for_purpose_def split: option.splits)

lemma hello_encode_iff:
  assumes "cbor_ok X" "hello_wf h"
  shows "hello_encode X h = Inr f \<longleftrightarrow>
    h_cipher_suite h = 1 \<and> \<not> purpose_mismatch (h_purpose h) (h_previous h) \<and>
    f = \<lparr>f_version = V1, f_type = message_type_for_purpose (h_purpose h),
         f_payload = payload_bytes (hello_entries h)\<rparr>"
proof (cases "h_cipher_suite h = 1 \<and> \<not> purpose_mismatch (h_purpose h) (h_previous h)")
  case True
  then have "hello_encode X h = rbind (cbor_encode X (CMap (map value_entry (hello_entries h))))
      (frame_new (message_type_for_purpose (h_purpose h)))"
    by (simp add: hello_encode_def hello_entries_def optional_entry_values)
  then show ?thesis
    using True hello_size[OF assms(2)] cbor_encode_entries[OF assms(1) hello_entries_ok[OF assms(2)]]
    by (auto simp: frame_new_iff)
qed (auto simp: hello_encode_def res_simps)

lemma hello_slots:
  "map_into_fields (hello_entries h) 8 e = Inr
     [Some (CInteger 1), Some (CInteger (int (h_cipher_suite h))),
      Some (CInteger (int (purpose_code (h_purpose h)))), Some (CInteger (int (role_code (h_role h)))),
      Some (CBytes (h_identity h)), Some (CBytes (h_ephemeral h)), Some (CBytes (h_nonce h)),
      map_option CBytes (h_previous h)]"
  by (auto simp: map_into_fields_iff hello_entries_def opt_entry_def upt_rec split: option.splits)

lemma hello_decode_encode:
  assumes "cbor_ok X" "hello_wf h" "hello_encode X h = Inr f"
  shows "hello_decode X f = Inr h"
proof -
  from assms have cs: "h_cipher_suite h = 1" and pm: "\<not> purpose_mismatch (h_purpose h) (h_previous h)"
    and f: "f = \<lparr>f_version = V1, f_type = message_type_for_purpose (h_purpose h),
         f_payload = payload_bytes (hello_entries h)\<rparr>"
    by (simp_all add: hello_encode_iff)
  have "validate_cbor_map X f = Inr (hello_entries h)"
    using assms(1) hello_entries_ok[OF assms(2) cs] hello_size[OF assms(2) cs]
    by (intro validate_payload[where t = "message_type_for_purpose (h_purpose h)"])
      (simp_all add: f frame_new_iff)
  moreover have "7 \<le> length (hello_entries h) \<and> length (hello_entries h) \<le> 8"
    by (auto simp: hello_entries_def opt_entry_def split: option.splits)
  moreover have "f_type f = MHandshake \<or> f_type f = MRekey"
    by (simp add: f message_type_for_purpose_def split: handshake_purpose.split)
  ultimately show ?thesis
    using assms(2) cs pm hello_slots[of h InvalidHandshake]
    by (simp add: hello_decode_def hello_wf_def f required_uint_def required_def required_array_def
        identity_value_def array_value_def optional_array_slot[where v = "h_previous h"])
qed

section \<open>COMMIT\<close>

lemma commit_entries_ok: "commit_wf c \<Longrightarrow> m_cipher_suite c = 1 \<Longrightarrow> entries_ok (commit_entries c)"
  using purpose_code_bound[of "m_purpose c"]
  by (auto simp: commit_wf_def entries_ok_def strict_keys_def commit_entries_def opt_entry_def
      u64_max_def split: option.splits)

lemma commit_size:
  "commit_wf c \<Longrightarrow> m_cipher_suite c = 1 \<Longrightarrow>
   length (payload_bytes (commit_entries c)) \<le> max_payload (message_type_for_purpose p)"
  using purpose_code_bound[of "m_purpose c"]
  by (cases p) (auto simp: length_payload_bytes commit_entries_def commit_wf_def opt_entry_def
      head_len_def message_type_for_purpose_def split: option.splits)

lemma commit_encode_iff:
  assumes "cbor_ok X" "commit_wf c"
  shows "commit_encode X c = Inr f \<longleftrightarrow>
    m_cipher_suite c = 1 \<and> \<not> purpose_mismatch (m_purpose c) (m_previous c) \<and>
    f = \<lparr>f_version = V1, f_type = message_type_for_purpose (m_purpose c),
         f_payload = payload_bytes (commit_entries c)\<rparr>"
proof (cases "m_cipher_suite c = 1 \<and> \<not> purpose_mismatch (m_purpose c) (m_previous c)")
  case True
  then have "commit_encode X c = rbind (cbor_encode X (CMap (map value_entry (commit_entries c))))
      (frame_new (message_type_for_purpose (m_purpose c)))"
    by (simp add: commit_encode_def commit_entries_def optional_entry_values)
  then show ?thesis
    using True commit_size[OF assms(2)] cbor_encode_entries[OF assms(1) commit_entries_ok[OF assms(2)]]
    by (auto simp: frame_new_iff)
qed (auto simp: commit_encode_def res_simps)

lemma commit_slots:
  "map_into_fields (commit_entries c) 5 e = Inr
     [Some (CInteger 1), Some (CInteger (int (m_cipher_suite c))),
      Some (CInteger (int (purpose_code (m_purpose c)))), Some (CBytes (m_commitment c)),
      map_option CBytes (m_previous c)]"
  by (auto simp: map_into_fields_iff commit_entries_def opt_entry_def upt_rec split: option.splits)

lemma commit_decode_encode:
  assumes "cbor_ok X" "commit_wf c" "commit_encode X c = Inr f"
  shows "commit_decode X f = Inr c"
proof -
  from assms have cs: "m_cipher_suite c = 1" and pm: "\<not> purpose_mismatch (m_purpose c) (m_previous c)"
    and f: "f = \<lparr>f_version = V1, f_type = message_type_for_purpose (m_purpose c),
         f_payload = payload_bytes (commit_entries c)\<rparr>"
    by (simp_all add: commit_encode_iff)
  have "validate_cbor_map X f = Inr (commit_entries c)"
    using assms(1) commit_entries_ok[OF assms(2) cs] commit_size[OF assms(2) cs]
    by (intro validate_payload[where t = "message_type_for_purpose (m_purpose c)"])
      (simp_all add: f frame_new_iff)
  moreover have "4 \<le> length (commit_entries c) \<and> length (commit_entries c) \<le> 5"
    by (auto simp: commit_entries_def opt_entry_def split: option.splits)
  moreover have "f_type f = MHandshake \<or> f_type f = MRekey"
    by (simp add: f message_type_for_purpose_def split: handshake_purpose.split)
  ultimately show ?thesis
    using assms(2) cs pm commit_slots[of c InvalidHandshake]
    by (simp add: commit_decode_def commit_wf_def f required_uint_def required_def required_array_def
        array_value_def optional_array_slot[where v = "m_previous c"])
qed

section \<open>AUTH\<close>

definition auth_sendable :: "handshake_payload \<Rightarrow> bool" where
  "auth_sendable a \<longleftrightarrow> a_cipher_suite a = 1 \<and>
     \<not> (a_stage a > 1 \<or> (a_stage a = 0 \<and> a_responder_signature a \<noteq> None)) \<and>
     \<not> purpose_mismatch (a_purpose a) (a_previous a)"

lemma auth_lengths:
  "auth_wf a \<Longrightarrow> length (a_initiator_identity a) = 32 \<and> length (a_responder_identity a) = 32 \<and>
   length (a_initiator_ephemeral a) = 32 \<and> length (a_responder_ephemeral a) = 32 \<and>
   length (a_initiator_nonce a) = 16 \<and> length (a_responder_nonce a) = 16 \<and>
   (\<forall>s. a_previous a = Some s \<longrightarrow> length s = 16) \<and> length (a_initiator_signature a) = 64 \<and>
   (\<forall>s. a_responder_signature a = Some s \<longrightarrow> length s = 64)"
  by (simp add: auth_wf_def transcript_wf_def auth_transcript_def)

lemma auth_entries_ok: "auth_wf a \<Longrightarrow> auth_sendable a \<Longrightarrow> entries_ok (auth_entries a)"
  using auth_lengths[of a] purpose_code_bound[of "a_purpose a"]
  by (auto simp: auth_sendable_def entries_ok_def strict_keys_def auth_entries_def opt_entry_def
      u64_max_def split: option.splits)

lemma auth_size:
  assumes "auth_wf a" "auth_sendable a"
  shows "length (payload_bytes (auth_entries a)) \<le> max_payload (message_type_for_purpose p)"
proof -
  have "length (payload_bytes (auth_entries a)) \<le> 1024"
    using auth_lengths[OF assms(1)] assms(2) purpose_code_bound[of "a_purpose a"]
    by (auto simp: length_payload_bytes auth_entries_def opt_entry_def auth_sendable_def
        head_len_def split: option.splits)
  then show ?thesis by (cases p) (simp_all add: message_type_for_purpose_def)
qed

lemma auth_sorted:
  "sort_key entry_key (
     [(uint 0, uint (purpose_code (a_purpose a))), (uint 1, uint (a_stage a)),
      (uint 2, uint (a_cipher_suite a)), (uint 3, CBytes (a_initiator_identity a)),
      (uint 4, CBytes (a_responder_identity a)), (uint 5, CBytes (a_initiator_ephemeral a)),
      (uint 6, CBytes (a_responder_ephemeral a)), (uint 7, CBytes (a_initiator_nonce a)),
      (uint 8, CBytes (a_responder_nonce a)), (uint 10, CBytes (a_initiator_signature a))]
     @ optional_entry 9 (a_previous a) @ optional_entry 11 (a_responder_signature a))
   = [(uint 0, uint (purpose_code (a_purpose a))), (uint 1, uint (a_stage a)),
      (uint 2, uint (a_cipher_suite a)), (uint 3, CBytes (a_initiator_identity a)),
      (uint 4, CBytes (a_responder_identity a)), (uint 5, CBytes (a_initiator_ephemeral a)),
      (uint 6, CBytes (a_responder_ephemeral a)), (uint 7, CBytes (a_initiator_nonce a)),
      (uint 8, CBytes (a_responder_nonce a))]
     @ optional_entry 9 (a_previous a) @ [(uint 10, CBytes (a_initiator_signature a))]
     @ optional_entry 11 (a_responder_signature a)"
  by (simp add: optional_entry_def entry_key_def u64_max_def split: option.split)

lemma auth_encode_iff:
  assumes "cbor_ok X" "auth_wf a"
  shows "auth_encode X a = Inr f \<longleftrightarrow> auth_sendable a \<and>
    f = \<lparr>f_version = V1, f_type = message_type_for_purpose (a_purpose a),
         f_payload = payload_bytes (auth_entries a)\<rparr>"
proof (cases "auth_sendable a")
  case True
  then have "auth_encode X a = rbind (cbor_encode X (CMap (map value_entry (auth_entries a))))
      (frame_new (message_type_for_purpose (a_purpose a)))"
    unfolding auth_encode_def auth_sorted
    by (cases "a_purpose a")
      (auto simp: auth_entries_def optional_entry_values auth_sendable_def purpose_mismatch_def)
  then show ?thesis
    using True auth_size[OF assms(2) True] cbor_encode_entries[OF assms(1) auth_entries_ok[OF assms(2) True]]
    by (auto simp: frame_new_iff)
qed (auto simp: auth_encode_def auth_sendable_def purpose_mismatch_def res_simps)

lemma auth_slots:
  "map_into_fields (auth_entries a) 12 e = Inr
     [Some (CInteger (int (purpose_code (a_purpose a)))), Some (CInteger (int (a_stage a))),
      Some (CInteger (int (a_cipher_suite a))), Some (CBytes (a_initiator_identity a)),
      Some (CBytes (a_responder_identity a)), Some (CBytes (a_initiator_ephemeral a)),
      Some (CBytes (a_responder_ephemeral a)), Some (CBytes (a_initiator_nonce a)),
      Some (CBytes (a_responder_nonce a)), map_option CBytes (a_previous a),
      Some (CBytes (a_initiator_signature a)), map_option CBytes (a_responder_signature a)]"
  by (auto simp: map_into_fields_iff auth_entries_def opt_entry_def upt_rec split: option.splits)

lemma auth_decode_encode:
  assumes "cbor_ok X" "auth_wf a" "auth_encode X a = Inr f"
  shows "auth_decode X f = Inr a"
proof -
  from assms have send: "auth_sendable a"
    and f: "f = \<lparr>f_version = V1, f_type = message_type_for_purpose (a_purpose a),
         f_payload = payload_bytes (auth_entries a)\<rparr>"
    by (simp_all add: auth_encode_iff)
  have "validate_cbor_map X f = Inr (auth_entries a)"
    using assms(1) auth_entries_ok[OF assms(2) send] auth_size[OF assms(2) send]
    by (intro validate_payload[where t = "message_type_for_purpose (a_purpose a)"])
      (simp_all add: f frame_new_iff)
  moreover have "f_type f = MHandshake \<or> f_type f = MRekey"
    by (simp add: f message_type_for_purpose_def split: handshake_purpose.split)
  moreover have stage: "a_stage a \<le> 1" "a_stage a = 0 \<Longrightarrow> a_responder_signature a = None"
    "a_stage a = 1 \<Longrightarrow> a_responder_signature a \<noteq> None"
    using send assms(2) by (auto simp: auth_sendable_def auth_wf_def)
  ultimately show ?thesis
    using auth_lengths[OF assms(2)] send auth_slots[of a InvalidHandshake]
    by (simp add: auth_decode_def auth_sendable_def purpose_mismatch_def f required_uint_def
        required_def required_array_def identity_value_def array_value_def
        optional_array_slot[where v = "a_previous a"]
        optional_array_slot[where v = "a_responder_signature a"] linorder_not_less)
qed

section \<open>SESSION_CONFIRM\<close>

lemma confirm_entries_ok: "confirm_wf s \<Longrightarrow> entries_ok (confirm_entries s)"
  using role_code_bound[of "s_role s"]
  by (auto simp: confirm_wf_def entries_ok_def strict_keys_def confirm_entries_def u64_max_def)

lemma confirm_size:
  "confirm_wf s \<Longrightarrow> length (payload_bytes (confirm_entries s)) \<le> max_payload MSessionConfirm"
  using role_code_bound[of "s_role s"]
  by (auto simp: length_payload_bytes confirm_entries_def confirm_wf_def head_len_def)

lemma confirm_encode_eq:
  assumes "cbor_ok X" "confirm_wf s"
  shows "confirm_encode X s =
    Inr \<lparr>f_version = V1, f_type = MSessionConfirm, f_payload = payload_bytes (confirm_entries s)\<rparr>"
proof -
  have "confirm_encode X s = rbind (cbor_encode X (CMap (map value_entry (confirm_entries s))))
      (frame_new MSessionConfirm)"
    by (simp add: confirm_encode_def confirm_entries_def)
  then show ?thesis
    using confirm_size[OF assms(2)] cbor_encode_entries[OF assms(1) confirm_entries_ok[OF assms(2)]]
    by (auto simp: frame_new_iff)
qed

lemma confirm_slots:
  "map_into_fields (confirm_entries s) 3 e = Inr
     [Some (CBytes (s_session_id s)), Some (CInteger (int (role_code (s_role s)))),
      Some (CBytes (s_confirmation s))]"
  by (auto simp: map_into_fields_iff confirm_entries_def upt_rec)

lemma confirm_decode_encode:
  assumes "cbor_ok X" "confirm_wf s" "confirm_encode X s = Inr f"
  shows "confirm_decode X f = Inr s"
proof -
  have f: "f = \<lparr>f_version = V1, f_type = MSessionConfirm, f_payload = payload_bytes (confirm_entries s)\<rparr>"
    using assms by (simp add: confirm_encode_eq)
  have "validate_cbor_map X f = Inr (confirm_entries s)"
    using assms(1) confirm_entries_ok[OF assms(2)] confirm_size[OF assms(2)]
    by (intro validate_payload[where t = MSessionConfirm]) (simp_all add: f frame_new_iff)
  moreover have "length (confirm_entries s) = 3" by (simp add: confirm_entries_def)
  ultimately show ?thesis
    using assms(2) confirm_slots[of s ConfirmationInvalid]
    by (simp add: confirm_decode_def confirm_wf_def f required_def array_value_def numeral_2_eq_2)
qed

section \<open>Instances of the payload contract\<close>

lemma hello_encode_frame_ok: "hello_encode X h = Inr f \<Longrightarrow> frame_ok f"
  by (auto simp: hello_encode_def res_simps dest: frame_new_ok)

lemma commit_encode_frame_ok: "commit_encode X c = Inr f \<Longrightarrow> frame_ok f"
  by (auto simp: commit_encode_def res_simps dest: frame_new_ok)

lemma auth_encode_frame_ok: "auth_encode X a = Inr f \<Longrightarrow> frame_ok f"
  by (auto simp: auth_encode_def res_simps dest: frame_new_ok)

lemma confirm_encode_frame_ok: "confirm_encode X s = Inr f \<Longrightarrow> frame_ok f"
  by (auto simp: confirm_encode_def res_simps dest: frame_new_ok)

sublocale cbor_lib \<subseteq> hello: payload_codec "hello_encode X" "hello_decode X" hello_wf
  using lib hello_decode_encode hello_encode_frame_ok by unfold_locales blast+

sublocale cbor_lib \<subseteq> commit: payload_codec "commit_encode X" "commit_decode X" commit_wf
  using lib commit_decode_encode commit_encode_frame_ok by unfold_locales blast+

sublocale cbor_lib \<subseteq> auth: payload_codec "auth_encode X" "auth_decode X" auth_wf
  using lib auth_decode_encode auth_encode_frame_ok by unfold_locales blast+

sublocale cbor_lib \<subseteq> confirm: payload_codec "confirm_encode X" "confirm_decode X" confirm_wf
  using lib confirm_decode_encode confirm_encode_frame_ok by unfold_locales blast+

text \<open>A payload on the wire: its frame is read from the front of any bytes and decodes to it.\<close>

definition on_wire :: "(frame \<Rightarrow> 'p res) \<Rightarrow> 'p \<Rightarrow> frame \<Rightarrow> bool" where
  "on_wire decode p f \<longleftrightarrow>
     (\<exists>bs. frame_encode f = Inr bs \<and> (\<forall>rest. frame_decode (bs @ rest) = Inr (f, length bs)) \<and> decode f = Inr p)"

lemma codec_on_wire: "payload_codec encode decode ok \<Longrightarrow> ok p \<Longrightarrow> encode p = Inr f \<Longrightarrow> on_wire decode p f"
  unfolding on_wire_def by (rule payload_codec.wire_roundtrip)

lemma codecs:
  assumes "cbor_ok X"
  shows "payload_codec (hello_encode X) (hello_decode X) hello_wf"
    "payload_codec (commit_encode X) (commit_decode X) commit_wf"
    "payload_codec (auth_encode X) (auth_decode X) auth_wf"
    "payload_codec (confirm_encode X) (confirm_decode X) confirm_wf"
  using hello_decode_encode[OF assms] hello_encode_frame_ok commit_decode_encode[OF assms] commit_encode_frame_ok
    auth_decode_encode[OF assms] auth_encode_frame_ok confirm_decode_encode[OF assms] confirm_encode_frame_ok
  by (unfold_locales; blast)+

end
