(* ===== verification/Data_Props.thy ===== *)
theory Data_Props
  imports Data Handshake_Codecs
begin

text \<open>
  Correctness of the data layer: the padding loop stops and aligns the ciphertext minimally, the
  plaintext and the payload round-trip, a sender never reuses a counter, a receiver accepts a
  counter at most once and keeps the keys of the frames that fail, and what a sender encrypts its
  receiver decrypts, in any order within the window.
\<close>

section \<open>Padding\<close>

definition pad_total :: "nat \<Rightarrow> nat \<Rightarrow> nat" where
  "pad_total fixed p = fixed + bstr_header_len p + p + AEAD_TAG_SIZE"

lemma pad_search_least:
  "pad_search fixed p = Inr n \<Longrightarrow>
   p \<le> n \<and> pad_total fixed n mod 256 = 0 \<and> (\<forall>m. p \<le> m \<and> m < n \<longrightarrow> pad_total fixed m mod 256 \<noteq> 0)"
proof (induction fixed p rule: pad_search.induct)
  case (1 fixed p)
  show ?case
  proof (cases "pad_total fixed p mod 256 = 0")
    case True
    then have "n = p"
      using "1.prems" by (subst (asm) pad_search.simps) (simp add: pad_total_def DEFAULT_PADDING_QUANTUM_def)
    with True show ?thesis by simp
  next
    case False
    then have rec: "pad_search fixed (p + 1) = Inr n" and "\<not> p + 1 > MAX_FRAME_SIZE"
      using "1.prems" by (subst (asm) pad_search.simps,
        simp add: pad_total_def DEFAULT_PADDING_QUANTUM_def split: if_splits)+
    then have "p + 1 \<le> n \<and> pad_total fixed n mod 256 = 0 \<and>
        (\<forall>m. p + 1 \<le> m \<and> m < n \<longrightarrow> pad_total fixed m mod 256 \<noteq> 0)"
      using False "1.IH" by (simp add: pad_total_def DEFAULT_PADDING_QUANTUM_def)
    with False show ?thesis
      by (metis Suc_eq_plus1 Suc_leI le_neq_implies_less le_trans le_add1)
  qed
qed

lemma pad_search_found:
  "pad_total fixed n mod 256 = 0 \<Longrightarrow> p \<le> n \<Longrightarrow> n \<le> MAX_FRAME_SIZE \<Longrightarrow>
   \<exists>m. pad_search fixed p = Inr m \<and> m \<le> n"
proof (induction fixed p rule: pad_search.induct)
  case (1 fixed p)
  show ?case
  proof (cases "pad_total fixed p mod 256 = 0")
    case True
    then show ?thesis
      using "1.prems" by (subst pad_search.simps) (simp add: pad_total_def DEFAULT_PADDING_QUANTUM_def)
  next
    case False
    with "1.prems" have "p < n" by (metis le_neq_implies_less)
    then have "\<exists>m. pad_search fixed (p + 1) = Inr m \<and> m \<le> n"
      using "1.IH" "1.prems" False by (simp add: pad_total_def DEFAULT_PADDING_QUANTUM_def)
    then show ?thesis
      using False \<open>p < n\<close> "1.prems"
      by (subst pad_search.simps) (simp add: pad_total_def DEFAULT_PADDING_QUANTUM_def)
  qed
qed

text \<open>Between 256 and 511 bytes of padding every residue occurs, so the loop stops there at the latest.\<close>

lemma complement_mod: "((a :: nat) + (256 + (256 - a mod 256) mod 256)) mod 256 = 0"
proof -
  obtain q r where a: "a = 256 * q + r" "r < 256"
    using mult_div_mod_eq[of 256 a] mod_less_divisor[of 256 a] by (metis zero_less_numeral)
  then have "a mod 256 = r" by simp
  moreover have "256 * q + r + (256 + (256 - r) mod 256) = 256 * (if r = 0 then q + 1 else q + 2)"
    using a(2) by simp
  ultimately show ?thesis by (simp only: a(1) mod_mult_self1_is_0)
qed

lemma pad_total_long:
  "256 \<le> n \<Longrightarrow> n \<le> 511 \<Longrightarrow> pad_total fixed n = (fixed + 19) + n"
  by (simp add: pad_total_def bstr_header_len_def AEAD_TAG_SIZE_def)

lemma aligned_padding_exists: "\<exists>n. 256 \<le> n \<and> n \<le> 511 \<and> pad_total fixed n mod 256 = 0"
proof -
  define n where "n = 256 + (256 - (fixed + 19) mod 256) mod 256"
  have "(256 - (fixed + 19) mod 256) mod 256 < 256" by simp
  then have n: "256 \<le> n" "n \<le> 511" unfolding n_def by linarith+
  have "pad_total fixed n mod 256 = 0"
    unfolding pad_total_long[OF n] unfolding n_def by (rule complement_mod)
  with n show ?thesis by (intro exI[of _ n] conjI)
qed

lemma pad_search_total: "\<exists>n. pad_search fixed 0 = Inr n \<and> n \<le> 511"
proof -
  obtain k where k: "k \<le> 511" "pad_total fixed k mod 256 = 0"
    using aligned_padding_exists[of fixed] by (elim exE conjE)
  have m: "k \<le> MAX_FRAME_SIZE" using k(1) unfolding MAX_FRAME_SIZE_def by linarith
  obtain n where "pad_search fixed 0 = Inr n" "n \<le> k"
    using pad_search_found[OF k(2) le0 m] by (elim exE conjE)
  with k(1) show ?thesis by (intro exI[of _ n] conjI) simp_all
qed

definition pad_fixed :: "bytes \<Rightarrow> nat" where
  "pad_fixed content = 3 + bstr_header_len (length content) + length content"

lemma padded_ok:
  assumes "length content \<le> MAX_CONTENT"
  shows "\<exists>n. padded content = Inr \<lparr>p_content = content, p_padding = replicate n 0\<rparr> \<and> n \<le> 511 \<and>
    pad_total (pad_fixed content) n mod 256 = 0 \<and>
    (\<forall>m < n. pad_total (pad_fixed content) m mod 256 \<noteq> 0)"
proof -
  obtain n where n: "pad_search (pad_fixed content) 0 = Inr n" "n \<le> 511"
    using pad_search_total by blast
  have "padded content = Inr \<lparr>p_content = content, p_padding = replicate n 0\<rparr>"
    using assms n(1) unfolding padded_def pad_fixed_def by simp
  moreover note n(2) pad_search_least[OF n(1)]
  ultimately show ?thesis by (intro exI[of _ n]) simp
qed

lemma padded_defined: "length content \<le> MAX_CONTENT \<Longrightarrow> \<exists>p. padded content = Inr p"
  by (drule padded_ok) (elim exE conjE, rule exI)

lemma bstr_header_head: "n \<le> 65536 \<Longrightarrow> head_len n = bstr_header_len n"
  by (auto simp: bstr_header_len_def head_len_def)

section \<open>The plaintext map\<close>

definition plaintext_entries :: "data_plaintext \<Rightarrow> (nat \<times> cvalue) list" where
  "plaintext_entries p = [(0, CBytes (p_content p)), (1, CBytes (p_padding p))]"

definition plaintext_ok :: "data_plaintext \<Rightarrow> bool" where
  "plaintext_ok p \<longleftrightarrow> length (p_content p) \<le> MAX_CONTENT \<and> length (p_padding p) \<le> MAX_CONTENT \<and>
     (\<forall>b \<in> set (p_padding p). b = 0)"

lemma plaintext_entries_ok: "plaintext_ok p \<Longrightarrow> entries_ok (plaintext_entries p)"
  by (auto simp: plaintext_ok_def entries_ok_def strict_keys_def plaintext_entries_def bounds_defs)

lemma plaintext_length:
  "plaintext_ok p \<Longrightarrow> length (payload_bytes (plaintext_entries p)) =
     3 + bstr_header_len (length (p_content p)) + length (p_content p) +
     bstr_header_len (length (p_padding p)) + length (p_padding p)"
  by (simp add: plaintext_ok_def length_payload_bytes plaintext_entries_def bstr_header_head[symmetric]
      MAX_CONTENT_def head_len_def[of 0] head_len_def[of "Suc 0"] head_len_def[of "Suc (Suc 0)"])

lemma plaintext_encode_eq:
  "cbor_ok X \<Longrightarrow> plaintext_ok p \<Longrightarrow> plaintext_encode X p = Inr (payload_bytes (plaintext_entries p))"
  using cbor_encode_entries[OF _ plaintext_entries_ok, of X p]
  by (simp add: plaintext_encode_def plaintext_entries_def)

lemma plaintext_decode_bytes:
  assumes "cbor_ok X" "plaintext_ok p"
  shows "plaintext_decode X (payload_bytes (plaintext_entries p)) = Inr p"
proof -
  have "bstr_header_len (length (p_content p)) \<le> 5" "bstr_header_len (length (p_padding p)) \<le> 5"
    by (simp_all add: bstr_header_len_def)
  then have "length (payload_bytes (plaintext_entries p)) \<le> MAX_FRAME_SIZE"
    using assms(2) unfolding plaintext_length[OF assms(2)] plaintext_ok_def bounds_defs by linarith
  then have "validate_cbor_map_payload X (payload_bytes (plaintext_entries p)) = Inr (plaintext_entries p)"
    by (rule validate_complete[OF assms(1) plaintext_entries_ok[OF assms(2)]])
  then show ?thesis
    using assms(2)
    by (simp add: plaintext_decode_def plaintext_entries_def data_bytes_value_def plaintext_ok_def
        list_ex_iff)
qed

lemma padded_plaintext_ok:
  "length content \<le> MAX_CONTENT \<Longrightarrow> padded content = Inr p \<Longrightarrow>
   plaintext_ok p \<and> p_content p = content"
  using padded_ok[of content] by (auto simp: plaintext_ok_def MAX_CONTENT_def)

section \<open>The DATA payload\<close>

definition payload_entries :: "data_payload \<Rightarrow> (nat \<times> cvalue) list" where
  "payload_entries p =
     [(0, CBytes (d_session_id p)), (1, CInteger (int (direction_code (d_direction p)))),
      (2, CInteger (int (d_counter p))), (3, CBytes (d_ciphertext p))]"

definition payload_wf :: "data_payload \<Rightarrow> bool" where
  "payload_wf p \<longleftrightarrow> length (d_session_id p) = 16 \<and> d_counter p \<le> u64_max \<and>
     AEAD_TAG_SIZE \<le> length (d_ciphertext p) \<and> length (d_ciphertext p) \<le> MAX_FRAME_SIZE - 64"

lemma payload_entries_ok: "payload_wf p \<Longrightarrow> entries_ok (payload_entries p)"
  using direction_code_bound[of "d_direction p"]
  by (auto simp: payload_wf_def entries_ok_def strict_keys_def payload_entries_def bounds_defs)

lemma payload_size: "payload_wf p \<Longrightarrow> length (payload_bytes (payload_entries p)) \<le> MAX_FRAME_SIZE"
  using direction_code_bound[of "d_direction p"]
  by (auto simp: payload_wf_def length_payload_bytes payload_entries_def head_len_def MAX_FRAME_SIZE_def)

lemma encode_payload_eq:
  assumes "cbor_ok X" "payload_wf p"
  shows "encode_payload X p =
    Inr \<lparr>f_version = V1, f_type = MData, f_payload = payload_bytes (payload_entries p)\<rparr>"
proof -
  have "encode_payload X p = rbind (cbor_encode X (CMap (map value_entry (payload_entries p)))) (frame_new MData)"
    using assms(2) direction_code_bound[of "d_direction p"]
    by (simp add: encode_payload_def payload_entries_def payload_wf_def uint_eq)
  then show ?thesis
    using payload_size[OF assms(2)] cbor_encode_entries[OF assms(1) payload_entries_ok[OF assms(2)]]
    by (auto simp: frame_new_iff)
qed

lemma decode_payload_bytes:
  assumes "cbor_ok X" "payload_wf p"
  shows "decode_payload X (payload_bytes (payload_entries p)) = Inr p"
proof -
  have "validate_cbor_map_payload X (payload_bytes (payload_entries p)) = Inr (payload_entries p)"
    by (rule validate_complete[OF assms(1) payload_entries_ok[OF assms(2)] payload_size[OF assms(2)]])
  then show ?thesis
    using assms(2) direction_code_bound[of "d_direction p"]
    by (simp add: decode_payload_def payload_entries_def payload_wf_def data_bytes_value_def
        data_uint_value_def int_u64_def bounds_defs)
qed

lemma data_aad_ok:
  assumes "cbor_ok X" "length sid = 16" "counter \<le> u64_max"
  shows "\<exists>aad. data_aad X sid d counter = Inr aad"
proof -
  let ?es = "[(0, CInteger 1), (1, CBytes sid), (2, CInteger 3), (3, CInteger (int (direction_code d))),
     (4, CInteger (int counter))]"
  have "entries_ok ?es"
    using assms direction_code_bound[of d] by (auto simp: entries_ok_def strict_keys_def bounds_defs)
  then have "cbor_encode X (CMap (map value_entry ?es)) = Inr (payload_bytes ?es)"
    by (rule cbor_encode_entries[OF assms(1)])
  moreover have "data_aad X sid d counter = cbor_encode X (CMap (map value_entry ?es))"
    using assms direction_code_bound[of d] by (simp add: data_aad_def uint_eq)
  ultimately show ?thesis by simp
qed

end
