(* ===== verification/Data_Session.thy ===== *)
theory Data_Session
  imports Data_Props
begin

text \<open>
  Sender against receiver: what a sender encrypts, its receiver opens, in any order the window and
  the cache allow; no counter is delivered twice, whatever frames arrive; a failed call leaves the
  sender as it was and the receiver able to open the genuine frame later.
\<close>

section \<open>A frame sealed at a position of the key sequence\<close>

definition sealed ::
  "ext \<Rightarrow> session_id \<Rightarrow> direction_id \<Rightarrow> bytes \<Rightarrow> nat \<Rightarrow> bytes \<Rightarrow> frame \<Rightarrow> bool" where
  "sealed X sid d ck n content f \<longleftrightarrow>
     (\<exists>p aad ct. plaintext_ok p \<and> p_content p = content \<and> data_aad X sid d n = Inr aad \<and>
        aead_decrypt X (message_key_at X d ck n) (message_nonce d n) aad ct =
          Some (payload_bytes (plaintext_entries p)) \<and>
        payload_wf \<lparr>d_session_id = sid, d_direction = d, d_counter = n, d_ciphertext = ct\<rparr> \<and>
        f = \<lparr>f_version = V1, f_type = MData, f_payload = payload_bytes (payload_entries
              \<lparr>d_session_id = sid, d_direction = d, d_counter = n, d_ciphertext = ct\<rparr>)\<rparr>)"

definition sender_rel :: "ext \<Rightarrow> session_id \<Rightarrow> direction_id \<Rightarrow> bytes \<Rightarrow> data_sender \<Rightarrow> nat \<Rightarrow> bool" where
  "sender_rel X sid d ck s n \<longleftrightarrow> ds_session_id s = sid \<and> ds_direction s = d \<and>
     ds_chain_key s = chain_key_at X d ck n \<and> ds_counter s = n"

definition receiver_rel ::
  "ext \<Rightarrow> session_id \<Rightarrow> direction_id \<Rightarrow> bytes \<Rightarrow> data_receiver \<Rightarrow> nat set \<Rightarrow> bool" where
  "receiver_rel X sid d ck r S \<longleftrightarrow> dr_session_id r = sid \<and> dr_direction r = d \<and>
     chain_rel X d ck (dr_chain r) S \<and> window_rel (dr_replay r) S"

lemma sender_rel_new: "sender_rel X sid d ck (sender_new sid d ck) 0"
  by (simp add: sender_rel_def sender_new_def)

lemma receiver_rel_new: "receiver_rel X sid d ck (receiver_new sid d ck) {}"
  by (simp add: receiver_rel_def receiver_new_def chain_rel_new window_rel_new)

section \<open>The sender\<close>

lemma plaintext_size: "plaintext_ok p \<Longrightarrow> length (payload_bytes (plaintext_entries p)) \<le> 131085"
proof -
  assume ok: "plaintext_ok p"
  have "bstr_header_len (length (p_content p)) \<le> 5" "bstr_header_len (length (p_padding p)) \<le> 5"
    by (simp_all add: bstr_header_len_def)
  then show ?thesis
    using ok unfolding plaintext_length[OF ok] plaintext_ok_def bounds_defs by linarith
qed

lemma padded_aligned:
  assumes "length content \<le> MAX_CONTENT" "padded content = Inr p"
  shows "(length (payload_bytes (plaintext_entries p)) + AEAD_TAG_SIZE) mod 256 = 0"
proof -
  obtain n where n: "padded content = Inr \<lparr>p_content = content, p_padding = replicate n 0\<rparr>"
    "pad_total (pad_fixed content) n mod 256 = 0"
    using padded_ok[OF assms(1)] by (elim exE conjE)
  have p: "p = \<lparr>p_content = content, p_padding = replicate n 0\<rparr>" using n(1) assms(2) by simp
  have "plaintext_ok p" using padded_plaintext_ok[OF assms] by blast
  from plaintext_length[OF this] have "length (payload_bytes (plaintext_entries p)) + AEAD_TAG_SIZE
      = pad_total (pad_fixed content) n"
    by (simp add: p pad_total_def pad_fixed_def)
  then show ?thesis using n(2) by (simp only:)
qed

text \<open>The steps of an accepted message, and the frame they make.\<close>

lemma encrypt_seals:
  assumes X: "cbor_ok X" "crypto_ok X" and sid: "length sid = 16"
    and s: "sender_rel X sid d ck s n" and n: "n < u64_max" and len: "length content \<le> MAX_CONTENT"
  shows "\<exists>f s'. sender_encrypt X s content = (Inr f, s') \<and> sender_rel X sid d ck s' (Suc n) \<and>
    sealed X sid d ck n content f \<and>
    (\<exists>pl. decode_payload X (f_payload f) = Inr pl \<and> d_counter pl = n \<and>
       length (d_ciphertext pl) mod DEFAULT_PADDING_QUANTUM = 0)"
proof -
  obtain p where pad: "padded content = Inr p"
    using padded_defined[OF len] by blast
  have p: "plaintext_ok p" "p_content p = content"
    using padded_plaintext_ok[OF len pad] by auto
  let ?pt = "payload_bytes (plaintext_entries p)"
  have enc: "plaintext_encode X p = Inr ?pt"
    by (rule plaintext_encode_eq[OF X(1) p(1)])
  obtain aad where aad: "data_aad X sid d n = Inr aad"
    using data_aad_ok[OF X(1) sid, of n d] n by fastforce
  let ?k = "message_key_at X d ck n"
  have "length ?pt \<le> MAX_FRAME_SIZE"
    using plaintext_size[OF p(1)] unfolding MAX_FRAME_SIZE_def by linarith
  then obtain ct where ct: "aead_encrypt X ?k (message_nonce d n) aad ?pt = Some ct"
    "length ct = length ?pt + 16" "aead_decrypt X ?k (message_nonce d n) aad ct = Some ?pt"
    using crypto_ok_aead[OF X(2), of ?k "message_nonce d n" ?pt aad] derive_message_key_lengths[OF X(2)]
    by (auto simp: message_key_at_def)
  let ?pl = "\<lparr>d_session_id = sid, d_direction = d, d_counter = n, d_ciphertext = ct\<rparr>"
  have wf: "payload_wf ?pl"
    using sid n ct(2) plaintext_size[OF p(1)]
    unfolding payload_wf_def AEAD_TAG_SIZE_def MAX_FRAME_SIZE_def by simp
  have steps: "encrypt_steps X s content = Inr (ct, chain_key_at X d ck (Suc n))"
    using s n len pad enc aad ct(1)
    by (simp add: encrypt_steps_def sender_rel_def split_beta encrypt_message_def message_key_at_def)
  have al: "length ct mod DEFAULT_PADDING_QUANTUM = 0"
    using padded_aligned[OF len pad] unfolding ct(2) AEAD_TAG_SIZE_def DEFAULT_PADDING_QUANTUM_def .
  let ?f = "\<lparr>f_version = V1, f_type = MData, f_payload = payload_bytes (payload_entries ?pl)\<rparr>"
  let ?s = "s\<lparr>ds_chain_key := chain_key_at X d ck (Suc n), ds_counter := ds_counter s + 1\<rparr>"
  have "sender_encrypt X s content = (Inr ?f, ?s)"
    using s encode_payload_eq[OF X(1) wf] unfolding sender_encrypt_def steps
    by (simp add: sender_rel_def del: chain_key_at.simps)
  moreover have "sender_rel X sid d ck ?s (Suc n)"
    using s by (simp add: sender_rel_def del: chain_key_at.simps)
  moreover have "sealed X sid d ck n content ?f"
    unfolding sealed_def using p aad ct(3) wf by (intro exI[of _ p] exI[of _ aad] exI[of _ ct] conjI) simp_all
  moreover have "decode_payload X (f_payload ?f) = Inr ?pl"
    using decode_payload_bytes[OF X(1) wf] by simp
  ultimately show ?thesis using al
    by (intro exI[of _ ?f] exI[of _ ?s] conjI exI[of _ ?pl]) simp_all
qed

lemma encrypt_fails:
  assumes "MAX_CONTENT < length content \<or> ds_counter s = u64_max" "ds_counter s \<le> u64_max"
  shows "sender_encrypt X s content =
    (Inl (if MAX_CONTENT < length content then DataTooLarge else CounterOverflow), s)"
  using assms by (auto simp: sender_encrypt_def encrypt_steps_def)

text \<open>A sender run over any contents: the frames in the order sent.\<close>

fun sender_run :: "ext \<Rightarrow> data_sender \<Rightarrow> bytes list \<Rightarrow> frame res list \<times> data_sender" where
  "sender_run X s [] = ([], s)"
| "sender_run X s (c # cs) =
     (let (res, s1) = sender_encrypt X s c; (out, s2) = sender_run X s1 cs in (res # out, s2))"

definition frame_counter :: "ext \<Rightarrow> frame \<Rightarrow> nat res" where
  "frame_counter X f = rbind (decode_payload X (f_payload f)) (\<lambda>pl. Inr (d_counter pl))"

definition sent_frames :: "frame res list \<Rightarrow> frame list" where
  "sent_frames out = concat (map (\<lambda>res. case res of Inl e \<Rightarrow> [] | Inr f \<Rightarrow> [f]) out)"

lemma sender_run_counters:
  assumes X: "cbor_ok X" "crypto_ok X" and sid: "length sid = 16"
  shows "sender_rel X sid d ck s n \<Longrightarrow> n \<le> u64_max \<Longrightarrow> sender_run X s cs = (out, s') \<Longrightarrow>
    (\<exists>k. map (frame_counter X) (sent_frames out) = map Inr [n..<k] \<and> n \<le> k \<and> k \<le> u64_max \<and>
      sender_rel X sid d ck s' k)"
proof (induction cs arbitrary: s n out)
  case Nil
  then show ?case by (auto simp: sent_frames_def intro!: exI[of _ n])
next
  case (Cons c cs)
  obtain res s1 out1 where run: "sender_encrypt X s c = (res, s1)" "sender_run X s1 cs = (out1, s')"
    "out = res # out1"
    using Cons.prems(3) by (auto split: prod.splits)
  show ?case
  proof (cases "length c \<le> MAX_CONTENT \<and> n < u64_max")
    case False
    then have "res = Inl (if MAX_CONTENT < length c then DataTooLarge else CounterOverflow)" "s1 = s"
      using encrypt_fails[of c s X] Cons.prems(1,2) run(1) by (auto simp: sender_rel_def)
    with run Cons.IH[OF Cons.prems(1,2), of out1] show ?thesis
      by (auto simp: sent_frames_def)
  next
    case True
    then obtain f where f: "res = Inr f" "sender_rel X sid d ck s1 (Suc n)" "frame_counter X f = Inr n"
      using encrypt_seals[OF X sid Cons.prems(1), of c] run(1)
      by (auto simp: frame_counter_def)
    obtain k where k: "map (frame_counter X) (sent_frames out1) = map Inr [Suc n..<k]" "Suc n \<le> k"
      "k \<le> u64_max" "sender_rel X sid d ck s' k"
      using Cons.IH[OF f(2) _ run(2)] True by auto
    then show ?thesis
      using f run(3) by (intro exI[of _ k]) (simp add: sent_frames_def upt_conv_Cons)
  qed
qed

section \<open>The receiver\<close>

lemma int_u64_bound: "int_u64 i e = Inr n \<Longrightarrow> n \<le> u64_max"
  by (auto simp: int_u64_def split: if_splits)

lemma payload_fields_bound:
  "payload_fields es (a, b, c, ct) = Inr (a', b', Some m, ct') \<Longrightarrow>
   (\<forall>n. c = Some n \<longrightarrow> n \<le> u64_max) \<Longrightarrow> m \<le> u64_max"
proof (induction es arbitrary: a b c ct)
  case (Cons e es)
  obtain k v where e: "e = (k, v)" by (cases e)
  from Cons.prems show ?case
    by (auto simp: e res_simps data_uint_value_def data_bytes_value_def split: if_splits cvalue.splits
        elim!: Cons.IH dest!: int_u64_bound)
qed simp

lemma decode_payload_counter: "decode_payload X bs = Inr pl \<Longrightarrow> d_counter pl \<le> u64_max"
  by (auto simp: decode_payload_def res_simps elim!: payload_fields_bound)

lemma receive_checks_Inr:
  "receive_checks X r f = Inr pl \<longleftrightarrow> f_type f = MData \<and> decode_payload X (f_payload f) = Inr pl \<and>
     d_session_id pl = dr_session_id r \<and> d_direction pl = dr_direction r \<and>
     window_classify (dr_replay r) (d_counter pl) = New"
  by (auto simp: receive_checks_def res_simps)

text \<open>
  One call: an error keeps the set of used counters and the window, and at most prepares keys; a
  delivery uses exactly the counter of the frame, which was not used before.
\<close>

lemma receiver_step:
  assumes rel: "receiver_rel X sid d ck r S" and run: "receiver_decrypt X r f = (res, r')"
  shows "case res of
      Inl e \<Rightarrow> receiver_rel X sid d ck r' S \<and> dr_replay r' = dr_replay r
    | Inr content \<Rightarrow> \<exists>n. frame_counter X f = Inr n \<and> n \<notin> S \<and> receiver_rel X sid d ck r' (insert n S)"
proof (cases "receive_checks X r f")
  case (Inl e)
  with run rel show ?thesis by (auto simp: receiver_decrypt_def)
next
  case (Inr pl)
  let ?n = "d_counter pl"
  have pl: "decode_payload X (f_payload f) = Inr pl" "window_classify (dr_replay r) ?n = New"
    using Inr by (auto simp: receive_checks_Inr)
  have max: "?n \<le> u64_max" using decode_payload_counter[OF pl(1)] .
  have win: "window_rel (dr_replay r) S" and ch: "chain_rel X d ck (dr_chain r) S"
    using rel by (auto simp: receiver_rel_def)
  show ?thesis
  proof (cases "prepare_message_key X (dr_chain r) ?n")
    case (Inl e)
    with run rel Inr show ?thesis by (auto simp: receiver_decrypt_def)
  next
    case prep: (Inr kc)
    obtain k c where kc: "kc = (k, c)" by (cases kc)
    have c: "chain_rel X d ck c S"
      using chain.prepare_key[OF ch max] prep kc by blast
    obtain c2 where c2: "commit_message_key c ?n = Inr c2"
      using chain.prepare_again[OF ch max] prep kc by blast
    have used: "?n \<notin> S" "chain_rel X d ck c2 (insert ?n S)"
      using chain.commit_uses[OF c c2] by auto
    obtain w where w: "window_accept (dr_replay r) ?n = Inr w"
      using accept_new[OF pl(2)] by blast
    have "window_rel w (insert ?n S)" by (rule window.accept_seen[OF win w])
    with run rel Inr prep kc c c2 used w pl show ?thesis
      by (auto simp: receiver_decrypt_def receiver_rel_def frame_counter_def Let_def
          split: sum.splits)
  qed
qed

fun receiver_run :: "ext \<Rightarrow> data_receiver \<Rightarrow> frame list \<Rightarrow> (frame \<times> bytes) list \<times> data_receiver" where
  "receiver_run X r [] = ([], r)"
| "receiver_run X r (f # fs) =
     (case receiver_decrypt X r f of
        (Inl e, r1) \<Rightarrow> receiver_run X r1 fs
      | (Inr content, r1) \<Rightarrow> (let (out, r2) = receiver_run X r1 fs in ((f, content) # out, r2)))"

lemma receiver_run_once:
  "receiver_rel X sid d ck r S \<Longrightarrow> receiver_run X r fs = (out, r') \<Longrightarrow>
   \<exists>ns. map (frame_counter X \<circ> fst) out = map Inr ns \<and> distinct ns \<and> set ns \<inter> S = {} \<and>
     receiver_rel X sid d ck r' (S \<union> set ns)"
proof (induction fs arbitrary: r S out)
  case Nil
  then show ?case by (auto intro!: exI[of _ "[]"])
next
  case (Cons f fs)
  obtain res r1 where dec: "receiver_decrypt X r f = (res, r1)" by (cases "receiver_decrypt X r f")
  note st = receiver_step[OF Cons.prems(1) dec]
  show ?case
  proof (cases res)
    case (Inl e)
    with st dec Cons.prems(2) Cons.IH[of r1 S out] show ?thesis by simp
  next
    case (Inr content)
    obtain n where n: "frame_counter X f = Inr n" "n \<notin> S" "receiver_rel X sid d ck r1 (insert n S)"
      using st Inr by auto
    obtain out1 where o1: "receiver_run X r1 fs = (out1, r')" "out = (f, content) # out1"
      using Cons.prems(2) dec Inr by (auto split: prod.splits)
    obtain ns where ns: "map (frame_counter X \<circ> fst) out1 = map Inr ns" "distinct ns"
      "set ns \<inter> insert n S = {}" "receiver_rel X sid d ck r' (insert n S \<union> set ns)"
      using Cons.IH[OF n(3) o1(1)] by blast
    have "insert n S \<union> set ns = S \<union> set (n # ns)" by auto
    with ns n o1(2) show ?thesis by (intro exI[of _ "n # ns"]) (auto simp: comp_def)
  qed
qed

section \<open>Delivery\<close>

text \<open>When a receiver that used \<open>S\<close> takes the genuine frame number \<open>n\<close>.\<close>

definition deliverable :: "data_receiver \<Rightarrow> nat set \<Rightarrow> nat \<Rightarrow> bool" where
  "deliverable r S n \<longleftrightarrow> n \<notin> S \<and> (\<forall>h \<in> S. h < n + REPLAY_WINDOW_SIZE) \<and>
     (n < rc_next_counter (dr_chain r) \<or> prepare_allowed (dr_chain r) n)"

lemma prepare_iff:
  assumes "chain_rel X d ck rc S" "n \<le> u64_max" "n \<notin> S"
  shows "(\<exists>k rc'. prepare_message_key X rc n = Inr (k, rc')) \<longleftrightarrow>
    n < rc_next_counter rc \<or> prepare_allowed rc n"
proof -
  have "(\<exists>e. prepare_message_key X rc n = Inl e) \<longleftrightarrow> rc_next_counter rc \<le> n \<and> \<not> prepare_allowed rc n"
    using prepare_errors_iff[OF assms(1,2)] assms(3) by blast
  then show ?thesis
    by (cases "prepare_message_key X rc n") auto
qed

lemma sealed_payload:
  assumes "cbor_ok X" "sealed X sid d ck n content f"
  shows "\<exists>pl aad p. f_type f = MData \<and> decode_payload X (f_payload f) = Inr pl \<and>
    d_session_id pl = sid \<and> d_direction pl = d \<and> d_counter pl = n \<and> n \<le> u64_max \<and>
    data_aad X sid d n = Inr aad \<and>
    aead_decrypt X (message_key_at X d ck n) (message_nonce d n) aad (d_ciphertext pl) =
      Some (payload_bytes (plaintext_entries p)) \<and>
    plaintext_decode X (payload_bytes (plaintext_entries p)) = Inr p \<and> p_content p = content"
proof -
  obtain p aad ct where *: "plaintext_ok p" "p_content p = content" "data_aad X sid d n = Inr aad"
    "aead_decrypt X (message_key_at X d ck n) (message_nonce d n) aad ct =
       Some (payload_bytes (plaintext_entries p))"
    and wf: "payload_wf \<lparr>d_session_id = sid, d_direction = d, d_counter = n, d_ciphertext = ct\<rparr>"
    and f: "f = \<lparr>f_version = V1, f_type = MData, f_payload = payload_bytes (payload_entries
              \<lparr>d_session_id = sid, d_direction = d, d_counter = n, d_ciphertext = ct\<rparr>)\<rparr>"
    using assms(2) unfolding sealed_def by blast
  have "n \<le> u64_max" using wf by (simp add: payload_wf_def)
  with * decode_payload_bytes[OF assms(1) wf] plaintext_decode_bytes[OF assms(1) *(1)]
  show ?thesis
    by (intro exI[of _ "\<lparr>d_session_id = sid, d_direction = d, d_counter = n, d_ciphertext = ct\<rparr>"]
        exI[of _ aad] exI[of _ p]) (simp add: f)
qed

lemma deliver_sealed:
  assumes X: "cbor_ok X" and rel: "receiver_rel X sid d ck r S" and f: "sealed X sid d ck n content f"
  shows "if deliverable r S n
    then \<exists>r'. receiver_decrypt X r f = (Inr content, r') \<and> receiver_rel X sid d ck r' (insert n S)
    else \<exists>e. receiver_decrypt X r f = (Inl e, r)"
proof -
  obtain pl aad p where pl: "f_type f = MData" "decode_payload X (f_payload f) = Inr pl"
      "d_session_id pl = sid" "d_direction pl = d" "d_counter pl = n" "n \<le> u64_max"
    and op: "data_aad X sid d n = Inr aad"
      "aead_decrypt X (message_key_at X d ck n) (message_nonce d n) aad (d_ciphertext pl) =
        Some (payload_bytes (plaintext_entries p))"
      "plaintext_decode X (payload_bytes (plaintext_entries p)) = Inr p" "p_content p = content"
    using sealed_payload[OF X f] by blast
  have r: "dr_session_id r = sid" "dr_direction r = d" and ch: "chain_rel X d ck (dr_chain r) S"
    and win: "window_rel (dr_replay r) S"
    using rel by (auto simp: receiver_rel_def)
  have new: "window_classify (dr_replay r) n = New \<longleftrightarrow> n \<notin> S \<and> (\<forall>h \<in> S. h < n + REPLAY_WINDOW_SIZE)"
    by (auto simp: classify_refines[OF win] spec_classify_def not_less[symmetric] split: if_splits)
  show ?thesis
  proof (cases "window_classify (dr_replay r) n = New")
    case False
    then have "\<not> deliverable r S n" using new by (auto simp: deliverable_def)
    moreover have "receiver_decrypt X r f = (Inl ReplayRejected, r)"
      using False pl r by (simp add: receiver_decrypt_def receive_checks_def)
    ultimately show ?thesis by simp
  next
    case True
    have chk: "receive_checks X r f = Inr pl" using True pl r by (simp add: receive_checks_Inr)
    show ?thesis
    proof (cases "prepare_message_key X (dr_chain r) n")
      case (Inl e)
      then have "\<not> deliverable r S n"
        using prepare_iff[OF ch pl(6)] True new by (auto simp: deliverable_def)
      moreover have "receiver_decrypt X r f = (Inl e, r)"
        using Inl chk pl by (simp add: receiver_decrypt_def)
      ultimately show ?thesis by simp
    next
      case (Inr kc)
      obtain k c where kc: "kc = (k, c)" by (cases kc)
      have k: "k = message_key_at X d ck n" "chain_rel X d ck c S"
        using chain.prepare_key[OF ch pl(6)] Inr kc by blast+
      obtain c2 where c2: "commit_message_key c n = Inr c2"
        using chain.prepare_again[OF ch pl(6)] Inr kc by blast
      obtain w where w: "window_accept (dr_replay r) n = Inr w" using accept_new[OF True] by blast
      have "open_payload X r pl k = Inr p"
        using pl op r k by (simp add: open_payload_def decrypt_message_def)
      then have dec: "receiver_decrypt X r f =
          (Inr content, r\<lparr>dr_chain := c2, dr_replay := w\<rparr>)"
        using chk Inr kc c2 w pl op(4) by (simp add: receiver_decrypt_def Let_def)
      have "deliverable r S n"
        using prepare_iff[OF ch pl(6)] True new Inr kc by (auto simp: deliverable_def)
      moreover have "receiver_rel X sid d ck (r\<lparr>dr_chain := c2, dr_replay := w\<rparr>) (insert n S)"
        using chain.commit_uses[OF k(2) c2] window.accept_seen[OF win w] r by (simp add: receiver_rel_def)
      ultimately show ?thesis using dec by simp
    qed
  qed
qed

text \<open>The cache holds the keys of unused counters below the next one.\<close>

lemma cached_count:
  assumes "chain_rel X d ck rc S"
  shows "length (rc_skipped rc) = card {m. m < rc_next_counter rc \<and> m \<notin> S}"
proof -
  have "fst ` set (rc_skipped rc) = {m. m < rc_next_counter rc \<and> m \<notin> S}"
  proof (rule set_eqI)
    fix m
    have "m \<in> fst ` set (rc_skipped rc) \<longleftrightarrow> map_of (rc_skipped rc) m \<noteq> None"
      by (simp add: map_of_eq_None_iff)
    then show "m \<in> fst ` set (rc_skipped rc) \<longleftrightarrow> m \<in> {m. m < rc_next_counter rc \<and> m \<notin> S}"
      using assms by (simp add: chain_rel_def)
  qed
  moreover have "length (rc_skipped rc) = card (fst ` set (rc_skipped rc))"
    using assms distinct_card[of "map fst (rc_skipped rc)"] by (simp add: chain_rel_def)
  ultimately show ?thesis by simp
qed

lemma cached_le:
  "chain_rel X d ck rc S \<Longrightarrow> length (rc_skipped rc) \<le> rc_next_counter rc"
  using card_mono[of "{..<rc_next_counter rc}" "{m. m < rc_next_counter rc \<and> m \<notin> S}"]
  by (force simp: cached_count)

text \<open>Any order: distinct frames among the first 64 are all delivered, as they come.\<close>

lemma first_window_deliverable:
  assumes "receiver_rel X sid d ck r S" "S \<subseteq> {..<64}" "n < 64" "n \<notin> S"
  shows "deliverable r S n"
proof -
  have len: "length (rc_skipped (dr_chain r)) \<le> rc_next_counter (dr_chain r)"
    using assms(1) cached_le by (auto simp: receiver_rel_def)
  have "\<forall>h \<in> S. h < n + 64" using assms(2) by (auto intro: trans_less_add2)
  moreover have "prepare_allowed (dr_chain r) n" if "rc_next_counter (dr_chain r) \<le> n"
    using that len assms(3) unfolding prepare_allowed_def bounds_defs by linarith
  ultimately show ?thesis
    using assms(4) by (auto simp: deliverable_def REPLAY_WINDOW_SIZE_def not_less[symmetric])
qed

lemma any_order_run:
  assumes X: "cbor_ok X"
  shows "receiver_rel X sid d ck r S \<Longrightarrow> S \<subseteq> {..<64} \<Longrightarrow> distinct ns \<Longrightarrow> set ns \<subseteq> {..<64} - S \<Longrightarrow>
    (\<forall>n \<in> set ns. sealed X sid d ck n (content n) (fr n)) \<Longrightarrow>
    fst (receiver_run X r (map fr ns)) = map (\<lambda>n. (fr n, content n)) ns"
proof (induction ns arbitrary: r S)
  case (Cons n ns)
  have "deliverable r S n"
    using first_window_deliverable[OF Cons.prems(1,2)] Cons.prems(4) by auto
  then obtain r' where r': "receiver_decrypt X r (fr n) = (Inr (content n), r')"
    "receiver_rel X sid d ck r' (insert n S)"
    using deliver_sealed[OF X Cons.prems(1), of n "content n" "fr n"] Cons.prems(5) by auto
  have "fst (receiver_run X r' (map fr ns)) = map (\<lambda>n. (fr n, content n)) ns"
    using Cons.prems by (intro Cons.IH[OF r'(2)]) auto
  with r'(1) show ?case by (simp add: split_beta)
qed simp

text \<open>In order: a receiver that used exactly \<open>{..<n}\<close> caches nothing and takes frame \<open>n\<close>.\<close>

lemma in_order_next:
  assumes "receiver_rel X sid d ck r {..<n}" "n < u64_max"
    "rc_next_counter (dr_chain r) \<le> n"
  shows "deliverable r {..<n} n"
proof -
  have ch: "chain_rel X d ck (dr_chain r) {..<n}" using assms(1) by (simp add: receiver_rel_def)
  have "{m. m < rc_next_counter (dr_chain r) \<and> m \<notin> {..<n}} = {}" using assms(3) by auto
  then have "length (rc_skipped (dr_chain r)) = 0" using cached_count[OF ch] by simp
  moreover have "rc_next_counter (dr_chain r) = n"
  proof (cases n)
    case (Suc m)
    then have "m < rc_next_counter (dr_chain r)" using ch by (auto simp: chain_rel_def)
    with Suc assms(3) show ?thesis by simp
  qed (use assms(3) in simp)
  ultimately show ?thesis
    using assms(2) by (simp add: deliverable_def prepare_allowed_def bounds_defs)
qed

end
