(* ===== verification/Machine_Deadlines.thy ===== *)
theory Machine_Deadlines
  imports Machine Data_Session
begin

text \<open>
  The deadline bookkeeping of the engine, and the vocabulary of its invariant. A driver keeps a
  table of armed deadlines by applying the \<open>SetDeadline\<close> and \<open>CancelDeadline\<close> effects in order;
  \<open>mid Q T c\<close> says that the driver's table, started from \<open>T\<close>, is the engine's, that identifiers
  and kinds are distinct, and that every effect emitted so far satisfies \<open>Q\<close>.
\<close>

section \<open>The driver's table\<close>

type_synonym deadline_table = "(deadline_id \<times> deadline_kind) list"

fun apply_deadline :: "effect \<Rightarrow> deadline_table \<Rightarrow> deadline_table" where
  "apply_deadline (SetDeadline armed kind after) T = T @ [(armed, kind)]"
| "apply_deadline (CancelDeadline armed) T = filter (\<lambda>(i, k). i \<noteq> armed) T"
| "apply_deadline _ T = T"

definition replay :: "deadline_table \<Rightarrow> effect list \<Rightarrow> deadline_table" where
  "replay T out = fold apply_deadline out T"

lemma replay_append [simp]: "replay T (out @ out') = replay (replay T out) out'"
  by (simp add: replay_def)

lemma replay_Nil [simp]: "replay T [] = T"
  by (simp add: replay_def)

lemma replay_Cons [simp]: "replay T (e # out) = replay (apply_deadline e T) out"
  by (simp add: replay_def)

lemma replay_cancels: "replay T (map (\<lambda>(i, k). CancelDeadline i) ds) = filter (\<lambda>(i, k). i \<notin> fst ` set ds) T"
proof (induction ds arbitrary: T)
  case Nil
  then show ?case by (simp add: filter_True split_beta)
next
  case (Cons d ds)
  then show ?case by (cases d) (auto intro: filter_cong)
qed

section \<open>Armed deadlines\<close>

definition deadlines_ok :: "engine \<Rightarrow> bool" where
  "deadlines_ok en \<longleftrightarrow> distinct (map fst (en_deadlines en)) \<and> distinct (map snd (en_deadlines en)) \<and>
     (\<forall>(i, k) \<in> set (en_deadlines en). i < en_next_deadline en)"

definition kinds :: "engine \<Rightarrow> deadline_kind set" where
  "kinds en = snd ` set (en_deadlines en)"

definition mid :: "(effect \<Rightarrow> bool) \<Rightarrow> deadline_table \<Rightarrow> ctx \<Rightarrow> bool" where
  "mid Q T c \<longleftrightarrow> deadlines_ok (fst c) \<and> replay T (snd c) = en_deadlines (fst c) \<and> (\<forall>e \<in> set (snd c). Q e)"

text \<open>Effects that may be emitted in any state, and those of an established session.\<close>

fun silent :: "effect \<Rightarrow> bool" where
  "silent (Send f) = True"
| "silent (SetDeadline i k a) = True"
| "silent (CancelDeadline i) = True"
| "silent (Notify (SendRejected r)) = True"
| "silent _ = False"

fun session_effect :: "effect \<Rightarrow> bool" where
  "session_effect (RequestSas w p) = False"
| "session_effect CloseTransport = False"
| "session_effect (Notify (Established p)) = False"
| "session_effect (Notify (Closed cause)) = False"
| "session_effect _ = True"

fun deadline_effect :: "effect \<Rightarrow> bool" where
  "deadline_effect (SetDeadline i k a) = True"
| "deadline_effect (CancelDeadline i) = True"
| "deadline_effect _ = False"

definition permissive :: "(effect \<Rightarrow> bool) \<Rightarrow> bool" where
  "permissive Q \<longleftrightarrow> (\<forall>e. silent e \<longrightarrow> Q e)"

lemma silent_session: "silent e \<Longrightarrow> session_effect e"
  by (cases e rule: silent.cases) auto

lemma permissive_simps [simp]: "permissive silent" "permissive session_effect"
  by (auto simp: permissive_def silent_session)

lemma permissive_basic:
  "permissive Q \<Longrightarrow> Q (Send f)" "permissive Q \<Longrightarrow> Q (SetDeadline i k a)"
  "permissive Q \<Longrightarrow> Q (CancelDeadline i)" "permissive Q \<Longrightarrow> Q (Notify (SendRejected r))"
  by (auto simp: permissive_def)

lemma apply_deadline_other [simp]: "\<not> deadline_effect e \<Longrightarrow> apply_deadline e T = T"
  by (cases e) auto

lemma mid_emit: "mid Q T c \<Longrightarrow> Q e \<Longrightarrow> \<not> deadline_effect e \<Longrightarrow> mid Q T (emit e c)"
  by (auto simp: mid_def)

lemma mid_upd:
  "mid Q T c \<Longrightarrow> en_deadlines (f (fst c)) = en_deadlines (fst c) \<Longrightarrow>
   en_next_deadline (f (fst c)) = en_next_deadline (fst c) \<Longrightarrow> mid Q T (upd f c)"
  by (simp add: mid_def deadlines_ok_def)

lemma mid_pair:
  "mid Q T (en, out) \<Longrightarrow> en_deadlines en' = en_deadlines en \<Longrightarrow>
   en_next_deadline en' = en_next_deadline en \<Longrightarrow> mid Q T (en', out)"
  by (simp add: mid_def deadlines_ok_def)

lemma mid_weaken: "mid Q T c \<Longrightarrow> (\<And>e. Q e \<Longrightarrow> R e) \<Longrightarrow> mid R T c"
  by (auto simp: mid_def)

lemma filter_by_id:
  assumes "distinct (map fst ds)"
  shows "filter (\<lambda>(i, e). i \<notin> fst ` set (filter (\<lambda>(i, e). e = kind) ds)) ds = filter (\<lambda>(i, e). e \<noteq> kind) ds"
proof (rule filter_cong[OF refl])
  fix d assume d: "d \<in> set ds"
  obtain i e where ie: "d = (i, e)" by (cases d)
  have "i \<in> fst ` set (filter (\<lambda>(i, e). e = kind) ds) \<longleftrightarrow> (i, kind) \<in> set ds"
    by force
  also have "\<dots> \<longleftrightarrow> e = kind"
    using d assms ie by (metis eq_key_imp_eq_value)
  finally show "(case d of (i, e) \<Rightarrow> i \<notin> fst ` set (filter (\<lambda>(i, e). e = kind) ds)) =
      (case d of (i, e) \<Rightarrow> e \<noteq> kind)"
    by (simp add: ie)
qed

lemma mid_cancel:
  assumes "mid Q T c" "permissive Q"
  shows "mid Q T (cancel kind c)"
proof -
  let ?ds = "en_deadlines (fst c)"
  have ok: "distinct (map fst ?ds)" "distinct (map snd ?ds)" "\<forall>(i, k) \<in> set ?ds. i < en_next_deadline (fst c)"
    and rep: "replay T (snd c) = ?ds" and q: "\<forall>e \<in> set (snd c). Q e"
    using assms(1) by (auto simp: mid_def deadlines_ok_def)
  have "replay T (snd (cancel kind c)) = en_deadlines (fst (cancel kind c))"
    using filter_by_id[OF ok(1), of kind] by (simp add: cancel_def Let_def rep replay_cancels)
  moreover have "deadlines_ok (fst (cancel kind c))"
    using ok by (auto simp: cancel_def Let_def deadlines_ok_def distinct_map_filter)
  ultimately show ?thesis
    using q assms(2) by (auto simp: mid_def cancel_def Let_def permissive_basic)
qed

lemma cancel_fields [simp]:
  "en_role (fst (cancel k c)) = en_role (fst c)" "en_identity (fst (cancel k c)) = en_identity (fst c)"
  "en_phase (fst (cancel k c)) = en_phase (fst c)" "en_run (fst (cancel k c)) = en_run (fst c)"
  "en_active (fst (cancel k c)) = en_active (fst c)" "en_draining (fst (cancel k c)) = en_draining (fst c)"
  "en_next_deadline (fst (cancel k c)) = en_next_deadline (fst c)"
  "en_messages (fst (cancel k c)) = en_messages (fst c)"
  "en_rekey_message_limit (fst (cancel k c)) = en_rekey_message_limit (fst c)"
  "en_rekey_blocked (fst (cancel k c)) = en_rekey_blocked (fst c)"
  "en_late_rekey_frames (fst (cancel k c)) = en_late_rekey_frames (fst c)"
  "en_consecutive_rekey_rejections (fst (cancel k c)) = en_consecutive_rekey_rejections (fst c)"
  "en_entropy (fst (cancel k c)) = en_entropy (fst c)"
  by (simp_all add: cancel_def Let_def)

lemma arm_fields [simp]:
  "en_role (fst (arm k a c)) = en_role (fst c)" "en_identity (fst (arm k a c)) = en_identity (fst c)"
  "en_phase (fst (arm k a c)) = en_phase (fst c)" "en_run (fst (arm k a c)) = en_run (fst c)"
  "en_active (fst (arm k a c)) = en_active (fst c)" "en_draining (fst (arm k a c)) = en_draining (fst c)"
  "en_messages (fst (arm k a c)) = en_messages (fst c)"
  "en_rekey_message_limit (fst (arm k a c)) = en_rekey_message_limit (fst c)"
  "en_rekey_blocked (fst (arm k a c)) = en_rekey_blocked (fst c)"
  "en_late_rekey_frames (fst (arm k a c)) = en_late_rekey_frames (fst c)"
  "en_consecutive_rekey_rejections (fst (arm k a c)) = en_consecutive_rekey_rejections (fst c)"
  "en_entropy (fst (arm k a c)) = en_entropy (fst c)"
  by (simp_all add: arm_def Let_def)

lemma kinds_cancel [simp]: "kinds (fst (cancel k c)) = kinds (fst c) - {k}"
  by (force simp: kinds_def cancel_def Let_def)

lemma kinds_arm [simp]: "kinds (fst (arm k a c)) = insert k (kinds (fst c))"
proof -
  have "kinds (fst (arm k a c)) = insert k (kinds (fst (cancel k c)))"
    by (auto simp: kinds_def arm_def Let_def)
  then show ?thesis by auto
qed

lemma mid_arm:
  assumes "mid Q T c" "permissive Q"
  shows "mid Q T (arm kind after c)"
proof -
  let ?c = "cancel kind c"
  have m: "mid Q T ?c" by (rule mid_cancel[OF assms])
  have "kind \<notin> snd ` set (en_deadlines (fst ?c))"
    using kinds_cancel[of kind c] by (auto simp: kinds_def)
  moreover have "en_next_deadline (fst ?c) \<notin> fst ` set (en_deadlines (fst ?c))"
    using m by (auto simp: mid_def deadlines_ok_def)
  ultimately show ?thesis
    using m assms(2) by (auto simp: arm_def Let_def mid_def deadlines_ok_def permissive_basic less_Suc_eq)
qed

definition frame_deadline_bounded :: "handshake_purpose \<Rightarrow> step \<Rightarrow> bool" where
  "frame_deadline_bounded purpose st \<longleftrightarrow>
     purpose = PRekey \<or> st = Hello \<or> st = Reveal \<or> st = ConfirmResp \<or> st = ConfirmInit"

lemma rearm_cases:
  "rearm_frame_deadline purpose st c =
     (if frame_deadline_bounded purpose st then arm KHandshakeFrame 15 (cancel KHandshakeFrame c)
      else cancel KHandshakeFrame c)"
  by (cases purpose)
    (auto simp: rearm_frame_deadline_def frame_deadline_bounded_def HANDSHAKE_FRAME_TIMEOUT_SECS_def)

lemma mid_rearm: "mid Q T c \<Longrightarrow> permissive Q \<Longrightarrow> mid Q T (rearm_frame_deadline p st c)"
  by (simp add: rearm_cases mid_arm mid_cancel)

lemma rearm_fields [simp]:
  "en_role (fst (rearm_frame_deadline p st c)) = en_role (fst c)"
  "en_identity (fst (rearm_frame_deadline p st c)) = en_identity (fst c)"
  "en_phase (fst (rearm_frame_deadline p st c)) = en_phase (fst c)"
  "en_run (fst (rearm_frame_deadline p st c)) = en_run (fst c)"
  "en_active (fst (rearm_frame_deadline p st c)) = en_active (fst c)"
  "en_draining (fst (rearm_frame_deadline p st c)) = en_draining (fst c)"
  "en_messages (fst (rearm_frame_deadline p st c)) = en_messages (fst c)"
  "en_rekey_message_limit (fst (rearm_frame_deadline p st c)) = en_rekey_message_limit (fst c)"
  "en_rekey_blocked (fst (rearm_frame_deadline p st c)) = en_rekey_blocked (fst c)"
  "en_late_rekey_frames (fst (rearm_frame_deadline p st c)) = en_late_rekey_frames (fst c)"
  "en_consecutive_rekey_rejections (fst (rearm_frame_deadline p st c)) =
     en_consecutive_rekey_rejections (fst c)"
  "en_entropy (fst (rearm_frame_deadline p st c)) = en_entropy (fst c)"
  by (simp_all add: rearm_cases)

lemma kinds_rearm [simp]:
  "kinds (fst (rearm_frame_deadline p st c)) =
     (if frame_deadline_bounded p st then insert KHandshakeFrame (kinds (fst c))
      else kinds (fst c) - {KHandshakeFrame})"
  by (simp add: rearm_cases)

lemmas mid_intros = mid_arm mid_cancel mid_rearm mid_emit mid_upd

text \<open>The engine but for its deadlines.\<close>

definition core :: "engine \<Rightarrow> engine" where
  "core en = en\<lparr>en_deadlines := [], en_next_deadline := 0\<rparr>"

lemma core_cancel [simp]: "core (fst (cancel k c)) = core (fst c)"
  by (simp add: core_def cancel_def Let_def)

lemma core_arm [simp]: "core (fst (arm k a c)) = core (fst c)"
  by (simp add: core_def arm_def cancel_def Let_def)

lemma core_rearm [simp]: "core (fst (rearm_frame_deadline p st c)) = core (fst c)"
  by (simp add: rearm_cases)

lemma core_fields:
  assumes "core en' = core en"
  shows "en_role en' = en_role en" "en_identity en' = en_identity en" "en_phase en' = en_phase en"
    "en_run en' = en_run en" "en_active en' = en_active en" "en_draining en' = en_draining en"
    "en_messages en' = en_messages en" "en_rekey_message_limit en' = en_rekey_message_limit en"
    "en_rekey_blocked en' = en_rekey_blocked en" "en_late_rekey_frames en' = en_late_rekey_frames en"
    "en_consecutive_rekey_rejections en' = en_consecutive_rekey_rejections en"
    "en_entropy en' = en_entropy en"
  using assms by (cases en; cases en'; simp add: core_def)+

section \<open>Removing an expired deadline\<close>

lemma find_deadline:
  assumes "distinct (map fst ds)"
  shows "find (\<lambda>(armed, _). armed = i) ds =
    (if i \<in> fst ` set ds then Some (i, the (map_of ds i)) else None)"
  using assms by (induction ds) (auto split: if_splits)

lemma remove1_deadline:
  assumes "distinct (map fst ds)" "(i, k) \<in> set ds"
  shows "remove1 (i, k) ds = filter (\<lambda>(j, _). j \<noteq> i) ds"
  using assms
proof (induction ds)
  case (Cons d ds)
  show ?case
  proof (cases "d = (i, k)")
    case True
    with Cons.prems(1) have "\<forall>(j, _) \<in> set ds. j \<noteq> i" by force
    with True show ?thesis by (auto intro!: filter_True[symmetric])
  next
    case False
    with Cons.prems(2) have mem: "(i, k) \<in> set ds" by auto
    then have "i \<in> fst ` set ds" by force
    with Cons.prems(1) have "fst d \<noteq> i" by auto
    with False mem Cons show ?thesis by (cases d) auto
  qed
qed simp

lemma kinds_remove1:
  assumes "deadlines_ok en" "(i, k) \<in> set (en_deadlines en)"
  shows "kinds (en\<lparr>en_deadlines := remove1 (i, k) (en_deadlines en)\<rparr>) = kinds en - {k}"
proof -
  have d: "distinct (map snd (en_deadlines en))" "distinct (en_deadlines en)"
    using assms(1) by (auto simp: deadlines_ok_def distinct_map)
  have "snd ` set (remove1 (i, k) (en_deadlines en)) = snd ` set (en_deadlines en) - {k}"
    using assms(2) d by (auto simp: distinct_map inj_on_def image_iff) fastforce+
  then show ?thesis by (simp add: kinds_def)
qed

lemma mid_remove1:
  assumes "deadlines_ok en" "(i, k) \<in> set (en_deadlines en)"
  shows "mid Q (filter (\<lambda>(j, _). j \<noteq> i) (en_deadlines en))
    (en\<lparr>en_deadlines := remove1 (i, k) (en_deadlines en)\<rparr>, [])"
  using assms remove1_deadline[OF _ assms(2)]
  by (auto simp: mid_def deadlines_ok_def distinct_map_filter)

lemma armed_bound:
  assumes "deadlines_ok en"
  shows "armed_deadlines en \<le> 5"
proof -
  have "kinds en \<subseteq> {KHandshakeFrame, KSasDecision, KHandshakeTotal, KRekeyDue, KDrain}"
    by (auto intro: deadline_kind.exhaust)
  then have "card (kinds en) \<le> card {KHandshakeFrame, KSasDecision, KHandshakeTotal, KRekeyDue, KDrain}"
    by (intro card_mono) auto
  moreover have "card (kinds en) = length (en_deadlines en)"
    using assms distinct_card[of "map snd (en_deadlines en)"] by (simp add: kinds_def deadlines_ok_def)
  ultimately show ?thesis by (simp add: armed_deadlines_def)
qed

end
