(* ===== verification/Machine_Steps.thy ===== *)
theory Machine_Steps
  imports Machine_Deadlines
begin

text \<open>
  The invariant of a handshake run, and what one step of it does: an error leaves the engine as it
  was, progress leaves a run that satisfies the invariant again, and a candidate session is only
  produced by a confirmation step, from keys that are bound to a transcript naming both parties and
  signed by the peer.
\<close>

section \<open>What a run has established\<close>

definition transcript_names :: "transcript \<Rightarrow> hello_role \<Rightarrow> peer_identity \<Rightarrow> peer_identity \<Rightarrow> bool" where
  "transcript_names t role me peer \<longleftrightarrow>
     (if role = Initiator then t_initiator_identity t = me \<and> t_responder_identity t = peer
      else t_initiator_identity t = peer \<and> t_responder_identity t = me)"

text \<open>The peer of a party in role \<open>role\<close> signed \<open>hash\<close> under the other role's domain.\<close>

definition peer_signed :: "ext \<Rightarrow> hello_role \<Rightarrow> bytes \<Rightarrow> peer_identity \<Rightarrow> bool" where
  "peer_signed X role hash peer \<longleftrightarrow>
     (\<exists>sig. ed_verify_strict X peer (signature_domain (role = Responder) @ hash) sig)"

text \<open>
  The keys come from a shared secret and a signed transcript that names both parties; \<open>hash\<close> is the
  transcript's hash.
\<close>

definition bound_to ::
  "ext \<Rightarrow> peer_identity \<Rightarrow> hello_role \<Rightarrow> bytes \<Rightarrow> session_keys \<Rightarrow> peer_identity \<Rightarrow> bool" where
  "bound_to X me role hash keys peer \<longleftrightarrow> peer \<noteq> me \<and>
     (\<exists>t encoded shared. transcript_names t role me peer \<and> transcript_encode X t = Inr encoded \<and>
        hash = transcript_hash X encoded \<and> derive_session_keys X shared hash = Inr keys \<and>
        peer_signed X role hash peer)"

definition authentic :: "ext \<Rightarrow> peer_identity \<Rightarrow> hello_role \<Rightarrow> session_keys \<Rightarrow> peer_identity \<Rightarrow> bool" where
  "authentic X me role keys peer \<longleftrightarrow> (\<exists>hash. bound_to X me role hash keys peer)"

definition agreed :: "ext \<Rightarrow> engine \<Rightarrow> run \<Rightarrow> bool" where
  "agreed X en r \<longleftrightarrow>
     (\<exists>t encoded shared peer. ru_transcript r = Some t \<and> transcript_encode X t = Inr encoded \<and>
        ru_hash r = Some (transcript_hash X encoded) \<and> ru_shared r = Some shared \<and>
        ru_remote_identity r = Some peer \<and>
        transcript_names t (ru_role r) (identity_of X (en_identity en)) peer \<and>
        peer \<noteq> identity_of X (en_identity en))"

definition keyed :: "ext \<Rightarrow> run \<Rightarrow> bool" where
  "keyed X r \<longleftrightarrow>
     (\<exists>keys hash shared peer. ru_keys r = Some keys \<and> ru_hash r = Some hash \<and>
        ru_shared r = Some shared \<and> ru_remote_identity r = Some peer \<and>
        derive_session_keys X shared hash = Inr keys \<and> peer_signed X (ru_role r) hash peer)"

definition run_base :: "ext \<Rightarrow> engine \<Rightarrow> run \<Rightarrow> bool" where
  "run_base X en r \<longleftrightarrow> h_role (ru_local_hello r) = ru_role r \<and> h_purpose (ru_local_hello r) = ru_purpose r \<and>
     h_previous (ru_local_hello r) = ru_previous r \<and>
     h_identity (ru_local_hello r) = identity_of X (en_identity en)"

definition run_ok :: "ext \<Rightarrow> engine \<Rightarrow> run \<Rightarrow> bool" where
  "run_ok X en r \<longleftrightarrow> run_base X en r \<and> (ru_early r \<noteq> None \<longrightarrow> ru_step r = Sas \<and> ru_role r = Responder) \<and>
     (case ru_step r of
        Hello \<Rightarrow> ru_role r = Initiator \<and> ru_local_hello_frame r \<noteq> None
      | Reveal \<Rightarrow> ru_role r = Responder \<and> ru_commit r \<noteq> None
      | Sas \<Rightarrow> ru_purpose r = PInitial \<and> agreed X en r
      | AuthResp \<Rightarrow> ru_role r = Initiator \<and> agreed X en r
      | AuthInit \<Rightarrow> ru_role r = Responder \<and> agreed X en r
      | ConfirmResp \<Rightarrow> ru_role r = Initiator \<and> agreed X en r \<and> keyed X r
      | ConfirmInit \<Rightarrow> ru_role r = Responder \<and> agreed X en r \<and> keyed X r)"

definition early_step :: "run \<Rightarrow> bool" where
  "early_step r \<longleftrightarrow> ru_step r = Hello \<or> ru_step r = Reveal"

definition approved_step :: "run \<Rightarrow> bool" where
  "approved_step r \<longleftrightarrow> ru_step r \<notin> {Hello, Reveal, Sas}"

lemma agreed_cong:
  "ru_transcript r' = ru_transcript r \<Longrightarrow> ru_hash r' = ru_hash r \<Longrightarrow> ru_shared r' = ru_shared r \<Longrightarrow>
   ru_remote_identity r' = ru_remote_identity r \<Longrightarrow> ru_role r' = ru_role r \<Longrightarrow>
   en_identity en' = en_identity en \<Longrightarrow> agreed X en' r' = agreed X en r"
  by (simp add: agreed_def)

lemma run_ok_identity: "en_identity en' = en_identity en \<Longrightarrow> run_ok X en' r = run_ok X en r"
  by (simp add: run_ok_def run_base_def agreed_def split: step.splits)

section \<open>What a step leaves behind\<close>

definition same_run :: "run \<Rightarrow> run \<Rightarrow> bool" where
  "same_run r r' \<longleftrightarrow> ru_purpose r' = ru_purpose r \<and> ru_role r' = ru_role r \<and> ru_previous r' = ru_previous r"

definition kinds_post :: "engine \<Rightarrow> engine \<Rightarrow> run \<Rightarrow> run \<Rightarrow> bool" where
  "kinds_post en en' r r' \<longleftrightarrow>
     kinds en' - {KHandshakeFrame} =
       (if ru_step r' = Sas \<and> ru_step r \<noteq> Sas then insert KSasDecision (kinds en - {KHandshakeFrame})
        else kinds en - {KHandshakeFrame}) \<and>
     (ru_purpose r = PRekey \<longrightarrow> KHandshakeFrame \<in> kinds en')"

text \<open>
  How a run may advance: to the SAS question, which shows the words of the transcript just agreed and
  names the remote identity it has just learnt; waiting for its answer; or into the steps after
  approval, with the transcript and the remote identity it had, or, in a rekey, the remote identity of
  the active session.
\<close>

definition same_agreement :: "run \<Rightarrow> run \<Rightarrow> bool" where
  "same_agreement r r' \<longleftrightarrow> ru_remote_identity r' = ru_remote_identity r \<and> ru_hash r' = ru_hash r"

definition advance :: "ext \<Rightarrow> engine \<Rightarrow> run \<Rightarrow> run \<Rightarrow> effect list \<Rightarrow> bool" where
  "advance X en r r' out \<longleftrightarrow>
     early_step r \<and> ru_step r' = Sas \<and> ru_purpose r = PInitial \<and>
       (\<exists>hash p. ru_remote_identity r' = Some p \<and> ru_hash r' = Some hash \<and>
          RequestSas (sas_words X hash) p \<in> set out) \<or>
     ru_step r = Sas \<and> ru_step r' = Sas \<and> same_agreement r r' \<or>
     approved_step r' \<and>
       (approved_step r \<and> same_agreement r r' \<or>
        early_step r \<and> ru_purpose r = PRekey \<and> ru_remote_identity r' = peer_identity en)"

definition step_post ::
  "ext \<Rightarrow> (effect \<Rightarrow> bool) \<Rightarrow> deadline_table \<Rightarrow> engine \<Rightarrow> run \<Rightarrow> step_result \<Rightarrow> bool" where
  "step_post X Q T en r res \<longleftrightarrow> mid Q T (snd res) \<and>
     (case fst res of
        Inl e \<Rightarrow> fst (snd res) = en
      | Inr (None, r') \<Rightarrow> same_run r r' \<and> run_ok X en r' \<and> advance X en r r' (snd (snd res)) \<and>
          core (fst (snd res)) = core en \<and>
          kinds_post en (fst (snd res)) r r'
      | Inr (Some cand, r') \<Rightarrow> fst (snd res) = en \<and> approved_step r \<and> ca_role cand = ru_role r \<and>
          ru_remote_identity r = Some (ca_peer cand) \<and>
          (\<exists>hash. ru_hash r = Some hash \<and>
             bound_to X (identity_of X (en_identity en)) (ru_role r) hash (ca_keys cand) (ca_peer cand)))"

lemma step_bind:
  assumes "mid Q T c" "fst c = en" "\<And>x. m = Inr x \<Longrightarrow> step_post X Q T en r (f x c)"
  shows "step_post X Q T en r (sbind (m, c) f)"
  using assms by (cases m) (auto simp: step_post_def)

lemma step_done:
  assumes "mid Q T c" "same_run r r'" "run_ok X en r'" "advance X en r r' (snd c)"
    "core (fst c) = core en" "kinds_post en (fst c) r r'"
  shows "step_post X Q T en r (Inr (None, r'), c)"
  using assms by (auto simp: step_post_def)

lemma out_rearm: "set (snd c) \<subseteq> set (snd (rearm_frame_deadline p st c))"
  by (auto simp: rearm_cases arm_def cancel_def Let_def)

lemma verify_auth_Inr:
  assumes "verify_auth X r auth = Inr (keys, hash)" "agreed X en r"
    and role: "ru_role r = Initiator \<Longrightarrow> a_responder_signature auth \<noteq> None"
  shows "ru_hash r = Some hash \<and>
    (\<exists>shared peer. ru_shared r = Some shared \<and> ru_remote_identity r = Some peer \<and>
       derive_session_keys X shared hash = Inr keys \<and> peer_signed X (ru_role r) hash peer)"
proof -
  obtain t encoded shared peer where a: "ru_transcript r = Some t" "transcript_encode X t = Inr encoded"
    "ru_hash r = Some (transcript_hash X encoded)" "ru_shared r = Some shared"
    "ru_remote_identity r = Some peer" "transcript_names t (ru_role r) (identity_of X (en_identity en)) peer"
    using assms(2) unfolding agreed_def by blast
  have v: "verify_handshake_for_role X auth t shared True = Inr (keys, hash)"
    using assms(1) a by (simp add: verify_auth_def)
  note b = verify_handshake_binds[OF v]
  have "peer_signed X (ru_role r) hash peer"
  proof (cases "ru_role r")
    case Initiator
    then obtain sig where "a_responder_signature auth = Some sig" using role by blast
    with b a(6) Initiator show ?thesis by (auto simp: peer_signed_def transcript_names_def)
  next
    case Responder
    with b a(6) show ?thesis by (auto simp: peer_signed_def transcript_names_def)
  qed
  with a b show ?thesis by auto
qed

section \<open>The steps\<close>

text \<open>
  The run \<open>r\<close> the step works on may already differ from the run \<open>r0\<close> the engine held: \<open>adv\<close>
  says how far it has come.
\<close>

lemma step_auth_init_post:
  assumes m: "mid Q T c" and q: "permissive Q" and en: "fst c = en"
    and ok: "run_base X en r" "agreed X en r" "ru_role r = Responder" "ru_early r = None"
    and orig: "same_run r0 r"
    and adv: "\<And>r' out. approved_step r' \<Longrightarrow> same_agreement r r' \<Longrightarrow> advance X en r0 r' out"
  shows "step_post X Q T en r0 (step_auth_init X r f c)"
proof -
  have fin: "step_post X Q T en r0 (Inr (None, r\<lparr>ru_keys := Some keys, ru_step := ConfirmInit\<rparr>),
      rearm_frame_deadline (ru_purpose r) ConfirmInit (emit (Send response) c))"
    if "keyed X (r\<lparr>ru_keys := Some keys, ru_step := ConfirmInit\<rparr>)" for keys response
  proof (rule step_done)
    let ?r = "r\<lparr>ru_keys := Some keys, ru_step := ConfirmInit\<rparr>"
    show "mid Q T (rearm_frame_deadline (ru_purpose r) ConfirmInit (emit (Send response) c))"
      using m q by (intro mid_rearm mid_emit) (simp_all add: permissive_basic)
    show "same_run r0 ?r" using orig by (simp add: same_run_def)
    have "agreed X en ?r" using ok(2) by (subst agreed_cong[of ?r r]) simp_all
    then show "run_ok X en ?r"
      using ok that by (simp add: run_ok_def run_base_def)
    show "advance X en r0 ?r (snd (rearm_frame_deadline (ru_purpose r) ConfirmInit (emit (Send response) c)))"
      by (rule adv) (simp_all add: approved_step_def same_agreement_def)
  qed (auto simp: en kinds_post_def frame_deadline_bounded_def)
  show ?thesis
    unfolding step_auth_init_def
    apply (rule step_bind[OF m en])+
    subgoal for auth u kh
      apply (cases kh)
      apply simp
      apply (rule step_bind[OF m en])+
      subgoal for keys hash t response
        using verify_auth_Inr[of X r auth keys hash en, OF _ ok(2)] ok(3)
        by (auto simp: Let_def keyed_def peer_signed_def intro!: fin)
      done
    done
qed

lemma after_approval_post:
  assumes m: "mid Q T c" and q: "permissive Q" and en: "fst c = en"
    and ok: "run_base X en r" "agreed X en r"
    and orig: "same_run r0 r"
    and adv: "\<And>r' out. approved_step r' \<Longrightarrow> same_agreement r r' \<Longrightarrow> advance X en r0 r' out"
    and early: "ru_role r = Initiator \<longrightarrow> ru_early r = None"
  shows "step_post X Q T en r0 (after_approval X r c)"
proof -
  have send: "step_post X Q T en r0 (Inr (None, r\<lparr>ru_step := AuthResp\<rparr>),
      rearm_frame_deadline (ru_purpose r) AuthResp (emit (Send f) c))" if "ru_role r = Initiator" for f
  proof (rule step_done)
    let ?r = "r\<lparr>ru_step := AuthResp\<rparr>"
    show "mid Q T (rearm_frame_deadline (ru_purpose r) AuthResp (emit (Send f) c))"
      using m q by (intro mid_rearm mid_emit) (simp_all add: permissive_basic)
    show "same_run r0 ?r" using orig by (simp add: same_run_def)
    have "agreed X en ?r" using ok(2) by (subst agreed_cong[of ?r r]) simp_all
    then show "run_ok X en ?r"
      using ok that early by (simp add: run_ok_def run_base_def)
    show "advance X en r0 ?r (snd (rearm_frame_deadline (ru_purpose r) AuthResp (emit (Send f) c)))"
      by (rule adv) (simp_all add: approved_step_def same_agreement_def)
  qed (use orig in \<open>auto simp: en kinds_post_def frame_deadline_bounded_def same_run_def\<close>)
  have wait: "step_post X Q T en r0 (Inr (None, r\<lparr>ru_step := AuthInit\<rparr>),
      rearm_frame_deadline (ru_purpose r) AuthInit c)" if "ru_role r = Responder" "ru_early r = None"
  proof (rule step_done)
    let ?r = "r\<lparr>ru_step := AuthInit\<rparr>"
    show "mid Q T (rearm_frame_deadline (ru_purpose r) AuthInit c)" by (rule mid_rearm[OF m q])
    show "same_run r0 ?r" using orig by (simp add: same_run_def)
    have "agreed X en ?r" using ok(2) by (subst agreed_cong[of ?r r]) simp_all
    then show "run_ok X en ?r" using ok that by (simp add: run_ok_def run_base_def)
    show "advance X en r0 ?r (snd (rearm_frame_deadline (ru_purpose r) AuthInit c))"
      by (rule adv) (simp_all add: approved_step_def same_agreement_def)
  qed (use orig in \<open>auto simp: en kinds_post_def frame_deadline_bounded_def same_run_def\<close>)
  have early: "step_post X Q T en r0 (step_auth_init X (r\<lparr>ru_step := AuthInit, ru_early := None\<rparr>) f c)"
    if "ru_role r = Responder" for f
  proof (rule step_auth_init_post[OF m q en])
    let ?r = "r\<lparr>ru_step := AuthInit, ru_early := None\<rparr>"
    show "run_base X en ?r" using ok(1) by (simp add: run_base_def)
    show "agreed X en ?r" using ok(2) by (subst agreed_cong[of ?r r]) simp_all
    show "same_run r0 ?r" using orig by (simp add: same_run_def)
    show "approved_step r' \<Longrightarrow> same_agreement ?r r' \<Longrightarrow> advance X en r0 r' out" for r' out
      using adv by (simp add: same_agreement_def)
  qed (use that in simp_all)
  show ?thesis
    unfolding after_approval_def
    apply (rule step_bind[OF m en])+
    subgoal for hash t
      by (cases "ru_role r"; cases "ru_early r") (simp_all add: Let_def send wait early step_bind[OF m en])
    done
qed

lemma transcript_from_hellos_Inr:
  "transcript_from_hellos i r = Inr t \<Longrightarrow>
   t_initiator_identity t = h_identity i \<and> t_responder_identity t = h_identity r \<and>
   h_role i = Initiator \<and> h_role r = Responder"
  by (auto simp: transcript_from_hellos_def split: if_splits)

text \<open>The words that the agreement on \<open>remote\<close> leads to.\<close>

definition agreed_words :: "ext \<Rightarrow> run \<Rightarrow> hello_payload \<Rightarrow> string list" where
  "agreed_words X r remote =
     (let t = (case ru_role r of
                 Initiator \<Rightarrow> transcript_from_hellos (ru_local_hello r) remote
               | Responder \<Rightarrow> transcript_from_hellos remote (ru_local_hello r))
      in sas_words X (transcript_hash X (projr (transcript_encode X (projr t)))))"

lemma agreed_words_frame [simp]: "agreed_words X (r\<lparr>ru_local_hello_frame := x\<rparr>) remote = agreed_words X r remote"
  by (cases "ru_role r") (simp_all add: agreed_words_def)

lemma after_hellos_post:
  assumes m: "mid Q T c" and q: "permissive Q" and en: "fst c = en"
    and ok: "run_base X en r" "ru_early r = None"
    and orig: "same_run r0 r" "early_step r0"
    and remote: "h_identity remote \<noteq> identity_of X (en_identity en)"
      "ru_purpose r = PRekey \<longrightarrow> peer_identity en = Some (h_identity remote)"
    and ask: "ru_purpose r = PInitial \<longrightarrow> Q (RequestSas (agreed_words X r remote) (h_identity remote))"
  shows "step_post X Q T en r0 (after_hellos X r remote c)"
proof -
  have rest: "step_post X Q T en r0
      (case ru_purpose r of
         PInitial \<Rightarrow> (Inr (None, r'\<lparr>ru_step := Sas\<rparr>), emit (RequestSas (sas_words X hash) (h_identity remote))
             (arm KSasDecision SAS_DECISION_TIMEOUT_SECS (cancel KHandshakeFrame c)))
       | PRekey \<Rightarrow> after_approval X r' c)"
    if t: "transcript_encode X t = Inr encoded" "hash = transcript_hash X encoded"
      "agreed_words X r remote = sas_words X hash"
      "transcript_names t (ru_role r) (identity_of X (en_identity en)) (h_identity remote)"
      and r': "r' = r\<lparr>ru_shared := Some shared, ru_transcript := Some t, ru_hash := Some hash,
                 ru_remote_identity := Some (h_identity remote)\<rparr>"
    for t encoded shared hash r'
  proof -
    have ag: "agreed X en r'" using t remote(1) by (simp add: agreed_def r')
    have base: "run_base X en r'" "same_run r0 r'" "ru_early r' = None" "ru_purpose r' = ru_purpose r"
      using ok orig(1) by (simp_all add: r' run_base_def same_run_def)
    show ?thesis
    proof (cases "ru_purpose r")
      case PInitial
      let ?r = "r'\<lparr>ru_step := Sas\<rparr>"
      let ?c = "emit (RequestSas (sas_words X hash) (h_identity remote))
             (arm KSasDecision SAS_DECISION_TIMEOUT_SECS (cancel KHandshakeFrame c))"
      have "step_post X Q T en r0 (Inr (None, ?r), ?c)"
      proof (rule step_done)
        show "mid Q T ?c" using m q ask[unfolded t(3)] PInitial by (intro mid_emit mid_arm mid_cancel) simp_all
        have "agreed X en ?r" using ag by (subst agreed_cong[of ?r r']) simp_all
        then show "run_ok X en ?r" using base PInitial by (simp add: run_ok_def run_base_def)
        show "advance X en r0 ?r (snd ?c)"
          using orig PInitial by (auto simp: advance_def r' same_run_def)
      qed (use base orig PInitial in \<open>auto simp: en kinds_post_def same_run_def early_step_def\<close>)
      then show ?thesis by (simp add: PInitial)
    next
      case PRekey
      have "step_post X Q T en r0 (after_approval X r' c)"
        using orig PRekey remote(2)
        by (intro after_approval_post[OF m q en base(1) ag base(2)])
          (auto simp: advance_def r' base same_run_def same_agreement_def ok)
      then show ?thesis by (simp add: PRekey)
    qed
  qed
  show ?thesis
    unfolding after_hellos_def
    apply (cases "ru_role r")
     apply (simp_all only: hello_role.case prod.case Let_def)
     apply (rule step_bind[OF m en])+
    subgoal for t encoded shared
      using ok(1) rest[of t encoded _ _ shared, OF _ refl _ _ refl]
        transcript_from_hellos_Inr[of "ru_local_hello r" remote t]
      by (simp add: transcript_names_def run_base_def agreed_words_def)
    apply (rule step_bind[OF m en])+
    subgoal for t encoded shared
      using ok(1) rest[of t encoded _ _ shared, OF _ refl _ _ refl]
        transcript_from_hellos_Inr[of remote "ru_local_hello r" t]
      by (simp add: transcript_names_def run_base_def agreed_words_def)
    done
qed

lemma check_remote_hello_Inr:
  assumes "check_remote_hello en r remote role = Inr ()" "run_base X en r"
  shows "h_role remote = role \<and> h_identity remote \<noteq> identity_of X (en_identity en) \<and>
    (ru_purpose r = PRekey \<longrightarrow> peer_identity en = Some (h_identity remote))"
  using assms by (auto simp: check_remote_hello_def res_simps run_base_def peer_identity_def split: if_splits)

lemma keyed_candidate:
  assumes "agreed X en r" "keyed X r" "ru_keys r = Some keys"
  shows "\<exists>peer hash. ru_remote_identity r = Some peer \<and> ru_hash r = Some hash \<and>
    bound_to X (identity_of X (en_identity en)) (ru_role r) hash keys peer"
  using assms unfolding agreed_def keyed_def bound_to_def by (elim exE conjE) (simp, blast)

lemma run_okD:
  assumes "run_ok X en r"
  shows "run_base X en r" "ru_step r \<noteq> Sas \<Longrightarrow> ru_early r = None"
  using assms by (auto simp: run_ok_def)

lemma step_run_post:
  assumes m: "mid Q T c" and q: "permissive Q" and en: "fst c = en" and ok: "run_ok X en r"
    and ask: "ru_purpose r = PInitial \<and> early_step r \<longrightarrow>
      (\<forall>remote. hello_decode X f = Inr remote \<longrightarrow> Q (RequestSas (agreed_words X r remote) (h_identity remote)))"
  shows "step_post X Q T en r (step_run X r f c)"
proof (cases "ru_step r")
  case Hello
  have me: "mid Q T (emit (Send reveal) c)" for reveal
    using m q by (intro mid_emit) (simp_all add: permissive_basic)
  have fin: "step_post X Q T en r (after_hellos X (r\<lparr>ru_local_hello_frame := None\<rparr>) remote (emit (Send reveal) c))"
    if "hello_decode X f = Inr remote" "check_remote_hello (fst c) r remote Responder = Inr ()" for remote reveal
    using check_remote_hello_Inr[of en r remote Responder X] that run_okD[OF ok] Hello ask
    by (intro after_hellos_post[OF me q])
      (auto simp: en early_step_def run_base_def same_run_def)
  have "step_post X Q T en r (step_hello X r f c)"
    unfolding step_hello_def by (intro step_bind[OF m en]) (simp add: fin)
  then show ?thesis by (simp add: step_run_def Hello)
next
  case Reveal
  have fin: "step_post X Q T en r (after_hellos X r remote c)"
    if "hello_decode X f = Inr remote" "check_remote_hello (fst c) r remote Initiator = Inr ()" for remote
    using check_remote_hello_Inr[of en r remote Initiator X] that run_okD[OF ok] Reveal ask
    by (intro after_hellos_post[OF m q en]) (auto simp: en early_step_def same_run_def)
  have "step_post X Q T en r (step_reveal X r f c)"
    unfolding step_reveal_def by (intro step_bind[OF m en]) (simp add: fin)
  then show ?thesis by (simp add: step_run_def Reveal)
next
  case Sas
  have "step_post X Q T en r (step_sas r f c)"
  proof (cases "ru_role r = Responder \<and> ru_early r = None \<and> f_type f = MHandshake")
    case True
    have "step_post X Q T en r (Inr (None, r\<lparr>ru_early := Some f\<rparr>), c)"
    proof (rule step_done[OF m])
      show "run_ok X en (r\<lparr>ru_early := Some f\<rparr>)"
        using ok Sas True by (simp add: run_ok_def run_base_def agreed_def)
    qed (use Sas en ok in \<open>auto simp: same_run_def advance_def same_agreement_def kinds_post_def run_ok_def\<close>)
    with True show ?thesis by (simp add: step_sas_def)
  next
    case False
    then show ?thesis using m en by (auto simp: step_sas_def step_post_def)
  qed
  then show ?thesis by (simp add: step_run_def Sas)
next
  case AuthInit
  have "step_post X Q T en r (step_auth_init X r f c)"
    using ok AuthInit
    by (intro step_auth_init_post[OF m q en])
      (auto simp: run_ok_def same_run_def advance_def approved_step_def)
  then show ?thesis by (simp add: step_run_def AuthInit)
next
  case AuthResp
  have ag: "agreed X en r" "ru_role r = Initiator" and base: "run_base X en r" "ru_early r = None"
    using ok AuthResp by (auto simp: run_ok_def)
  have fin: "step_post X Q T en r (Inr (None, r\<lparr>ru_keys := Some keys, ru_step := ConfirmResp\<rparr>),
      rearm_frame_deadline (ru_purpose r) ConfirmResp (emit (Send confirm) c))"
    if "keyed X (r\<lparr>ru_keys := Some keys, ru_step := ConfirmResp\<rparr>)" for keys confirm
  proof (rule step_done)
    let ?r = "r\<lparr>ru_keys := Some keys, ru_step := ConfirmResp\<rparr>"
    show "mid Q T (rearm_frame_deadline (ru_purpose r) ConfirmResp (emit (Send confirm) c))"
      using m q by (intro mid_rearm mid_emit) (simp_all add: permissive_basic)
    have "agreed X en ?r" using ag by (subst agreed_cong[of ?r r]) simp_all
    then show "run_ok X en ?r" using base ag that by (simp add: run_ok_def run_base_def)
  qed (use AuthResp in \<open>auto simp: en kinds_post_def frame_deadline_bounded_def same_run_def advance_def
         same_agreement_def approved_step_def\<close>)
  have "step_post X Q T en r (step_auth_resp X r f c)"
    unfolding step_auth_resp_def
    apply (rule step_bind[OF m en])+
    subgoal for auth u kh
      apply (cases kh)
      apply simp
      apply (rule step_bind[OF m en])+
      subgoal for keys hash confirm
        using verify_auth_Inr[of X r auth keys hash en, OF _ ag(1)]
        by (auto simp: Let_def keyed_def peer_signed_def res_simps intro!: fin)
      done
    done
  then show ?thesis by (simp add: step_run_def AuthResp)
next
  case ConfirmResp
  then have k: "agreed X en r" "keyed X r" using ok by (auto simp: run_ok_def)
  have "step_post X Q T en r (step_confirm_resp X r f c)"
    unfolding step_confirm_resp_def
    apply (rule step_bind[OF m en])+
    subgoal for confirm keys
      unfolding Let_def
      apply (rule step_bind[OF m en])+
      subgoal for hash u cand
        using keyed_candidate[OF k, of keys] ConfirmResp m en
        by (auto simp: step_post_def run_candidate_def res_simps approved_step_def)
      done
    done
  then show ?thesis by (simp add: step_run_def ConfirmResp)
next
  case ConfirmInit
  then have k: "agreed X en r" "keyed X r" using ok by (auto simp: run_ok_def)
  have me: "mid Q T (emit (Send reply) c)" "fst (emit (Send reply) c) = en" for reply
    using m q en by (auto intro!: mid_emit simp: permissive_basic)
  have "step_post X Q T en r (step_confirm_init X r f c)"
    unfolding step_confirm_init_def
    apply (rule step_bind[OF m en])+
    subgoal for confirm keys
      unfolding Let_def
      apply (rule step_bind[OF m en])+
      subgoal for hash u reply
        apply (rule step_bind[OF me])
        using keyed_candidate[OF k, of keys] ConfirmInit me
        by (auto simp: step_post_def run_candidate_def res_simps approved_step_def)
      done
    done
  then show ?thesis by (simp add: step_run_def ConfirmInit)
qed

lemma sbind_Inr: "sbind (m, c) f = (Inr y, c') \<longleftrightarrow> (\<exists>x. m = Inr x \<and> f x c = (Inr y, c'))"
  by (cases m) auto

text \<open>Approval alone never completes a handshake.\<close>

lemma after_approval_no_candidate: "after_approval X r c \<noteq> (Inr (Some cand, r'), c')"
  by (auto simp: after_approval_def step_auth_init_def sbind_Inr Let_def split: hello_role.splits option.splits)

end
