(* ===== verification/Machine_Inv.thy ===== *)
theory Machine_Inv
  imports Machine_Steps
begin

text \<open>
  The invariant of the engine, phase by phase, and that the operations of an established engine
  keep it: the active session exists and is bound to the authenticated peer, a rekey run refers to
  the active session and is timed, otherwise the next rekey is timed, and a draining session exists
  exactly while its deadline is armed.
\<close>

section \<open>Sessions\<close>

definition send_direction :: "hello_role \<Rightarrow> direction_id" where
  "send_direction role = (if role = Initiator then InitiatorToResponder else ResponderToInitiator)"

definition send_key :: "hello_role \<Rightarrow> session_keys \<Rightarrow> bytes" where
  "send_key role keys =
     (if role = Initiator then k_initiator_to_responder keys else k_responder_to_initiator keys)"

definition other_role :: "hello_role \<Rightarrow> hello_role" where
  "other_role role = (if role = Initiator then Responder else Initiator)"

definition session_ok :: "ext \<Rightarrow> peer_identity \<Rightarrow> session \<Rightarrow> bool" where
  "session_ok X me s \<longleftrightarrow>
     (\<exists>role keys n S. authentic X me role keys (sn_peer s) \<and> sn_id s = k_session_id keys \<and>
        sender_rel X (sn_id s) (send_direction role) (send_key role keys) (sn_sender s) n \<and>
        receiver_rel X (sn_id s) (send_direction (other_role role)) (send_key (other_role role) keys)
          (sn_receiver s) S)"

lemma session_new_fields [simp]:
  "sn_id (session_new keys role peer) = k_session_id keys"
  "sn_peer (session_new keys role peer) = peer"
  "sn_sender (session_new keys role peer) =
     sender_new (k_session_id keys) (send_direction role) (send_key role keys)"
  "sn_receiver (session_new keys role peer) =
     receiver_new (k_session_id keys) (send_direction (other_role role)) (send_key (other_role role) keys)"
  by (cases role; simp add: session_new_def send_direction_def send_key_def other_role_def)+

lemma session_new_ok: "authentic X me role keys peer \<Longrightarrow> session_ok X me (session_new keys role peer)"
  unfolding session_ok_def
  by (intro exI[of _ role] exI[of _ keys] exI[of _ 0] exI[of _ "{}"])
    (simp add: sender_rel_new receiver_rel_new)

lemma sender_encrypt_rel:
  assumes "sender_rel X sid d ck s n" "sender_encrypt X s content = (res, s')"
  shows "sender_rel X sid d ck s' n \<or> sender_rel X sid d ck s' (Suc n)"
proof (cases "encrypt_steps X s content")
  case (Inl e)
  with assms show ?thesis by (simp add: sender_encrypt_def)
next
  case (Inr cn)
  then have "snd cn = snd (derive_message_key X (ds_chain_key s) (ds_direction s))"
    by (auto simp: encrypt_steps_def res_simps split_beta)
  with Inr assms show ?thesis by (auto simp: sender_encrypt_def sender_rel_def split_beta)
qed

lemma session_ok_encrypt:
  assumes "session_ok X me s" "sender_encrypt X (sn_sender s) content = (res, sender)"
  shows "session_ok X me (s\<lparr>sn_sender := sender\<rparr>)"
  using assms sender_encrypt_rel[OF _ assms(2)] unfolding session_ok_def by simp blast

lemma session_ok_decrypt:
  assumes "session_ok X me s" "receiver_decrypt X (sn_receiver s) f = (res, receiver)"
  shows "session_ok X me (s\<lparr>sn_receiver := receiver\<rparr>)"
proof -
  obtain role keys n S where s: "authentic X me role keys (sn_peer s)" "sn_id s = k_session_id keys"
    "sender_rel X (sn_id s) (send_direction role) (send_key role keys) (sn_sender s) n"
    "receiver_rel X (sn_id s) (send_direction (other_role role)) (send_key (other_role role) keys)
       (sn_receiver s) S"
    using assms(1) unfolding session_ok_def by blast
  have "\<exists>S'. receiver_rel X (sn_id s) (send_direction (other_role role)) (send_key (other_role role) keys) receiver S'"
    using receiver_step[OF s(4) assms(2)] by (auto split: sum.splits)
  with s show ?thesis unfolding session_ok_def by simp blast
qed

section \<open>The invariant\<close>

definition est_core :: "ext \<Rightarrow> peer_identity \<Rightarrow> engine \<Rightarrow> bool" where
  "est_core X p en \<longleftrightarrow> en_phase en = PhEstablished \<and> en_late_rekey_frames en \<le> LATE_REKEY_FRAME_GRACE \<and>
     en_consecutive_rekey_rejections en \<le> REKEY_REJECTION_WARNING_THRESHOLD \<and>
     KSasDecision \<notin> kinds en \<and> (KDrain \<in> kinds en \<longleftrightarrow> en_draining en \<noteq> None) \<and>
     (\<exists>a. en_active en = Some a \<and> sn_peer a = p \<and> session_ok X (identity_of X (en_identity en)) a) \<and>
     (\<forall>d. en_draining en = Some d \<longrightarrow> sn_peer d = p \<and> session_ok X (identity_of X (en_identity en)) d)"

definition est_run :: "ext \<Rightarrow> peer_identity \<Rightarrow> engine \<Rightarrow> bool" where
  "est_run X p en \<longleftrightarrow>
     (case en_run en of
        None \<Rightarrow> KRekeyDue \<in> kinds en \<and> KHandshakeFrame \<notin> kinds en \<and> KHandshakeTotal \<notin> kinds en
      | Some r \<Rightarrow> run_ok X en r \<and> ru_purpose r = PRekey \<and> ru_previous r = active_session_id en \<and>
          (approved_step r \<longrightarrow> ru_remote_identity r = Some p) \<and>
          KHandshakeFrame \<in> kinds en \<and> KHandshakeTotal \<in> kinds en)"

definition hs_core :: "engine \<Rightarrow> bool" where
  "hs_core en \<longleftrightarrow> en_phase en = PhHandshaking \<and> en_active en = None \<and> en_draining en = None \<and>
     KHandshakeTotal \<in> kinds en \<and> kinds en \<subseteq> {KHandshakeFrame, KSasDecision, KHandshakeTotal}"

definition hs_run :: "ext \<Rightarrow> engine \<Rightarrow> bool" where
  "hs_run X en \<longleftrightarrow>
     (case en_run en of
        None \<Rightarrow> en_role en = Responder \<and> KHandshakeFrame \<in> kinds en \<and> KSasDecision \<notin> kinds en
      | Some r \<Rightarrow> run_ok X en r \<and> ru_purpose r = PInitial \<and> ru_role r = en_role en \<and>
          (KSasDecision \<in> kinds en \<longleftrightarrow> ru_step r = Sas))"

definition engine_ok :: "ext \<Rightarrow> engine \<Rightarrow> bool" where
  "engine_ok X en \<longleftrightarrow> deadlines_ok en \<and>
     (case en_phase en of
        PhHandshaking \<Rightarrow> hs_core en \<and> hs_run X en
      | PhEstablished \<Rightarrow> (\<exists>p. est_core X p en \<and> est_run X p en)
      | _ \<Rightarrow> en_run en = None \<and> en_active en = None \<and> en_draining en = None \<and> en_deadlines en = [])"

lemma engine_ok_new: "engine_ok X (engine_new role identity entropy)"
  by (simp add: engine_ok_def engine_new_def deadlines_ok_def)

text \<open>What ending leaves behind.\<close>

definition closed :: "(effect \<Rightarrow> bool) \<Rightarrow> deadline_table \<Rightarrow> ctx \<Rightarrow> bool" where
  "closed Q T c \<longleftrightarrow> en_phase (fst c) = PhClosed \<and> en_run (fst c) = None \<and> en_active (fst c) = None \<and>
     en_draining (fst c) = None \<and> en_deadlines (fst c) = [] \<and> replay T (snd c) = [] \<and>
     (\<exists>pre cause. snd c = pre @ [Notify (Closed cause), CloseTransport] \<and> (\<forall>e \<in> set pre. Q e))"

lemma terminate_closed:
  assumes m: "mid Q T c" and q: "permissive Q"
  shows "closed Q T (terminate X cause notify c)"
proof -
  let ?pre = "snd c @ map (\<lambda>(id, kind). CancelDeadline id) (en_deadlines (fst c))"
  have rep: "replay T ?pre = []"
    using m by (force simp: mid_def replay_cancels filter_empty_conv)
  have pre: "\<forall>e \<in> set ?pre. Q e"
    using m q by (auto simp: mid_def permissive_basic)
  consider (quiet) "notify = None \<or> (\<exists>reason e. notify = Some reason \<and> close_encode X
        \<lparr>c_session_id = active_session_id (fst (cancel_all c)), c_reason = reason, c_detail = None\<rparr> = Inl e)"
    | (send) reason f where "notify = Some reason" "close_encode X
        \<lparr>c_session_id = active_session_id (fst (cancel_all c)), c_reason = reason, c_detail = None\<rparr> = Inr f"
    by (metis not_None_eq sum.exhaust)
  then show ?thesis
  proof cases
    case quiet
    then have "snd (terminate X cause notify c) = ?pre @ [Notify (Closed cause), CloseTransport]"
      by (auto simp: terminate_def Let_def cancel_all_def)
    with quiet pre rep show ?thesis
      by (auto simp: closed_def terminate_def Let_def cancel_all_def)
  next
    case send
    have "snd (terminate X cause notify c) = (?pre @ [Send f]) @ [Notify (Closed cause), CloseTransport]"
      using send by (simp add: terminate_def Let_def cancel_all_def)
    moreover have "\<forall>e \<in> set (?pre @ [Send f]). Q e" using pre q by (simp add: permissive_basic)
    moreover have "replay T (snd (terminate X cause notify c)) = []"
      unfolding calculation(1) using rep by simp
    ultimately show ?thesis
      using send unfolding closed_def
      by (intro conjI exI[of _ "?pre @ [Send f]"] exI[of _ cause])
        (simp_all add: terminate_def Let_def cancel_all_def)
  qed
qed

lemma fail_initial_closed: "mid Q T c \<Longrightarrow> permissive Q \<Longrightarrow> closed Q T (fail_initial X e c)"
  by (simp add: fail_initial_def terminate_closed split: prod.split)

section \<open>Core facts for an established engine\<close>

lemma kinds_upd:
  "en_deadlines en' = en_deadlines en \<Longrightarrow> kinds en' = kinds en"
  by (simp add: kinds_def)

lemma kinds_simps [simp]:
  "kinds (en\<lparr>en_run := a\<rparr>) = kinds en" "kinds (en\<lparr>en_active := b\<rparr>) = kinds en"
  "kinds (en\<lparr>en_draining := d\<rparr>) = kinds en" "kinds (en\<lparr>en_entropy := e\<rparr>) = kinds en"
  "kinds (en\<lparr>en_late_rekey_frames := n\<rparr>) = kinds en" "kinds (en\<lparr>en_rekey_blocked := x\<rparr>) = kinds en"
  "kinds (en\<lparr>en_consecutive_rekey_rejections := n\<rparr>) = kinds en" "kinds (en\<lparr>en_messages := n\<rparr>) = kinds en"
  "kinds (en\<lparr>en_phase := ph\<rparr>) = kinds en" "kinds (en\<lparr>en_next_deadline := n\<rparr>) = kinds en"
  by (simp_all add: kinds_def)

text \<open>Everything the core says depends on these fields only.\<close>

lemma est_core_cong:
  assumes "est_core X p en" "en_phase en' = en_phase en" "en_active en' = en_active en"
    "en_draining en' = en_draining en" "en_identity en' = en_identity en"
    "en_late_rekey_frames en' \<le> LATE_REKEY_FRAME_GRACE"
    "en_consecutive_rekey_rejections en' \<le> REKEY_REJECTION_WARNING_THRESHOLD"
    "kinds en' - {KHandshakeFrame, KHandshakeTotal, KRekeyDue} =
     kinds en - {KHandshakeFrame, KHandshakeTotal, KRekeyDue}"
  shows "est_core X p en'"
proof -
  have "KSasDecision \<in> kinds en' \<longleftrightarrow> KSasDecision \<in> kinds en" "KDrain \<in> kinds en' \<longleftrightarrow> KDrain \<in> kinds en"
    using assms(8) by blast+
  with assms(1-7) show ?thesis by (simp add: est_core_def)
qed

lemma est_core_bounds:
  "est_core X p en \<Longrightarrow> en_late_rekey_frames en \<le> LATE_REKEY_FRAME_GRACE"
  "est_core X p en \<Longrightarrow> en_consecutive_rekey_rejections en \<le> REKEY_REJECTION_WARNING_THRESHOLD"
  by (simp_all add: est_core_def)

definition established :: "ext \<Rightarrow> deadline_table \<Rightarrow> peer_identity \<Rightarrow> ctx \<Rightarrow> bool" where
  "established X T p c \<longleftrightarrow> mid session_effect T c \<and> est_core X p (fst c) \<and> est_run X p (fst c)"

definition est_post :: "ext \<Rightarrow> deadline_table \<Rightarrow> peer_identity \<Rightarrow> ctx \<Rightarrow> bool" where
  "est_post X T p c \<longleftrightarrow> established X T p c \<or> closed session_effect T c"

lemma est_postI: "established X T p c \<Longrightarrow> est_post X T p c"
  by (simp add: est_post_def)

lemma protocol_error_post: "mid session_effect T c \<Longrightarrow> est_post X T p (terminate X cause notify c)"
  by (simp add: est_post_def terminate_closed)

lemma fail_rekey_established:
  assumes m: "mid session_effect T c" and core: "est_core X p (fst c)"
  shows "established X T p (fail_rekey e c)"
proof -
  have "mid session_effect T (fail_rekey e c)"
    unfolding fail_rekey_def Let_def using m
    by (intro mid_emit mid_arm mid_upd mid_cancel) simp_all
  moreover have "est_core X p (fst (fail_rekey e c))"
    using est_core_bounds[OF core]
    by (intro est_core_cong[OF core]) (auto simp: fail_rekey_def Let_def)
  moreover have "est_run X p (fst (fail_rekey e c))"
    by (auto simp: est_run_def fail_rekey_def Let_def)
  ultimately show ?thesis by (simp add: established_def)
qed

lemma est_run_cong:
  assumes "est_run X p en" "en_run en' = en_run en" "en_identity en' = en_identity en"
    "active_session_id en' = active_session_id en"
    "kinds en' - {KSasDecision, KDrain} = kinds en - {KSasDecision, KDrain} \<or>
     en_run en \<noteq> None \<and> kinds en' = kinds en - {KRekeyDue}"
  shows "est_run X p en'"
proof -
  have "KHandshakeFrame \<in> kinds en' \<longleftrightarrow> KHandshakeFrame \<in> kinds en"
    "KHandshakeTotal \<in> kinds en' \<longleftrightarrow> KHandshakeTotal \<in> kinds en"
    "en_run en = None \<Longrightarrow> KRekeyDue \<in> kinds en' \<longleftrightarrow> KRekeyDue \<in> kinds en"
    using assms(5) by blast+
  then show ?thesis
    using assms(1,2,4) run_ok_identity[OF assms(3)] by (simp add: est_run_def split: option.splits)
qed

lemma note_rekey_rejection_established:
  assumes "established X T p c"
  shows "established X T p (note_rekey_rejection c)"
proof -
  have m: "mid session_effect T c" and core: "est_core X p (fst c)" and run: "est_run X p (fst c)"
    using assms by (auto simp: established_def)
  let ?c = "upd (\<lambda>en. en\<lparr>en_consecutive_rekey_rejections := en_consecutive_rekey_rejections (fst c) + 1\<rparr>) c"
  show ?thesis
  proof (cases "en_consecutive_rekey_rejections (fst c) < REKEY_REJECTION_WARNING_THRESHOLD")
    case True
    have m': "mid session_effect T ?c" by (intro mid_upd[OF m]) simp_all
    moreover have "est_core X p (fst ?c)"
      using True est_core_bounds[OF core] by (intro est_core_cong[OF core]) simp_all
    moreover have "est_run X p (fst ?c)"
      by (rule est_run_cong[OF run]) (simp_all add: active_session_id_def)
    ultimately show ?thesis
      using True mid_emit[OF m', of "Notify (RekeyFailed FRepeated)"]
      by (auto simp: note_rekey_rejection_def Let_def established_def)
  next
    case False
    with assms show ?thesis by (simp add: note_rekey_rejection_def)
  qed
qed

section \<open>Starting a run\<close>

lemma fresh_keys_ctx:
  "\<exists>x. fresh_keys X c = (kn, c') \<longrightarrow> c' = upd (\<lambda>en. en\<lparr>en_entropy := x\<rparr>) c"
  by (cases c) (auto simp: fresh_keys_def fill_def Let_def)

lemma start_initiator_run_post:
  assumes m: "mid Q T c" and q: "permissive Q" and run: "start_initiator_run X purpose previous c = (res, c')"
  shows "mid Q T c' \<and>
    (\<exists>x r. fst c' = (fst c)\<lparr>en_entropy := x, en_run := r\<rparr> \<and>
       (case res of
          Inl e \<Rightarrow> r = en_run (fst c)
        | Inr _ \<Rightarrow> \<exists>r'. r = Some r' \<and> run_ok X (fst c) r' \<and> ru_purpose r' = purpose \<and> ru_step r' = Hello \<and>
            ru_role r' = Initiator \<and> ru_previous r' = previous))"
proof -
  obtain ephemeral nonce c1 where fk: "fresh_keys X c = ((ephemeral, nonce), c1)"
    by (metis surj_pair)
  obtain x where c1: "c1 = upd (\<lambda>en. en\<lparr>en_entropy := x\<rparr>) c"
    using fresh_keys_ctx[of X c "(ephemeral, nonce)" c1] fk by blast
  have m1: "mid Q T c1" unfolding c1 by (rule mid_upd[OF m]) simp_all
  let ?hello = "\<lparr>h_cipher_suite = 1, h_purpose = purpose, h_role = Initiator,
            h_identity = identity_of X (en_identity (fst c1)), h_ephemeral = e_public ephemeral,
            h_nonce = nonce, h_previous = previous\<rparr>"
  show ?thesis
  proof (cases "hello_encode X ?hello")
    case (Inl e)
    with run fk m1 show ?thesis by (auto simp: start_initiator_run_def c1 intro!: exI[of _ x])
  next
    case hf: (Inr hello_frame)
    let ?commit = "\<lparr>m_cipher_suite = 1, m_purpose = purpose,
                  m_commitment = commit_hash X (f_payload hello_frame), m_previous = previous\<rparr>"
    show ?thesis
    proof (cases "commit_encode X ?commit")
      case (Inl e)
      with run fk m1 hf show ?thesis by (auto simp: start_initiator_run_def c1 intro!: exI[of _ x])
    next
      case (Inr commit_frame)
      have "mid Q T (emit (Send commit_frame) c1)"
        using m1 q by (intro mid_emit) (simp_all add: permissive_basic)
      with run fk hf Inr show ?thesis
        by (auto simp: start_initiator_run_def Let_def c1 run_ok_def run_base_def
            elim!: mid_pair intro!: exI[of _ x])
    qed
  qed
qed

lemma start_responder_run_post:
  assumes m: "mid Q T c" and q: "permissive Q"
    and rs: "m_purpose commit = PRekey \<longrightarrow> Q (Notify RekeyStarted)"
    and run: "start_responder_run X commit announce c = (res, c')"
  shows "mid Q T c' \<and>
    (case res of
       Inl e \<Rightarrow> \<exists>x. fst c' = (fst c)\<lparr>en_entropy := x\<rparr>
     | Inr _ \<Rightarrow>
         (\<exists>x r. core (fst c') = core ((fst c)\<lparr>en_entropy := x, en_run := Some r\<rparr>) \<and> run_ok X (fst c) r \<and>
            ru_purpose r = m_purpose commit \<and> ru_step r = Reveal \<and> ru_role r = Responder \<and>
            ru_previous r = m_previous commit) \<and>
         kinds (fst c') = insert KHandshakeFrame
           (if m_purpose commit = PRekey then insert KHandshakeTotal (kinds (fst c)) else kinds (fst c)))"
proof -
  obtain ephemeral nonce c1 where fk: "fresh_keys X c = ((ephemeral, nonce), c1)"
    by (metis surj_pair)
  obtain x where c1: "c1 = upd (\<lambda>en. en\<lparr>en_entropy := x\<rparr>) c"
    using fresh_keys_ctx[of X c "(ephemeral, nonce)" c1] fk by blast
  have m1: "mid Q T c1" unfolding c1 by (rule mid_upd[OF m]) simp_all
  let ?hello = "\<lparr>h_cipher_suite = m_cipher_suite commit, h_purpose = m_purpose commit,
            h_role = Responder, h_identity = identity_of X (en_identity (fst c1)),
            h_ephemeral = e_public ephemeral, h_nonce = nonce, h_previous = m_previous commit\<rparr>"
  let ?run = "\<lparr>ru_purpose = m_purpose commit, ru_role = Responder,
               ru_previous = m_previous commit, ru_ephemeral = ephemeral, ru_local_hello = ?hello,
               ru_local_hello_frame = None, ru_commit = Some commit, ru_step = Reveal,
               ru_remote_identity = None, ru_shared = None, ru_transcript = None, ru_hash = None,
               ru_keys = None, ru_early = None\<rparr>"
  have ok: "run_ok X (fst c) ?run" by (simp add: run_ok_def run_base_def c1)
  show ?thesis
  proof (cases "hello_encode X ?hello")
    case (Inl e)
    with run fk m1 show ?thesis by (auto simp: start_responder_run_def c1 intro!: exI[of _ x])
  next
    case (Inr hello_frame)
    let ?c2 = "upd (\<lambda>en. en\<lparr>en_run := Some ?run\<rparr>) (emit (Send hello_frame) c1)"
    let ?c3 = "if m_purpose commit = PRekey then
                 let c = arm KHandshakeTotal HANDSHAKE_TOTAL_TIMEOUT_SECS ?c2 in
                 if announce then emit (Notify RekeyStarted) c else c
               else ?c2"
    have res: "res = Inr ()" "c' = rearm_frame_deadline (m_purpose commit) Reveal ?c3"
      using run fk Inr by (auto simp: start_responder_run_def Let_def)
    have "mid Q T ?c2" using m1 q by (intro mid_upd mid_emit) (simp_all add: permissive_basic)
    then have "mid Q T ?c3" using q rs by (auto simp: Let_def intro!: mid_emit mid_arm)
    then have "mid Q T c'" unfolding res by (rule mid_rearm[OF _ q])
    moreover have "core (fst c') = core ((fst c)\<lparr>en_entropy := x, en_run := Some ?run\<rparr>)"
      by (simp add: res Let_def c1)
    moreover have "kinds (fst c') = insert KHandshakeFrame
           (if m_purpose commit = PRekey then insert KHandshakeTotal (kinds (fst c)) else kinds (fst c))"
      by (simp add: res Let_def c1 frame_deadline_bounded_def)
    ultimately show ?thesis using res(1) ok by (auto intro!: exI[of _ x] exI[of _ ?run])
  qed
qed

end
