(* ===== verification/Machine_Established.thy ===== *)
theory Machine_Established
  imports Machine_Inv
begin

text \<open>
  Every operation of an established engine keeps the invariant with the same peer, or ends the
  session: rekeying (both roles, and simultaneous rekeys), DATA in both directions, CLOSE and the
  deadlines.
\<close>

lemma est_active: "est_core X p en \<Longrightarrow> \<exists>a. en_active en = Some a \<and> active_session_id en = Some (sn_id a)"
  by (auto simp: est_core_def active_session_id_def)

section \<open>Rekeying\<close>

lemma begin_rekey_established:
  assumes m: "mid session_effect T c" and core: "est_core X p (fst c)"
    and run: "en_run (fst c) \<noteq> None \<Longrightarrow> est_run X p (fst c)"
  shows "established X T p (begin_rekey X c)"
proof (cases "en_run (fst c)")
  case (Some r)
  with assms show ?thesis by (simp add: begin_rekey_def established_def)
next
  case None
  have ph: "en_phase (fst c) = PhEstablished" using core by (simp add: est_core_def)
  obtain a where a: "en_active (fst c) = Some a" "active_session_id (fst c) = Some (sn_id a)"
    using est_active[OF core] by blast
  obtain res c1 where st: "start_initiator_run X PRekey (Some (sn_id a)) c = (res, c1)"
    by (metis surj_pair)
  obtain x r where p: "mid session_effect T c1" "fst c1 = (fst c)\<lparr>en_entropy := x, en_run := r\<rparr>"
    and r: "case res of
          Inl e \<Rightarrow> r = en_run (fst c)
        | Inr _ \<Rightarrow> \<exists>r'. r = Some r' \<and> run_ok X (fst c) r' \<and> ru_purpose r' = PRekey \<and> ru_step r' = Hello \<and>
            ru_role r' = Initiator \<and> ru_previous r' = Some (sn_id a)"
    using start_initiator_run_post[OF m _ st] by auto
  have core1: "est_core X p (fst c1)"
    using est_core_bounds[OF core] by (intro est_core_cong[OF core]) (simp_all add: p(2))
  show ?thesis
  proof (cases res)
    case (Inl e)
    with None ph a st fail_rekey_established[OF p(1) core1] show ?thesis
      by (simp add: begin_rekey_def)
  next
    case (Inr u)
    then obtain r' where r': "r = Some r'" "run_ok X (fst c) r'" "ru_purpose r' = PRekey" "ru_step r' = Hello"
      "ru_previous r' = Some (sn_id a)" using r by auto
    let ?c = "emit (Notify RekeyStarted) (rearm_frame_deadline PRekey Hello
                (arm KHandshakeTotal HANDSHAKE_TOTAL_TIMEOUT_SECS c1))"
    have "mid session_effect T ?c"
      by (intro mid_emit mid_rearm mid_arm p(1)) simp_all
    moreover have "est_core X p (fst ?c)"
      using est_core_bounds[OF core1]
      by (intro est_core_cong[OF core1]) (auto simp: frame_deadline_bounded_def)
    moreover have "run_ok X (fst ?c) r'"
      using r'(2) by (subst run_ok_identity[of _ "fst c"]) (simp_all add: p(2))
    then have "est_run X p (fst ?c)"
      using r' a by (simp add: est_run_def p(2) active_session_id_def frame_deadline_bounded_def approved_step_def)
    ultimately show ?thesis
      using None ph a st Inr by (simp add: begin_rekey_def Let_def established_def)
  qed
qed

lemma commit_decode_Inr:
  assumes "commit_decode X f = Inr commit"
  shows "m_cipher_suite commit = 1 \<and> f_type f = message_type_for_purpose (m_purpose commit) \<and>
    \<not> purpose_mismatch (m_purpose commit) (m_previous commit)"
  using assms by (auto simp: commit_decode_def res_simps)

lemma commit_decode_rekey:
  "commit_decode X f = Inr commit \<Longrightarrow> f_type f = MRekey \<Longrightarrow>
   m_cipher_suite commit = 1 \<and> m_purpose commit = PRekey \<and> m_previous commit \<noteq> None"
  using commit_decode_Inr[of X f commit]
  by (cases "m_purpose commit") (auto simp: message_type_for_purpose_def purpose_mismatch_def)

text \<open>A valid COMMIT that names the active session is answered, whatever was armed before.\<close>

lemma on_incoming_commit_established:
  assumes m: "mid session_effect T c" and core: "est_core X p (fst c)" and run: "en_run (fst c) = None"
    and valid: "m_cipher_suite commit = 1" "m_purpose commit = PRekey"
      "m_previous commit = active_session_id (fst c)"
  shows "established X T p (on_incoming_commit X commit announce c)"
proof -
  obtain a where a: "en_active (fst c) = Some a" "active_session_id (fst c) = Some (sn_id a)"
    using est_active[OF core] by blast
  let ?c = "upd (\<lambda>en. en\<lparr>en_consecutive_rekey_rejections := 0\<rparr>) c"
  have m1: "mid session_effect T ?c" by (intro mid_upd[OF m]) simp_all
  have core1: "est_core X p (fst ?c)"
    using est_core_bounds[OF core] by (intro est_core_cong[OF core]) simp_all
  obtain res c1 where st: "start_responder_run X commit announce ?c = (res, c1)"
    by (metis surj_pair)
  note post = start_responder_run_post[OF m1 _ _ st]
  have op: "on_incoming_commit X commit announce c = (case res of Inl e \<Rightarrow> fail_rekey e c1 | Inr _ \<Rightarrow> c1)"
    using valid a st by (simp add: on_incoming_commit_def Let_def split: sum.splits)
  have m2: "mid session_effect T c1" using post by simp
  show ?thesis
  proof (cases res)
    case (Inl e)
    then obtain x where "fst c1 = (fst ?c)\<lparr>en_entropy := x\<rparr>" using post by auto
    then have "est_core X p (fst c1)"
      using est_core_bounds[OF core1] by (intro est_core_cong[OF core1]) simp_all
    with fail_rekey_established[OF m2] show ?thesis by (simp add: op Inl)
  next
    case (Inr u)
    with post obtain x r where r: "core (fst c1) = core ((fst ?c)\<lparr>en_entropy := x, en_run := Some r\<rparr>)"
      "run_ok X (fst ?c) r" "ru_purpose r = PRekey" "ru_step r = Reveal" "ru_previous r = Some (sn_id a)"
      and k: "kinds (fst c1) = insert KHandshakeFrame (insert KHandshakeTotal (kinds (fst c)))"
      using valid a by auto
    note cf = core_fields[OF r(1), simplified]
    have "est_core X p (fst c1)"
      using est_core_bounds[OF core] by (intro est_core_cong[OF core]) (auto simp: cf k)
    moreover have "run_ok X (fst c1) r"
      using r(2) by (subst run_ok_identity[of _ "fst ?c"]) (simp_all add: cf)
    then have "est_run X p (fst c1)"
      using r a by (simp add: est_run_def cf k active_session_id_def approved_step_def)
    ultimately show ?thesis using m2 by (simp add: op Inr established_def)
  qed
qed

lemma resolve_glare_established:
  assumes est: "established X T p c" and run: "en_run (fst c) = Some r"
    and dec: "commit_decode X f = Inr commit" "f_type f = MRekey"
  shows "established X T p (resolve_glare X commit c)"
proof -
  have m: "mid session_effect T c" and core: "est_core X p (fst c)" and er: "est_run X p (fst c)"
    using est by (auto simp: established_def)
  have peer: "peer_identity (fst c) = Some p" using core by (auto simp: est_core_def peer_identity_def)
  let ?c = "cancel KHandshakeTotal (cancel KHandshakeFrame (upd (\<lambda>en. en\<lparr>en_run := None\<rparr>) c))"
  have m1: "mid session_effect T ?c" using m by (intro mid_cancel mid_upd) simp_all
  have core1: "est_core X p (fst ?c)"
    using est_core_bounds[OF core] by (intro est_core_cong[OF core]) auto
  have "established X T p (on_incoming_commit X commit False ?c)"
    if "m_previous commit = ru_previous r"
    using commit_decode_rekey[OF dec] er run that
    by (intro on_incoming_commit_established[OF m1 core1])
      (simp_all add: est_run_def active_session_id_def)
  with est note_rekey_rejection_established[OF est] show ?thesis
    by (simp add: resolve_glare_def peer run Let_def)
qed

lemma complete_rekey_established:
  assumes m: "mid session_effect T c" and core: "est_core X p (fst c)" and run: "en_run (fst c) = None"
    and auth: "authentic X (identity_of X (en_identity (fst c))) (ca_role cand) (ca_keys cand) (ca_peer cand)"
  shows "established X T p (complete_rekey cand c)"
proof -
  obtain a where a: "en_active (fst c) = Some a" "sn_peer a = p"
    "session_ok X (identity_of X (en_identity (fst c))) a"
    using core by (auto simp: est_core_def)
  show ?thesis
  proof (cases "sn_peer a = ca_peer cand \<and> sn_id a \<noteq> k_session_id (ca_keys cand)")
    case False
    with a fail_rekey_established[OF m core] show ?thesis by (simp add: complete_rekey_def)
  next
    case True
    let ?new = "session_new (ca_keys cand) (ca_role cand) (ca_peer cand)"
    let ?c1 = "upd (\<lambda>en. en\<lparr>en_draining := en_active en, en_active := Some ?new\<rparr>)
       (cancel KHandshakeTotal (cancel KHandshakeFrame c))"
    let ?c2 = "arm KRekeyDue REKEY_INTERVAL_SECS (arm KDrain REKEY_DRAIN_TIMEOUT_SECS ?c1)"
    let ?c3 = "emit (Notify RekeyCompleted) (upd (\<lambda>en. en\<lparr>en_messages := 0, en_rekey_blocked := False,
         en_late_rekey_frames := 0, en_consecutive_rekey_rejections := 0\<rparr>) ?c2)"
    have op: "complete_rekey cand c = ?c3"
      using a True by (simp add: complete_rekey_def Let_def)
    have "mid session_effect T ?c3"
      by (intro mid_emit mid_upd mid_arm mid_cancel m) simp_all
    moreover have "est_core X p (fst ?c3)"
      using core a True session_new_ok[OF auth] by (auto simp: est_core_def)
    moreover have "est_run X p (fst ?c3)"
      using run by (simp add: est_run_def)
    ultimately show ?thesis by (simp add: op established_def)
  qed
qed

text \<open>One frame of a rekey run.\<close>

lemma drive_rekey_established:
  assumes est: "established X T p c" and run: "en_run (fst c) = Some r"
  shows "established X T p
    (case drive_run X f c of
       (Inr (Some cand), c) \<Rightarrow> complete_rekey cand c
     | (Inr None, c) \<Rightarrow> c
     | (Inl e, c) \<Rightarrow> fail_rekey e c)"
proof -
  have m: "mid session_effect T c" and core: "est_core X p (fst c)" and er: "est_run X p (fst c)"
    using est by (auto simp: established_def)
  let ?c = "upd (\<lambda>en. en\<lparr>en_run := None\<rparr>) c"
  let ?en = "fst ?c"
  have rp: "ru_purpose r = PRekey" "run_ok X (fst c) r" "ru_previous r = active_session_id (fst c)"
    "approved_step r \<longrightarrow> ru_remote_identity r = Some p"
    using er run by (auto simp: est_run_def)
  have ks: "KHandshakeFrame \<in> kinds (fst c)" "KHandshakeTotal \<in> kinds (fst c)"
    using er run by (auto simp: est_run_def)
  have m1: "mid session_effect T ?c" by (intro mid_upd[OF m]) simp_all
  have core1: "est_core X p ?en"
    using est_core_bounds[OF core] by (intro est_core_cong[OF core]) simp_all
  have ok: "run_ok X ?en r" using rp(2) by (subst run_ok_identity[of _ "fst c"]) simp_all
  have peer: "peer_identity ?en = Some p" using core by (auto simp: est_core_def peer_identity_def)
  obtain res c1 where st: "step_run X r f ?c = (res, c1)" by (metis surj_pair)
  have post: "step_post X session_effect T ?en r (res, c1)"
    using step_run_post[OF m1 _ refl ok, where f = f] rp(1) by (simp add: st)
  have m2: "mid session_effect T c1" using post by (simp add: step_post_def)
  show ?thesis
  proof (cases res)
    case (Inl e)
    then have "fst c1 = ?en" using post by (simp add: step_post_def)
    with Inl run st fail_rekey_established[OF m2] core1 show ?thesis
      by (simp add: drive_run_def Let_def)
  next
    case (Inr cr)
    obtain cand r' where cr: "cr = (cand, r')" by (cases cr)
    show ?thesis
    proof (cases cand)
      case None
      then have r': "same_run r r'" "run_ok X ?en r'" "advance X ?en r r' (snd c1)" "core (fst c1) = core ?en"
        and kp: "kinds_post ?en (fst c1) r r'"
        using post Inr cr by (auto simp: step_post_def)
      note cf = core_fields[OF r'(4), simplified]
      let ?c2 = "upd (\<lambda>en. en\<lparr>en_run := Some r'\<rparr>) c1"
      have nosas: "ru_step r' \<noteq> Sas"
        using r'(1,2) rp(1) by (auto simp: run_ok_def same_run_def)
      have k: "kinds (fst c1) - {KHandshakeFrame} = kinds (fst c) - {KHandshakeFrame}"
        "KHandshakeFrame \<in> kinds (fst c1)"
        using kp nosas rp(1) by (auto simp: kinds_post_def)
      then have k': "kinds (fst c1) = kinds (fst c)" using ks by blast
      have "mid session_effect T ?c2" by (intro mid_upd[OF m2]) simp_all
      moreover have "est_core X p (fst ?c2)"
        using est_core_bounds[OF core] by (intro est_core_cong[OF core]) (simp_all add: cf k')
      moreover have "run_ok X (fst ?c2) r'"
        using r'(2) by (subst run_ok_identity[of _ ?en]) (simp_all add: cf)
      then have "est_run X p (fst ?c2)"
        using r'(1,3) rp k' ks nosas peer
        by (auto simp: est_run_def active_session_id_def cf same_run_def advance_def same_agreement_def)
      ultimately show ?thesis
        using run st Inr cr None by (simp add: drive_run_def Let_def established_def)
    next
      case (Some ca)
      then have ca: "fst c1 = ?en" "ca_role ca = ru_role r"
        "authentic X (identity_of X (en_identity ?en)) (ru_role r) (ca_keys ca) (ca_peer ca)"
        using post Inr cr by (auto simp: step_post_def authentic_def)
      have "established X T p (complete_rekey ca c1)"
        using core1 ca by (intro complete_rekey_established[OF m2]) simp_all
      then show ?thesis
        using run st Inr cr Some by (simp add: drive_run_def Let_def)
    qed
  qed
qed

lemma on_rekey_frame_post:
  assumes est: "established X T p c"
  shows "est_post X T p (on_rekey_frame X f c)"
proof -
  have m: "mid session_effect T c" and core: "est_core X p (fst c)" and er: "est_run X p (fst c)"
    using est by (auto simp: established_def)
  show ?thesis
  proof (cases "en_run (fst c)")
    case None
    let ?less = "upd (\<lambda>en. en\<lparr>en_late_rekey_frames := en_late_rekey_frames en - 1\<rparr>) c"
    let ?zero = "upd (\<lambda>en. en\<lparr>en_late_rekey_frames := 0\<rparr>) c"
    have "est_core X p (fst ?less)" "est_core X p (fst ?zero)"
      using est_core_bounds[OF core] by (intro est_core_cong[OF core]; simp)+
    moreover have "mid session_effect T ?less" "mid session_effect T ?zero"
      by (intro mid_upd[OF m]; simp)+
    moreover have "est_run X p (fst ?less)"
      by (rule est_run_cong[OF er]) (simp_all add: active_session_id_def)
    ultimately have less: "established X T p ?less"
      and zero: "established X T p (on_incoming_commit X commit True ?zero)"
      if "m_cipher_suite commit = 1" "m_purpose commit = PRekey"
        "m_previous commit = active_session_id (fst c)" for commit
      using that None on_incoming_commit_established[of T ?zero X p commit True]
      by (simp_all add: established_def active_session_id_def)
    have less: "established X T p ?less"
      using \<open>est_core X p (fst ?less)\<close> \<open>mid session_effect T ?less\<close> \<open>est_run X p (fst ?less)\<close>
      by (simp add: established_def)
    show ?thesis
      using None less zero note_rekey_rejection_established[OF est] protocol_error_post[OF m]
      by (auto simp: on_rekey_frame_def Let_def est_postI split: sum.splits)
  next
    case (Some r)
    show ?thesis
      using Some drive_rekey_established[OF est Some, of f] resolve_glare_established[OF est Some, of f]
      by (auto simp: on_rekey_frame_def est_postI split: sum.splits)
  qed
qed

section \<open>DATA\<close>

lemma maybe_trigger_rekey_established:
  "established X T p c \<Longrightarrow> established X T p (maybe_trigger_rekey X c)"
  using begin_rekey_established[of T c X p]
  by (simp add: maybe_trigger_rekey_def established_def)

lemma count_message_established:
  assumes "established X T p c"
  shows "established X T p (count_message c)"
proof -
  have m: "mid session_effect T c" and core: "est_core X p (fst c)" and er: "est_run X p (fst c)"
    using assms by (auto simp: established_def)
  have "mid session_effect T (count_message c)"
    unfolding count_message_def by (intro mid_upd[OF m]) simp_all
  moreover have "est_core X p (fst (count_message c))"
    using est_core_bounds[OF core] by (intro est_core_cong[OF core]) (simp_all add: count_message_def)
  moreover have "est_run X p (fst (count_message c))"
    by (rule est_run_cong[OF er]) (simp_all add: count_message_def active_session_id_def)
  ultimately show ?thesis by (simp add: established_def)
qed

lemma established_emit:
  "established X T p c \<Longrightarrow> session_effect e \<Longrightarrow> \<not> deadline_effect e \<Longrightarrow> established X T p (emit e c)"
  by (simp add: established_def mid_emit)

text \<open>Replacing the active or the draining session by one with the same identifier and peer.\<close>

lemma established_active:
  assumes est: "established X T p c" and act: "en_active (fst c) = Some a"
    and a': "session_ok X (identity_of X (en_identity (fst c))) a'" "sn_id a' = sn_id a" "sn_peer a' = sn_peer a"
  shows "established X T p (upd (\<lambda>en. en\<lparr>en_active := Some a'\<rparr>) c)"
proof -
  have m: "mid session_effect T c" and core: "est_core X p (fst c)" and er: "est_run X p (fst c)"
    using est by (auto simp: established_def)
  have "mid session_effect T (upd (\<lambda>en. en\<lparr>en_active := Some a'\<rparr>) c)"
    by (intro mid_upd[OF m]) simp_all
  moreover have "est_core X p ((fst c)\<lparr>en_active := Some a'\<rparr>)"
    using core act a' by (simp add: est_core_def)
  moreover have "est_run X p ((fst c)\<lparr>en_active := Some a'\<rparr>)"
    using act a' by (intro est_run_cong[OF er]) (simp_all add: active_session_id_def)
  ultimately show ?thesis by (simp add: established_def)
qed

lemma established_draining:
  assumes est: "established X T p c" and dr: "en_draining (fst c) = Some d"
    and d': "session_ok X (identity_of X (en_identity (fst c))) d'" "sn_peer d' = sn_peer d"
  shows "established X T p (upd (\<lambda>en. en\<lparr>en_draining := Some d'\<rparr>) c)"
proof -
  have m: "mid session_effect T c" and core: "est_core X p (fst c)" and er: "est_run X p (fst c)"
    using est by (auto simp: established_def)
  have "mid session_effect T (upd (\<lambda>en. en\<lparr>en_draining := Some d'\<rparr>) c)"
    by (intro mid_upd[OF m]) simp_all
  moreover have "est_core X p ((fst c)\<lparr>en_draining := Some d'\<rparr>)"
    using core dr d' by (simp add: est_core_def)
  moreover have "est_run X p ((fst c)\<lparr>en_draining := Some d'\<rparr>)"
    by (rule est_run_cong[OF er]) (simp_all add: active_session_id_def)
  ultimately show ?thesis by (simp add: established_def)
qed

lemma established_mid: "established X T p c \<Longrightarrow> mid session_effect T c"
  by (simp add: established_def)

lemma established_sessions:
  assumes "established X T p c"
  shows "\<exists>a. en_active (fst c) = Some a \<and> sn_peer a = p \<and> session_ok X (identity_of X (en_identity (fst c))) a"
    and "en_draining (fst c) = Some d \<Longrightarrow> session_ok X (identity_of X (en_identity (fst c))) d"
    and "en_phase (fst c) = PhEstablished"
  using assms by (auto simp: established_def est_core_def)

lemma on_send_post:
  assumes est: "established X T p c"
  shows "est_post X T p (on_send X content c)"
proof -
  obtain a where a: "en_active (fst c) = Some a" "session_ok X (identity_of X (en_identity (fst c))) a"
    using established_sessions(1)[OF est] by blast
  obtain res s where enc: "sender_encrypt X (sn_sender a) content = (res, s)" by (metis surj_pair)
  let ?c = "upd (\<lambda>en. en\<lparr>en_active := Some (a\<lparr>sn_sender := s\<rparr>)\<rparr>) c"
  have c1: "established X T p ?c"
    using session_ok_encrypt[OF a(2) enc] by (intro established_active[OF est a(1)]) simp_all
  have too: "established X T p (emit (Notify (SendRejected TooLarge)) c')" if "established X T p c'" for c'
    by (rule established_emit[OF that]) simp_all
  have sent: "established X T p (maybe_trigger_rekey X (count_message (emit (Send f) ?c)))" for f
    by (intro maybe_trigger_rekey_established count_message_established established_emit[OF c1]) simp_all
  show ?thesis
  proof (cases "length content > MAX_CONTENT")
    case True
    then show ?thesis using too[OF est] by (simp add: on_send_def est_postI)
  next
    case False
    then have op: "on_send X content c =
        (case res of
           Inr f \<Rightarrow> maybe_trigger_rekey X (count_message (emit (Send f) ?c))
         | Inl DataTooLarge \<Rightarrow> emit (Notify (SendRejected TooLarge)) ?c
         | Inl _ \<Rightarrow> protocol_error X ?c)"
      using a enc established_sessions(3)[OF est] by (simp add: on_send_def Let_def)
    show ?thesis
      unfolding op
    proof (cases res)
      case (Inr f)
      then show "est_post X T p (case res of
           Inr f \<Rightarrow> maybe_trigger_rekey X (count_message (emit (Send f) ?c))
         | Inl DataTooLarge \<Rightarrow> emit (Notify (SendRejected TooLarge)) ?c
         | Inl _ \<Rightarrow> protocol_error X ?c)"
        using est_postI[OF sent] by simp
    next
      case (Inl e)
      then show "est_post X T p (case res of
           Inr f \<Rightarrow> maybe_trigger_rekey X (count_message (emit (Send f) ?c))
         | Inl DataTooLarge \<Rightarrow> emit (Notify (SendRejected TooLarge)) ?c
         | Inl _ \<Rightarrow> protocol_error X ?c)"
        using est_postI[OF too[OF c1]] protocol_error_post[OF established_mid[OF c1]]
        by (cases e) simp_all
    qed
  qed
qed

lemma on_data_post:
  assumes est: "established X T p c"
  shows "est_post X T p (on_data X f c)"
proof -
  obtain a where a: "en_active (fst c) = Some a" "session_ok X (identity_of X (en_identity (fst c))) a"
    using established_sessions(1)[OF est] by blast
  obtain res r where dec: "receiver_decrypt X (sn_receiver a) f = (res, r)" by (metis surj_pair)
  let ?c = "upd (\<lambda>en. en\<lparr>en_active := Some (a\<lparr>sn_receiver := r\<rparr>)\<rparr>) c"
  have c1: "established X T p ?c"
    using session_ok_decrypt[OF a(2) dec] by (intro established_active[OF est a(1)]) simp_all
  have rejected: "est_post X T p (if is_malformed e then protocol_error X c' else emit (Notify DataRejected) c')"
    if "established X T p c'" for e c'
    using protocol_error_post[OF established_mid[OF that]] est_postI[OF established_emit[OF that]] by simp
  show ?thesis
  proof (cases res)
    case (Inr pt)
    have "established X T p (maybe_trigger_rekey X (count_message (emit (Deliver pt) ?c)))"
      by (intro maybe_trigger_rekey_established count_message_established established_emit[OF c1]) simp_all
    then show ?thesis using a dec Inr by (simp add: on_data_def Let_def est_postI)
  next
    case (Inl e)
    show ?thesis
    proof (cases "en_draining (fst c)")
      case None
      then show ?thesis using a dec Inl rejected[OF c1, of e] by (simp add: on_data_def Let_def)
    next
      case (Some d)
      obtain res' r' where dec': "receiver_decrypt X (sn_receiver d) f = (res', r')" by (metis surj_pair)
      let ?c2 = "upd (\<lambda>en. en\<lparr>en_draining := Some (d\<lparr>sn_receiver := r'\<rparr>)\<rparr>) ?c"
      have "session_ok X (identity_of X (en_identity (fst c))) d"
        using established_sessions(2)[OF est Some] .
      from session_ok_decrypt[OF this dec'] have c2: "established X T p ?c2"
        using Some by (intro established_draining[OF c1, of d]) simp_all
      have op: "on_data X f c = (case res' of
             Inr pt \<Rightarrow> emit (Deliver pt) ?c2
           | Inl _ \<Rightarrow> if is_malformed e then protocol_error X ?c2 else emit (Notify DataRejected) ?c2)"
        using a dec Inl Some dec' by (cases res') (simp_all add: on_data_def Let_def)
      show ?thesis
        unfolding op using rejected[OF c2, of e] est_postI[OF established_emit[OF c2]]
        by (cases res') simp_all
    qed
  qed
qed

section \<open>CLOSE and deadlines\<close>

lemma on_close_frame_post:
  assumes est: "established X T p c"
  shows "est_post X T p (on_close_frame X f c)"
proof -
  have m: "mid session_effect T c" and core: "est_core X p (fst c)" and er: "est_run X p (fst c)"
    using est by (auto simp: established_def)
  let ?c = "cancel KDrain (upd (\<lambda>en. en\<lparr>en_draining := None\<rparr>) c)"
  have "mid session_effect T ?c" by (intro mid_cancel mid_upd m) simp_all
  moreover have "est_core X p (fst ?c)" using core by (auto simp: est_core_def)
  moreover have "est_run X p (fst ?c)"
    by (intro est_run_cong[OF er]) (auto simp: active_session_id_def)
  ultimately have "est_post X T p ?c" by (simp add: est_post_def established_def)
  then show ?thesis
    using est_postI[OF est] protocol_error_post[OF m] established_sessions(3)[OF est]
    by (auto simp: on_close_frame_def split: sum.splits option.splits)
qed

lemma on_frame_established_post:
  assumes "established X T p c"
  shows "est_post X T p (on_frame X f c)"
  using on_data_post[OF assms, of f] on_close_frame_post[OF assms, of f] on_rekey_frame_post[OF assms, of f]
    protocol_error_post[OF established_mid[OF assms]] established_sessions(3)[OF assms]
  by (simp add: on_frame_def split: message_type.splits)

lemma on_timeout_unarmed:
  "deadlines_ok (fst c) \<Longrightarrow> i \<notin> fst ` set (en_deadlines (fst c)) \<Longrightarrow> on_timeout X i c = c"
  by (simp add: on_timeout_def find_deadline deadlines_ok_def)

lemma on_timeout_armed:
  assumes "deadlines_ok en" "(i, k) \<in> set (en_deadlines en)"
  shows "on_timeout X i (en, []) =
    (let c = (en\<lparr>en_deadlines := remove1 (i, k) (en_deadlines en)\<rparr>, []);
         handshake_expired =
                (if en_phase (fst c) = PhHandshaking then terminate X CTimeout (Some RResourceLimit) c
                 else if en_run (fst c) \<noteq> None then fail_rekey TransportTimeout c
                 else c)
          in (case k of
                KHandshakeFrame \<Rightarrow> handshake_expired
              | KHandshakeTotal \<Rightarrow> handshake_expired
              | KSasDecision \<Rightarrow> terminate X CTimeout (Some RAuthenticationFailure) c
              | KRekeyDue \<Rightarrow>
                  begin_rekey X
                    (upd (\<lambda>en. en\<lparr>en_rekey_blocked := False, en_late_rekey_frames := 0\<rparr>) c)
              | KDrain \<Rightarrow> upd (\<lambda>en. en\<lparr>en_draining := None\<rparr>) c))"
proof -
  have "map_of (en_deadlines en) i = Some k"
    using assms by (auto simp: deadlines_ok_def)
  moreover have "i \<in> fst ` set (en_deadlines en)" using assms(2) by force
  ultimately show ?thesis
    using assms(1) unfolding on_timeout_def by (simp add: find_deadline deadlines_ok_def)
qed

lemma on_timeout_established_post:
  assumes d: "deadlines_ok en" and core: "est_core X p en" and er: "est_run X p en"
    and armed: "(i, k) \<in> set (en_deadlines en)"
  shows "est_post X (filter (\<lambda>(j, _). j \<noteq> i) (en_deadlines en)) p (on_timeout X i (en, []))"
proof -
  let ?T = "filter (\<lambda>(j, _). j \<noteq> i) (en_deadlines en)"
  let ?en = "en\<lparr>en_deadlines := remove1 (i, k) (en_deadlines en)\<rparr>"
  have m: "mid session_effect ?T (?en, [])" by (rule mid_remove1[OF d armed])
  have ks: "kinds ?en = kinds en - {k}" by (rule kinds_remove1[OF d armed])
  have kin: "k \<in> kinds en" using armed by (force simp: kinds_def)
  have nosas: "KSasDecision \<notin> kinds en" using core by (simp add: est_core_def)
  have core1: "est_core X p ?en" if "k \<noteq> KDrain"
  proof -
    have "k \<in> {KHandshakeFrame, KHandshakeTotal, KRekeyDue}"
      using that nosas kin by (cases k) simp_all
    then have "kinds ?en - {KHandshakeFrame, KHandshakeTotal, KRekeyDue} =
        kinds en - {KHandshakeFrame, KHandshakeTotal, KRekeyDue}"
      unfolding ks by blast
    with est_core_bounds[OF core] show ?thesis by (intro est_core_cong[OF core]) simp_all
  qed
  have ph: "en_phase en = PhEstablished" using core by (simp add: est_core_def)
  show ?thesis
  proof (cases k)
    case KHandshakeFrame
    have run: "en_run en \<noteq> None" using er kin KHandshakeFrame by (auto simp: est_run_def split: option.splits)
    have "established X ?T p (fail_rekey TransportTimeout (?en, []))"
      using m core1 KHandshakeFrame by (intro fail_rekey_established) simp_all
    then show ?thesis unfolding on_timeout_armed[OF d armed]
      using run ph KHandshakeFrame by (simp add: Let_def est_postI)
  next
    case KHandshakeTotal
    have run: "en_run en \<noteq> None" using er kin KHandshakeTotal by (auto simp: est_run_def split: option.splits)
    have "established X ?T p (fail_rekey TransportTimeout (?en, []))"
      using m core1 KHandshakeTotal by (intro fail_rekey_established) simp_all
    then show ?thesis unfolding on_timeout_armed[OF d armed]
      using run ph KHandshakeTotal by (simp add: Let_def est_postI)
  next
    case KSasDecision
    then show ?thesis unfolding on_timeout_armed[OF d armed]
      using protocol_error_post[OF m] by (simp add: Let_def)
  next
    case KRekeyDue
    let ?c = "upd (\<lambda>en. en\<lparr>en_rekey_blocked := False, en_late_rekey_frames := 0\<rparr>) (?en, [])"
    have "established X ?T p (begin_rekey X ?c)"
    proof (rule begin_rekey_established)
      show "mid session_effect ?T ?c" by (intro mid_upd[OF m]) simp_all
      have "est_core X p ?en" using core1 KRekeyDue by simp
      from est_core_bounds[OF this] show "est_core X p (fst ?c)"
        by (intro est_core_cong[OF \<open>est_core X p ?en\<close>]) simp_all
      show "est_run X p (fst ?c)" if "en_run (fst ?c) \<noteq> None"
        using that ks KRekeyDue by (intro est_run_cong[OF er]) (simp_all add: active_session_id_def)
    qed
    then show ?thesis unfolding on_timeout_armed[OF d armed]
      using KRekeyDue by (simp add: Let_def est_postI)
  next
    case KDrain
    let ?c = "upd (\<lambda>en. en\<lparr>en_draining := None\<rparr>) (?en, [])"
    have "mid session_effect ?T ?c" by (intro mid_upd[OF m]) simp_all
    moreover have "est_core X p (fst ?c)" using core KDrain ks by (auto simp: est_core_def)
    moreover have "est_run X p (fst ?c)"
      using KDrain ks by (intro est_run_cong[OF er]) (auto simp: active_session_id_def)
    ultimately show ?thesis unfolding on_timeout_armed[OF d armed]
      using KDrain by (simp add: Let_def est_post_def established_def)
  qed
qed

section \<open>An input to an established engine\<close>

text \<open>The driver takes the deadline that fired out of its table before it reports it.\<close>

definition driver_table :: "input \<Rightarrow> deadline_table \<Rightarrow> deadline_table" where
  "driver_table inp T = (case inp of Timeout i \<Rightarrow> filter (\<lambda>(j, _). j \<noteq> i) T | _ \<Rightarrow> T)"

lemma mid_start: "deadlines_ok en \<Longrightarrow> mid Q (en_deadlines en) (en, [])"
  by (simp add: mid_def)

lemma handle_established:
  assumes ok: "engine_ok X en" and ph: "en_phase en = PhEstablished"
  shows "\<exists>p. peer_identity en = Some p \<and>
    est_post X (driver_table inp (en_deadlines en)) p (handle X inp en)"
proof -
  from ok ph obtain p where d: "deadlines_ok en" and core: "est_core X p en" and er: "est_run X p en"
    by (auto simp: engine_ok_def)
  let ?T = "en_deadlines en"
  have est: "established X ?T p (en, [])"
    using core er mid_start[OF d] by (simp add: established_def)
  note m = established_mid[OF est]
  have "est_post X (driver_table inp ?T) p (handle X inp en)"
  proof (cases inp)
    case (Timeout i)
    show ?thesis
    proof (cases "i \<in> fst ` set ?T")
      case True
      then obtain k where "(i, k) \<in> set ?T" by force
      from on_timeout_established_post[OF d core er this] show ?thesis
        using ph Timeout by (simp add: handle_def driver_table_def)
    next
      case False
      then have "filter (\<lambda>(j, _). j \<noteq> i) ?T = ?T" by (force intro: filter_True)
      with False d est ph Timeout show ?thesis
        by (simp add: handle_def driver_table_def on_timeout_unarmed est_postI)
    qed
  next
    case RequestRekey
    have "established X ?T p (begin_rekey X (en, []))"
      using m core er by (intro begin_rekey_established) simp_all
    with RequestRekey ph show ?thesis by (simp add: handle_def driver_table_def est_postI)
  next
    case (SasDecision b)
    then show ?thesis
      using ph est
      by (simp add: handle_def driver_table_def on_sas_def Let_def est_postI split: option.splits)
  qed (use ph est_postI[OF est] on_frame_established_post[OF est] on_send_post[OF est]
      protocol_error_post[OF m] in \<open>simp_all add: handle_def driver_table_def start_def\<close>)
  moreover have "peer_identity en = Some p" using core by (auto simp: est_core_def peer_identity_def)
  ultimately show ?thesis by blast
qed

end
