(* ===== verification/Machine_Refinement.thy ===== *)
theory Machine_Refinement
  imports Machine_Established
begin

text \<open>
  What the engine promises, as an abstract state machine of six states, and that every input to the
  engine is a step of it. The abstract machine knows the SAS gate with the transcript hash whose words
  are shown, the authenticated peer and the end of the connection; it knows nothing of frames, keys
  or deadlines.
\<close>

section \<open>The abstract machine\<close>

datatype astate = AIdle | AWaiting | AAsking bytes peer_identity | AApproved bytes peer_identity
  | AActive peer_identity | AClosed

text \<open>The effects a state may have before the connection ends in it.\<close>

fun closing_effect :: "astate \<Rightarrow> effect \<Rightarrow> bool" where
  "closing_effect (AActive p) e = session_effect e"
| "closing_effect AWaiting e = (silent e \<or> (\<exists>w p. e = RequestSas w p))"
| "closing_effect _ e = silent e"

inductive abs_step :: "ext \<Rightarrow> astate \<Rightarrow> input \<Rightarrow> effect list \<Rightarrow> astate \<Rightarrow> bool" for X where
  stay: "\<forall>e \<in> set out. silent e \<Longrightarrow> abs_step X s inp out s"
| session: "\<forall>e \<in> set out. session_effect e \<Longrightarrow> abs_step X (AActive p) inp out (AActive p)"
| started: "\<forall>e \<in> set out. silent e \<Longrightarrow> abs_step X AIdle Start out AWaiting"
| ask: "\<forall>e \<in> set out. silent e \<or> e = RequestSas (sas_words X hash) p \<Longrightarrow>
    RequestSas (sas_words X hash) p \<in> set out \<Longrightarrow> abs_step X AWaiting (FrameReceived f) out (AAsking hash p)"
| approve: "\<forall>e \<in> set out. silent e \<Longrightarrow> abs_step X (AAsking hash p) (SasDecision True) out (AApproved hash p)"
| establish: "\<forall>e \<in> set out. silent e \<Longrightarrow>
    abs_step X (AApproved hash p) (FrameReceived f) (out @ [Notify (Established p)]) (AActive p)"
| ending: "s \<noteq> AClosed \<Longrightarrow> \<forall>e \<in> set out. closing_effect s e \<Longrightarrow>
    abs_step X s inp (out @ [Notify (Closed cause), CloseTransport]) AClosed"

definition run_state :: "run \<Rightarrow> astate" where
  "run_state r =
     (if early_step r then AWaiting
      else if ru_step r = Sas then AAsking (the (ru_hash r)) (the (ru_remote_identity r))
      else AApproved (the (ru_hash r)) (the (ru_remote_identity r)))"

definition abs_state :: "engine \<Rightarrow> astate" where
  "abs_state en =
     (case en_phase en of
        PhIdle \<Rightarrow> AIdle
      | PhHandshaking \<Rightarrow> (case en_run en of None \<Rightarrow> AWaiting | Some r \<Rightarrow> run_state r)
      | PhEstablished \<Rightarrow> AActive (the (peer_identity en))
      | PhClosed \<Rightarrow> AClosed)"

text \<open>The session an approval leads to has the keys of the transcript whose words were approved.\<close>

definition first_session :: "ext \<Rightarrow> bytes \<Rightarrow> peer_identity \<Rightarrow> engine \<Rightarrow> bool" where
  "first_session X hash p en \<longleftrightarrow>
     (\<exists>role keys. bound_to X (identity_of X (en_identity en)) role hash keys p \<and>
        en_active en = Some (session_new keys role p))"

definition refines :: "ext \<Rightarrow> deadline_table \<Rightarrow> astate \<Rightarrow> input \<Rightarrow> ctx \<Rightarrow> bool" where
  "refines X T s inp c \<longleftrightarrow> engine_ok X (fst c) \<and> replay T (snd c) = en_deadlines (fst c) \<and>
     abs_step X s inp (snd c) (abs_state (fst c)) \<and>
     (\<forall>hash q p. s = AApproved hash q \<and> abs_state (fst c) = AActive p \<longrightarrow> first_session X hash p (fst c))"

section \<open>Ending and the established phase\<close>

lemma closed_refines:
  assumes "closed Q T c" "s \<noteq> AClosed" "\<And>e. Q e \<Longrightarrow> closing_effect s e"
  shows "refines X T s inp c"
  using assms
  by (auto simp: closed_def refines_def engine_ok_def deadlines_ok_def abs_state_def intro!: ending)

lemma silent_closing: "silent e \<Longrightarrow> closing_effect s e"
  by (cases s) (auto simp: silent_session)

lemma ended_refines: "closed silent T c \<Longrightarrow> s \<noteq> AClosed \<Longrightarrow> refines X T s inp c"
  by (erule closed_refines) (simp_all add: silent_closing)

lemma established_state: "established X T p c \<Longrightarrow> abs_state (fst c) = AActive p"
  by (auto simp: established_def est_core_def abs_state_def peer_identity_def)

lemma established_ok: "established X T p c \<Longrightarrow> engine_ok X (fst c)"
  by (auto simp: established_def engine_ok_def mid_def est_core_def)

lemma est_post_refines:
  assumes "est_post X T p c"
  shows "refines X T (AActive p) inp c"
  using assms unfolding est_post_def
proof
  assume est: "established X T p c"
  then have "mid session_effect T c" by (rule established_mid)
  then show ?thesis
    using established_state[OF est] established_ok[OF est]
    by (auto simp: refines_def mid_def intro: abs_step.session)
qed (auto intro: closed_refines)

section \<open>The handshaking phase\<close>

definition handshaking :: "ext \<Rightarrow> (effect \<Rightarrow> bool) \<Rightarrow> deadline_table \<Rightarrow> ctx \<Rightarrow> bool" where
  "handshaking X Q T c \<longleftrightarrow> mid Q T c \<and> hs_core (fst c) \<and> hs_run X (fst c)"

lemma handshaking_ok: "handshaking X Q T c \<Longrightarrow> engine_ok X (fst c)"
  by (auto simp: handshaking_def engine_ok_def mid_def hs_core_def)

lemma handshaking_inactive: "handshaking X Q T c \<Longrightarrow> abs_state (fst c) \<noteq> AActive p"
  by (auto simp: handshaking_def hs_core_def abs_state_def run_state_def split: option.splits)

lemma handshaking_refines:
  assumes "handshaking X Q T c" "abs_step X s inp (snd c) (abs_state (fst c))"
  shows "refines X T s inp c"
  using assms handshaking_ok[OF assms(1)] handshaking_inactive[OF assms(1)]
  by (simp add: refines_def handshaking_def mid_def)

lemma handshaking_stay:
  "handshaking X silent T c \<Longrightarrow> abs_state (fst c) = s \<Longrightarrow> refines X T s inp c"
  by (rule handshaking_refines) (auto simp: handshaking_def mid_def intro: stay)

lemma hs_core_cong:
  assumes "hs_core en" "en_phase en' = en_phase en" "en_active en' = en_active en"
    "en_draining en' = en_draining en" "KHandshakeTotal \<in> kinds en'"
    "kinds en' \<subseteq> {KHandshakeFrame, KSasDecision, KHandshakeTotal}"
  shows "hs_core en'"
  using assms by (simp add: hs_core_def)

text \<open>The candidate of an initial handshake becomes the active session.\<close>

lemma complete_initial_refines:
  assumes m: "mid silent T c" and core: "hs_core (fst c)" and run: "en_run (fst c) = None"
    and auth: "bound_to X (identity_of X (en_identity (fst c))) (ca_role cand) hash (ca_keys cand) (ca_peer cand)"
  shows "refines X T (AApproved hash (ca_peer cand)) (FrameReceived f) (complete_initial cand c)"
proof -
  let ?c1 = "arm KRekeyDue REKEY_INTERVAL_SECS
     (upd (\<lambda>en. en\<lparr>en_active := Some (session_new (ca_keys cand) (ca_role cand) (ca_peer cand)),
                           en_phase := PhEstablished, en_messages := 0, en_late_rekey_frames := 0,
                           en_consecutive_rekey_rejections := 0\<rparr>)
       (cancel KHandshakeTotal (cancel KSasDecision (cancel KHandshakeFrame c))))"
  let ?c2 = "emit (Notify (Established (ca_peer cand))) ?c1"
  have op: "complete_initial cand c = ?c2" by (simp add: complete_initial_def Let_def)
  have m1: "mid silent T ?c1" by (intro mid_arm mid_upd mid_cancel m) simp_all
  have "est_core X (ca_peer cand) (fst ?c2)"
    using core session_new_ok[of X _ "ca_role cand" "ca_keys cand"] auth
    by (auto simp: est_core_def hs_core_def authentic_def)
  moreover have "est_run X (ca_peer cand) (fst ?c2)"
    using run by (simp add: est_run_def)
  ultimately have "engine_ok X (fst ?c2)"
    using m1 by (auto simp: engine_ok_def mid_def deadlines_ok_def est_core_def)
  moreover have "abs_state (fst ?c2) = AActive (ca_peer cand)"
    by (simp add: abs_state_def peer_identity_def)
  moreover have "first_session X hash (ca_peer cand) (fst ?c2)"
    using auth by (auto simp: first_session_def)
  ultimately show ?thesis
    using m1 by (auto simp: op refines_def mid_def intro: establish)
qed

lemma start_responder_handshaking:
  assumes m: "mid silent T c" and core: "hs_core (fst c)" and run: "en_run (fst c) = None"
    and role: "en_role (fst c) = Responder" and nosas: "KSasDecision \<notin> kinds (fst c)"
    and commit: "m_purpose commit = PInitial" "m_previous commit = None"
    and st: "start_responder_run X commit announce c = (Inr u, c')"
  shows "handshaking X silent T c' \<and> abs_state (fst c') = AWaiting"
proof -
  obtain x r where mm: "mid silent T c'" and r: "core (fst c') = core ((fst c)\<lparr>en_entropy := x, en_run := Some r\<rparr>)"
    "run_ok X (fst c) r" "ru_purpose r = PInitial" "ru_step r = Reveal" "ru_role r = Responder"
    and k: "kinds (fst c') = insert KHandshakeFrame (kinds (fst c))"
    using start_responder_run_post[OF m _ _ st] commit by auto
  note cf = core_fields[OF r(1), simplified]
  have "hs_core (fst c')"
    using core by (intro hs_core_cong[OF core]) (auto simp: cf k hs_core_def)
  moreover have "run_ok X (fst c') r" using r(2) by (subst run_ok_identity[of _ "fst c"]) (simp_all add: cf)
  then have "hs_run X (fst c')" using r role nosas by (simp add: hs_run_def cf k)
  moreover have "abs_state (fst c') = AWaiting"
    using core r by (simp add: abs_state_def cf hs_core_def run_state_def early_step_def)
  ultimately show ?thesis using mm by (simp add: handshaking_def)
qed

lemma accept_first_commit_refines:
  assumes hs: "handshaking X silent T c" and run: "en_run (fst c) = None"
  shows "refines X T AWaiting inp
    (case sbind (accept_first_commit X f c) (\<lambda>_ c. (Inr None, c)) of
       (Inr (Some cand), c) \<Rightarrow> complete_initial cand c
     | (Inr None, c) \<Rightarrow> c
     | (Inl e, c) \<Rightarrow> fail_initial X e c)"
proof -
  have m: "mid silent T c" and core: "hs_core (fst c)" and hr: "hs_run X (fst c)"
    using hs by (auto simp: handshaking_def)
  have fail: "refines X T AWaiting inp (fail_initial X e c')" if "mid silent T c'" for e c'
    using that by (intro ended_refines fail_initial_closed) simp_all
  show ?thesis
  proof (cases "commit_decode X f")
    case (Inl e)
    then show ?thesis using fail[OF m] by (simp add: accept_first_commit_def)
  next
    case (Inr commit)
    show ?thesis
    proof (cases "m_cipher_suite commit \<noteq> 1 \<or> m_purpose commit \<noteq> PInitial \<or> m_previous commit \<noteq> None")
      case True
      then show ?thesis using fail[OF m] Inr by (auto simp: accept_first_commit_def guard_def)
    next
      case False
      obtain res c' where st: "start_responder_run X commit True c = (res, c')" by (metis surj_pair)
      have op: "sbind (accept_first_commit X f c) (\<lambda>_ c. (Inr None, c)) = sbind (res, c') (\<lambda>_ c. (Inr None, c))"
        using False Inr st by (simp add: accept_first_commit_def)
      have m': "mid silent T c'" using start_responder_run_post[OF m _ _ st] False by simp
      show ?thesis
      proof (cases res)
        case (Inl e)
        then show ?thesis using fail[OF m'] by (simp add: op)
      next
        case (Inr u)
        have "handshaking X silent T c' \<and> abs_state (fst c') = AWaiting"
          using start_responder_handshaking[OF m core run, of commit X True u c'] hr run False st Inr
          by (simp add: hs_run_def)
        then show ?thesis using Inr by (simp add: op handshaking_stay)
      qed
    qed
  qed
qed

text \<open>Putting back the run after a step.\<close>

lemma hs_continue:
  assumes core: "hs_core en" and role: "ru_role r = en_role en" and pur: "ru_purpose r = PInitial"
    and post: "same_run r r'" "run_ok X en r'" "core (fst c1) = core en" "kinds_post en (fst c1) r r'"
    and sas: "KSasDecision \<in> kinds (fst c1) \<longleftrightarrow> ru_step r' = Sas"
    and m: "mid Q T c1"
  shows "handshaking X Q T (upd (\<lambda>en. en\<lparr>en_run := Some r'\<rparr>) c1) \<and>
    abs_state ((fst c1)\<lparr>en_run := Some r'\<rparr>) = run_state r'"
proof -
  let ?c2 = "upd (\<lambda>en. en\<lparr>en_run := Some r'\<rparr>) c1"
  note cf = core_fields[OF post(3)]
  have "kinds (fst c1) \<subseteq> insert KHandshakeFrame (insert KSasDecision (kinds en))"
    "kinds en - {KHandshakeFrame} \<subseteq> kinds (fst c1)"
    using post(4) by (auto simp: kinds_post_def split: if_splits)
  then have ks: "KHandshakeTotal \<in> kinds (fst c1)"
    "kinds (fst c1) \<subseteq> {KHandshakeFrame, KSasDecision, KHandshakeTotal}"
    using core by (auto simp: hs_core_def)
  have "hs_core (fst ?c2)"
    using ks by (intro hs_core_cong[OF core]) (simp_all add: cf)
  moreover have "run_ok X (fst ?c2) r'"
    using post(2) by (subst run_ok_identity[of _ en]) (simp_all add: cf)
  then have "hs_run X (fst ?c2)"
    using sas post(1) role pur by (simp add: hs_run_def cf same_run_def)
  moreover have "mid Q T ?c2" by (intro mid_upd[OF m]) simp_all
  ultimately show ?thesis
    using core by (simp add: handshaking_def abs_state_def cf hs_core_def)
qed

lemma run_state_simps:
  "early_step r \<Longrightarrow> run_state r = AWaiting"
  "ru_step r = Sas \<Longrightarrow> run_state r = AAsking (the (ru_hash r)) (the (ru_remote_identity r))"
  "approved_step r \<Longrightarrow> run_state r = AApproved (the (ru_hash r)) (the (ru_remote_identity r))"
  by (auto simp: run_state_def early_step_def approved_step_def)

text \<open>One frame of the initial handshake.\<close>

lemma drive_initial_refines:
  assumes hs: "handshaking X silent T c" and run: "en_run (fst c) = Some r"
  shows "refines X T (run_state r) (FrameReceived f)
    (case drive_run X f c of
       (Inr (Some cand), c) \<Rightarrow> complete_initial cand c
     | (Inr None, c) \<Rightarrow> c
     | (Inl e, c) \<Rightarrow> fail_initial X e c)"
proof -
  have m: "mid silent T c" and core: "hs_core (fst c)" and hr: "hs_run X (fst c)"
    using hs by (auto simp: handshaking_def)
  let ?c = "upd (\<lambda>en. en\<lparr>en_run := None\<rparr>) c"
  let ?en = "fst ?c"
  let ?q = "\<lambda>remote. RequestSas (agreed_words X r remote) (h_identity remote)"
  let ?Q = "\<lambda>e. silent e \<or> (early_step r \<and> (\<exists>remote. hello_decode X f = Inr remote \<and> e = ?q remote))"
  have perm: "permissive ?Q" by (simp add: permissive_def)
  have rp: "ru_purpose r = PInitial" "ru_role r = en_role (fst c)" "run_ok X (fst c) r"
    "KSasDecision \<in> kinds (fst c) \<longleftrightarrow> ru_step r = Sas"
    using hr run by (auto simp: hs_run_def)
  have m1: "mid ?Q T ?c" using m by (auto simp: mid_def deadlines_ok_def)
  have ok: "run_ok X ?en r" using rp(3) by (subst run_ok_identity[of _ "fst c"]) simp_all
  have core1: "hs_core ?en" using core by (simp add: hs_core_def)
  obtain res c1 where st: "step_run X r f ?c = (res, c1)" by (metis surj_pair)
  have post: "step_post X ?Q T ?en r (res, c1)"
    using step_run_post[OF m1 perm refl ok, where f = f] by (simp add: st)
  have m2: "mid ?Q T c1" using post by (simp add: step_post_def)
  have quiet: "mid silent T c1" if "\<not> early_step r" using m2 that by (auto simp: mid_def)
  have early_or: "early_step r \<or> ru_step r = Sas \<or> approved_step r"
    by (auto simp: early_step_def approved_step_def)
  show ?thesis
  proof (cases res)
    case (Inl e)
    have "closed ?Q T (fail_initial X e c1)" by (rule fail_initial_closed[OF m2 perm])
    then have "refines X T (run_state r) (FrameReceived f) (fail_initial X e c1)"
      by (rule closed_refines) (auto simp: run_state_def silent_closing)
    then show ?thesis using run st Inl by (simp add: drive_run_def Let_def)
  next
    case (Inr cr)
    obtain cand r' where cr: "cr = (cand, r')" by (cases cr)
    show ?thesis
    proof (cases cand)
      case None
      then have p: "same_run r r'" "run_ok X ?en r'" "core (fst c1) = core ?en" "kinds_post ?en (fst c1) r r'"
        and adv: "advance X ?en r r' (snd c1)"
        using post Inr cr by (auto simp: step_post_def)
      have sas: "KSasDecision \<in> kinds (fst c1) \<longleftrightarrow> ru_step r' = Sas"
        using p(4) rp(1,4) adv
        by (auto simp: kinds_post_def advance_def approved_step_def early_step_def split: if_splits)
      have cont: "handshaking X ?Q T (upd (\<lambda>en. en\<lparr>en_run := Some r'\<rparr>) c1)"
        "abs_state ((fst c1)\<lparr>en_run := Some r'\<rparr>) = run_state r'"
        using hs_continue[OF core1 _ rp(1) p sas m2] rp(2) by simp_all
      have "abs_step X (run_state r) (FrameReceived f) (snd c1) (run_state r')"
        using adv unfolding advance_def
      proof (elim disjE conjE exE)
        fix hash q
        assume "early_step r" "ru_step r' = Sas" "ru_remote_identity r' = Some q" "ru_hash r' = Some hash"
          and asked: "RequestSas (sas_words X hash) q \<in> set (snd c1)"
        moreover from asked m2 obtain remote where "hello_decode X f = Inr remote"
          "?q remote = RequestSas (sas_words X hash) q" by (fastforce simp: mid_def)
        then have "\<forall>e \<in> set (snd c1). silent e \<or> e = RequestSas (sas_words X hash) q"
          using m2 by (auto simp: mid_def)
        ultimately show ?thesis by (auto simp: run_state_simps intro: ask)
      next
        assume "ru_step r = Sas" "ru_step r' = Sas" "same_agreement r r'"
        moreover from this have "\<not> early_step r" by (simp add: early_step_def)
        from quiet[OF this] have "\<forall>e \<in> set (snd c1). silent e" by (simp add: mid_def)
        ultimately show ?thesis by (auto simp: run_state_simps same_agreement_def intro: stay)
      next
        assume "approved_step r'" "approved_step r" "same_agreement r r'"
        moreover from this have "\<not> early_step r" by (auto simp: early_step_def approved_step_def)
        from quiet[OF this] have "\<forall>e \<in> set (snd c1). silent e" by (simp add: mid_def)
        ultimately show ?thesis by (auto simp: run_state_simps same_agreement_def intro: stay)
      next
        assume "ru_purpose r = PRekey" then show ?thesis using rp(1) by simp
      qed
      then have "refines X T (run_state r) (FrameReceived f) (upd (\<lambda>en. en\<lparr>en_run := Some r'\<rparr>) c1)"
        using cont by (intro handshaking_refines[OF cont(1)]) simp
      then show ?thesis using run st Inr cr None by (simp add: drive_run_def Let_def)
    next
      case (Some ca)
      then have ca: "fst c1 = ?en" "approved_step r" "ca_role ca = ru_role r"
        "ru_remote_identity r = Some (ca_peer ca)"
        "bound_to X (identity_of X (en_identity ?en)) (ru_role r) (the (ru_hash r)) (ca_keys ca) (ca_peer ca)"
        using post Inr cr by (auto simp: step_post_def)
      have "mid silent T c1" using quiet ca(2) by (auto simp: approved_step_def early_step_def)
      then have "refines X T (AApproved (the (ru_hash r)) (ca_peer ca)) (FrameReceived f) (complete_initial ca c1)"
        using core1 ca by (intro complete_initial_refines) simp_all
      then show ?thesis
        using run st Inr cr Some ca by (simp add: drive_run_def Let_def run_state_simps)
    qed
  qed
qed

lemma hs_close_refines:
  assumes hs: "handshaking X silent T c"
  shows "refines X T (abs_state (fst c)) inp (on_close_frame X f c)"
proof -
  have m: "mid silent T c" and ph: "en_phase (fst c) = PhHandshaking"
    using hs by (auto simp: handshaking_def hs_core_def)
  have "abs_state (fst c) \<noteq> AClosed"
    using ph by (auto simp: abs_state_def run_state_def split: option.splits)
  then have "refines X T (abs_state (fst c)) inp (terminate X cause notify c)" for cause notify
    using terminate_closed[OF m] by (intro ended_refines) simp_all
  then show ?thesis
    using handshaking_stay[OF hs refl] ph by (simp add: on_close_frame_def split: sum.splits)
qed

lemma on_frame_handshaking_refines:
  assumes hs: "handshaking X silent T c"
  shows "refines X T (abs_state (fst c)) (FrameReceived f) (on_frame_handshaking X f c)"
proof -
  have ph: "en_phase (fst c) = PhHandshaking" using hs by (auto simp: handshaking_def hs_core_def)
  show ?thesis
  proof (cases "en_run (fst c)")
    case None
    then have "abs_state (fst c) = AWaiting" using ph by (simp add: abs_state_def)
    with None accept_first_commit_refines[OF hs None, of "FrameReceived f" f] hs_close_refines[OF hs]
    show ?thesis by (simp add: on_frame_handshaking_def)
  next
    case (Some r)
    then have "abs_state (fst c) = run_state r" using ph by (simp add: abs_state_def)
    with Some drive_initial_refines[OF hs Some, of f] hs_close_refines[OF hs]
    show ?thesis by (simp add: on_frame_handshaking_def)
  qed
qed

lemma on_sas_refines:
  assumes hs: "handshaking X silent T c"
  shows "refines X T (abs_state (fst c)) (SasDecision b) (on_sas X b c)"
proof (cases "\<exists>r. en_run (fst c) = Some r \<and> ru_step r = Sas")
  case False
  then show ?thesis
    using handshaking_stay[OF hs refl] by (auto simp: on_sas_def split: option.splits)
next
  case True
  then obtain r where run: "en_run (fst c) = Some r" "ru_step r = Sas" by blast
  have m: "mid silent T c" and core: "hs_core (fst c)" and hr: "hs_run X (fst c)"
    using hs by (auto simp: handshaking_def)
  have ph: "en_phase (fst c) = PhHandshaking" using core by (simp add: hs_core_def)
  have rp: "ru_purpose r = PInitial" "ru_role r = en_role (fst c)" "run_ok X (fst c) r"
    using hr run by (auto simp: hs_run_def)
  have base: "run_base X (fst c) r" "agreed X (fst c) r" using rp(3) run(2) by (auto simp: run_ok_def)
  obtain p hash where p: "ru_remote_identity r = Some p" "ru_hash r = Some hash"
    using base(2) by (auto simp: agreed_def)
  have st: "abs_state (fst c) = AAsking hash p" using run ph p by (simp add: abs_state_def run_state_simps)
  let ?c1 = "cancel KSasDecision c"
  let ?c2 = "upd (\<lambda>en. en\<lparr>en_run := None\<rparr>) ?c1"
  have m1: "mid silent T ?c1" by (intro mid_cancel m) simp
  have m2: "mid silent T ?c2" by (intro mid_upd[OF m1]) simp_all
  show ?thesis
  proof (cases b)
    case False
    have "refines X T (AAsking hash p) (SasDecision b) (terminate X CSasRejected (Some RAuthenticationFailure) ?c1)"
      by (intro ended_refines terminate_closed[OF m1]) simp_all
    then show ?thesis using False run ph st by (simp add: on_sas_def Let_def)
  next
    case True
    let ?en = "fst ?c2"
    text \<open>Seen from a run whose step is no longer the question, the approval is an ordinary step.\<close>
    let ?r0 = "r\<lparr>ru_step := AuthInit\<rparr>"
    obtain res c3 where ap: "after_approval X r ?c2 = (res, c3)" by (metis surj_pair)
    have ini: "ru_role r = Initiator \<longrightarrow> ru_early r = None"
      using rp(3) by (auto simp: run_ok_def)
    have base': "run_base X ?en r" "agreed X ?en r"
      using base by (simp_all add: run_base_def agreed_def)
    have post: "step_post X silent T ?en ?r0 (res, c3)"
      using ini
      by (fold ap, intro after_approval_post[OF m2 _ refl base'])
        (auto simp: same_run_def advance_def same_agreement_def approved_step_def)
    have m3: "mid silent T c3" using post by (simp add: step_post_def)
    show ?thesis
    proof (cases res)
      case (Inl e)
      have "refines X T (AAsking hash p) (SasDecision b) (fail_initial X e c3)"
        by (intro ended_refines fail_initial_closed[OF m3]) simp_all
      then show ?thesis using True run ph st ap Inl by (simp add: on_sas_def Let_def)
    next
      case (Inr cr)
      obtain r' where cr: "cr = (None, r')"
        using after_approval_no_candidate[of X r ?c2 _ _ c3] ap Inr by (cases cr; cases "fst cr") auto
      then have q: "same_run ?r0 r'" "run_ok X ?en r'" "core (fst c3) = core ?en" "kinds_post ?en (fst c3) ?r0 r'"
        and adv: "advance X ?en ?r0 r' (snd c3)"
        using post Inr by (auto simp: step_post_def)
      have ap': "approved_step r'" "ru_remote_identity r' = Some p" "ru_hash r' = Some hash"
        using adv p by (auto simp: advance_def same_agreement_def early_step_def)
      have "KSasDecision \<in> kinds (fst c3) \<longleftrightarrow> ru_step r' = Sas"
        using q(4) ap'(1) by (auto simp: kinds_post_def approved_step_def split: if_splits)
      moreover have "hs_core ?en" using core by (auto simp: hs_core_def)
      ultimately have cont: "handshaking X silent T (upd (\<lambda>en. en\<lparr>en_run := Some r'\<rparr>) c3)"
        "abs_state ((fst c3)\<lparr>en_run := Some r'\<rparr>) = run_state r'"
        using hs_continue[of ?en ?r0, OF _ _ _ q _ m3] rp by simp_all
      have "abs_step X (AAsking hash p) (SasDecision b) (snd c3) (run_state r')"
        using ap' True m3 by (auto simp: run_state_simps mid_def intro: approve)
      then have "refines X T (AAsking hash p) (SasDecision b) (upd (\<lambda>en. en\<lparr>en_run := Some r'\<rparr>) c3)"
        using cont by (intro handshaking_refines[OF cont(1)]) simp
      then show ?thesis using True run ph st ap Inr cr by (simp add: on_sas_def Let_def)
    qed
  qed
qed

section \<open>Every input is a step of the abstract machine\<close>

lemma start_refines:
  assumes ok: "engine_ok X en" and ph: "en_phase en = PhIdle"
  shows "refines X (en_deadlines en) AIdle Start (start X (en, []))"
proof -
  have d: "deadlines_ok en" and emp: "en_run en = None" "en_active en = None" "en_draining en = None"
    "kinds en = {}"
    using ok ph by (auto simp: engine_ok_def kinds_def)
  let ?T = "en_deadlines en"
  let ?c = "arm KHandshakeTotal HANDSHAKE_TOTAL_TIMEOUT_SECS (upd (\<lambda>en. en\<lparr>en_phase := PhHandshaking\<rparr>) (en, []))"
  have m: "mid silent ?T ?c" by (intro mid_arm mid_upd mid_start[OF d]) simp_all
  have started: "refines X ?T AIdle Start c'" if "handshaking X silent ?T c'" "abs_state (fst c') = AWaiting" for c'
    using that by (intro handshaking_refines) (auto simp: handshaking_def mid_def intro: abs_step.started)
  show ?thesis
  proof (cases "en_role en")
    case Responder
    have "mid silent ?T (arm KHandshakeFrame HANDSHAKE_FRAME_TIMEOUT_SECS ?c)"
      by (rule mid_arm[OF m]) simp
    then have "handshaking X silent ?T (arm KHandshakeFrame HANDSHAKE_FRAME_TIMEOUT_SECS ?c)"
      using Responder emp by (auto simp: handshaking_def hs_core_def hs_run_def)
    then show ?thesis
      using Responder ph emp by (simp add: start_def Let_def started abs_state_def)
  next
    case Initiator
    obtain res c1 where st: "start_initiator_run X PInitial None ?c = (res, c1)" by (metis surj_pair)
    obtain x r where p: "mid silent ?T c1" "fst c1 = (fst ?c)\<lparr>en_entropy := x, en_run := r\<rparr>"
      and r: "case res of Inl e \<Rightarrow> r = en_run (fst ?c)
        | Inr _ \<Rightarrow> \<exists>r'. r = Some r' \<and> run_ok X (fst ?c) r' \<and> ru_purpose r' = PInitial \<and> ru_step r' = Hello \<and>
            ru_role r' = Initiator \<and> ru_previous r' = None"
      using start_initiator_run_post[OF m _ st] by auto
    show ?thesis
    proof (cases res)
      case (Inl e)
      have "refines X ?T AIdle Start (fail_initial X e c1)"
        by (intro ended_refines fail_initial_closed[OF p(1)]) simp_all
      then show ?thesis using Initiator ph st Inl by (simp add: start_def Let_def)
    next
      case (Inr u)
      then obtain r' where r': "r = Some r'" "run_ok X (fst ?c) r'" "ru_purpose r' = PInitial"
        "ru_step r' = Hello" "ru_role r' = Initiator" using r by auto
      let ?c2 = "rearm_frame_deadline PInitial Hello c1"
      have "run_ok X (fst ?c2) r'" using r'(2) by (subst run_ok_identity[of _ "fst ?c"]) (simp_all add: p(2))
      then have "handshaking X silent ?T ?c2"
        using r' emp Initiator mid_rearm[OF p(1), of PInitial Hello]
        by (auto simp: handshaking_def hs_core_def hs_run_def p(2) frame_deadline_bounded_def)
      moreover have "abs_state (fst ?c2) = AWaiting"
        using r' by (simp add: abs_state_def p(2) run_state_def early_step_def)
      ultimately show ?thesis using Initiator ph st Inr by (simp add: start_def Let_def started)
    qed
  qed
qed

lemma handle_idle_refines:
  assumes ok: "engine_ok X en" and ph: "en_phase en = PhIdle"
  shows "refines X (driver_table inp (en_deadlines en)) AIdle inp (handle X inp en)"
proof -
  have d: "deadlines_ok en" and emp: "en_run en = None" "en_active en = None" "en_draining en = None"
    "en_deadlines en = []"
    using ok ph by (auto simp: engine_ok_def)
  have same: "refines X [] AIdle i (en, [])" for i
    using ok ph emp by (auto simp: refines_def abs_state_def intro: stay)
  have rejected: "refines X [] AIdle i (en, [Notify (SendRejected reason)])" for i reason
    using ok ph emp by (auto simp: refines_def abs_state_def intro: stay)
  have ended: "refines X [] AIdle i (terminate X cause notify (en, []))" for i cause notify
    using mid_start[OF d, of silent] emp
    by (intro ended_refines terminate_closed) simp_all
  show ?thesis
    using start_refines[OF ok ph] same rejected ended ph emp d
    by (cases inp)
      (simp_all add: handle_def driver_table_def on_frame_def on_sas_def on_send_def begin_rekey_def
        on_timeout_unarmed Let_def)
qed

lemma handle_handshaking_refines:
  assumes ok: "engine_ok X en" and ph: "en_phase en = PhHandshaking"
  shows "refines X (driver_table inp (en_deadlines en)) (abs_state en) inp (handle X inp en)"
proof -
  let ?T = "en_deadlines en"
  have d: "deadlines_ok en" and core: "hs_core en" and hr: "hs_run X en"
    using ok ph by (auto simp: engine_ok_def)
  have hs: "handshaking X silent ?T (en, [])"
    using core hr mid_start[OF d] by (simp add: handshaking_def)
  note same = handshaking_stay[OF hs, simplified]
  have live: "abs_state en \<noteq> AClosed"
    using ph by (auto simp: abs_state_def run_state_def split: option.splits)
  have ended: "refines X ?T (abs_state en) i (terminate X cause notify (en, []))" for i cause notify
    using mid_start[OF d, of silent] live by (intro ended_refines terminate_closed) simp_all
  have rejected: "refines X ?T (abs_state en) i (en, [Notify (SendRejected reason)])" for i reason
  proof (rule handshaking_stay)
    show "handshaking X silent ?T (en, [Notify (SendRejected reason)])"
      using mid_emit[of silent ?T "(en, [])" "Notify (SendRejected reason)"] hs
      by (simp add: handshaking_def)
  qed simp
  show ?thesis
  proof (cases inp)
    case (FrameReceived f)
    then show ?thesis
      using on_frame_handshaking_refines[OF hs, of f] ph by (simp add: handle_def driver_table_def on_frame_def)
  next
    case (SasDecision b)
    then show ?thesis
      using on_sas_refines[OF hs, of b] ph by (simp add: handle_def driver_table_def)
  next
    case (Timeout i)
    show ?thesis
    proof (cases "i \<in> fst ` set ?T")
      case True
      then obtain k where k: "(i, k) \<in> set ?T" by force
      let ?c = "(en\<lparr>en_deadlines := remove1 (i, k) ?T\<rparr>, [])"
      have m: "mid silent (filter (\<lambda>(j, _). j \<noteq> i) ?T) ?c" by (rule mid_remove1[OF d k])
      have "k \<in> kinds en" using k by (force simp: kinds_def)
      then have "k \<in> {KHandshakeFrame, KSasDecision, KHandshakeTotal}" using core by (auto simp: hs_core_def)
      then obtain cause notify where "on_timeout X i (en, []) = terminate X cause notify ?c"
        unfolding on_timeout_armed[OF d k] using ph by (auto simp: Let_def)
      moreover have "refines X (filter (\<lambda>(j, _). j \<noteq> i) ?T) (abs_state en) inp (terminate X cause notify ?c)"
        using live by (intro ended_refines terminate_closed[OF m]) simp_all
      ultimately show ?thesis using ph Timeout by (simp add: handle_def driver_table_def)
    next
      case False
      then have "filter (\<lambda>(j, _). j \<noteq> i) ?T = ?T" by (force intro: filter_True)
      with False d same ph Timeout show ?thesis by (simp add: handle_def driver_table_def on_timeout_unarmed)
    qed
  qed (use same ended rejected ph core in
      \<open>simp_all add: handle_def driver_table_def start_def on_send_def begin_rekey_def hs_core_def Let_def\<close>)
qed

lemma handle_refines_abs:
  assumes ok: "engine_ok X en"
  shows "refines X (driver_table inp (en_deadlines en)) (abs_state en) inp (handle X inp en)"
proof (cases "en_phase en")
  case PhIdle
  then show ?thesis using handle_idle_refines[OF ok PhIdle] by (simp add: abs_state_def)
next
  case PhHandshaking
  then show ?thesis by (rule handle_handshaking_refines[OF ok])
next
  case PhEstablished
  then obtain p where "peer_identity en = Some p"
    "est_post X (driver_table inp (en_deadlines en)) p (handle X inp en)"
    using handle_established[OF ok] by blast
  with PhEstablished show ?thesis by (simp add: abs_state_def est_post_refines)
next
  case PhClosed
  then have "en_deadlines en = []" using ok by (simp add: engine_ok_def)
  with PhClosed ok show ?thesis
    by (auto simp: refines_def handle_def abs_state_def driver_table_def split: input.splits intro: stay)
qed

end
