(* ===== verification/Machine_Trace.thy ===== *)
theory Machine_Trace
  imports Machine_Refinement
begin

text \<open>
  Runs of the engine from its creation, with the history of inputs and effects, and what holds of
  every run: the SAS gate, the fixed peer, the end of the connection, and the deadlines.
\<close>

type_synonym history = "(input \<times> effect list) list"

inductive engine_run ::
  "ext \<Rightarrow> hello_role \<Rightarrow> identity_keypair \<Rightarrow> (nat \<Rightarrow> u8) \<Rightarrow> history \<Rightarrow> engine \<Rightarrow> bool"
  for X role identity entropy where
  created: "engine_run X role identity entropy [] (engine_new role identity entropy)"
| input: "engine_run X role identity entropy h en \<Longrightarrow> handle X inp en = (en', out) \<Longrightarrow>
    engine_run X role identity entropy (h @ [(inp, out)]) en'"
| limit: "engine_run X role identity entropy h en \<Longrightarrow>
    engine_run X role identity entropy h (set_rekey_message_limit n en)"

definition effects :: "history \<Rightarrow> effect list" where
  "effects h = concat (map snd h)"

lemma effects_simps [simp]:
  "effects [] = []" "effects (h @ h') = effects h @ effects h'" "effects ((i, out) # h) = out @ effects h"
  by (simp_all add: effects_def)

text \<open>
  The words \<open>w\<close> were shown for \<open>p\<close>; they were then answered with yes; no others were ever shown.
\<close>

definition asked :: "history \<Rightarrow> string list \<Rightarrow> peer_identity \<Rightarrow> bool" where
  "asked h w p \<longleftrightarrow> (\<exists>a f out b. h = a @ (FrameReceived f, out) # b \<and> RequestSas w p \<in> set out)"

definition approved :: "history \<Rightarrow> string list \<Rightarrow> peer_identity \<Rightarrow> bool" where
  "approved h w p \<longleftrightarrow> (\<exists>a out b. h = a @ (SasDecision True, out) # b \<and> asked a w p)"

definition only_question :: "effect list \<Rightarrow> string list \<Rightarrow> peer_identity \<Rightarrow> bool" where
  "only_question out w p \<longleftrightarrow> (\<forall>v q. RequestSas v q \<in> set out \<longrightarrow> v = w \<and> q = p)"

definition no_question :: "effect list \<Rightarrow> bool" where
  "no_question out \<longleftrightarrow> (\<forall>v q. RequestSas v q \<notin> set out)"

lemma asked_snoc: "asked h w p \<Longrightarrow> asked (h @ [x]) w p"
  by (fastforce simp: asked_def)

lemma approved_snoc: "approved h w p \<Longrightarrow> approved (h @ [x]) w p"
  by (fastforce simp: approved_def)

lemma no_question_only: "no_question out \<Longrightarrow> only_question out w p"
  by (simp add: no_question_def only_question_def)

lemma question_append [simp]:
  "only_question (out @ out') w p \<longleftrightarrow> only_question out w p \<and> only_question out' w p"
  "no_question (out @ out') \<longleftrightarrow> no_question out \<and> no_question out'"
  by (auto simp: only_question_def no_question_def)

lemma session_no_question: "\<forall>e \<in> set out. session_effect e \<Longrightarrow> no_question out"
  by (auto simp: no_question_def)

lemma silent_no_question: "\<forall>e \<in> set out. silent e \<Longrightarrow> no_question out"
  by (auto intro: session_no_question simp: silent_session)

lemma limit_fields [simp]:
  "en_phase (set_rekey_message_limit n en) = en_phase en" "en_run (set_rekey_message_limit n en) = en_run en"
  "en_active (set_rekey_message_limit n en) = en_active en"
  "en_draining (set_rekey_message_limit n en) = en_draining en"
  "en_deadlines (set_rekey_message_limit n en) = en_deadlines en"
  "en_next_deadline (set_rekey_message_limit n en) = en_next_deadline en"
  "en_identity (set_rekey_message_limit n en) = en_identity en"
  "en_role (set_rekey_message_limit n en) = en_role en"
  "en_late_rekey_frames (set_rekey_message_limit n en) = en_late_rekey_frames en"
  "en_consecutive_rekey_rejections (set_rekey_message_limit n en) = en_consecutive_rekey_rejections en"
  by (simp_all add: set_rekey_message_limit_def)

lemma abs_state_limit [simp]: "abs_state (set_rekey_message_limit n en) = abs_state en"
  by (simp add: abs_state_def peer_identity_def split: phase.splits)

lemma engine_ok_limit:
  assumes "engine_ok X en"
  shows "engine_ok X (set_rekey_message_limit n en)"
proof -
  let ?en = "set_rekey_message_limit n en"
  have k: "kinds ?en = kinds en" by (simp add: kinds_def)
  have r: "run_ok X ?en r = run_ok X en r" for r by (rule run_ok_identity) simp
  have d: "deadlines_ok ?en = deadlines_ok en" by (simp add: deadlines_ok_def)
  have "est_core X p ?en = est_core X p en" "est_run X p ?en = est_run X p en" for p
    by (simp_all add: est_core_def est_run_def k r active_session_id_def split: option.splits)
  moreover have "hs_core ?en = hs_core en" "hs_run X ?en = hs_run X en"
    by (simp_all add: hs_core_def hs_run_def k r split: option.splits)
  ultimately show ?thesis
    using assms by (simp add: engine_ok_def d split: phase.splits)
qed

lemma handle_step:
  assumes "engine_ok X en" "handle X inp en = (en', out)"
  shows "engine_ok X en' \<and> abs_step X (abs_state en) inp out (abs_state en') \<and>
    replay (driver_table inp (en_deadlines en)) out = en_deadlines en'"
  using handle_refines_abs[OF assms(1), of inp] assms(2) by (simp add: refines_def)

lemma run_ok_engine: "engine_run X role identity entropy h en \<Longrightarrow> engine_ok X en"
  by (induction rule: engine_run.induct) (auto intro: engine_ok_new engine_ok_limit dest: handle_step)

text \<open>The history each abstract state stands for.\<close>

definition accepted :: "ext \<Rightarrow> history \<Rightarrow> peer_identity \<Rightarrow> bool" where
  "accepted X h p \<longleftrightarrow>
     (\<exists>hash. approved h (sas_words X hash) p \<and> only_question (effects h) (sas_words X hash) p)"

definition names_only :: "effect list \<Rightarrow> peer_identity \<Rightarrow> bool" where
  "names_only out p \<longleftrightarrow> (\<forall>q. Notify (Established q) \<in> set out \<longrightarrow> q = p)"

definition names_none :: "effect list \<Rightarrow> bool" where
  "names_none out \<longleftrightarrow> (\<forall>q. Notify (Established q) \<notin> set out)"

definition gate :: "ext \<Rightarrow> history \<Rightarrow> astate \<Rightarrow> bool" where
  "gate X h s =
     (case s of
        AAsking hash p \<Rightarrow> asked h (sas_words X hash) p \<and> only_question (effects h) (sas_words X hash) p \<and>
          names_none (effects h)
      | AApproved hash p \<Rightarrow> approved h (sas_words X hash) p \<and> only_question (effects h) (sas_words X hash) p \<and>
          names_none (effects h)
      | AActive p \<Rightarrow> accepted X h p \<and> names_only (effects h) p
      | AClosed \<Rightarrow> (\<forall>p. Notify (Established p) \<in> set (effects h) \<longrightarrow> accepted X h p)
      | _ \<Rightarrow> no_question (effects h) \<and> names_none (effects h))"

inductive_cases to_asking: "abs_step X s inp out (AAsking hash p)"
inductive_cases to_approved: "abs_step X s inp out (AApproved hash p)"
inductive_cases to_active: "abs_step X s inp out (AActive p)"
inductive_cases from_active: "abs_step X (AActive p) inp out s"
inductive_cases from_closed: "abs_step X AClosed inp out s"

lemma names_append [simp]:
  "names_only (out @ out') p \<longleftrightarrow> names_only out p \<and> names_only out' p"
  "names_none (out @ out') \<longleftrightarrow> names_none out \<and> names_none out'"
  by (auto simp: names_only_def names_none_def)

lemma session_names_none: "\<forall>e \<in> set out. session_effect e \<Longrightarrow> names_none out"
  by (auto simp: names_none_def)

lemma silent_names_none: "\<forall>e \<in> set out. silent e \<Longrightarrow> names_none out"
  by (auto intro: session_names_none simp: silent_session)

lemma names_none_only: "names_none out \<Longrightarrow> names_only out p"
  by (simp add: names_none_def names_only_def)

lemmas quiet_effects = silent_no_question silent_names_none session_no_question session_names_none
  no_question_only names_none_only

lemma accepted_snoc: "accepted X h p \<Longrightarrow> no_question out \<Longrightarrow> accepted X (h @ [(inp, out)]) p"
  by (auto simp: accepted_def intro: approved_snoc no_question_only)

lemma gate_quiet:
  assumes "gate X h s" "no_question out" "names_none out"
  shows "gate X (h @ [(inp, out)]) s"
  using assms
  by (auto simp: gate_def names_none_def intro: asked_snoc approved_snoc accepted_snoc no_question_only names_none_only
      split: astate.splits)

lemma gate_step:
  assumes "abs_step X s inp out s'" "gate X h s"
  shows "gate X (h @ [(inp, out)]) s'"
  using assms(1)
proof cases
  case stay
  with assms(2) show ?thesis by (simp add: gate_quiet quiet_effects)
next
  case (session p)
  with assms(2) show ?thesis by (simp add: gate_quiet quiet_effects)
next
  case started
  with assms(2) gate_quiet[of X h AIdle out inp] show ?thesis by (simp add: gate_def quiet_effects)
next
  case (ask hash p f)
  then have "only_question out (sas_words X hash) p" "names_none out"
    by (auto simp: only_question_def names_none_def)
  with ask assms(2) show ?thesis by (fastforce simp: gate_def asked_def no_question_only)
next
  case (approve hash p)
  with assms(2) gate_quiet[of X h s out inp] show ?thesis
    by (fastforce simp: gate_def approved_def quiet_effects)
next
  case (establish out1 hash p f)
  have "only_question out (sas_words X hash) p" "names_only out p"
    using establish by (auto simp: only_question_def names_only_def)
  with establish(1,4) assms(2) show ?thesis by (auto simp: gate_def accepted_def intro: approved_snoc names_none_only)
next
  case (ending out1 cause)
  show ?thesis
  proof (cases "\<exists>p. s = AActive p")
    case True
    with ending have "\<forall>e \<in> set out1. session_effect e" by auto
    then have "no_question out" "names_none out"
      using ending(1) session_no_question session_names_none by (auto simp: no_question_def names_none_def)
    with True ending(2) assms(2) accepted_snoc[of X h _ out inp] show ?thesis
      by (auto simp: gate_def names_only_def names_none_def)
  next
    case False
    with ending have "names_none out" by (cases s) (auto simp: names_none_def dest!: bspec)
    with False ending(2,3) assms(2) show ?thesis by (auto simp: gate_def names_none_def split: astate.splits)
  qed
qed

lemma gate_run: "engine_run X role identity entropy h en \<Longrightarrow> gate X h (abs_state en)"
proof (induction rule: engine_run.induct)
  case created
  then show ?case by (simp add: gate_def abs_state_def engine_new_def no_question_def names_none_def)
next
  case (input h en inp en' out)
  then show ?case using handle_step[OF run_ok_engine[OF input.hyps(1)] input.hyps(2)] by (blast intro: gate_step)
qed simp

lemma established_from_approved:
  "abs_step X s inp out s' \<Longrightarrow> Notify (Established p) \<in> set out \<Longrightarrow> \<exists>hash. s = AApproved hash p \<and> s' = AActive p"
  by (cases rule: abs_step.cases, assumption)
    (auto dest!: bspec elim!: closing_effect.elims)

lemma deliver_from_active:
  "abs_step X s inp out s' \<Longrightarrow> Deliver m \<in> set out \<Longrightarrow> \<exists>p. s = AActive p"
  by (cases rule: abs_step.cases, assumption)
    (auto dest!: bspec elim!: closing_effect.elims)

lemma closing_step:
  "abs_step X s inp out s' \<Longrightarrow> CloseTransport \<in> set out \<longleftrightarrow> s \<noteq> AClosed \<and> s' = AClosed"
  by (cases rule: abs_step.cases, assumption)
    (auto dest!: bspec[where x = CloseTransport])

text \<open>The run up to an input: whatever a run emitted, some prefix of it led to that input.\<close>

lemma run_prefix:
  assumes "engine_run X role identity entropy (h1 @ (inp, out) # h2) en"
  shows "\<exists>en1 en2. engine_run X role identity entropy h1 en1 \<and> handle X inp en1 = (en2, out)"
  using assms
proof (induction "h1 @ (inp, out) # h2" en arbitrary: h2 rule: engine_run.induct)
  case (input h en i en' o')
  show ?case
  proof (cases h2 rule: rev_cases)
    case Nil
    with input show ?thesis by auto
  next
    case (snoc h3 x)
    with input have "h = h1 @ (inp, out) # h3" by auto
    then show ?thesis by (rule input.hyps(2))
  qed
qed auto

end
