(* ===== verification/Net.thy ===== *)
theory Net
  imports Machine_Trace
begin

text \<open>
  \<^verbatim>\<open>ruxmsg-net/src/lib.rs\<close>: the incremental frame decoder, the connection task that drives
  one engine, the command handle, and the facade with its listener. Sockets, channels and the clock
  are the environment \<open>env\<close>: whether the n-th write and the n-th event go through, and the time of
  the n-th clock reading. What the task wrote and reported is recorded in its state.
\<close>

definition MESSAGE_QUEUE :: nat where "MESSAGE_QUEUE = 64"
definition CONTROL_QUEUE :: nat where "CONTROL_QUEUE = 8"
definition READ_CHUNK :: nat where "READ_CHUNK = 16 * 1024"
definition MAX_ACCEPT_FAILURES :: nat where "MAX_ACCEPT_FAILURES = 20"

section \<open>The decoder\<close>

datatype decode_error = DUnsupportedVersion | DMalformed

text \<open>
  The decoder is its buffer. A shrunk buffer has the same contents. The buffer the method leaves is
  returned with the result.
\<close>

type_synonym frame_decoder = bytes

definition decoder_push :: "frame_decoder \<Rightarrow> bytes \<Rightarrow> frame_decoder" where
  "decoder_push buffer data = buffer @ data"

definition buffered :: "frame_decoder \<Rightarrow> nat" where
  "buffered buffer = length buffer"

definition next_frame :: "frame_decoder \<Rightarrow> (decode_error + frame option) \<times> frame_decoder" where
  "next_frame buffer =
     (if length buffer < HEADER_SIZE then (Inr None, buffer)
      else
        (case parse_header (take HEADER_SIZE buffer) of
           Inl e \<Rightarrow>
             (Inl (case e of UnsupportedVersion _ \<Rightarrow> DUnsupportedVersion | _ \<Rightarrow> DMalformed), buffer)
         | Inr (_, _, declared) \<Rightarrow>
             let total = HEADER_SIZE + declared in
             if length buffer < total then (Inr None, buffer)
             else
               (case frame_decode (take total buffer) of
                  Inl e \<Rightarrow> (Inl DMalformed, buffer)
                | Inr (f, consumed) \<Rightarrow> (Inr (Some f), drop consumed buffer))))"

section \<open>The connection task\<close>

datatype conn_event = CSasRequired "string list" peer_identity | CEstablished peer_identity
  | CMessage bytes | CRekeyStarted | CRekeyCompleted | CRekeyFailed rekey_failure | CDataRejected
  | CSendRejected send_rejection | CClosed close_cause

text \<open>An opened connection is known by its number; its handle carries the same number.\<close>

datatype net_event = Opened nat string bool | DialFailed string string
  | ListenerStopped string "string option" | Conn nat conn_event

record env =
  env_write_ok :: "nat \<Rightarrow> bool"
  env_event_ok :: "nat \<Rightarrow> bool"
  env_now :: "nat \<Rightarrow> nat"

record task =
  tk_id :: nat
  tk_engine :: engine
  tk_deadlines :: "(deadline_id \<times> nat) list"
  tk_decoder :: frame_decoder
  tk_permit :: bool
  tk_lost :: bool
  tk_orphaned :: bool
  tk_closing :: bool
  tk_writes :: nat
  tk_emits :: nat
  tk_readings :: nat
  tk_written :: "bytes list"
  tk_events :: "net_event list"

definition task_new :: "nat \<Rightarrow> engine \<Rightarrow> bool \<Rightarrow> task" where
  "task_new i en permit =
     \<lparr>tk_id = i, tk_engine = en, tk_deadlines = [], tk_decoder = [], tk_permit = permit, tk_lost = False,
      tk_orphaned = False, tk_closing = False, tk_writes = 0, tk_emits = 0, tk_readings = 0,
      tk_written = [], tk_events = []\<rparr>"

text \<open>\<^verbatim>\<open>write\<close>: whether it succeeded, and what is known to be on the wire.\<close>

definition task_write :: "env \<Rightarrow> frame \<Rightarrow> task \<Rightarrow> bool \<times> task" where
  "task_write E f t =
     (case frame_encode f of
        Inl e \<Rightarrow> (False, t)
      | Inr encoded \<Rightarrow>
          if env_write_ok E (tk_writes t)
          then (True, t\<lparr>tk_writes := tk_writes t + 1, tk_written := tk_written t @ [encoded]\<rparr>)
          else (False, t\<lparr>tk_writes := tk_writes t + 1\<rparr>))"

definition task_emit :: "env \<Rightarrow> conn_event \<Rightarrow> task \<Rightarrow> task" where
  "task_emit E ev t =
     (let ok = env_event_ok E (tk_emits t); t = t\<lparr>tk_emits := tk_emits t + 1\<rparr> in
      if ok then t\<lparr>tk_events := tk_events t @ [Conn (tk_id t) ev]\<rparr> else t\<lparr>tk_orphaned := True\<rparr>)"

definition clock :: "env \<Rightarrow> task \<Rightarrow> nat \<times> task" where
  "clock E t = (env_now E (tk_readings t), t\<lparr>tk_readings := tk_readings t + 1\<rparr>)"

definition process_notify :: "env \<Rightarrow> event \<Rightarrow> task \<Rightarrow> task" where
  "process_notify E ev t =
     (let (mapped, t) =
        (case ev of
           Established p \<Rightarrow> (CEstablished p, t\<lparr>tk_permit := False\<rparr>)
         | RekeyStarted \<Rightarrow> (CRekeyStarted, t)
         | RekeyCompleted \<Rightarrow> (CRekeyCompleted, t)
         | RekeyFailed failure \<Rightarrow> (CRekeyFailed failure, t)
         | DataRejected \<Rightarrow> (CDataRejected, t)
         | SendRejected reason \<Rightarrow> (CSendRejected reason, t)
         | Closed cause \<Rightarrow> (CClosed cause, t\<lparr>tk_permit := False\<rparr>))
      in task_emit E mapped t)"

definition process_effect :: "env \<Rightarrow> effect \<Rightarrow> task \<Rightarrow> task" where
  "process_effect E e t =
     (case e of
        Send f \<Rightarrow>
          if \<not> tk_lost t then
            let (ok, t) = task_write E f t in if ok then t else t\<lparr>tk_lost := True\<rparr>
          else t
      | SetDeadline i kind after \<Rightarrow>
          let (now, t) = clock E t in t\<lparr>tk_deadlines := tk_deadlines t @ [(i, now + after)]\<rparr>
      | CancelDeadline i \<Rightarrow> t\<lparr>tk_deadlines := filter (\<lambda>(armed, _). armed \<noteq> i) (tk_deadlines t)\<rparr>
      | RequestSas words peer \<Rightarrow> task_emit E (CSasRequired words peer) t
      | Deliver content \<Rightarrow> task_emit E (CMessage content) t
      | Notify ev \<Rightarrow> process_notify E ev t
      | CloseTransport \<Rightarrow> t\<lparr>tk_closing := True\<rparr>)"

definition process :: "env \<Rightarrow> effect list \<Rightarrow> task \<Rightarrow> task" where
  "process E out t = fold (process_effect E) out t"

definition task_handle :: "ext \<Rightarrow> env \<Rightarrow> input \<Rightarrow> task \<Rightarrow> task" where
  "task_handle X E inp t =
     (let (en, out) = handle X inp (tk_engine t) in process E out (t\<lparr>tk_engine := en\<rparr>))"

definition apply_input :: "ext \<Rightarrow> env \<Rightarrow> input \<Rightarrow> task \<Rightarrow> task" where
  "apply_input X E inp t =
     (let t = task_handle X E inp t;
          t = (if tk_lost t \<and> engine_state (tk_engine t) \<noteq> SClosed
               then task_handle X E TransportClosed t else t)
      in if tk_orphaned t \<and> engine_state (tk_engine t) \<noteq> SClosed
         then task_handle X E (LocalClose RShutdown) t else t)"

text \<open>
  The loop of \<^verbatim>\<open>drain_frames\<close>, with fuel: an error leaves the buffer, so the loop ends only
  because the engine closes on it; \<open>drain_frames_ends\<close> shows how much fuel is enough.
\<close>

fun drain_frames :: "ext \<Rightarrow> env \<Rightarrow> nat \<Rightarrow> task \<Rightarrow> task option" where
  "drain_frames X E 0 t = None"
| "drain_frames X E (Suc fuel) t =
     (if tk_closing t then Some t
      else
        (case next_frame (tk_decoder t) of
           (Inr (Some f), buffer) \<Rightarrow>
             drain_frames X E fuel (apply_input X E (FrameReceived f) (t\<lparr>tk_decoder := buffer\<rparr>))
         | (Inr None, buffer) \<Rightarrow> Some (t\<lparr>tk_decoder := buffer\<rparr>)
         | (Inl DUnsupportedVersion, buffer) \<Rightarrow>
             drain_frames X E fuel (apply_input X E (Malformed False) (t\<lparr>tk_decoder := buffer\<rparr>))
         | (Inl DMalformed, buffer) \<Rightarrow>
             drain_frames X E fuel (apply_input X E (Malformed True) (t\<lparr>tk_decoder := buffer\<rparr>))))"

definition drain_fuel :: "task \<Rightarrow> nat" where
  "drain_fuel t = length (tk_decoder t) + 3"

text \<open>The due deadlines, by time and then by identifier.\<close>

definition due_deadlines :: "nat \<Rightarrow> (deadline_id \<times> nat) list \<Rightarrow> (nat \<times> deadline_id) list" where
  "due_deadlines now ds = sort_key fst (sort_key snd (map (\<lambda>(i, at). (at, i)) (filter (\<lambda>(_, at). at \<le> now) ds)))"

definition fire_one :: "ext \<Rightarrow> env \<Rightarrow> nat \<times> deadline_id \<Rightarrow> task \<Rightarrow> task" where
  "fire_one X E due t =
     apply_input X E (Timeout (snd due))
       (t\<lparr>tk_deadlines := filter (\<lambda>(armed, _). armed \<noteq> snd due) (tk_deadlines t)\<rparr>)"

definition fire_due :: "ext \<Rightarrow> env \<Rightarrow> task \<Rightarrow> task" where
  "fire_due X E t =
     (let (now, t) = clock E t in fold (fire_one X E) (due_deadlines now (tk_deadlines t)) t)"

section \<open>The loop\<close>

datatype control = ControlClose close_reason | ControlRekey | ControlSas bool

fun control_input :: "control option \<Rightarrow> input" where
  "control_input (Some (ControlClose reason)) = LocalClose reason"
| "control_input (Some ControlRekey) = RequestRekey"
| "control_input (Some (ControlSas b)) = SasDecision b"
| "control_input None = LocalClose RShutdown"

text \<open>What a turn of the \<^verbatim>\<open>select!\<close> may take: a read, a message, a command or the timer.\<close>

datatype turn = TReadFailed | TRead bytes | TMessage bytes | TControl "control option" | TTimer

fun task_turn :: "ext \<Rightarrow> env \<Rightarrow> turn \<Rightarrow> task \<Rightarrow> task option" where
  "task_turn X E TReadFailed t = Some (apply_input X E TransportClosed t)"
| "task_turn X E (TRead chunk) t =
     (let t = t\<lparr>tk_decoder := decoder_push (tk_decoder t) chunk\<rparr> in drain_frames X E (drain_fuel t) t)"
| "task_turn X E (TMessage content) t = Some (apply_input X E (LocalSend content) t)"
| "task_turn X E (TControl command) t = Some (apply_input X E (control_input command) t)"
| "task_turn X E TTimer t = Some (fire_due X E t)"

text \<open>
  The task's beginning: the announcement of an announced connection, without which the task ends,
  and then the engine's start.
\<close>

definition task_begin :: "ext \<Rightarrow> env \<Rightarrow> (string \<times> bool) option \<Rightarrow> task \<Rightarrow> task option" where
  "task_begin X E announce t =
     (case announce of
        None \<Rightarrow> Some (apply_input X E Start t)
      | Some (remote, outbound) \<Rightarrow>
          let ok = env_event_ok E (tk_emits t); t = t\<lparr>tk_emits := tk_emits t + 1\<rparr> in
          if ok
          then Some (apply_input X E Start
                       (t\<lparr>tk_events := tk_events t @ [Opened (tk_id t) remote outbound]\<rparr>))
          else None)"

text \<open>A task, from its start, through turns that come in any order, until it is closing.\<close>

inductive task_run :: "ext \<Rightarrow> env \<Rightarrow> task \<Rightarrow> task \<Rightarrow> bool" for X E where
  started: "task_begin X E announce t = Some t1 \<Longrightarrow> task_run X E t t1"
| turn: "task_run X E t t1 \<Longrightarrow> \<not> tk_closing t1 \<Longrightarrow> task_turn X E trn t1 = Some t2 \<Longrightarrow> task_run X E t t2"

section \<open>The command handle\<close>

datatype try_send_error = TFull | TClosed
datatype handle_error = Busy | Gone

definition map_try_send :: "try_send_error + unit \<Rightarrow> handle_error + unit" where
  "map_try_send r = map_err (\<lambda>e. case e of TFull \<Rightarrow> Busy | TClosed \<Rightarrow> Gone) r"

text \<open>The two bounded queues of a handle; the task's end closes both.\<close>

record connection_handle =
  hd_id :: nat
  hd_messages :: "bytes list"
  hd_control :: "control list"
  hd_gone :: bool

definition try_send :: "nat \<Rightarrow> bool \<Rightarrow> 'a list \<Rightarrow> 'a \<Rightarrow> (try_send_error + unit) \<times> 'a list" where
  "try_send capacity gone queue x =
     (if gone then (Inl TClosed, queue)
      else if length queue \<ge> capacity then (Inl TFull, queue)
      else (Inr (), queue @ [x]))"

definition send_message :: "connection_handle \<Rightarrow> bytes \<Rightarrow> (handle_error + unit) \<times> connection_handle" where
  "send_message h content =
     (let (r, q) = try_send MESSAGE_QUEUE (hd_gone h) (hd_messages h) content
      in (map_try_send r, h\<lparr>hd_messages := q\<rparr>))"

definition send_control :: "connection_handle \<Rightarrow> control \<Rightarrow> (handle_error + unit) \<times> connection_handle" where
  "send_control h command =
     (let (r, q) = try_send CONTROL_QUEUE (hd_gone h) (hd_control h) command
      in (map_try_send r, h\<lparr>hd_control := q\<rparr>))"

definition handle_close :: "connection_handle \<Rightarrow> close_reason \<Rightarrow> (handle_error + unit) \<times> connection_handle" where
  "handle_close h reason = send_control h (ControlClose reason)"

definition handle_request_rekey :: "connection_handle \<Rightarrow> (handle_error + unit) \<times> connection_handle" where
  "handle_request_rekey h = send_control h ControlRekey"

definition handle_answer_sas :: "connection_handle \<Rightarrow> bool \<Rightarrow> (handle_error + unit) \<times> connection_handle" where
  "handle_answer_sas h answer = send_control h (ControlSas answer)"

section \<open>The facade\<close>

text \<open>
  The facade's shared counter, its connections, each with its task, and the events it sent itself. A
  permit of the semaphore is held by the task that \<open>tk_permit\<close> marks. Binding, dialing and
  accepting are the environment: their outcomes are arguments, with the entropy of the engine made.
\<close>

record net =
  net_identity :: identity_keypair
  net_next_id :: nat
  net_tasks :: "task list"
  net_events :: "net_event list"

definition net_new :: "identity_keypair \<Rightarrow> net" where
  "net_new identity = \<lparr>net_identity = identity, net_next_id = 1, net_tasks = [], net_events = []\<rparr>"

definition permits_taken :: "net \<Rightarrow> nat" where
  "permits_taken n = length (filter tk_permit (net_tasks n))"

definition net_spawn :: "net \<Rightarrow> hello_role \<Rightarrow> (nat \<Rightarrow> u8) \<Rightarrow> bool \<Rightarrow> connection_handle \<times> net" where
  "net_spawn n role entropy permit =
     (let i = net_next_id n in
      (\<lparr>hd_id = i, hd_messages = [], hd_control = [], hd_gone = False\<rparr>,
       n\<lparr>net_next_id := i + 1,
         net_tasks := net_tasks n @ [task_new i (engine_new role (net_identity n) entropy) permit]\<rparr>))"

definition adopt :: "net \<Rightarrow> hello_role \<Rightarrow> (nat \<Rightarrow> u8) \<Rightarrow> connection_handle \<times> net" where
  "adopt n role entropy = net_spawn n role entropy False"

definition dial :: "net \<Rightarrow> string \<Rightarrow> string + (nat \<Rightarrow> u8) \<Rightarrow> net" where
  "dial n addr attempt =
     (case attempt of
        Inr entropy \<Rightarrow> snd (net_spawn n Initiator entropy False)
      | Inl kind \<Rightarrow> n\<lparr>net_events := net_events n @ [DialFailed addr kind]\<rparr>)"

text \<open>
  One turn of the accept loop on the address \<open>local\<close>: the failures in a row and the facade, and
  whether the listener goes on (\<open>Inl\<close>) or has stopped (\<open>Inr\<close>).
\<close>

definition accept_turn :: "string \<Rightarrow> string + (nat \<Rightarrow> u8) \<Rightarrow> nat \<times> net \<Rightarrow> (nat \<times> net) + net" where
  "accept_turn local r s =
     (case r of
        Inl kind \<Rightarrow>
          let failures = fst s + 1 in
          if failures \<ge> MAX_ACCEPT_FAILURES
          then Inr ((snd s)\<lparr>net_events := net_events (snd s) @ [ListenerStopped local (Some kind)]\<rparr>)
          else Inl (failures, snd s)
      | Inr entropy \<Rightarrow>
          if permits_taken (snd s) < MAX_UNAUTHENTICATED_HANDSHAKES
          then Inl (0, snd (net_spawn (snd s) Responder entropy True))
          else Inl (0, snd s))"

fun accept_loop :: "string \<Rightarrow> (string + (nat \<Rightarrow> u8)) list \<Rightarrow> nat \<times> net \<Rightarrow> (nat \<times> net) + net" where
  "accept_loop local [] s = Inl s"
| "accept_loop local (r # rs) s =
     (case accept_turn local r s of Inl s \<Rightarrow> accept_loop local rs s | Inr n \<Rightarrow> Inr n)"

text \<open>What a running facade does next: a task takes a turn, a connection is accepted, one is dialed.\<close>

inductive net_step :: "ext \<Rightarrow> env \<Rightarrow> net \<Rightarrow> net \<Rightarrow> bool" for X E where
  accepted: "accept_turn local r (failures, n) = Inl (failures', n') \<Longrightarrow> net_step X E n n'"
| dialed: "net_step X E n (dial n addr attempt)"
| adopted: "adopt n role entropy = (h, n') \<Longrightarrow> net_step X E n n'"
| begun: "i < length (net_tasks n) \<Longrightarrow> engine_state (tk_engine (net_tasks n ! i)) = SIdle \<Longrightarrow>
    task_begin X E announce (net_tasks n ! i) = Some t \<Longrightarrow>
    net_step X E n (n\<lparr>net_tasks := (net_tasks n)[i := t]\<rparr>)"
| turned: "i < length (net_tasks n) \<Longrightarrow> engine_state (tk_engine (net_tasks n ! i)) \<noteq> SIdle \<Longrightarrow>
    \<not> tk_closing (net_tasks n ! i) \<Longrightarrow> task_turn X E trn (net_tasks n ! i) = Some t \<Longrightarrow>
    net_step X E n (n\<lparr>net_tasks := (net_tasks n)[i := t]\<rparr>)"
| dropped: "i < length (net_tasks n) \<Longrightarrow>
    net_step X E n (n\<lparr>net_tasks := take i (net_tasks n) @ drop (Suc i) (net_tasks n)\<rparr>)"

end
