(* ===== verification/Net_Decode.thy ===== *)
theory Net_Decode
  imports Net
begin

text \<open>
  Reassembly of the byte stream: what the decoder returns depends on the bytes that arrived and not
  on how the transport cut them, encoded frames come out in order, and what is kept is bounded.
\<close>

lemma next_frame_None: "next_frame b = (Inr None, b') \<Longrightarrow> b' = b"
  by (auto simp: next_frame_def Let_def split: if_splits sum.splits)

lemma next_frame_short:
  assumes "next_frame b = (Inr None, b')"
  shows "length b < HEADER_SIZE \<or> (\<exists>v t n. parse_header (take HEADER_SIZE b) = Inr (v, t, n) \<and> length b < HEADER_SIZE + n)"
  using assms by (auto simp: next_frame_def Let_def split: if_splits sum.splits)

lemma next_frame_bound:
  assumes "next_frame b = (Inr None, b')"
  shows "length b' < HEADER_SIZE + MAX_FRAME_SIZE"
  using next_frame_short[OF assms] next_frame_None[OF assms]
proof (elim disjE exE conjE)
  fix v t n
  assume hdr: "parse_header (take HEADER_SIZE b) = Inr (v, t, n)" and l: "length b < HEADER_SIZE + n"
  from hdr have "n \<le> max_payload t" by (auto simp: parse_header_def Let_def res_simps)
  with max_payload_le[of t] l next_frame_None[OF assms] show ?thesis by simp
qed (simp add: bounds_defs)

text \<open>The second check, on the whole frame, never fails after the check of the header.\<close>

lemma frame_decode_after_header:
  assumes "parse_header (take HEADER_SIZE b) = Inr (v, t, n)" "HEADER_SIZE + n \<le> length b"
  shows "frame_decode (take (HEADER_SIZE + n) b) =
    Inr (\<lparr>f_version = v, f_type = t, f_payload = take n (drop HEADER_SIZE b)\<rparr>, HEADER_SIZE + n)"
proof -
  have "n \<le> max_payload t" using assms(1) by (auto simp: parse_header_def Let_def res_simps)
  then have "HEADER_SIZE + n \<le> u64_max"
    using max_payload_le[of t] by (simp add: bounds_defs HEADER_SIZE_def)
  then show ?thesis using assms by (simp add: frame_decode_def take_drop)
qed

lemma next_frame_cases:
  "next_frame b =
     (if length b < HEADER_SIZE then (Inr None, b)
      else case parse_header (take HEADER_SIZE b) of
        Inl e \<Rightarrow> (Inl (case e of UnsupportedVersion _ \<Rightarrow> DUnsupportedVersion | _ \<Rightarrow> DMalformed), b)
      | Inr (v, t, n) \<Rightarrow>
          if length b < HEADER_SIZE + n then (Inr None, b)
          else (Inr (Some \<lparr>f_version = v, f_type = t, f_payload = take n (drop HEADER_SIZE b)\<rparr>),
                drop (HEADER_SIZE + n) b))"
  by (auto simp: next_frame_def Let_def frame_decode_after_header split: sum.splits)

lemma next_frame_grows:
  assumes "next_frame b = (r, b')" "r \<noteq> Inr None"
  shows "next_frame (b @ c) = (r, b' @ c)"
  using assms by (auto simp: next_frame_cases split: if_splits sum.splits prod.splits)

lemma next_frame_error: "next_frame b = (Inl e, b') \<Longrightarrow> b' = b"
  by (auto simp: next_frame_cases split: if_splits sum.splits prod.splits)

lemma next_frame_encoded:
  assumes "frame_encode f = Inr bs"
  shows "next_frame (bs @ c) = (Inr (Some f), c)"
proof -
  from assms have ok: "frame_ok f" and bs: "bs = [1, word_of_nat (type_code (f_type f))] @ be_bytes 4 (length (f_payload f)) @ f_payload f"
    by (simp_all add: frame_encode_iff)
  have hdr: "take HEADER_SIZE (bs @ c) = [1, word_of_nat (type_code (f_type f))] @ be_bytes 4 (length (f_payload f))"
    by (simp add: bs HEADER_SIZE_def)
  have "parse_header (take HEADER_SIZE (bs @ c)) = Inr (V1, f_type f, length (f_payload f))"
    unfolding hdr using ok by (intro parse_header_encoded) (simp add: frame_ok_def)
  moreover have len: "length bs = HEADER_SIZE + length (f_payload f)" by (simp add: bs HEADER_SIZE_def)
  moreover have "take (length (f_payload f)) (drop HEADER_SIZE (bs @ c)) = f_payload f"
    by (simp add: bs HEADER_SIZE_def)
  ultimately show ?thesis
    by (cases f, cases "f_version f") (simp add: next_frame_cases)
qed

lemma next_frame_header:
  assumes "next_frame b = (Inr (Some f), b')"
  shows "\<exists>v t n. parse_header (take HEADER_SIZE b) = Inr (v, t, n) \<and> HEADER_SIZE + n \<le> length b \<and>
    f = \<lparr>f_version = v, f_type = t, f_payload = take n (drop HEADER_SIZE b)\<rparr> \<and> b' = drop (HEADER_SIZE + n) b"
proof (cases "parse_header (take HEADER_SIZE b)")
  case (Inl e)
  with assms show ?thesis by (simp add: next_frame_cases split: if_splits)
next
  case (Inr x)
  obtain v t n where x: "x = (v, t, n)" by (cases x)
  have "HEADER_SIZE \<le> length b" "HEADER_SIZE + n \<le> length b"
    using assms Inr x by (simp_all add: next_frame_cases split: if_splits)
  then show ?thesis using assms Inr x by (simp add: next_frame_cases)
qed

lemma next_frame_Some:
  assumes "next_frame b = (Inr (Some f), b')"
  obtains bs where "frame_encode f = Inr bs" "b = bs @ b'"
proof -
  obtain v t n where h: "parse_header (take HEADER_SIZE b) = Inr (v, t, n)" "HEADER_SIZE + n \<le> length b"
    and f: "f = \<lparr>f_version = v, f_type = t, f_payload = take n (drop HEADER_SIZE b)\<rparr>"
    and b': "b' = drop (HEADER_SIZE + n) b"
    using next_frame_header[OF assms] by blast
  have "frame_encode f = Inr (take (HEADER_SIZE + n) (take (HEADER_SIZE + n) b))"
    unfolding f by (rule frame_decode_Inr[OF frame_decode_after_header[OF h], THEN conjunct1])
  then have "frame_encode f = Inr (take (HEADER_SIZE + n) b)" by simp
  then show thesis by (rule that) (simp add: b')
qed

lemma frame_encode_length: "frame_encode f = Inr bs \<Longrightarrow> length bs = HEADER_SIZE + length (f_payload f)"
  by (auto simp: frame_encode_iff HEADER_SIZE_def)

lemma next_frame_shorter: "next_frame b = (Inr (Some f), b') \<Longrightarrow> length b' < length b"
  by (erule next_frame_Some) (auto dest: frame_encode_length simp: HEADER_SIZE_def)

section \<open>Everything available\<close>

text \<open>The frames a buffer holds, the error behind them if there is one, and the buffer left.\<close>

function available :: "frame_decoder \<Rightarrow> frame list \<times> decode_error option \<times> frame_decoder" where
  "available b =
     (case next_frame b of
        (Inr (Some f), b') \<Rightarrow> (let (fs, e, r) = available b' in (f # fs, e, r))
      | (Inr None, b') \<Rightarrow> ([], None, b')
      | (Inl e, b') \<Rightarrow> ([], Some e, b'))"
  by pat_completeness auto
termination
proof (relation "measure length", goal_cases)
  case (2 b p b' o1 f)
  then have "next_frame b = (Inr (Some f), b')" by simp
  then show ?case by (simp add: next_frame_shorter)
qed simp

declare available.simps [simp del]

definition receive_chunk :: "bytes \<Rightarrow> frame list \<times> decode_error option \<times> frame_decoder \<Rightarrow>
    frame list \<times> decode_error option \<times> frame_decoder" where
  "receive_chunk c s =
     (let (fs, _, b) = s; (fs', e, r) = available (decoder_push b c) in (fs @ fs', e, r))"

lemma available_more:
  "available (b @ c) = receive_chunk c (available b)"
proof (induction b rule: available.induct)
  case (1 b)
  obtain r b' where n: "next_frame b = (r, b')" by (cases "next_frame b")
  show ?case
  proof (cases r)
    case (Inl e)
    with n have "b' = b" by (auto dest: next_frame_error)
    with n Inl next_frame_grows[OF n, of c] show ?thesis
      by (simp add: available.simps[of b] available.simps[of "b @ c"] receive_chunk_def decoder_push_def)
  next
    case (Inr o1)
    show ?thesis
    proof (cases o1)
      case None
      with n Inr have "b' = b" by (auto dest: next_frame_None)
      with n Inr None show ?thesis
        by (simp add: available.simps[of b] receive_chunk_def decoder_push_def)
    next
      case (Some f)
      with Inr next_frame_grows[OF n, of c] have g: "next_frame (b @ c) = (Inr (Some f), b' @ c)" by simp
      have ih: "available (b' @ c) = receive_chunk c (available b')"
        using 1(1)[OF n[symmetric] Inr Some] by simp
      show ?thesis
        unfolding available.simps[of "b @ c"] available.simps[of b] g n Inr Some
        by (simp add: ih receive_chunk_def decoder_push_def split_beta)
    qed
  qed
qed

lemma chunks_available:
  "fold receive_chunk cs (available b) = available (b @ concat cs)"
  by (induction cs arbitrary: b) (simp_all add: available_more[symmetric])

lemma available_Nil [simp]: "available [] = ([], None, [])"
  by (simp add: available.simps[of "[]"] next_frame_cases HEADER_SIZE_def)

lemma available_encoded:
  assumes "list_all2 (\<lambda>f bs. frame_encode f = Inr bs) fs bss"
  shows "available (concat bss @ c) = (let (fs', e, r) = available c in (fs @ fs', e, r))"
  using assms
proof (induction rule: list_all2_induct)
  case (Cons f fs bs bss)
  then show ?case
    using next_frame_encoded[OF Cons(1), of "concat bss @ c"]
    by (simp add: available.simps[of "bs @ concat bss @ c"] split_beta Let_def)
qed simp

lemma available_sound:
  "available b = (fs, e, r) \<Longrightarrow>
    \<exists>bss. list_all2 (\<lambda>f bs. frame_encode f = Inr bs) fs bss \<and> b = concat bss @ r"
proof (induction b arbitrary: fs rule: available.induct)
  case (1 b)
  obtain r0 b' where n: "next_frame b = (r0, b')" by (cases "next_frame b")
  show ?case
  proof (cases "\<exists>f. r0 = Inr (Some f)")
    case True
    then obtain f where f: "r0 = Inr (Some f)" by blast
    obtain fs' e' r' where av: "available b' = (fs', e', r')" by (cases "available b'")
    with 1(2) n f have fs: "fs = f # fs'" "e' = e" "r' = r"
      by (simp_all add: available.simps[of b])
    obtain bss where bss: "list_all2 (\<lambda>f bs. frame_encode f = Inr bs) fs' bss" "b' = concat bss @ r"
      using 1(1)[OF n[symmetric] f refl] av fs by auto
    obtain bs where bs: "frame_encode f = Inr bs" "b = bs @ b'"
      using next_frame_Some n f by blast
    show ?thesis
      by (rule exI[of _ "bs # bss"]) (simp add: fs bss bs)
  next
    case False
    then have "fs = []" "r = b"
      using 1(2) n next_frame_error next_frame_None
      by (auto simp: available.simps[of b] split: sum.splits option.splits)
    then show ?thesis by auto
  qed
qed

lemma available_bound:
  "available b = (fs, None, r) \<Longrightarrow> length r < HEADER_SIZE + MAX_FRAME_SIZE"
proof (induction b arbitrary: fs rule: available.induct)
  case (1 b)
  obtain r0 b' where n: "next_frame b = (r0, b')" by (cases "next_frame b")
  show ?case
  proof (cases "\<exists>f. r0 = Inr (Some f)")
    case True
    then obtain f where f: "r0 = Inr (Some f)" by blast
    then show ?thesis
      using 1(1)[OF n[symmetric] f refl] 1(2) n
      by (cases "available b'") (simp add: available.simps[of b])
  next
    case False
    then have "next_frame b = (Inr None, r)"
      using 1(2) n by (auto simp: available.simps[of b] split: sum.splits option.splits)
    then show ?thesis by (rule next_frame_bound)
  qed
qed

end
