(* ===== verification/Net_Task.thy ===== *)
theory Net_Task
  imports Net_Decode
begin

text \<open>
  The connection task keeps its engine's promises: its deadline table is the engine's, it stops
  exactly when the engine closes, it holds its permit only while unauthenticated, a lost or orphaned
  connection is closed at once, and the loop over the buffered frames ends.
\<close>

section \<open>Effects\<close>

definition emitted :: "effect \<Rightarrow> conn_event option" where
  "emitted e =
     (case e of
        RequestSas w p \<Rightarrow> Some (CSasRequired w p)
      | Deliver m \<Rightarrow> Some (CMessage m)
      | Notify ev \<Rightarrow>
          Some (case ev of
             Established p \<Rightarrow> CEstablished p
           | RekeyStarted \<Rightarrow> CRekeyStarted
           | RekeyCompleted \<Rightarrow> CRekeyCompleted
           | RekeyFailed failure \<Rightarrow> CRekeyFailed failure
           | DataRejected \<Rightarrow> CDataRejected
           | SendRejected reason \<Rightarrow> CSendRejected reason
           | Closed cause \<Rightarrow> CClosed cause)
      | _ \<Rightarrow> None)"

fun releases :: "effect \<Rightarrow> bool" where
  "releases (Notify (Established p)) = True"
| "releases (Notify (Closed cause)) = True"
| "releases _ = False"

lemmas process_defs = process_effect_def process_notify_def task_emit_def task_write_def clock_def Let_def

lemma process_effect_fields [simp]:
  "tk_engine (process_effect E e t) = tk_engine t"
  "tk_decoder (process_effect E e t) = tk_decoder t"
  "tk_id (process_effect E e t) = tk_id t"
  "tk_closing (process_effect E e t) = (tk_closing t \<or> e = CloseTransport)"
  "tk_permit (process_effect E e t) = (tk_permit t \<and> \<not> releases e)"
  "map fst (tk_deadlines t) = map fst T \<Longrightarrow>
     map fst (tk_deadlines (process_effect E e t)) = map fst (apply_deadline e T)"
proof -
  have keep: "map fst (filter (\<lambda>(j, _). j \<noteq> i) xs) = filter (\<lambda>j. j \<noteq> i) (map fst xs)" for i and xs :: "(nat \<times> 'z) list"
    by (induction xs) auto
  show "map fst (tk_deadlines t) = map fst T \<Longrightarrow>
     map fst (tk_deadlines (process_effect E e t)) = map fst (apply_deadline e T)"
    by (simp add: process_defs keep split: effect.split event.split sum.split)
qed (simp_all add: process_defs split: effect.split event.split sum.split)

lemma process_fields [simp]:
  "tk_engine (process E out t) = tk_engine t"
  "tk_decoder (process E out t) = tk_decoder t"
  "tk_id (process E out t) = tk_id t"
  "tk_closing (process E out t) \<longleftrightarrow> tk_closing t \<or> CloseTransport \<in> set out"
  "tk_permit (process E out t) \<longleftrightarrow> tk_permit t \<and> (\<forall>e \<in> set out. \<not> releases e)"
  by (induction out arbitrary: t) (auto simp: process_def)

lemma process_deadlines:
  "map fst (tk_deadlines t) = map fst T \<Longrightarrow> map fst (tk_deadlines (process E out t)) = map fst (replay T out)"
  by (induction out arbitrary: t T) (simp_all add: process_def)

lemma process_append [simp]: "process E (out @ out') t = process E out' (process E out t)"
  by (simp add: process_def)

text \<open>Every event reported is one of the effects, in their order.\<close>

lemma process_effect_events:
  "\<exists>evs. tk_events (process_effect E e t) = tk_events t @ evs \<and>
     (evs = [] \<or> (\<exists>ev. emitted e = Some ev \<and> evs = [Conn (tk_id t) ev]))"
  by (simp add: process_defs emitted_def split: effect.split event.split sum.split)

lemma process_events:
  "\<exists>evs. tk_events (process E out t) = tk_events t @ map (Conn (tk_id t)) evs \<and>
     (\<forall>ev \<in> set evs. \<exists>e \<in> set out. emitted e = Some ev)"
proof (induction out arbitrary: t)
  case Nil
  then show ?case by (simp add: process_def)
next
  case (Cons e out)
  obtain evs1 where 1: "tk_events (process_effect E e t) = tk_events t @ evs1"
    "evs1 = [] \<or> (\<exists>ev. emitted e = Some ev \<and> evs1 = [Conn (tk_id t) ev])"
    using process_effect_events by blast
  obtain evs2 where 2: "tk_events (process E out (process_effect E e t)) =
      tk_events (process_effect E e t) @ map (Conn (tk_id t)) evs2"
    "\<forall>ev \<in> set evs2. \<exists>e \<in> set out. emitted e = Some ev"
    using Cons[of "process_effect E e t"] by auto
  from 1 obtain l where "evs1 = map (Conn (tk_id t)) l" "\<forall>ev \<in> set l. emitted e = Some ev"
    by (metis empty_iff list.map(1,2) list.set(1) set_ConsD)
  with 1 2 have "tk_events (process E (e # out) t) = tk_events t @ map (Conn (tk_id t)) (l @ evs2) \<and>
     (\<forall>ev \<in> set (l @ evs2). \<exists>e \<in> set (e # out). emitted e = Some ev)"
    by (auto simp: process_def)
  then show ?case by blast
qed

section \<open>The invariant\<close>

fun final_event :: "net_event \<Rightarrow> bool" where
  "final_event (Conn i (CClosed cause)) = True"
| "final_event _ = False"

definition task_at :: "ext \<Rightarrow> deadline_table \<Rightarrow> task \<Rightarrow> bool" where
  "task_at X T t \<longleftrightarrow> engine_ok X (tk_engine t) \<and>
     map fst (tk_deadlines t) = map fst T \<and>
     (tk_closing t \<longleftrightarrow> engine_state (tk_engine t) = SClosed) \<and>
     (tk_permit t \<longrightarrow> engine_state (tk_engine t) \<in> {SIdle, SHandshaking}) \<and>
     (\<forall>ev \<in> set (if tk_closing t then butlast (tk_events t) else tk_events t). \<not> final_event ev)"

definition task_ok :: "ext \<Rightarrow> task \<Rightarrow> bool" where
  "task_ok X t \<longleftrightarrow> task_at X (en_deadlines (tk_engine t)) t"

definition live :: "task \<Rightarrow> bool" where
  "live t \<longleftrightarrow> (tk_closing t \<or> \<not> tk_lost t \<and> \<not> tk_orphaned t)"

lemma engine_state_abs:
  "engine_state en = SClosed \<longleftrightarrow> abs_state en = AClosed"
  "engine_state en \<in> {SIdle, SHandshaking} \<longleftrightarrow> (abs_state en \<noteq> AClosed \<and> (\<forall>p. abs_state en \<noteq> AActive p))"
  by (auto simp: engine_state_def abs_state_def run_state_def split: phase.splits option.splits)

lemma abs_step_releases:
  "abs_step X s inp out s' \<Longrightarrow> s \<noteq> AClosed \<Longrightarrow> \<forall>p. s \<noteq> AActive p \<Longrightarrow> s' = AClosed \<or> (\<exists>p. s' = AActive p) \<Longrightarrow>
    \<exists>e \<in> set out. releases e"
  by (erule abs_step.cases) auto

lemma abs_step_stays_closed: "abs_step X AClosed inp out s' \<Longrightarrow> s' = AClosed"
  by (erule from_closed) auto

lemma abs_step_stays_active: "abs_step X (AActive p) inp out s' \<Longrightarrow> s' = AClosed \<or> s' = AActive p"
  by (erule from_active) auto

lemma abs_step_final:
  assumes "abs_step X s inp out s'" "s \<noteq> AClosed"
  shows "(\<forall>e \<in> set (if s' = AClosed then butlast (butlast out) else out). \<forall>cause. e \<noteq> Notify (Closed cause)) \<and>
    (s' = AClosed \<longrightarrow> (\<exists>out1 cause. out = out1 @ [Notify (Closed cause), CloseTransport]))"
  using assms
  by (cases rule: abs_step.cases) (fastforce simp: butlast_append elim!: closing_effect.elims)+

lemma emitted_final: "emitted e = Some (CClosed cause) \<longleftrightarrow> e = Notify (Closed cause)"
  by (auto simp: emitted_def split: effect.splits event.splits)

lemma handle_closed: "engine_state en = SClosed \<Longrightarrow> handle X inp en = (en, [])"
  by (simp add: engine_state_def handle_def split: phase.splits if_splits)


lemma handle_ends:
  "engine_state (fst (handle X TransportClosed en)) = SClosed"
  "engine_state (fst (handle X (LocalClose reason) en)) = SClosed"
  "engine_state (fst (handle X (Malformed respond) en)) = SClosed"
  by (simp_all add: handle_def terminate_def engine_state_def Let_def split: option.split sum.split)

section \<open>One input\<close>

lemma task_handle_events:
  assumes "abs_step X s inp out s'" "s \<noteq> AClosed" "\<forall>ev \<in> set (tk_events t). \<not> final_event ev"
  shows "\<forall>ev \<in> set (if s' = AClosed then butlast (tk_events (process E out t)) else tk_events (process E out t)).
    \<not> final_event ev"
proof -
  have part: "\<forall>ev \<in> set (tk_events (process E out' t)). \<not> final_event ev"
    if "\<forall>e \<in> set out'. \<forall>cause. e \<noteq> Notify (Closed cause)" for out'
  proof -
    obtain evs where evs: "tk_events (process E out' t) = tk_events t @ map (Conn (tk_id t)) evs"
      "\<forall>ev \<in> set evs. \<exists>e \<in> set out'. emitted e = Some ev" using process_events by blast
    have "\<not> final_event (Conn (tk_id t) ev)" if "ev \<in> set evs" for ev
    proof
      assume "final_event (Conn (tk_id t) ev)"
      then obtain cause where "ev = CClosed cause" by (cases ev) auto
      then obtain e where "e \<in> set out'" "emitted e = Some (CClosed cause)" using evs(2) \<open>ev \<in> set evs\<close> by blast
      then show False using \<open>\<forall>e \<in> set out'. _ e\<close> by (simp add: emitted_final)
    qed
    then show ?thesis using evs(1) assms(3) by auto
  qed
  show ?thesis
  proof (cases "s' = AClosed")
    case True
    with abs_step_final[OF assms(1,2)] obtain out1 cause where out: "out = out1 @ [Notify (Closed cause), CloseTransport]"
      and "\<forall>e \<in> set out1. \<forall>cause. e \<noteq> Notify (Closed cause)" by (auto simp: butlast_append)
    then have none: "\<forall>ev \<in> set (tk_events (process E out1 t)). \<not> final_event ev" using part by blast
    have "tk_events (process E out t) = tk_events (process E out1 t) \<or>
        (\<exists>ev. tk_events (process E out t) = tk_events (process E out1 t) @ [ev])"
      by (simp add: out process_def process_defs)
    with none True show ?thesis by (auto dest: in_set_butlastD)
  next
    case False
    with abs_step_final[OF assms(1,2)] part show ?thesis by simp
  qed
qed

lemma task_handle_ok:
  assumes "task_at X (driver_table inp (en_deadlines (tk_engine t))) t"
  shows "task_ok X (task_handle X E inp t)"
proof (cases "tk_closing t")
  case True
  then have cl: "engine_state (tk_engine t) = SClosed" using assms by (simp add: task_at_def)
  then have "en_deadlines (tk_engine t) = []"
    using assms by (simp add: task_at_def engine_ok_def engine_state_def split: phase.splits if_splits)
  with assms show ?thesis
    by (simp add: task_handle_def handle_closed[OF cl] process_def task_ok_def driver_table_def split: input.splits)
next
  case False
  obtain en' out where h: "handle X inp (tk_engine t) = (en', out)" by (cases "handle X inp (tk_engine t)")
  let ?s = "abs_state (tk_engine t)" and ?t = "t\<lparr>tk_engine := en'\<rparr>"
  from assms False have s: "?s \<noteq> AClosed" and ok: "engine_ok X (tk_engine t)"
    and ds: "map fst (tk_deadlines ?t) = map fst (driver_table inp (en_deadlines (tk_engine t)))"
    and permit: "tk_permit t \<longrightarrow> engine_state (tk_engine t) \<in> {SIdle, SHandshaking}"
    and evs: "\<forall>ev \<in> set (tk_events ?t). \<not> final_event ev"
    by (simp_all add: task_at_def engine_state_abs(1))
  from handle_step[OF ok h] have ok': "engine_ok X en'" and step: "abs_step X ?s inp out (abs_state en')"
    and table: "replay (driver_table inp (en_deadlines (tk_engine t))) out = en_deadlines en'" by auto
  have "tk_permit t \<longrightarrow> (\<forall>e \<in> set out. \<not> releases e) \<longrightarrow> engine_state en' \<in> {SIdle, SHandshaking}"
    using permit abs_step_releases[OF step s] unfolding engine_state_abs by blast
  moreover have "CloseTransport \<in> set out \<longleftrightarrow> engine_state en' = SClosed"
    using closing_step[OF step] s by (simp add: engine_state_abs(1))
  ultimately show ?thesis
    using False ok' process_deadlines[OF ds, of E out] table task_handle_events[OF step s evs, of E]
    by (simp add: task_handle_def h task_ok_def task_at_def engine_state_abs(1))
qed

lemma task_handle_same:
  assumes "task_ok X t" "driver_table inp (en_deadlines (tk_engine t)) = en_deadlines (tk_engine t)"
  shows "task_ok X (task_handle X E inp t)"
  using assms by (intro task_handle_ok) (simp add: task_ok_def)

lemma task_handle_fields [simp]:
  "tk_decoder (task_handle X E inp t) = tk_decoder t" "tk_id (task_handle X E inp t) = tk_id t"
  "tk_engine (task_handle X E inp t) = fst (handle X inp (tk_engine t))"
  by (simp_all add: task_handle_def split_beta)

lemma apply_input_fields [simp]:
  "tk_decoder (apply_input X E inp t) = tk_decoder t" "tk_id (apply_input X E inp t) = tk_id t"
  by (simp_all add: apply_input_def Let_def)

lemma driver_table_other [simp]: "(\<And>i. inp \<noteq> Timeout i) \<Longrightarrow> driver_table inp T = T"
  by (auto simp: driver_table_def split: input.split)

lemma task_ok_closing: "task_ok X t \<Longrightarrow> tk_closing t \<longleftrightarrow> engine_state (tk_engine t) = SClosed"
  by (simp add: task_ok_def task_at_def)

lemma apply_input_at:
  assumes "task_at X (driver_table inp (en_deadlines (tk_engine t))) t"
  shows "task_ok X (apply_input X E inp t) \<and> live (apply_input X E inp t)"
proof -
  define t1 where "t1 = task_handle X E inp t"
  define t2 where "t2 = (if tk_lost t1 \<and> engine_state (tk_engine t1) \<noteq> SClosed then task_handle X E TransportClosed t1 else t1)"
  define t3 where "t3 = (if tk_orphaned t2 \<and> engine_state (tk_engine t2) \<noteq> SClosed
    then task_handle X E (LocalClose RShutdown) t2 else t2)"
  have ok1: "task_ok X t1" unfolding t1_def by (rule task_handle_ok[OF assms])
  then have ok2: "task_ok X t2" unfolding t2_def by (simp add: task_handle_same)
  then have ok3: "task_ok X t3" unfolding t3_def by (simp add: task_handle_same)
  have eq: "apply_input X E inp t = t3"
    unfolding apply_input_def Let_def t1_def t2_def t3_def by (rule refl)
  have "tk_lost t2 \<longrightarrow> engine_state (tk_engine t2) = SClosed"
    by (auto simp: t2_def handle_ends)
  then have "tk_lost t3 \<or> tk_orphaned t3 \<longrightarrow> engine_state (tk_engine t3) = SClosed"
    by (auto simp: t3_def handle_ends)
  then have "live t3" using task_ok_closing[OF ok3] by (auto simp: live_def)
  then show ?thesis using ok3 by (simp add: eq)
qed

lemma apply_input_ok:
  assumes "task_ok X t" "\<And>i. inp \<noteq> Timeout i"
  shows "task_ok X (apply_input X E inp t)" "live (apply_input X E inp t)"
  using assms apply_input_at[of X inp t E] by (simp_all add: task_ok_def)

lemma task_ok_fields:
  "task_ok X (t\<lparr>tk_decoder := b\<rparr>) = task_ok X t" "live (t\<lparr>tk_decoder := b\<rparr>) = live t"
  "task_ok X (t\<lparr>tk_readings := n\<rparr>) = task_ok X t" "live (t\<lparr>tk_readings := n\<rparr>) = live t"
  by (simp_all add: task_ok_def task_at_def live_def)

section \<open>The timers and the buffered frames\<close>

lemma fire_one_ok: "task_ok X t \<Longrightarrow> task_ok X (fire_one X E due t) \<and> live (fire_one X E due t)"
proof -
  assume ok: "task_ok X t"
  have keep: "map fst (filter (\<lambda>(j, _). j \<noteq> i) xs) = filter (\<lambda>j. j \<noteq> i) (map fst xs)" for i and xs :: "(nat \<times> 'z) list"
    by (induction xs) auto
  from ok show ?thesis unfolding fire_one_def
    by (intro apply_input_at) (simp add: task_ok_def task_at_def driver_table_def keep)
qed

lemma fire_due_ok: "task_ok X t \<Longrightarrow> live t \<Longrightarrow> task_ok X (fire_due X E t) \<and> live (fire_due X E t)"
proof -
  assume ok: "task_ok X t" "live t"
  have "task_ok X (fold (fire_one X E) due t) \<and> live (fold (fire_one X E) due t)"
    if "task_ok X t" "live t" for due t
    using that by (induction due arbitrary: t) (simp_all add: fire_one_ok)
  then show ?thesis using ok by (simp add: fire_due_def clock_def task_ok_fields)
qed

lemma apply_input_engine_end:
  assumes "engine_state (fst (handle X inp (tk_engine t))) = SClosed"
  shows "engine_state (tk_engine (apply_input X E inp t)) = SClosed"
  using assms by (simp add: apply_input_def Let_def)

lemma drain_frames_ends:
  assumes "task_ok X t" "live t" "length (tk_decoder t) + 1 < fuel"
  shows "\<exists>t'. drain_frames X E fuel t = Some t' \<and> task_ok X t' \<and> live t' \<and>
    (tk_closing t' \<or> next_frame (tk_decoder t') = (Inr None, tk_decoder t'))"
  using assms
proof (induction fuel arbitrary: t)
  case (Suc fuel)
  show ?case
  proof (cases "tk_closing t")
    case False
    obtain r b where n: "next_frame (tk_decoder t) = (r, b)" by (cases "next_frame (tk_decoder t)")
    show ?thesis
    proof (cases r)
      case (Inl e)
      then have b: "b = tk_decoder t" using n next_frame_error by blast
      obtain f2 where f2: "fuel = Suc f2" using Suc.prems(3) by (cases fuel) auto
      let ?t = "\<lambda>respond. apply_input X E (Malformed respond) t"
      have "task_ok X (?t respond)" "live (?t respond)" for respond
        using Suc.prems by (simp_all add: apply_input_ok)
      moreover have "tk_closing (?t respond)" for respond
        using calculation(1)[THEN task_ok_closing] by (simp add: apply_input_engine_end handle_ends)
      ultimately show ?thesis
        using False n Inl b f2 by (cases e) simp_all
    next
      case (Inr x)
      show ?thesis
      proof (cases x)
        case None
        with n Inr have "b = tk_decoder t" using next_frame_None by blast
        then show ?thesis using False n Inr None Suc.prems by (simp add: task_ok_fields)
      next
        case (Some f)
        let ?t = "apply_input X E (FrameReceived f) (t\<lparr>tk_decoder := b\<rparr>)"
        have "length b < length (tk_decoder t)" using n Inr Some next_frame_shorter by simp
        then have "length (tk_decoder ?t) + 1 < fuel" using Suc.prems(3) by simp
        moreover have "task_ok X ?t" "live ?t" using Suc.prems(1) by (simp_all add: apply_input_ok task_ok_fields)
        ultimately show ?thesis using Suc.IH False n Inr Some by simp
      qed
    qed
  qed (use Suc.prems in simp)
qed simp

section \<open>Whole runs of a task\<close>

lemma task_new_ok: "task_ok X (task_new i (engine_new role identity entropy) permit)"
  by (simp add: task_ok_def task_at_def task_new_def engine_ok_new)
    (simp add: engine_new_def engine_state_def)

lemma task_turn_ok:
  assumes "task_ok X t" "live t"
  shows "\<exists>t'. task_turn X E trn t = Some t' \<and> task_ok X t' \<and> live t'"
proof (cases trn)
  case (TRead chunk)
  let ?t = "t\<lparr>tk_decoder := decoder_push (tk_decoder t) chunk\<rparr>"
  have "task_ok X ?t" "live ?t" "length (tk_decoder ?t) + 1 < drain_fuel ?t"
    using assms by (simp_all add: task_ok_fields drain_fuel_def)
  from drain_frames_ends[OF this] TRead show ?thesis by (simp add: Let_def) blast
next
  case (TControl c)
  then show ?thesis using assms by (cases c rule: control_input.cases) (simp_all add: apply_input_ok)
qed (use assms in \<open>simp_all add: apply_input_ok fire_due_ok\<close>)

lemma task_begin_ok:
  assumes "task_ok X t" "\<not> tk_closing t" "task_begin X E announce t = Some t'"
  shows "task_ok X t' \<and> live t'"
proof (cases announce)
  case None
  then show ?thesis using assms by (auto simp: task_begin_def apply_input_ok)
next
  case (Some a)
  obtain remote outbound where a: "a = (remote, outbound)" by (cases a)
  let ?t = "t\<lparr>tk_emits := tk_emits t + 1, tk_events := tk_events t @ [Opened (tk_id t) remote outbound]\<rparr>"
  have "task_ok X ?t" using assms(1,2) by (simp add: task_ok_def task_at_def)
  then show ?thesis using assms(3) Some a
    by (auto simp: task_begin_def Let_def apply_input_ok split: if_splits)
qed

lemma task_run_ok:
  assumes "task_run X E t0 t" "t0 = task_new i (engine_new role identity entropy) permit"
  shows "task_ok X t \<and> live t"
  using assms
proof (induction rule: task_run.induct)
  case (started announce t1)
  then show ?case using task_begin_ok[OF task_new_ok] by (simp add: task_new_def)
next
  case (turn t t1 trn t2)
  then show ?case using task_turn_ok[of X t1 E trn] by auto
qed

section \<open>The facade\<close>

text \<open>At most four unauthenticated inbound connections hold a permit, whatever happens.\<close>

lemma apply_input_permit: "tk_permit (apply_input X E inp t) \<Longrightarrow> tk_permit t"
  by (auto simp: apply_input_def task_handle_def Let_def split_beta split: if_splits)

lemma drain_frames_permit: "drain_frames X E fuel t = Some t' \<Longrightarrow> tk_permit t' \<Longrightarrow> tk_permit t"
proof (induction X E fuel t rule: drain_frames.induct)
  case (2 X E fuel t)
  obtain r b where n: "next_frame (tk_decoder t) = (r, b)" by (cases "next_frame (tk_decoder t)")
  have earlier: "tk_permit (apply_input X E inp (t\<lparr>tk_decoder := b\<rparr>)) \<Longrightarrow> tk_permit t" for inp
    by (auto dest: apply_input_permit)
  show ?case
  proof (cases "tk_closing t")
    case False
    show ?thesis
    proof (cases r)
      case (Inl e)
      then show ?thesis using 2 False n earlier by (cases e) auto
    next
      case (Inr x)
      then show ?thesis using 2 False n earlier by (cases x) auto
    qed
  qed (use 2 in simp)
qed simp

lemma fire_due_permit: "tk_permit (fire_due X E t) \<Longrightarrow> tk_permit t"
proof -
  have "tk_permit (fold (fire_one X E) due t) \<Longrightarrow> tk_permit t" for due t
    by (induction due arbitrary: t) (fastforce simp: fire_one_def dest!: apply_input_permit)+
  then show "tk_permit (fire_due X E t) \<Longrightarrow> tk_permit t" by (fastforce simp: fire_due_def clock_def)
qed

lemma task_turn_permit: "task_turn X E trn t = Some t' \<Longrightarrow> tk_permit t' \<Longrightarrow> tk_permit t"
  by (cases trn) (auto simp: Let_def dest: apply_input_permit drain_frames_permit fire_due_permit)

lemma task_begin_permit: "task_begin X E announce t = Some t' \<Longrightarrow> tk_permit t' \<Longrightarrow> tk_permit t"
  by (auto simp: task_begin_def Let_def split: option.splits if_splits dest!: apply_input_permit)

lemma permits_update:
  assumes "i < length (net_tasks n)" "tk_permit t \<Longrightarrow> tk_permit (net_tasks n ! i)"
  shows "permits_taken (n\<lparr>net_tasks := (net_tasks n)[i := t]\<rparr>) \<le> permits_taken n"
proof -
  have "length (filter P (xs[i := x])) \<le> length (filter P xs)"
    if "i < length xs" "P x \<Longrightarrow> P (xs ! i)" for P i and x :: task and xs
    using that
  proof (induction xs arbitrary: i)
    case (Cons a xs)
    then show ?case by (cases i) auto
  qed simp
  then show ?thesis using assms by (simp add: permits_taken_def)
qed

lemma permits_spawn:
  "permits_taken (snd (net_spawn n role entropy permit)) = permits_taken n + (if permit then 1 else 0)"
  by (simp add: net_spawn_def Let_def permits_taken_def task_new_def)

lemma net_step_permits:
  assumes "net_step X E n n'" "permits_taken n \<le> MAX_UNAUTHENTICATED_HANDSHAKES"
  shows "permits_taken n' \<le> MAX_UNAUTHENTICATED_HANDSHAKES"
  using assms
proof cases
  case (accepted local r failures failures')
  with assms(2) show ?thesis
    by (auto simp: accept_turn_def Let_def permits_spawn split: sum.splits if_splits)
next
  case (dialed addr attempt)
  with assms(2) show ?thesis
    by (auto simp: dial_def permits_spawn permits_taken_def split: sum.splits)
      (simp add: permits_taken_def[symmetric] permits_spawn)
next
  case (adopted role entropy h)
  then have "n' = snd (net_spawn n role entropy False)" by (simp add: adopt_def)
  with assms(2) show ?thesis by (simp add: permits_spawn)
next
  case (begun i announce t)
  with assms(2) permits_update[OF begun(2), of t] task_begin_permit[OF begun(4)] show ?thesis by simp
next
  case (turned i trn t)
  with assms(2) permits_update[OF turned(2), of t] task_turn_permit[OF turned(5)] show ?thesis by simp
next
  case (dropped i)
  then have "net_tasks n = take i (net_tasks n) @ net_tasks n ! i # drop (Suc i) (net_tasks n)"
    by (simp add: id_take_nth_drop)
  then have "permits_taken n = length (filter tk_permit (take i (net_tasks n) @ net_tasks n ! i # drop (Suc i) (net_tasks n)))"
    by (metis permits_taken_def)
  with dropped assms(2) show ?thesis by (simp add: permits_taken_def split: if_splits)
qed

text \<open>The listener gives up exactly at the twentieth failure in a row.\<close>

lemma accept_turn_failed:
  "accept_turn local (Inl kind) (k, n) =
     (if k + 1 < MAX_ACCEPT_FAILURES then Inl (k + 1, n)
      else Inr (n\<lparr>net_events := net_events n @ [ListenerStopped local (Some kind)]\<rparr>))"
  by (auto simp: accept_turn_def Let_def)

lemma accept_turn_accepted: "\<exists>n'. accept_turn local (Inr entropy) s = Inl (0, n')"
  by (simp add: accept_turn_def)

lemma accept_loop_append:
  "accept_loop local (rs @ rs') s =
     (case accept_loop local rs s of Inl s \<Rightarrow> accept_loop local rs' s | Inr n \<Rightarrow> Inr n)"
  by (induction rs arbitrary: s) (simp_all split: sum.split)

lemma accept_failures_survived:
  "length ks + k < MAX_ACCEPT_FAILURES \<Longrightarrow> accept_loop local (map Inl ks) (k, n) = Inl (k + length ks, n)"
  by (induction ks arbitrary: k) (simp_all add: accept_turn_failed)

lemma accept_loop_count:
  assumes "accept_loop local rs (k, n) = Inl (k', n')" "k < MAX_ACCEPT_FAILURES"
  shows "k' < MAX_ACCEPT_FAILURES"
  using assms
proof (induction rs arbitrary: k n)
  case (Cons r rs)
  then show ?case
  proof (cases r)
    case (Inl kind)
    with Cons show ?thesis by (simp add: accept_turn_failed split: if_splits)
  next
    case (Inr entropy)
    obtain n2 where "accept_turn local (Inr entropy) (k, n) = Inl (0, n2)" using accept_turn_accepted by blast
    with Inr Cons show ?thesis by (simp add: MAX_ACCEPT_FAILURES_def)
  qed
qed simp

text \<open>A send to a full queue is refused and leaves the handle as it was.\<close>

definition handle_ok :: "connection_handle \<Rightarrow> bool" where
  "handle_ok h \<longleftrightarrow> length (hd_messages h) \<le> MESSAGE_QUEUE \<and> length (hd_control h) \<le> CONTROL_QUEUE"

lemma try_send_cases:
  "try_send capacity gone queue x =
     (if \<not> gone \<and> length queue < capacity then (Inr (), queue @ [x])
      else (Inl (if gone then TClosed else TFull), queue))"
  by (simp add: try_send_def)

lemma send_message_cases:
  "send_message h content =
     (if \<not> hd_gone h \<and> length (hd_messages h) < MESSAGE_QUEUE
      then (Inr (), h\<lparr>hd_messages := hd_messages h @ [content]\<rparr>)
      else (Inl (if hd_gone h then Gone else Busy), h))"
  by (simp add: send_message_def try_send_cases map_try_send_def)

lemma send_control_cases:
  "send_control h command =
     (if \<not> hd_gone h \<and> length (hd_control h) < CONTROL_QUEUE
      then (Inr (), h\<lparr>hd_control := hd_control h @ [command]\<rparr>)
      else (Inl (if hd_gone h then Gone else Busy), h))"
  by (simp add: send_control_def try_send_cases map_try_send_def)

end
