(* ===== verification/Machine_Runs.thy ===== *)
theory Machine_Runs
  imports Machine_Trace Net_Task
begin

text \<open>
  Facts about whole runs of the engine: where an effect comes from, that the connection ends once and
  for good, that one peer is established, and that the driver's table follows the history.
\<close>

lemma effect_origin:
  assumes "engine_run X role identity entropy h en" "e \<in> set (effects h)"
  shows "\<exists>h1 inp out h2 en1 en2. h = h1 @ (inp, out) # h2 \<and> engine_run X role identity entropy h1 en1 \<and>
    handle X inp en1 = (en2, out) \<and> e \<in> set out"
proof -
  obtain x where "x \<in> set h" "e \<in> set (snd x)" using assms(2) by (auto simp: effects_def)
  then obtain h1 inp out h2 where h: "h = h1 @ (inp, out) # h2" "e \<in> set out"
    by (metis prod.collapse split_list)
  with run_prefix assms(1) show ?thesis by fast
qed

lemma approved_append: "approved h w p \<Longrightarrow> approved (h @ h') w p"
  by (fastforce simp: approved_def)

text \<open>
  What the engine has when it reports a peer: an answered question, the only one, about the peer and
  the words of the transcript that the first session's keys come from.
\<close>

lemma established_step:
  assumes "engine_run X role identity entropy h en" "handle X inp en = (en', out)"
    "Notify (Established p) \<in> set out"
  shows "\<exists>hash. approved h (sas_words X hash) p \<and> only_question (effects (h @ [(inp, out)])) (sas_words X hash) p \<and>
    first_session X hash p en'"
proof -
  have ok: "engine_ok X en" by (rule run_ok_engine[OF assms(1)])
  have step: "abs_step X (abs_state en) inp out (abs_state en')" using handle_step[OF ok assms(2)] by blast
  with assms(3) obtain hash where s: "abs_state en = AApproved hash p" "abs_state en' = AActive p"
    using established_from_approved by blast
  have "\<forall>q. RequestSas v q \<notin> set out" for v using step unfolding s by cases auto
  moreover have "first_session X hash p en'"
    using handle_refines_abs[OF ok, of inp] assms(2) s by (simp add: refines_def)
  ultimately show ?thesis
    using gate_run[OF assms(1)] by (auto simp: gate_def s(1) only_question_def)
qed

lemma accepted_run:
  assumes "engine_run X role identity entropy h en" "Notify (Established p) \<in> set (effects h)"
  shows "accepted X h p"
  using gate_run[OF assms(1)] assms(2)
  by (auto simp: gate_def names_none_def names_only_def split: astate.splits)

lemma delivered_only_after_approval:
  assumes "engine_run X role identity entropy h en" "Deliver m \<in> set (effects h)"
  shows "\<exists>w p. approved h w p"
proof -
  obtain h1 inp out h2 en1 en2 where o: "h = h1 @ (inp, out) # h2" "engine_run X role identity entropy h1 en1"
    "handle X inp en1 = (en2, out)" "Deliver m \<in> set out" using effect_origin[OF assms] by blast
  obtain p where "abs_state en1 = AActive p"
    using handle_step[OF run_ok_engine[OF o(2)] o(3)] deliver_from_active o(4) by blast
  then have "accepted X h1 p" using gate_run[OF o(2)] by (simp add: gate_def)
  then show ?thesis unfolding o(1) accepted_def by (blast intro: approved_append)
qed

section \<open>The end\<close>

lemma abs_step_ends:
  assumes "abs_step X s inp out s'" "s \<noteq> AClosed"
  shows "if s' = AClosed then \<exists>out1 cause. out = out1 @ [Notify (Closed cause), CloseTransport] \<and>
      CloseTransport \<notin> set out1 \<and> (\<forall>c. Notify (Closed c) \<notin> set out1)
    else CloseTransport \<notin> set out \<and> (\<forall>c. Notify (Closed c) \<notin> set out)"
proof (cases "s' = AClosed")
  case True
  with abs_step_final[OF assms] obtain out1 cause where out: "out = out1 @ [Notify (Closed cause), CloseTransport]"
    and none: "\<forall>e \<in> set out1. \<forall>c. e \<noteq> Notify (Closed c)" by (auto simp: butlast_append)
  have "CloseTransport \<notin> set out1"
    using assms True out by (cases rule: abs_step.cases) (auto elim!: closing_effect.elims dest!: bspec)
  with True out none show ?thesis by auto
next
  case False
  with abs_step_final[OF assms] closing_step[OF assms(1)] show ?thesis by auto
qed

definition ended_once :: "effect list \<Rightarrow> bool" where
  "ended_once out \<longleftrightarrow> (\<exists>out1 cause. out = out1 @ [Notify (Closed cause), CloseTransport] \<and>
     CloseTransport \<notin> set out1 \<and> (\<forall>c. Notify (Closed c) \<notin> set out1))"

definition not_ended :: "effect list \<Rightarrow> bool" where
  "not_ended out \<longleftrightarrow> CloseTransport \<notin> set out \<and> (\<forall>c. Notify (Closed c) \<notin> set out)"

lemma run_ends:
  assumes "engine_run X role identity entropy h en"
  shows "if engine_state en = SClosed then ended_once (effects h) else not_ended (effects h)"
  using assms
proof (induction rule: engine_run.induct)
  case created
  then show ?case by (simp add: engine_state_def engine_new_def not_ended_def)
next
  case (input h en inp en' out)
  show ?case
  proof (cases "engine_state en = SClosed")
    case True
    with input handle_closed[OF True, of X inp] show ?thesis by simp
  next
    case False
    then have s: "abs_state en \<noteq> AClosed" by (simp add: engine_state_abs(1))
    have step: "abs_step X (abs_state en) inp out (abs_state en')"
      using handle_step[OF run_ok_engine[OF input.hyps(1)] input.hyps(2)] by blast
    show ?thesis
      using abs_step_ends[OF step s] input.IH False
      by (auto simp: engine_state_abs(1) ended_once_def not_ended_def split: if_splits)
  qed
next
  case (limit h en n)
  then show ?case by (simp add: engine_state_abs(1))
qed

section \<open>One peer\<close>

definition established_peers :: "effect list \<Rightarrow> peer_identity list" where
  "established_peers out = concat (map (\<lambda>e. case e of Notify (Established p) \<Rightarrow> [p] | _ \<Rightarrow> []) out)"

lemma established_peers_simps [simp]:
  "established_peers [] = []" "established_peers (out @ out') = established_peers out @ established_peers out'"
  "established_peers [Notify (Established p)] = [p]"
  by (simp_all add: established_peers_def)

lemma set_established_peers: "p \<in> set (established_peers out) \<longleftrightarrow> Notify (Established p) \<in> set out"
  by (induction out) (auto simp: established_peers_def split: effect.splits event.splits)

lemma established_peers_none:
  "(\<And>p. Notify (Established p) \<notin> set out) \<Longrightarrow> established_peers out = []"
  by (induction out) (auto simp: established_peers_def split: effect.split event.split)

lemma abs_step_peers:
  assumes "abs_step X s inp out s'"
  shows "(\<exists>hash p. s = AApproved hash p \<and> s' = AActive p \<and> established_peers out = [p]) \<or>
    established_peers out = [] \<and> (s' = AClosed \<or> (\<forall>p. s' = AActive p \<longleftrightarrow> s = AActive p))"
  using assms
proof (cases rule: abs_step.cases)
  case (establish out1 hash p f)
  then have "established_peers out1 = []" by (intro established_peers_none) auto
  with establish show ?thesis by auto
next
  case (ending out1 cause)
  have "established_peers out = []"
    using assms ending established_from_approved by (intro established_peers_none) fastforce
  with ending show ?thesis by simp
qed (auto intro!: established_peers_none)

lemma run_peers:
  assumes "engine_run X role identity entropy h en"
  shows "case abs_state en of AActive p \<Rightarrow> established_peers (effects h) = [p]
    | AClosed \<Rightarrow> length (established_peers (effects h)) \<le> 1
    | _ \<Rightarrow> established_peers (effects h) = []"
  using assms
proof (induction rule: engine_run.induct)
  case created
  then show ?case by (simp add: abs_state_def engine_new_def)
next
  case (input h en inp en' out)
  have step: "abs_step X (abs_state en) inp out (abs_state en')"
    using handle_step[OF run_ok_engine[OF input.hyps(1)] input.hyps(2)] by blast
  show ?case
  proof (cases "abs_state en = AClosed")
    case True
    then have "engine_state en = SClosed" by (simp add: engine_state_abs(1))
    then have "en' = en" "out = []" using input.hyps(2) handle_closed[of en X inp] by simp_all
    with input.IH True show ?thesis by simp
  next
    case False
    with abs_step_peers[OF step] input.IH show ?thesis
      by (cases "abs_state en"; cases "abs_state en'") auto
  qed
qed simp

section \<open>The driver's table over a history\<close>

definition driver :: "history \<Rightarrow> deadline_table" where
  "driver h = fold (\<lambda>(inp, out) T. replay (driver_table inp T) out) h []"

lemma run_driver:
  assumes "engine_run X role identity entropy h en"
  shows "driver h = en_deadlines en"
  using assms
proof (induction rule: engine_run.induct)
  case created
  then show ?case by (simp add: driver_def engine_new_def)
next
  case (input h en inp en' out)
  then show ?case using handle_step[OF run_ok_engine[OF input.hyps(1)] input.hyps(2)]
    by (simp add: driver_def)
qed simp

text \<open>An established session is authentic.\<close>

lemma run_session:
  assumes "engine_run X role identity entropy h en" "en_phase en = PhEstablished"
  shows "\<exists>p a. peer_identity en = Some p \<and> en_active en = Some a \<and> sn_peer a = p \<and> accepted X h p \<and>
    session_ok X (identity_of X (en_identity en)) a"
proof -
  have ok: "engine_ok X en" by (rule run_ok_engine[OF assms(1)])
  then obtain p a where a: "en_active en = Some a" "sn_peer a = p" "session_ok X (identity_of X (en_identity en)) a"
    using assms(2) by (auto simp: engine_ok_def est_core_def)
  then have "abs_state en = AActive p" using assms(2) by (simp add: abs_state_def peer_identity_def)
  then have "accepted X h p" using gate_run[OF assms(1)] by (simp add: gate_def)
  with a show ?thesis by (auto simp: peer_identity_def)
qed

end
