(* ===== verification/Machine_Handshake.thy ===== *)
theory Machine_Handshake
  imports Machine_Trace Handshake_Codecs
begin

text \<open>
  The initial handshake between two honest engines, from \<^verbatim>\<open>Start\<close> on both sides to two
  active sessions with the same identifier and mirrored keys: every frame one side sends is accepted
  by the other, and both users are shown the same words.
\<close>

section \<open>The frames an input makes the engine send\<close>

fun sent :: "effect \<Rightarrow> frame list" where
  "sent (Send f) = [f]"
| "sent _ = []"

definition sends :: "effect list \<Rightarrow> frame list" where
  "sends out = concat (map sent out)"

lemma sends_simps [simp]:
  "sends [] = []" "sends (out @ out') = sends out @ sends out'" "sends (e # out) = sent e @ sends out"
  by (simp_all add: sends_def)

lemma sends_cancels [simp]: "sends (map (\<lambda>(i, k). CancelDeadline i) ds) = []"
  by (induction ds) auto

lemma sends_cancel [simp]: "sends (snd (cancel k c)) = sends (snd c)"
  by (simp add: cancel_def Let_def)

lemma sends_arm [simp]: "sends (snd (arm k a c)) = sends (snd c)"
  using sends_cancel[of k c] by (simp add: arm_def Let_def)

lemma sends_rearm [simp]: "sends (snd (rearm_frame_deadline p st c)) = sends (snd c)"
  by (simp add: rearm_cases)

text \<open>What an input makes the engine report, or end: all but frames and deadlines.\<close>

fun noticed :: "effect \<Rightarrow> bool" where
  "noticed (Send f) = False"
| "noticed (SetDeadline i k n) = False"
| "noticed (CancelDeadline i) = False"
| "noticed _ = True"

abbreviation notices :: "effect list \<Rightarrow> effect list" where
  "notices out \<equiv> filter noticed out"

lemma notices_set: "set (notices out) \<subseteq> set out"
  by (rule filter_is_subset)

lemma notices_cancels [simp]: "notices (map (\<lambda>(i, k). CancelDeadline i) ds) = []"
  by (induction ds) auto

lemma notices_cancel [simp]: "notices (snd (cancel k c)) = notices (snd c)"
  by (simp add: cancel_def Let_def)

lemma notices_arm [simp]: "notices (snd (arm k a c)) = notices (snd c)"
  using notices_cancel[of k c] by (simp add: arm_def Let_def)

lemma notices_rearm [simp]: "notices (snd (rearm_frame_deadline p st c)) = notices (snd c)"
  by (simp add: rearm_cases)

text \<open>The frames of one side fed to the other, in order.\<close>

fun feed :: "ext \<Rightarrow> frame list \<Rightarrow> engine \<Rightarrow> engine \<times> effect list" where
  "feed X [] en = (en, [])"
| "feed X (f # fs) en =
     (let (en, out) = handle X (FrameReceived f) en; (en, out') = feed X fs en in (en, out @ out'))"

section \<open>The parties\<close>

definition entropy_secret :: "(nat \<Rightarrow> u8) \<Rightarrow> bytes" where
  "entropy_secret e = map e [0..<32]"

definition entropy_nonce :: "(nat \<Rightarrow> u8) \<Rightarrow> bytes" where
  "entropy_nonce e = map (\<lambda>i. e (i + 32)) [0..<16]"

definition party_hello :: "ext \<Rightarrow> hello_role \<Rightarrow> identity_keypair \<Rightarrow> (nat \<Rightarrow> u8) \<Rightarrow> hello_payload" where
  "party_hello X role seed e =
     \<lparr>h_cipher_suite = 1, h_purpose = PInitial, h_role = role, h_identity = identity_of X seed,
      h_ephemeral = x_public X (entropy_secret e), h_nonce = entropy_nonce e, h_previous = None\<rparr>"

definition hello_frame :: "hello_payload \<Rightarrow> frame" where
  "hello_frame h = \<lparr>f_version = V1, f_type = message_type_for_purpose (h_purpose h),
     f_payload = payload_bytes (hello_entries h)\<rparr>"

definition party_commit :: "ext \<Rightarrow> hello_payload \<Rightarrow> commit_payload" where
  "party_commit X h = \<lparr>m_cipher_suite = 1, m_purpose = PInitial,
     m_commitment = commit_hash X (f_payload (hello_frame h)), m_previous = None\<rparr>"

definition commit_frame :: "commit_payload \<Rightarrow> frame" where
  "commit_frame c = \<lparr>f_version = V1, f_type = message_type_for_purpose (m_purpose c),
     f_payload = payload_bytes (commit_entries c)\<rparr>"

definition auth_frame :: "handshake_payload \<Rightarrow> frame" where
  "auth_frame a = \<lparr>f_version = V1, f_type = message_type_for_purpose (a_purpose a),
     f_payload = payload_bytes (auth_entries a)\<rparr>"

definition confirm_frame :: "confirm_payload \<Rightarrow> frame" where
  "confirm_frame s = \<lparr>f_version = V1, f_type = MSessionConfirm, f_payload = payload_bytes (confirm_entries s)\<rparr>"

text \<open>What the two parties agree on.\<close>

definition joint_transcript :: "hello_payload \<Rightarrow> hello_payload \<Rightarrow> transcript" where
  "joint_transcript i r =
     \<lparr>t_purpose = PInitial, t_cipher_suite = 1,
        t_initiator_identity = h_identity i, t_responder_identity = h_identity r,
        t_initiator_ephemeral = h_ephemeral i, t_responder_ephemeral = h_ephemeral r,
        t_initiator_nonce = h_nonce i, t_responder_nonce = h_nonce r, t_previous_session_id = None\<rparr>"

definition joint_hash :: "ext \<Rightarrow> hello_payload \<Rightarrow> hello_payload \<Rightarrow> bytes" where
  "joint_hash X i r = transcript_hash X (payload_bytes (transcript_entries (joint_transcript i r)))"

text \<open>
  Two honest parties: different identities and ephemeral keys, and a shared secret that is not the
  zero one, which the code rejects.
\<close>

definition honest_pair ::
  "ext \<Rightarrow> identity_keypair \<Rightarrow> (nat \<Rightarrow> u8) \<Rightarrow> identity_keypair \<Rightarrow> (nat \<Rightarrow> u8) \<Rightarrow> bool" where
  "honest_pair X sa ea sb eb \<longleftrightarrow> cbor_ok X \<and> crypto_ok X \<and> length sa = 32 \<and> length sb = 32 \<and>
     identity_of X sa \<noteq> identity_of X sb \<and>
     x_public X (entropy_secret ea) \<noteq> x_public X (entropy_secret eb) \<and>
     x_was_contributory X (x_diffie_hellman X (entropy_secret ea) (x_public X (entropy_secret eb)))"

lemma fresh_keys_values:
  "fresh_keys X c = ((ephemeral_from_bytes X (entropy_secret (en_entropy (fst c))), entropy_nonce (en_entropy (fst c))),
     upd (\<lambda>en. en\<lparr>en_entropy := (\<lambda>i. en_entropy en (i + 48))\<rparr>) c)"
  by (simp add: fresh_keys_def fill_def Let_def entropy_secret_def entropy_nonce_def add.assoc)

lemma entropy_lengths [simp]: "length (entropy_secret e) = 32" "length (entropy_nonce e) = 16"
  by (simp_all add: entropy_secret_def entropy_nonce_def)

lemma party_hello_wf: "crypto_ok X \<Longrightarrow> length seed = 32 \<Longrightarrow> hello_wf (party_hello X role seed e)"
  by (simp add: hello_wf_def party_hello_def crypto_ok_x_public crypto_ok_public identity_of_def)

lemma party_commit_wf: "crypto_ok X \<Longrightarrow> commit_wf (party_commit X h)"
  by (simp add: commit_wf_def party_commit_def commit_hash_def crypto_ok_hash)

lemma hello_codec:
  assumes "cbor_ok X" "crypto_ok X" "length seed = 32"
  shows "hello_encode X (party_hello X role seed e) = Inr (hello_frame (party_hello X role seed e))"
    "hello_decode X (hello_frame (party_hello X role seed e)) = Inr (party_hello X role seed e)"
proof -
  have wf: "hello_wf (party_hello X role seed e)" by (rule party_hello_wf[OF assms(2,3)])
  show enc: "hello_encode X (party_hello X role seed e) = Inr (hello_frame (party_hello X role seed e))"
    using hello_encode_iff[OF assms(1) wf]
    by (simp add: hello_frame_def party_hello_def purpose_mismatch_def)
  show "hello_decode X (hello_frame (party_hello X role seed e)) = Inr (party_hello X role seed e)"
    by (rule hello_decode_encode[OF assms(1) wf enc])
qed

lemma commit_codec:
  assumes "cbor_ok X" "crypto_ok X"
  shows "commit_encode X (party_commit X h) = Inr (commit_frame (party_commit X h))"
    "commit_decode X (commit_frame (party_commit X h)) = Inr (party_commit X h)"
proof -
  have wf: "commit_wf (party_commit X h)" by (rule party_commit_wf[OF assms(2)])
  show enc: "commit_encode X (party_commit X h) = Inr (commit_frame (party_commit X h))"
    using commit_encode_iff[OF assms(1) wf]
    by (simp add: commit_frame_def party_commit_def purpose_mismatch_def)
  show "commit_decode X (commit_frame (party_commit X h)) = Inr (party_commit X h)"
    by (rule commit_decode_encode[OF assms(1) wf enc])
qed

lemma auth_codec:
  assumes "cbor_ok X" "transcript_wf t" "t_purpose t = PInitial" "t_cipher_suite t = 1"
    "t_previous_session_id t = None" "length s1 = 64"
    "case s2 of None \<Rightarrow> stage = 0 | Some s \<Rightarrow> stage = 1 \<and> length s = 64"
  shows "auth_encode X (auth_from_transcript t stage s1 s2) = Inr (auth_frame (auth_from_transcript t stage s1 s2))"
    "auth_decode X (auth_frame (auth_from_transcript t stage s1 s2)) = Inr (auth_from_transcript t stage s1 s2)"
proof -
  let ?a = "auth_from_transcript t stage s1 s2"
  have tr: "auth_transcript ?a = t" by (cases t) (simp add: auth_transcript_def auth_from_transcript_def)
  have wf: "auth_wf ?a"
    using assms unfolding auth_wf_def tr by (auto simp: auth_from_transcript_def split: option.splits)
  have "auth_sendable ?a"
    using assms by (auto simp: auth_sendable_def auth_from_transcript_def purpose_mismatch_def split: option.splits)
  then show enc: "auth_encode X ?a = Inr (auth_frame ?a)"
    using auth_encode_iff[OF assms(1) wf] by (simp add: auth_frame_def)
  show "auth_decode X (auth_frame ?a) = Inr ?a"
    by (rule auth_decode_encode[OF assms(1) wf enc])
qed

lemma confirm_codec:
  assumes "cbor_ok X" "length sid = 16" "length mac = 32"
  shows "confirm_encode X \<lparr>s_session_id = sid, s_role = role, s_confirmation = mac\<rparr> =
      Inr (confirm_frame \<lparr>s_session_id = sid, s_role = role, s_confirmation = mac\<rparr>)"
    "confirm_decode X (confirm_frame \<lparr>s_session_id = sid, s_role = role, s_confirmation = mac\<rparr>) =
      Inr \<lparr>s_session_id = sid, s_role = role, s_confirmation = mac\<rparr>"
proof -
  let ?s = "\<lparr>s_session_id = sid, s_role = role, s_confirmation = mac\<rparr>"
  have wf: "confirm_wf ?s" using assms by (simp add: confirm_wf_def)
  show enc: "confirm_encode X ?s = Inr (confirm_frame ?s)"
    by (simp add: confirm_encode_eq[OF assms(1) wf] confirm_frame_def)
  show "confirm_decode X (confirm_frame ?s) = Inr ?s"
    by (rule confirm_decode_encode[OF assms(1) wf enc])
qed

section \<open>Generic progress\<close>

definition hs_at :: "engine \<Rightarrow> identity_keypair \<Rightarrow> run \<Rightarrow> bool" where
  "hs_at en seed r \<longleftrightarrow> en_phase en = PhHandshaking \<and> en_identity en = seed \<and> en_run en = Some r \<and>
     en_rekey_message_limit en = REKEY_MESSAGE_LIMIT"

text \<open>A step that goes on puts the run back.\<close>

lemma hs_progress:
  assumes "hs_at en seed r" "f_type f \<noteq> MClose"
    "step_run X r f (en\<lparr>en_run := None\<rparr>, []) = (Inr (None, r'), c')"
    "en_phase (fst c') = PhHandshaking" "en_identity (fst c') = seed"
    "en_rekey_message_limit (fst c') = REKEY_MESSAGE_LIMIT"
  shows "hs_at (fst (handle X (FrameReceived f) en)) seed r' \<and>
    snd (handle X (FrameReceived f) en) = snd c'"
  using assms
  by (simp add: hs_at_def handle_def on_frame_def on_frame_handshaking_def drive_run_def Let_def)

text \<open>A step that ends the handshake makes its candidate the session.\<close>

definition fresh_count :: "engine \<Rightarrow> bool" where
  "fresh_count en \<longleftrightarrow> en_messages en = 0 \<and> en_rekey_message_limit en = REKEY_MESSAGE_LIMIT"

lemma hs_finish:
  assumes "hs_at en seed r" "f_type f \<noteq> MClose"
    "step_run X r f (en\<lparr>en_run := None\<rparr>, []) = (Inr (Some cand, r'), c')"
    "fst c' = en\<lparr>en_run := None\<rparr>"
  shows "let (en', out) = handle X (FrameReceived f) en in
    engine_state en' = SActive \<and>
    en_active en' = Some (session_new (ca_keys cand) (ca_role cand) (ca_peer cand)) \<and> fresh_count en' \<and>
    Notify (Established (ca_peer cand)) \<in> set out \<and> sends out = sends (snd c') \<and>
    notices out = notices (snd c') @ [Notify (Established (ca_peer cand))]"
proof -
  have op: "handle X (FrameReceived f) en = complete_initial cand c'"
    using assms by (simp add: hs_at_def handle_def on_frame_def on_frame_handshaking_def drive_run_def Let_def)
  show ?thesis
    unfolding op using assms(1,4)
    by (simp add: complete_initial_def Let_def split_beta engine_state_def fresh_count_def hs_at_def)
qed

section \<open>The runs of the two parties\<close>

definition first_run ::
  "ext \<Rightarrow> hello_role \<Rightarrow> identity_keypair \<Rightarrow> (nat \<Rightarrow> u8) \<Rightarrow> frame option \<Rightarrow> commit_payload option \<Rightarrow> step \<Rightarrow> run" where
  "first_run X role seed e own commit st =
     \<lparr>ru_purpose = PInitial, ru_role = role, ru_previous = None,
      ru_ephemeral = ephemeral_from_bytes X (entropy_secret e), ru_local_hello = party_hello X role seed e,
      ru_local_hello_frame = own, ru_commit = commit, ru_step = st, ru_remote_identity = None,
      ru_shared = None, ru_transcript = None, ru_hash = None, ru_keys = None, ru_early = None\<rparr>"

definition joined_run ::
  "ext \<Rightarrow> run \<Rightarrow> bytes \<Rightarrow> hello_payload \<Rightarrow> hello_payload \<Rightarrow> peer_identity \<Rightarrow> session_keys option \<Rightarrow> step \<Rightarrow> run" where
  "joined_run X r shared i r' peer keys st =
     r\<lparr>ru_local_hello_frame := None, ru_shared := Some shared, ru_transcript := Some (joint_transcript i r'),
       ru_hash := Some (joint_hash X i r'), ru_remote_identity := Some peer, ru_keys := keys, ru_step := st\<rparr>"

lemma initiator_starts:
  assumes X: "cbor_ok X" "crypto_ok X" "length sa = 32"
    and h_def: "h = party_hello X Initiator sa ea"
  shows "let (en, out) = handle X Start (engine_new Initiator sa ea) in
    hs_at en sa (first_run X Initiator sa ea (Some (hello_frame h)) None Hello) \<and>
    sends out = [commit_frame (party_commit X h)] \<and> notices out = []"
  using hello_codec(1)[OF X, of Initiator ea] commit_codec(1)[OF X(1,2), of h]
  by (simp add: handle_def engine_new_def start_def start_initiator_run_def fresh_keys_values Let_def
      hs_at_def first_run_def h_def party_hello_def party_commit_def ephemeral_from_bytes_def split_beta)

lemma responder_starts:
  "let (en, out) = handle X Start (engine_new Responder sb eb) in
    en_phase en = PhHandshaking \<and> en_identity en = sb \<and> en_entropy en = eb \<and> en_run en = None \<and>
    en_rekey_message_limit en = REKEY_MESSAGE_LIMIT \<and> sends out = []"
  by (simp add: handle_def engine_new_def start_def Let_def split_beta)

lemma responder_commits:
  assumes X: "cbor_ok X" "crypto_ok X" "length sb = 32"
    and en: "en_phase en = PhHandshaking" "en_identity en = sb" "en_entropy en = eb" "en_run en = None"
      "en_rekey_message_limit en = REKEY_MESSAGE_LIMIT"
  shows "let (en', out) = handle X (FrameReceived (commit_frame (party_commit X h))) en in
    hs_at en' sb (first_run X Responder sb eb None (Some (party_commit X h)) Reveal) \<and>
    sends out = [hello_frame (party_hello X Responder sb eb)]"
proof -
  have hello: "hello_encode X \<lparr>h_cipher_suite = 1, h_purpose = PInitial, h_role = Responder,
      h_identity = identity_of X sb, h_ephemeral = x_public X (entropy_secret eb),
      h_nonce = entropy_nonce eb, h_previous = None\<rparr> = Inr (hello_frame (party_hello X Responder sb eb))"
    using hello_codec(1)[OF X, of Responder eb] by (simp add: party_hello_def)
  show ?thesis
    using en commit_codec(2)[OF X(1,2), of h] hello
    by (simp add: handle_def on_frame_def on_frame_handshaking_def accept_first_commit_def
        start_responder_run_def fresh_keys_values Let_def split_beta hs_at_def first_run_def
        commit_frame_def message_type_for_purpose_def party_commit_def ephemeral_from_bytes_def
        party_hello_def)
qed

lemma joint_transcript_wf:
  assumes "crypto_ok X" "length sa = 32" "length sb = 32"
  shows "transcript_wf (joint_transcript (party_hello X Initiator sa ea) (party_hello X Responder sb eb))"
  using assms
  by (simp add: transcript_wf_def joint_transcript_def party_hello_def identity_of_def crypto_ok_public
      crypto_ok_x_public u64_max_def)

lemma joint_transcript_encode:
  assumes "cbor_ok X" "crypto_ok X" "length sa = 32" "length sb = 32"
    and t_def: "t = joint_transcript (party_hello X Initiator sa ea) (party_hello X Responder sb eb)"
  shows "transcript_encode X t = Inr (payload_bytes (transcript_entries t))"
  unfolding t_def by (rule transcript_encode_entries[OF assms(1) joint_transcript_wf[OF assms(2-4)]])

lemma hello_frame_simps [simp]: "f_type (hello_frame (party_hello X role seed e)) = MHandshake"
  by (simp add: hello_frame_def party_hello_def message_type_for_purpose_def)

text \<open>Both sides ask their user about the other's identity, with the same words.\<close>

lemma initiator_asks:
  assumes hp: "honest_pair X sa ea sb eb"
    and at: "hs_at en sa (first_run X Initiator sa ea (Some (hello_frame ha)) None Hello)"
    and ha: "ha = party_hello X Initiator sa ea" and hb: "hb = party_hello X Responder sb eb"
  shows "let (en', out) = handle X (FrameReceived (hello_frame hb)) en in
    hs_at en' sa (joined_run X (first_run X Initiator sa ea None None Hello)
        (x_diffie_hellman X (entropy_secret ea) (x_public X (entropy_secret eb))) ha hb (identity_of X sb) None Sas) \<and>
    sends out = [hello_frame ha] \<and> notices out = [RequestSas (sas_words X (joint_hash X ha hb)) (identity_of X sb)]"
proof -
  have X: "cbor_ok X" "crypto_ok X" "length sa = 32" "length sb = 32"
    and ne: "identity_of X sa \<noteq> identity_of X sb" "x_public X (entropy_secret ea) \<noteq> x_public X (entropy_secret eb)"
    and con: "x_was_contributory X (x_diffie_hellman X (entropy_secret ea) (x_public X (entropy_secret eb)))"
    using hp by (auto simp: honest_pair_def)
  let ?r = "first_run X Initiator sa ea (Some (hello_frame ha)) None Hello"
  let ?c = "(en\<lparr>en_run := None\<rparr>, [Send (hello_frame ha)])"
  let ?r' = "joined_run X (first_run X Initiator sa ea None None Hello)
        (x_diffie_hellman X (entropy_secret ea) (x_public X (entropy_secret eb))) ha hb (identity_of X sb) None Sas"
  have dec: "hello_decode X (hello_frame hb) = Inr hb"
    unfolding hb by (rule hello_codec(2)[OF X(1,2,4)])
  have enc: "transcript_encode X (joint_transcript ha hb) = Inr (payload_bytes (transcript_entries (joint_transcript ha hb)))"
    unfolding ha hb by (rule joint_transcript_encode[OF X refl])
  have tr: "transcript_from_hellos ha hb = Inr (joint_transcript ha hb)"
    by (simp add: ha hb transcript_from_hellos_def party_hello_def joint_transcript_def)
  have st: "step_run X ?r (hello_frame hb) (en\<lparr>en_run := None\<rparr>, []) =
      (Inr (None, ?r'), emit (RequestSas (sas_words X (joint_hash X ha hb)) (identity_of X sb))
         (arm KSasDecision SAS_DECISION_TIMEOUT_SECS (cancel KHandshakeFrame ?c)))"
    using dec enc tr ne con
    by (simp add: step_run_def first_run_def step_hello_def check_remote_hello_def after_hellos_def Let_def
        shared_secret_def ephemeral_from_bytes_def joined_run_def joint_hash_def)
      (simp add: ha hb party_hello_def)
  show ?thesis
    using hs_progress[OF at _ st] at by (simp add: split_beta hb hs_at_def)
qed

lemma responder_asks:
  assumes hp: "honest_pair X sa ea sb eb"
    and at: "hs_at en sb (first_run X Responder sb eb None (Some (party_commit X ha)) Reveal)"
    and ha: "ha = party_hello X Initiator sa ea" and hb: "hb = party_hello X Responder sb eb"
  shows "let (en', out) = handle X (FrameReceived (hello_frame ha)) en in
    hs_at en' sb (joined_run X (first_run X Responder sb eb None (Some (party_commit X ha)) Reveal)
        (x_diffie_hellman X (entropy_secret ea) (x_public X (entropy_secret eb))) ha hb (identity_of X sa) None Sas) \<and>
    sends out = [] \<and> RequestSas (sas_words X (joint_hash X ha hb)) (identity_of X sa) \<in> set out"
proof -
  have X: "cbor_ok X" "crypto_ok X" "length sa = 32" "length sb = 32"
    and ne: "identity_of X sa \<noteq> identity_of X sb" "x_public X (entropy_secret ea) \<noteq> x_public X (entropy_secret eb)"
    and con: "x_was_contributory X (x_diffie_hellman X (entropy_secret ea) (x_public X (entropy_secret eb)))"
    using hp by (auto simp: honest_pair_def)
  have dh: "x_diffie_hellman X (entropy_secret eb) (x_public X (entropy_secret ea)) =
      x_diffie_hellman X (entropy_secret ea) (x_public X (entropy_secret eb))"
    by (rule crypto_ok_dh[OF X(2)]) simp_all
  let ?r = "first_run X Responder sb eb None (Some (party_commit X ha)) Reveal"
  let ?c = "(en\<lparr>en_run := None\<rparr>, [])"
  let ?r' = "joined_run X ?r
        (x_diffie_hellman X (entropy_secret ea) (x_public X (entropy_secret eb))) ha hb (identity_of X sa) None Sas"
  have dec: "hello_decode X (hello_frame ha) = Inr ha"
    unfolding ha by (rule hello_codec(2)[OF X(1,2,3)])
  have enc: "transcript_encode X (joint_transcript ha hb) = Inr (payload_bytes (transcript_entries (joint_transcript ha hb)))"
    unfolding ha hb by (rule joint_transcript_encode[OF X refl])
  have tr: "transcript_from_hellos ha hb = Inr (joint_transcript ha hb)"
    by (simp add: ha hb transcript_from_hellos_def party_hello_def joint_transcript_def)
  have st: "step_run X ?r (hello_frame ha) (en\<lparr>en_run := None\<rparr>, []) =
      (Inr (None, ?r'), emit (RequestSas (sas_words X (joint_hash X ha hb)) (identity_of X sa))
         (arm KSasDecision SAS_DECISION_TIMEOUT_SECS (cancel KHandshakeFrame ?c)))"
    using dec enc tr ne con dh
    by (simp add: step_run_def first_run_def step_reveal_def check_remote_hello_def after_hellos_def Let_def
        shared_secret_def ephemeral_from_bytes_def joined_run_def joint_hash_def party_commit_def)
      (simp add: ha hb party_hello_def)
  show ?thesis
    using hs_progress[OF at _ st] at by (simp add: split_beta ha hs_at_def)
qed

section \<open>Approval, signatures and confirmation\<close>

lemma joined_run_simps [simp]:
  "ru_purpose (joined_run X r s i r' p k st) = ru_purpose r" "ru_role (joined_run X r s i r' p k st) = ru_role r"
  "ru_step (joined_run X r s i r' p k st) = st" "ru_hash (joined_run X r s i r' p k st) = Some (joint_hash X i r')"
  "ru_transcript (joined_run X r s i r' p k st) = Some (joint_transcript i r')"
  "ru_shared (joined_run X r s i r' p k st) = Some s" "ru_keys (joined_run X r s i r' p k st) = k"
  "ru_remote_identity (joined_run X r s i r' p k st) = Some p" "ru_early (joined_run X r s i r' p k st) = ru_early r"
  "(joined_run X r s i r' p k st)\<lparr>ru_step := st'\<rparr> = joined_run X r s i r' p k st'"
  "(joined_run X r s i r' p k st)\<lparr>ru_keys := k'\<rparr> = joined_run X r s i r' p k' st"
  "(joined_run X r s i r' p k st)\<lparr>ru_keys := k', ru_step := st'\<rparr> = joined_run X r s i r' p k' st'"
  by (simp_all add: joined_run_def)

lemma first_run_simps [simp]:
  "ru_purpose (first_run X role seed e own commit st) = PInitial"
  "ru_role (first_run X role seed e own commit st) = role"
  "ru_early (first_run X role seed e own commit st) = None"
  by (simp_all add: first_run_def)

definition initiator_auth :: "ext \<Rightarrow> identity_keypair \<Rightarrow> hello_payload \<Rightarrow> hello_payload \<Rightarrow> handshake_payload" where
  "initiator_auth X sa i r =
     auth_from_transcript (joint_transcript i r) 0 (sign_transcript X sa (joint_hash X i r) True) None"

definition responder_auth ::
  "ext \<Rightarrow> identity_keypair \<Rightarrow> identity_keypair \<Rightarrow> hello_payload \<Rightarrow> hello_payload \<Rightarrow> handshake_payload" where
  "responder_auth X sa sb i r =
     auth_from_transcript (joint_transcript i r) 1 (sign_transcript X sa (joint_hash X i r) True)
       (Some (sign_transcript X sb (joint_hash X i r) False))"

definition party_confirm :: "ext \<Rightarrow> session_keys \<Rightarrow> bytes \<Rightarrow> hello_role \<Rightarrow> confirm_payload" where
  "party_confirm X keys hash role =
     \<lparr>s_session_id = k_session_id keys, s_role = role,
      s_confirmation = confirmation_mac X (k_confirmation_key keys) hash (role = Initiator)\<rparr>"

text \<open>The setting of the remaining steps: the parties, and the keys both will derive.\<close>

definition setting ::
  "ext \<Rightarrow> identity_keypair \<Rightarrow> (nat \<Rightarrow> u8) \<Rightarrow> identity_keypair \<Rightarrow> (nat \<Rightarrow> u8) \<Rightarrow>
   hello_payload \<Rightarrow> hello_payload \<Rightarrow> bytes \<Rightarrow> session_keys \<Rightarrow> bool" where
  "setting X sa ea sb eb ha hb shared keys \<longleftrightarrow> honest_pair X sa ea sb eb \<and>
     ha = party_hello X Initiator sa ea \<and> hb = party_hello X Responder sb eb \<and>
     shared = x_diffie_hellman X (entropy_secret ea) (x_public X (entropy_secret eb)) \<and>
     derive_session_keys X shared (joint_hash X ha hb) = Inr keys"

lemma auth_frames:
  assumes st: "setting X sa ea sb eb ha hb shared keys"
  shows "auth_encode X (initiator_auth X sa ha hb) = Inr (auth_frame (initiator_auth X sa ha hb))"
    "auth_decode X (auth_frame (initiator_auth X sa ha hb)) = Inr (initiator_auth X sa ha hb)"
    "auth_encode X (responder_auth X sa sb ha hb) = Inr (auth_frame (responder_auth X sa sb ha hb))"
    "auth_decode X (auth_frame (responder_auth X sa sb ha hb)) = Inr (responder_auth X sa sb ha hb)"
proof -
  have X: "cbor_ok X" "crypto_ok X" "length sa = 32" "length sb = 32"
    using st by (auto simp: setting_def honest_pair_def)
  have t: "transcript_wf (joint_transcript ha hb)"
    using st joint_transcript_wf[OF X(2-4)] by (simp add: setting_def)
  have len: "length (sign_transcript X s h b) = 64" for s h b
    by (simp add: sign_transcript_def crypto_ok_sign[OF X(2)])
  note codec = auth_codec[OF X(1) t]
  show "auth_encode X (initiator_auth X sa ha hb) = Inr (auth_frame (initiator_auth X sa ha hb))"
    "auth_decode X (auth_frame (initiator_auth X sa ha hb)) = Inr (initiator_auth X sa ha hb)"
    "auth_encode X (responder_auth X sa sb ha hb) = Inr (auth_frame (responder_auth X sa sb ha hb))"
    "auth_decode X (auth_frame (responder_auth X sa sb ha hb)) = Inr (responder_auth X sa sb ha hb)"
    unfolding initiator_auth_def responder_auth_def
    by (rule codec; simp add: len joint_transcript_def)+
qed

lemma auth_frame_type [simp]:
  "f_type (auth_frame (initiator_auth X sa ha hb)) = MHandshake"
  "f_type (auth_frame (responder_auth X sa sb ha hb)) = MHandshake"
  by (simp_all add: auth_frame_def initiator_auth_def responder_auth_def auth_from_transcript_def
      joint_transcript_def message_type_for_purpose_def)

lemma verify_honest:
  assumes st: "setting X sa ea sb eb ha hb shared keys"
  shows "verify_handshake_for_role X (initiator_auth X sa ha hb) (joint_transcript ha hb) shared True =
      Inr (keys, joint_hash X ha hb)"
    and "verify_handshake_for_role X (responder_auth X sa sb ha hb) (joint_transcript ha hb) shared True =
      Inr (keys, joint_hash X ha hb)"
proof -
  have X: "cbor_ok X" "crypto_ok X" "length sa = 32" "length sb = 32"
    and h: "ha = party_hello X Initiator sa ea" "hb = party_hello X Responder sb eb"
    and k: "derive_session_keys X shared (joint_hash X ha hb) = Inr keys"
    using st by (auto simp: setting_def honest_pair_def)
  have enc: "transcript_encode X (joint_transcript ha hb) = Inr (payload_bytes (transcript_entries (joint_transcript ha hb)))"
    unfolding h by (rule joint_transcript_encode[OF X refl])
  have ids: "t_initiator_identity (joint_transcript ha hb) = identity_of X sa"
    "t_responder_identity (joint_transcript ha hb) = identity_of X sb"
    by (simp_all add: joint_transcript_def h party_hello_def)
  have tr: "auth_transcript (auth_from_transcript t n s1 s2) = t" for t n s1 s2
    by (cases t) (simp add: auth_transcript_def auth_from_transcript_def)
  show "verify_handshake_for_role X (initiator_auth X sa ha hb) (joint_transcript ha hb) shared True =
      Inr (keys, joint_hash X ha hb)"
    "verify_handshake_for_role X (responder_auth X sa sb ha hb) (joint_transcript ha hb) shared True =
      Inr (keys, joint_hash X ha hb)"
    using enc k verify_own_signature[OF X(2,3)] verify_own_signature[OF X(2,4)] ids
    by (simp_all add: verify_handshake_for_role_def initiator_auth_def responder_auth_def tr Let_def
        joint_hash_def)
      (simp_all add: auth_from_transcript_def joint_hash_def)
qed

abbreviation initiator_run where
  "initiator_run X sa ea ha hb shared peer keys st \<equiv>
     joined_run X (first_run X Initiator sa ea None None Hello) shared ha hb peer keys st"

abbreviation responder_run where
  "responder_run X sb eb ha hb shared peer keys st \<equiv>
     joined_run X (first_run X Responder sb eb None (Some (party_commit X ha)) Reveal) shared ha hb peer keys st"

lemma initiator_approves:
  assumes st: "setting X sa ea sb eb ha hb shared keys"
    and at: "hs_at en sa (initiator_run X sa ea ha hb shared peer None Sas)"
  shows "let (en', out) = handle X (SasDecision True) en in
    hs_at en' sa (initiator_run X sa ea ha hb shared peer None AuthResp) \<and>
    sends out = [auth_frame (initiator_auth X sa ha hb)] \<and> notices out = []"
  using at auth_frames(1)[OF st]
  by (simp add: hs_at_def handle_def on_sas_def Let_def after_approval_def initiator_auth_def split_beta)

lemma responder_approves:
  assumes at: "hs_at en sb (responder_run X sb eb ha hb shared peer None Sas)"
  shows "let (en', out) = handle X (SasDecision True) en in
    hs_at en' sb (responder_run X sb eb ha hb shared peer None AuthInit) \<and> sends out = []"
  using at by (simp add: hs_at_def handle_def on_sas_def Let_def after_approval_def split_beta)

lemma responder_signs:
  assumes st: "setting X sa ea sb eb ha hb shared keys"
    and at: "hs_at en sb (responder_run X sb eb ha hb shared peer None AuthInit)"
  shows "let (en', out) = handle X (FrameReceived (auth_frame (initiator_auth X sa ha hb))) en in
    hs_at en' sb (responder_run X sb eb ha hb shared peer (Some keys) ConfirmInit) \<and>
    sends out = [auth_frame (responder_auth X sa sb ha hb)]"
proof -
  let ?r = "responder_run X sb eb ha hb shared peer None AuthInit"
  let ?r' = "responder_run X sb eb ha hb shared peer (Some keys) ConfirmInit"
  let ?c = "(en\<lparr>en_run := None\<rparr>, [Send (auth_frame (responder_auth X sa sb ha hb))])"
  have id: "en_identity en = sb" using at by (simp add: hs_at_def)
  have stage: "a_stage (initiator_auth X sa ha hb) = 0" "a_responder_signature (initiator_auth X sa ha hb) = None"
    "a_initiator_signature (initiator_auth X sa ha hb) = sign_transcript X sa (joint_hash X ha hb) True"
    by (simp_all add: initiator_auth_def auth_from_transcript_def)
  have "step_run X ?r (auth_frame (initiator_auth X sa ha hb)) (en\<lparr>en_run := None\<rparr>, []) =
      (Inr (None, ?r'), rearm_frame_deadline PInitial ConfirmInit ?c)"
    using auth_frames(2,3)[OF st] verify_honest(1)[OF st] stage id
    by (simp add: step_run_def step_auth_init_def verify_auth_def Let_def responder_auth_def)
  from hs_progress[OF at _ this] at show ?thesis by (simp add: split_beta hs_at_def)
qed

lemma session_key_lengths:
  assumes "setting X sa ea sb eb ha hb shared keys"
  shows "length (k_session_id keys) = 16"
  using derive_session_keys_ok[of X shared "joint_hash X ha hb"] assms
  by (auto simp: setting_def honest_pair_def)

lemma confirm_frames:
  assumes st: "setting X sa ea sb eb ha hb shared keys"
  shows "confirm_encode X (party_confirm X keys hash role) = Inr (confirm_frame (party_confirm X keys hash role))"
    "confirm_decode X (confirm_frame (party_confirm X keys hash role)) = Inr (party_confirm X keys hash role)"
  using confirm_codec[of X "k_session_id keys"
      "confirmation_mac X (k_confirmation_key keys) hash (role = Initiator)" role]
    session_key_lengths[OF st] st
  by (simp_all add: party_confirm_def setting_def honest_pair_def confirmation_mac_def crypto_ok_hmac)

lemma initiator_confirms:
  assumes st: "setting X sa ea sb eb ha hb shared keys"
    and at: "hs_at en sa (initiator_run X sa ea ha hb shared peer None AuthResp)"
  shows "let (en', out) = handle X (FrameReceived (auth_frame (responder_auth X sa sb ha hb))) en in
    hs_at en' sa (initiator_run X sa ea ha hb shared peer (Some keys) ConfirmResp) \<and>
    sends out = [confirm_frame (party_confirm X keys (joint_hash X ha hb) Initiator)] \<and> notices out = []"
proof -
  let ?r = "initiator_run X sa ea ha hb shared peer None AuthResp"
  let ?r' = "initiator_run X sa ea ha hb shared peer (Some keys) ConfirmResp"
  let ?c = "(en\<lparr>en_run := None\<rparr>, [Send (confirm_frame (party_confirm X keys (joint_hash X ha hb) Initiator))])"
  have stage: "a_stage (responder_auth X sa sb ha hb) = 1" "a_responder_signature (responder_auth X sa sb ha hb) \<noteq> None"
    by (simp_all add: responder_auth_def auth_from_transcript_def)
  have "step_run X ?r (auth_frame (responder_auth X sa sb ha hb)) (en\<lparr>en_run := None\<rparr>, []) =
      (Inr (None, ?r'), rearm_frame_deadline PInitial ConfirmResp ?c)"
    using auth_frames(4)[OF st] verify_honest(2)[OF st] stage
      confirm_frames(1)[OF st, of "joint_hash X ha hb" Initiator]
    by (simp add: step_run_def step_auth_resp_def verify_auth_def Let_def party_confirm_def)
  from hs_progress[OF at _ this] at show ?thesis by (simp add: split_beta hs_at_def)
qed

lemma responder_finishes:
  assumes st: "setting X sa ea sb eb ha hb shared keys"
    and at: "hs_at en sb (responder_run X sb eb ha hb shared peer (Some keys) ConfirmInit)"
  shows "let (en', out) = handle X (FrameReceived (confirm_frame (party_confirm X keys (joint_hash X ha hb) Initiator))) en in
    engine_state en' = SActive \<and> en_active en' = Some (session_new keys Responder peer) \<and> fresh_count en' \<and>
    Notify (Established peer) \<in> set out \<and>
    sends out = [confirm_frame (party_confirm X keys (joint_hash X ha hb) Responder)]"
proof -
  let ?r = "responder_run X sb eb ha hb shared peer (Some keys) ConfirmInit"
  let ?r' = "responder_run X sb eb ha hb shared peer None ConfirmInit"
  let ?h = "joint_hash X ha hb"
  have "confirm_verify_from X (party_confirm X keys ?h Initiator) keys ?h Initiator = Inr ()"
    by (simp add: confirm_verify_from_binds party_confirm_def)
  then have step: "step_run X ?r (confirm_frame (party_confirm X keys ?h Initiator)) (en\<lparr>en_run := None\<rparr>, []) =
      (Inr (Some \<lparr>ca_keys = keys, ca_peer = peer, ca_role = Responder\<rparr>, ?r'),
       (en\<lparr>en_run := None\<rparr>, [Send (confirm_frame (party_confirm X keys ?h Responder))]))"
    using confirm_frames(2)[OF st, of ?h Initiator] confirm_frames(1)[OF st, of ?h Responder]
    by (simp add: step_run_def step_confirm_init_def Let_def run_candidate_def)
      (simp add: party_confirm_def run_candidate_def)
  show ?thesis
    using hs_finish[OF at _ step] by (simp add: split_beta confirm_frame_def)
qed

lemma initiator_finishes:
  assumes st: "setting X sa ea sb eb ha hb shared keys"
    and at: "hs_at en sa (initiator_run X sa ea ha hb shared peer (Some keys) ConfirmResp)"
  shows "let (en', out) = handle X (FrameReceived (confirm_frame (party_confirm X keys (joint_hash X ha hb) Responder))) en in
    engine_state en' = SActive \<and> en_active en' = Some (session_new keys Initiator peer) \<and> fresh_count en' \<and>
    notices out = [Notify (Established peer)] \<and> sends out = []"
proof -
  let ?r = "initiator_run X sa ea ha hb shared peer (Some keys) ConfirmResp"
  let ?r' = "initiator_run X sa ea ha hb shared peer None ConfirmResp"
  let ?h = "joint_hash X ha hb"
  have "confirm_verify_from X (party_confirm X keys ?h Responder) keys ?h Responder = Inr ()"
    by (simp add: confirm_verify_from_binds party_confirm_def)
  then have step: "step_run X ?r (confirm_frame (party_confirm X keys ?h Responder)) (en\<lparr>en_run := None\<rparr>, []) =
      (Inr (Some \<lparr>ca_keys = keys, ca_peer = peer, ca_role = Initiator\<rparr>, ?r'), (en\<lparr>en_run := None\<rparr>, []))"
    using confirm_frames(2)[OF st, of ?h Responder]
    by (simp add: step_run_def step_confirm_resp_def Let_def run_candidate_def)
  show ?thesis
    using hs_finish[OF at _ step] by (simp add: split_beta confirm_frame_def)
qed

section \<open>The whole conversation\<close>

text \<open>
  Both sides start, every frame is delivered, and both users approve. The result is each side's
  final engine with the effects of its two milestones.
\<close>

definition connect ::
  "ext \<Rightarrow> identity_keypair \<Rightarrow> (nat \<Rightarrow> u8) \<Rightarrow> identity_keypair \<Rightarrow> (nat \<Rightarrow> u8) \<Rightarrow>
   (engine \<times> effect list) \<times> (engine \<times> effect list)" where
  "connect X sa ea sb eb =
     (let (a, o1) = handle X Start (engine_new Initiator sa ea);
          (b, o0) = handle X Start (engine_new Responder sb eb);
          (b, o2) = feed X (sends o1) b;
          (a, o3) = feed X (sends o2) a;
          (b, o4) = feed X (sends o3) b;
          (a, o5) = handle X (SasDecision True) a;
          (b, o6) = handle X (SasDecision True) b;
          (b, o7) = feed X (sends o5) b;
          (a, o8) = feed X (sends o7) a;
          (b, o9) = feed X (sends o8) b;
          (a, o10) = feed X (sends o9) a
      in ((a, o3 @ o10), (b, o4 @ o9)))"

lemma let_pairD: "(let (x, y) = pr in P x y) \<Longrightarrow> \<exists>x y. pr = (x, y) \<and> P x y"
  by (cases pr) auto

lemma feed_one: "feed X [f] en = handle X (FrameReceived f) en"
  by (simp add: split_beta)

text \<open>The steps of two honest parties whose users both approve.\<close>

lemma honest_steps:
  assumes hp: "honest_pair X sa ea sb eb"
    and ha: "ha = party_hello X Initiator sa ea" and hb: "hb = party_hello X Responder sb eb"
  obtains S keys a1 o1 a2 o3 a3 o5 a4 o8 a5 o10 b1 o0 b2 o2 b3 o4 b4 o6 b5 o7 b6 o9 where
    "setting X sa ea sb eb ha hb S keys"
    "handle X Start (engine_new Initiator sa ea) = (a1, o1)" "sends o1 = [commit_frame (party_commit X ha)]" "notices o1 = []"
    "handle X (FrameReceived (hello_frame hb)) a1 = (a2, o3)" "sends o3 = [hello_frame ha]"
    "notices o3 = [RequestSas (sas_words X (joint_hash X ha hb)) (identity_of X sb)]"
    "handle X (SasDecision True) a2 = (a3, o5)" "sends o5 = [auth_frame (initiator_auth X sa ha hb)]" "notices o5 = []"
    "handle X (FrameReceived (auth_frame (responder_auth X sa sb ha hb))) a3 = (a4, o8)"
    "sends o8 = [confirm_frame (party_confirm X keys (joint_hash X ha hb) Initiator)]" "notices o8 = []"
    "handle X (FrameReceived (confirm_frame (party_confirm X keys (joint_hash X ha hb) Responder))) a4 = (a5, o10)"
    "sends o10 = []" "notices o10 = [Notify (Established (identity_of X sb))]"
    "engine_state a5 = SActive" "en_active a5 = Some (session_new keys Initiator (identity_of X sb))" "fresh_count a5"
    "handle X Start (engine_new Responder sb eb) = (b1, o0)" "sends o0 = []"
    "handle X (FrameReceived (commit_frame (party_commit X ha))) b1 = (b2, o2)" "sends o2 = [hello_frame hb]"
    "handle X (FrameReceived (hello_frame ha)) b2 = (b3, o4)" "sends o4 = []"
    "RequestSas (sas_words X (joint_hash X ha hb)) (identity_of X sa) \<in> set o4"
    "handle X (SasDecision True) b3 = (b4, o6)" "sends o6 = []"
    "handle X (FrameReceived (auth_frame (initiator_auth X sa ha hb))) b4 = (b5, o7)"
    "sends o7 = [auth_frame (responder_auth X sa sb ha hb)]"
    "handle X (FrameReceived (confirm_frame (party_confirm X keys (joint_hash X ha hb) Initiator))) b5 = (b6, o9)"
    "sends o9 = [confirm_frame (party_confirm X keys (joint_hash X ha hb) Responder)]"
    "Notify (Established (identity_of X sa)) \<in> set o9"
    "engine_state b6 = SActive" "en_active b6 = Some (session_new keys Responder (identity_of X sa))" "fresh_count b6"
    "connect X sa ea sb eb = ((a5, o3 @ o10), (b6, o4 @ o9))"
proof -
  have X: "cbor_ok X" "crypto_ok X" "length sa = 32" "length sb = 32"
    using hp by (auto simp: honest_pair_def)
  let ?S = "x_diffie_hellman X (entropy_secret ea) (x_public X (entropy_secret eb))"
  obtain keys where k: "derive_session_keys X ?S (joint_hash X ha hb) = Inr keys"
    using derive_session_keys_ok[OF X(2)] by blast
  have set: "setting X sa ea sb eb ha hb ?S keys" using hp k ha hb by (simp add: setting_def)
  obtain a1 o1 where a1: "handle X Start (engine_new Initiator sa ea) = (a1, o1)"
    "sends o1 = [commit_frame (party_commit X ha)]" "notices o1 = []"
    "hs_at a1 sa (first_run X Initiator sa ea (Some (hello_frame ha)) None Hello)"
    using let_pairD[OF initiator_starts[OF X(1-3) ha]] by blast
  obtain b1 o0 where b1: "handle X Start (engine_new Responder sb eb) = (b1, o0)" "sends o0 = []"
    "en_phase b1 = PhHandshaking" "en_identity b1 = sb" "en_entropy b1 = eb" "en_run b1 = None"
    "en_rekey_message_limit b1 = REKEY_MESSAGE_LIMIT"
    using let_pairD[OF responder_starts[of X sb eb]] by blast
  obtain b2 o2 where b2: "handle X (FrameReceived (commit_frame (party_commit X ha))) b1 = (b2, o2)"
    "sends o2 = [hello_frame hb]" "hs_at b2 sb (first_run X Responder sb eb None (Some (party_commit X ha)) Reveal)"
    using let_pairD[OF responder_commits[OF X(1,2,4) b1(3-7), of ha]] hb by blast
  obtain a2 o3 where a2: "handle X (FrameReceived (hello_frame hb)) a1 = (a2, o3)" "sends o3 = [hello_frame ha]"
    "notices o3 = [RequestSas (sas_words X (joint_hash X ha hb)) (identity_of X sb)]"
    "hs_at a2 sa (initiator_run X sa ea ha hb ?S (identity_of X sb) None Sas)"
    using let_pairD[OF initiator_asks[OF hp a1(4) ha hb]] by blast
  obtain b3 o4 where b3: "handle X (FrameReceived (hello_frame ha)) b2 = (b3, o4)" "sends o4 = []"
    "RequestSas (sas_words X (joint_hash X ha hb)) (identity_of X sa) \<in> set o4"
    "hs_at b3 sb (responder_run X sb eb ha hb ?S (identity_of X sa) None Sas)"
    using let_pairD[OF responder_asks[OF hp b2(3) ha hb]] by blast
  obtain a3 o5 where a3: "handle X (SasDecision True) a2 = (a3, o5)"
    "sends o5 = [auth_frame (initiator_auth X sa ha hb)]" "notices o5 = []"
    "hs_at a3 sa (initiator_run X sa ea ha hb ?S (identity_of X sb) None AuthResp)"
    using let_pairD[OF initiator_approves[OF set a2(4)]] by blast
  obtain b4 o6 where b4: "handle X (SasDecision True) b3 = (b4, o6)" "sends o6 = []"
    "hs_at b4 sb (responder_run X sb eb ha hb ?S (identity_of X sa) None AuthInit)"
    using let_pairD[OF responder_approves[OF b3(4)]] by blast
  obtain b5 o7 where b5: "handle X (FrameReceived (auth_frame (initiator_auth X sa ha hb))) b4 = (b5, o7)"
    "sends o7 = [auth_frame (responder_auth X sa sb ha hb)]"
    "hs_at b5 sb (responder_run X sb eb ha hb ?S (identity_of X sa) (Some keys) ConfirmInit)"
    using let_pairD[OF responder_signs[OF set b4(3)]] by blast
  obtain a4 o8 where a4: "handle X (FrameReceived (auth_frame (responder_auth X sa sb ha hb))) a3 = (a4, o8)"
    "sends o8 = [confirm_frame (party_confirm X keys (joint_hash X ha hb) Initiator)]" "notices o8 = []"
    "hs_at a4 sa (initiator_run X sa ea ha hb ?S (identity_of X sb) (Some keys) ConfirmResp)"
    using let_pairD[OF initiator_confirms[OF set a3(4)]] by blast
  obtain b6 o9 where b6: "handle X (FrameReceived (confirm_frame (party_confirm X keys (joint_hash X ha hb) Initiator))) b5 = (b6, o9)"
    "sends o9 = [confirm_frame (party_confirm X keys (joint_hash X ha hb) Responder)]"
    "Notify (Established (identity_of X sa)) \<in> set o9"
    "engine_state b6 = SActive" "en_active b6 = Some (session_new keys Responder (identity_of X sa))" "fresh_count b6"
    using let_pairD[OF responder_finishes[OF set b5(3)]] by blast
  obtain a5 o10 where a5: "handle X (FrameReceived (confirm_frame (party_confirm X keys (joint_hash X ha hb) Responder))) a4 = (a5, o10)"
    "sends o10 = []" "notices o10 = [Notify (Established (identity_of X sb))]"
    "engine_state a5 = SActive" "en_active a5 = Some (session_new keys Initiator (identity_of X sb))" "fresh_count a5"
    using let_pairD[OF initiator_finishes[OF set a4(4)]] by blast
  have "connect X sa ea sb eb = ((a5, o3 @ o10), (b6, o4 @ o9))"
    unfolding connect_def by (simp only: Let_def prod.case feed_one a1(1,2) a2(1,2) a3(1,2) a4(1,2) a5(1)
        b1(1) b2(1,2) b3(1) b4(1) b5(1,2) b6(1,2))
  then show thesis
    by (rule that[OF set a1(1-3) a2(1-3) a3(1-3) a4(1-3) a5(1-6) b1(1,2) b2(1,2) b3(1-3) b4(1,2) b5(1,2) b6(1-6)])
qed

lemma connect_succeeds:
  assumes hp: "honest_pair X sa ea sb eb"
  shows "\<exists>keys a oa b ob words. connect X sa ea sb eb = ((a, oa), (b, ob)) \<and>
    length (k_session_id keys) = 16 \<and>
    engine_state a = SActive \<and> en_active a = Some (session_new keys Initiator (identity_of X sb)) \<and>
    engine_state b = SActive \<and> en_active b = Some (session_new keys Responder (identity_of X sa)) \<and>
    RequestSas words (identity_of X sb) \<in> set oa \<and> RequestSas words (identity_of X sa) \<in> set ob \<and>
    Notify (Established (identity_of X sb)) \<in> set oa \<and> Notify (Established (identity_of X sa)) \<in> set ob"
proof -
  let ?ha = "party_hello X Initiator sa ea" and ?hb = "party_hello X Responder sb eb"
  obtain S keys a5 o3 o10 b6 o4 o9 where c: "connect X sa ea sb eb = ((a5, o3 @ o10), (b6, o4 @ o9))"
    "setting X sa ea sb eb ?ha ?hb S keys"
   and ends: "engine_state a5 = SActive" "en_active a5 = Some (session_new keys Initiator (identity_of X sb))"
    "engine_state b6 = SActive" "en_active b6 = Some (session_new keys Responder (identity_of X sa))"
    "RequestSas (sas_words X (joint_hash X ?ha ?hb)) (identity_of X sa) \<in> set o4"
    "Notify (Established (identity_of X sa)) \<in> set o9"
   and n: "notices o3 = [RequestSas (sas_words X (joint_hash X ?ha ?hb)) (identity_of X sb)]"
    "notices o10 = [Notify (Established (identity_of X sb))]"
    by (rule honest_steps[OF hp refl refl])
  have "RequestSas (sas_words X (joint_hash X ?ha ?hb)) (identity_of X sb) \<in> set o3"
    "Notify (Established (identity_of X sb)) \<in> set o10"
    using notices_set[of o3] notices_set[of o10] unfolding n by simp_all
  then show ?thesis
    using c(1) ends session_key_lengths[OF c(2)]
    by (intro exI[of _ keys] exI[of _ a5] exI[of _ "o3 @ o10"] exI[of _ b6] exI[of _ "o4 @ o9"]
        exI[of _ "sas_words X (joint_hash X ?ha ?hb)"]) simp
qed

section \<open>A message after the handshake\<close>

definition extends :: "ctx \<Rightarrow> ctx \<Rightarrow> bool" where
  "extends c c' \<longleftrightarrow> (\<exists>out. snd c' = snd c @ out)"

lemma extends_trans: "extends c c' \<Longrightarrow> extends c' c'' \<Longrightarrow> extends c c''"
  by (auto simp: extends_def)

lemma extends_ops:
  "extends c c" "extends c (emit e c)" "extends c (upd f c)" "extends c (cancel k c)" "extends c (arm k a c)"
  "extends c (rearm_frame_deadline p st c)"
  by (auto simp: extends_def arm_def cancel_def rearm_cases Let_def)

lemma extends_fail_rekey: "extends c (fail_rekey e c)"
  by (auto simp: extends_def fail_rekey_def arm_def cancel_def Let_def)

lemma sbind_case: "sbind (m, c) f = (case m of Inl e \<Rightarrow> (Inl e, c) | Inr x \<Rightarrow> f x c)"
  by (cases m) auto

lemma extends_start_initiator_run: "start_initiator_run X p prev c = (res, c') \<Longrightarrow> extends c c'"
  by (auto simp: extends_def start_initiator_run_def fresh_keys_values Let_def sbind_case split: sum.splits)

lemma extends_begin_rekey: "extends c (begin_rekey X c)"
proof (cases "en_phase (fst c) \<noteq> PhEstablished \<or> en_run (fst c) \<noteq> None \<or> active_session_id (fst c) = None")
  case True
  then show ?thesis by (auto simp: begin_rekey_def extends_def)
next
  case False
  then obtain previous where prev: "active_session_id (fst c) = Some previous" by blast
  obtain res c1 where st: "start_initiator_run X PRekey (Some previous) c = (res, c1)" by (metis surj_pair)
  have e1: "extends c c1" by (rule extends_start_initiator_run[OF st])
  show ?thesis
  proof (cases res)
    case (Inl e)
    with False prev st extends_trans[OF e1 extends_fail_rekey] show ?thesis by (simp add: begin_rekey_def)
  next
    case (Inr u)
    let ?c2 = "arm KHandshakeTotal HANDSHAKE_TOTAL_TIMEOUT_SECS c1"
    let ?c3 = "rearm_frame_deadline PRekey Hello ?c2"
    have "extends c (emit (Notify RekeyStarted) ?c3)"
      by (rule extends_trans[OF extends_trans[OF extends_trans[OF e1 extends_ops(5)] extends_ops(6)] extends_ops(2)])
    with False prev st Inr show ?thesis by (simp add: begin_rekey_def Let_def)
  qed
qed

lemma extends_maybe: "extends c (maybe_trigger_rekey X (count_message c))"
proof -
  have "extends c (count_message c)" by (simp add: extends_def count_message_def)
  then show ?thesis
    using extends_begin_rekey[of "count_message c" X]
    by (auto simp: maybe_trigger_rekey_def intro: extends_trans)
qed

lemma extends_set: "extends c c' \<Longrightarrow> set (snd c) \<subseteq> set (snd c')"
  by (auto simp: extends_def)

text \<open>
  Engines whose active sessions are the two ends of one session: what one sends next, the other
  delivers. Both ends are then one message further.
\<close>

definition linked :: "ext \<Rightarrow> direction_id \<Rightarrow> bytes \<Rightarrow> nat \<Rightarrow> engine \<Rightarrow> engine \<Rightarrow> bool" where
  "linked X d ck n a b \<longleftrightarrow> en_phase a = PhEstablished \<and> en_phase b = PhEstablished \<and>
     (\<exists>sa sb sid. en_active a = Some sa \<and> en_active b = Some sb \<and> length sid = 16 \<and>
        sender_rel X sid d ck (sn_sender sa) n \<and> receiver_rel X sid d ck (sn_receiver sb) {..<n} \<and>
        rc_next_counter (dr_chain (sn_receiver sb)) \<le> n)"

lemma linked_message:
  assumes X: "cbor_ok X" "crypto_ok X" and link: "linked X d ck n a b" and n: "n < u64_max"
    and len: "length content \<le> MAX_CONTENT"
  shows "\<exists>f. Send f \<in> set (snd (handle X (LocalSend content) a)) \<and> f_type f = MData \<and>
    Deliver content \<in> set (snd (handle X (FrameReceived f) b))"
proof -
  obtain sa sb sid where ph: "en_phase a = PhEstablished" "en_phase b = PhEstablished"
    and act: "en_active a = Some sa" "en_active b = Some sb" and sid: "length sid = 16"
    and snd: "sender_rel X sid d ck (sn_sender sa) n"
    and rcv: "receiver_rel X sid d ck (sn_receiver sb) {..<n}" "rc_next_counter (dr_chain (sn_receiver sb)) \<le> n"
    using link unfolding linked_def by blast
  obtain f s' where f: "sender_encrypt X (sn_sender sa) content = (Inr f, s')" "sealed X sid d ck n content f"
    using encrypt_seals[OF X sid snd n len] by blast
  have "deliverable (sn_receiver sb) {..<n} n" by (rule in_order_next[OF rcv(1) n rcv(2)])
  then obtain r' where r': "receiver_decrypt X (sn_receiver sb) f = (Inr content, r')"
    using deliver_sealed[OF X(1) rcv(1) f(2)] by auto
  have ty: "f_type f = MData" using f(2) by (auto simp: sealed_def)
  let ?ca = "emit (Send f) (a\<lparr>en_active := Some (sa\<lparr>sn_sender := s'\<rparr>)\<rparr>, [])"
  let ?cb = "emit (Deliver content) (b\<lparr>en_active := Some (sb\<lparr>sn_receiver := r'\<rparr>)\<rparr>, [])"
  have "handle X (LocalSend content) a = maybe_trigger_rekey X (count_message ?ca)"
    using ph act len f(1) by (simp add: handle_def on_send_def Let_def)
  moreover have "handle X (FrameReceived f) b = maybe_trigger_rekey X (count_message ?cb)"
    using ph act ty r' by (simp add: handle_def on_frame_def on_data_def Let_def)
  ultimately show ?thesis
    using extends_set[OF extends_maybe[of ?ca X]] extends_set[OF extends_maybe[of ?cb X]] ty
    by (intro exI[of _ f]) simp
qed

lemma linked_connect:
  assumes "en_active a = Some (session_new keys role p)" "en_active b = Some (session_new keys (other_role role) q)"
    "engine_state a = SActive" "engine_state b = SActive" "length (k_session_id keys) = 16"
  shows "linked X (send_direction role) (send_key role keys) 0 a b"
proof -
  have ph: "en_phase a = PhEstablished" "en_phase b = PhEstablished"
    using assms(3,4) by (auto simp: engine_state_def split: phase.splits if_splits)
  have oo: "other_role (other_role role) = role" by (cases role) (simp_all add: other_role_def)
  show ?thesis
    unfolding linked_def
    using assms(1,2,5) ph sender_rel_new[of X "k_session_id keys"] receiver_rel_new[of X "k_session_id keys"]
    by (auto simp: oo receiver_new_def chain_new_def)
qed

end
