(* ===== verification/Machine_Rekey.thy ===== *)
theory Machine_Rekey
  imports Machine_Handshake
begin

text \<open>
  Rekeying leaves the sessions alone until it completes; simultaneous rekeys resolve to one
  initiator; every waiting engine has a deadline that ends the wait; and a CLOSE ends the peer.
\<close>

section \<open>Sessions during a rekey\<close>

definition sessions_kept :: "engine \<Rightarrow> engine \<Rightarrow> bool" where
  "sessions_kept en en' \<longleftrightarrow> en_active en' = en_active en \<and> en_draining en' = en_draining en"

lemma sessions_kept_ops [simp]:
  "sessions_kept en (fst (cancel k c)) = sessions_kept en (fst c)"
  "sessions_kept en (fst (arm k a c)) = sessions_kept en (fst c)"
  "sessions_kept en (fst (rearm_frame_deadline p st c)) = sessions_kept en (fst c)"
  by (simp_all add: sessions_kept_def)

lemma sessions_kept_fail: "sessions_kept en (fst (fail_rekey e c)) = sessions_kept en (fst c)"
  by (simp add: sessions_kept_def fail_rekey_def Let_def)

lemma sessions_kept_note: "sessions_kept en (fst (note_rekey_rejection c)) = sessions_kept en (fst c)"
  by (simp add: sessions_kept_def note_rekey_rejection_def Let_def)

lemma sessions_kept_incoming: "sessions_kept en (fst (on_incoming_commit X commit announce c)) = sessions_kept en (fst c)"
proof -
  let ?c = "upd (\<lambda>en. en\<lparr>en_consecutive_rekey_rejections := 0\<rparr>) c"
  obtain res c1 where st: "start_responder_run X commit announce ?c = (res, c1)" by (metis surj_pair)
  then have "en_active (fst c1) = en_active (fst c) \<and> en_draining (fst c1) = en_draining (fst c)"
    by (auto simp: start_responder_run_def fresh_keys_values Let_def sbind_case split: sum.splits)
  with st show ?thesis
    using sessions_kept_note[of en c] sessions_kept_fail[of en _ c1]
    by (auto simp: on_incoming_commit_def Let_def sessions_kept_def split: sum.splits)
qed

lemma sessions_kept_glare: "sessions_kept en (fst (resolve_glare X commit c)) = sessions_kept en (fst c)"
  using sessions_kept_note[of en c]
  by (auto simp: resolve_glare_def Let_def sessions_kept_incoming split: option.splits)
    (simp_all add: sessions_kept_def)

text \<open>The session a completed rekey installs: same peer, another identifier, the old one draining.\<close>

definition replaced :: "engine \<Rightarrow> engine \<Rightarrow> bool" where
  "replaced en en' \<longleftrightarrow> en_draining en' = en_active en \<and>
     (\<exists>old new. en_active en = Some old \<and> en_active en' = Some new \<and> sn_peer new = sn_peer old \<and>
        sn_id new \<noteq> sn_id old)"

lemma complete_rekey_sessions:
  "sessions_kept (fst c) (fst (complete_rekey cand c)) \<or>
   replaced (fst c) (fst (complete_rekey cand c)) \<and> Notify RekeyCompleted \<in> set (snd (complete_rekey cand c))"
proof (cases "\<exists>a. en_active (fst c) = Some a \<and> sn_peer a = ca_peer cand \<and> sn_id a \<noteq> k_session_id (ca_keys cand)")
  case True
  then show ?thesis by (auto simp: complete_rekey_def Let_def replaced_def)
next
  case False
  then have "complete_rekey cand c = fail_rekey IdentityMismatch c"
    by (auto simp: complete_rekey_def split: option.splits)
  then show ?thesis using sessions_kept_fail[of "fst c" _ c] by (simp add: sessions_kept_def)
qed

definition rekey_result :: "engine \<Rightarrow> ctx \<Rightarrow> bool" where
  "rekey_result en c \<longleftrightarrow> sessions_kept en (fst c) \<or>
     replaced en (fst c) \<and> Notify RekeyCompleted \<in> set (snd c)"

lemma rekey_frame_sessions:
  assumes ok: "engine_ok X en" and ph: "en_phase en = PhEstablished"
    and ty: "f_type f = MRekey \<or> f_type f = MSessionConfirm" and run: "handle X (FrameReceived f) en = (en', out)"
  shows "en_phase en' = PhClosed \<or> sessions_kept en en' \<or> replaced en en' \<and> Notify RekeyCompleted \<in> set out"
proof -
  obtain p where core: "est_core X p en" and er: "est_run X p en" and d: "deadlines_ok en"
    using ok ph by (auto simp: engine_ok_def)
  have op: "on_rekey_frame X f (en, []) = (en', out)"
    using ty ph run by (auto simp: handle_def on_frame_def)
  have self: "sessions_kept en en" by (simp add: sessions_kept_def)
  show ?thesis
  proof (cases "en_run en")
    case None
    have closed: "en_phase (fst (protocol_error X (en, []))) = PhClosed"
      by (simp add: terminate_def Let_def)
    have "en' = fst (on_rekey_frame X f (en, []))" using op by simp
    then have "en_phase en' = PhClosed \<or> sessions_kept en en'"
      using None closed self sessions_kept_note[of en "(en, [])"]
        sessions_kept_incoming[of en X _ True "(en\<lparr>en_late_rekey_frames := 0\<rparr>, [])"]
      by (auto simp: on_rekey_frame_def Let_def sessions_kept_def split: sum.splits if_splits)
    then show ?thesis by blast
  next
    case (Some r)
    let ?en = "en\<lparr>en_run := None\<rparr>"
    have rok: "run_ok X ?en r"
      using er Some by (subst run_ok_identity[of _ en]) (simp_all add: est_run_def)
    have pur: "ru_purpose r = PRekey" using er Some by (simp add: est_run_def)
    obtain res c1 where st: "step_run X r f (?en, []) = (res, c1)" by (metis surj_pair)
    have m: "mid session_effect (en_deadlines en) (?en, [])"
      using d by (simp add: mid_def deadlines_ok_def)
    have post: "step_post X session_effect (en_deadlines en) ?en r (res, c1)"
      using step_run_post[OF m _ _ rok, where f = f] pur by (simp add: st)
    have core1: "core (fst c1) = core ?en"
      using post by (auto simp: step_post_def split: sum.splits option.splits)
    have k1: "sessions_kept en (fst c1)"
      using core_fields[OF core1] by (simp add: sessions_kept_def)
    let ?driven = "case drive_run X f (en, []) of
                  (Inr (Some cand), c) \<Rightarrow> complete_rekey cand c
                | (Inr None, c) \<Rightarrow> c
                | (Inl e, c) \<Rightarrow> fail_rekey e c"
    have "?driven = (case res of Inl e \<Rightarrow> fail_rekey e c1
          | Inr (None, r') \<Rightarrow> upd (\<lambda>en. en\<lparr>en_run := Some r'\<rparr>) c1
          | Inr (Some cand, r') \<Rightarrow> complete_rekey cand c1)"
      using Some st by (auto simp: drive_run_def Let_def split: sum.splits option.splits)
    moreover have "rekey_result en (fail_rekey e c1)" for e
      using k1 by (simp add: rekey_result_def sessions_kept_fail)
    moreover have "rekey_result en (upd (\<lambda>en. en\<lparr>en_run := Some r'\<rparr>) c1)" for r'
      using k1 by (simp add: rekey_result_def sessions_kept_def)
    moreover have "rekey_result en (complete_rekey cand c1)" for cand
      using k1 complete_rekey_sessions[of c1 cand]
      by (simp add: rekey_result_def sessions_kept_def replaced_def)
    ultimately have driven: "rekey_result en ?driven"
      by (simp split: sum.splits option.splits)
    have glare: "rekey_result en (resolve_glare X commit (en, []))" for commit
      using self by (simp add: rekey_result_def sessions_kept_glare)
    have "rekey_result en (on_rekey_frame X f (en, []))"
      using Some driven glare by (simp add: on_rekey_frame_def split: sum.splits)
    then show ?thesis unfolding op by (simp add: rekey_result_def)
  qed
qed

section \<open>Simultaneous rekeys\<close>

text \<open>An engine that has just sent a rekey COMMIT.\<close>

definition rekey_offered :: "ext \<Rightarrow> engine \<Rightarrow> session_id \<Rightarrow> peer_identity \<Rightarrow> bool" where
  "rekey_offered X en sid peer \<longleftrightarrow> engine_ok X en \<and> en_phase en = PhEstablished \<and>
     active_session_id en = Some sid \<and> peer_identity en = Some peer \<and>
     (\<exists>r. en_run en = Some r \<and> ru_role r = Initiator \<and> ru_step r = Hello)"

text \<open>An engine that answers a rekey as responder.\<close>

definition rekey_answers :: "engine \<Rightarrow> engine \<Rightarrow> commit_payload \<Rightarrow> effect list \<Rightarrow> bool" where
  "rekey_answers en en' commit out \<longleftrightarrow> sessions_kept en en' \<and>
     (\<exists>r h. en_run en' = Some r \<and> ru_role r = Responder \<and> ru_step r = Reveal \<and> ru_commit r = Some commit \<and>
        sends out = [h] \<and> f_type h = MRekey)"

lemma glare_winner:
  assumes off: "rekey_offered X en sid peer" and dec: "commit_decode X f = Inr commit" "f_type f = MRekey"
    and prev: "m_previous commit = Some sid" and win: "bytes_greater (identity_of X (en_identity en)) peer"
  shows "handle X (FrameReceived f) en = (en, [])"
proof -
  obtain r where r: "en_run en = Some r" "ru_role r = Initiator" "ru_step r = Hello"
    and ph: "en_phase en = PhEstablished" and act: "active_session_id en = Some sid" "peer_identity en = Some peer"
    using off by (auto simp: rekey_offered_def)
  have "ru_previous r = Some sid"
    using off r(1) act(1) by (auto simp: rekey_offered_def engine_ok_def est_run_def)
  then show ?thesis
    using r ph act dec prev win
    by (simp add: handle_def on_frame_def on_rekey_frame_def resolve_glare_def local_identity_wins_rekey_glare_def)
qed

lemma glare_loser:
  assumes X: "cbor_ok X" "crypto_ok X" and seed: "length (en_identity en) = 32" and sid: "length sid = 16"
    and off: "rekey_offered X en sid peer" and dec: "commit_decode X f = Inr commit" "f_type f = MRekey"
    and prev: "m_previous commit = Some sid" and lose: "\<not> bytes_greater (identity_of X (en_identity en)) peer"
  shows "rekey_answers en (fst (handle X (FrameReceived f) en)) commit (snd (handle X (FrameReceived f) en))"
proof -
  obtain r where r: "en_run en = Some r" "ru_role r = Initiator" "ru_step r = Hello"
    and ph: "en_phase en = PhEstablished" and act: "active_session_id en = Some sid" "peer_identity en = Some peer"
    using off by (auto simp: rekey_offered_def)
  have rp: "ru_previous r = Some sid"
    using off r(1) act(1) by (auto simp: rekey_offered_def engine_ok_def est_run_def)
  let ?c = "cancel KHandshakeTotal (cancel KHandshakeFrame (en\<lparr>en_run := None\<rparr>, []))"
  have cm: "m_cipher_suite commit = 1" "m_purpose commit = PRekey"
    using commit_decode_rekey[OF dec] by auto
  have op: "handle X (FrameReceived f) en = on_incoming_commit X commit False ?c"
    using r rp ph act dec prev lose
    by (simp add: handle_def on_frame_def on_rekey_frame_def resolve_glare_def
        local_identity_wins_rekey_glare_def Let_def)
  have act': "active_session_id (fst ?c) = Some sid"
    using act by (simp add: active_session_id_def)
  let ?hello = "\<lparr>h_cipher_suite = m_cipher_suite commit, h_purpose = m_purpose commit,
            h_role = Responder, h_identity = identity_of X (en_identity en),
            h_ephemeral = x_public X (entropy_secret (en_entropy en)),
            h_nonce = entropy_nonce (en_entropy en), h_previous = m_previous commit\<rparr>"
  have wf: "hello_wf ?hello"
    using X seed sid prev by (simp add: hello_wf_def crypto_ok_x_public crypto_ok_public identity_of_def)
  have "hello_encode X ?hello = Inr (hello_frame ?hello)"
    using hello_encode_iff[OF X(1) wf] cm prev by (simp add: hello_frame_def purpose_mismatch_def)
  then have enc: "hello_encode X \<lparr>h_cipher_suite = Suc 0, h_purpose = PRekey,
            h_role = Responder, h_identity = identity_of X (en_identity en),
            h_ephemeral = x_public X (entropy_secret (en_entropy en)),
            h_nonce = entropy_nonce (en_entropy en), h_previous = Some sid\<rparr> = Inr (hello_frame ?hello)"
    using cm prev by simp
  have ty: "f_type (hello_frame ?hello) = MRekey" by (simp add: hello_frame_def cm message_type_for_purpose_def)
  show ?thesis
    unfolding op
    using cm prev act' enc ty
    by (simp add: on_incoming_commit_def start_responder_run_def fresh_keys_values Let_def
        ephemeral_from_bytes_def rekey_answers_def sessions_kept_def)
qed

section \<open>No wait without a deadline\<close>

lemma timeout_stale:
  assumes "engine_ok X en" "i \<notin> fst ` set (en_deadlines en)"
  shows "handle X (Timeout i) en = (en, [])"
  using assms on_timeout_unarmed[of "(en, [])" i X] by (simp add: handle_def engine_ok_def Let_def)

lemma kinds_armed: "k \<in> kinds en \<Longrightarrow> \<exists>i. (i, k) \<in> set (en_deadlines en)"
  by (auto simp: kinds_def)

lemma handshake_times_out:
  assumes ok: "engine_ok X en" and ph: "en_phase en = PhHandshaking"
  shows "\<exists>i. (i, KHandshakeTotal) \<in> set (en_deadlines en) \<and>
    en_phase (fst (handle X (Timeout i) en)) = PhClosed"
proof -
  have d: "deadlines_ok en" and "KHandshakeTotal \<in> kinds en"
    using ok ph by (auto simp: engine_ok_def hs_core_def)
  then obtain i where i: "(i, KHandshakeTotal) \<in> set (en_deadlines en)" using kinds_armed by blast
  have "en_phase (fst (on_timeout X i (en, []))) = PhClosed"
    unfolding on_timeout_armed[OF d i] using ph by (simp add: Let_def terminate_def)
  with i ph show ?thesis by (auto simp: handle_def)
qed

lemma rekey_times_out:
  assumes ok: "engine_ok X en" and ph: "en_phase en = PhEstablished" and run: "en_run en \<noteq> None"
  shows "\<exists>i. (i, KHandshakeTotal) \<in> set (en_deadlines en) \<and>
    (let (en', out) = handle X (Timeout i) en in
       engine_state en' = SActive \<and> sessions_kept en en' \<and> KRekeyDue \<in> kinds en' \<and>
       Notify (RekeyFailed FTimeout) \<in> set out)"
proof -
  have d: "deadlines_ok en" and "KHandshakeTotal \<in> kinds en"
    using ok ph run by (auto simp: engine_ok_def est_run_def)
  then obtain i where i: "(i, KHandshakeTotal) \<in> set (en_deadlines en)" using kinds_armed by blast
  have "on_timeout X i (en, []) =
      fail_rekey TransportTimeout (en\<lparr>en_deadlines := remove1 (i, KHandshakeTotal) (en_deadlines en)\<rparr>, [])"
    unfolding on_timeout_armed[OF d i] using ph run by (simp add: Let_def)
  with i ph show ?thesis
    by (intro exI[of _ i])
      (simp add: handle_def split_beta fail_rekey_def Let_def engine_state_def sessions_kept_def)
qed

section \<open>Closing\<close>

lemma local_close_reaches_peer:
  assumes X: "cbor_ok X" and a: "en_phase a = PhEstablished" "active_session_id a = Some sid" "length sid = 16"
    and b: "en_phase b = PhEstablished" "active_session_id b = Some sid"
  shows "\<exists>f. sends (snd (handle X (LocalClose reason) a)) = [f] \<and>
    en_phase (fst (handle X (LocalClose reason) a)) = PhClosed \<and>
    en_phase (fst (handle X (FrameReceived f) b)) = PhClosed \<and>
    Notify (Closed (CPeerUnauthenticated reason)) \<in> set (snd (handle X (FrameReceived f) b))"
proof -
  let ?p = "\<lparr>c_session_id = Some sid, c_reason = reason, c_detail = None\<rparr>"
  let ?f = "\<lparr>f_version = V1, f_type = MClose, f_payload = payload_bytes (close_entries ?p)\<rparr>"
  have wf: "close_wf ?p" "close_detail_fits ?p" using a(3) by (simp_all add: close_wf_def close_detail_fits_def)
  have enc: "close_encode X ?p = Inr ?f" by (rule close_encode_entries[OF X wf])
  have dec: "close_decode X ?f = Inr ?p" by (rule close_decode_encode[OF X wf(1) enc])
  have "active_session_id (fst (cancel_all (a, []))) = Some sid"
    using a(2) by (simp add: cancel_all_def active_session_id_def)
  then have "sends (snd (handle X (LocalClose reason) a)) = [?f]"
    "en_phase (fst (handle X (LocalClose reason) a)) = PhClosed"
    using a enc by (simp_all add: handle_def terminate_def Let_def cancel_all_def)
  moreover have "handle X (FrameReceived ?f) b = terminate X (CPeerUnauthenticated reason) None (b, [])"
    using b dec by (simp add: handle_def on_frame_def on_close_frame_def)
  ultimately show ?thesis by (intro exI[of _ ?f]) (simp add: terminate_def Let_def)
qed

end
