(* ===== verification/Machine_Chat.thy ===== *)
theory Machine_Chat
  imports Machine_Rekey
begin

text \<open>
  Conversations: messages sent one after the other through a connection arrive once, complete and in
  order, also when the message limit starts a rekey on the way.
\<close>

section \<open>What starting a rekey does to a conversation\<close>

fun quiet_effect :: "effect \<Rightarrow> bool" where
  "quiet_effect (Deliver m) = False"
| "quiet_effect (Send f) = (f_type f \<noteq> MData)"
| "quiet_effect _ = True"

definition quietly :: "ctx \<Rightarrow> ctx \<Rightarrow> bool" where
  "quietly c c' \<longleftrightarrow> (\<exists>out. snd c' = snd c @ out \<and> list_all quiet_effect out) \<and>
     en_phase (fst c') = en_phase (fst c) \<and> en_active (fst c') = en_active (fst c)"

lemma quietly_refl: "quietly c c"
  by (simp add: quietly_def)

lemma quietly_trans: "quietly c c' \<Longrightarrow> quietly c' c'' \<Longrightarrow> quietly c c''"
  by (auto simp: quietly_def)

lemma quiet_cancels: "list_all quiet_effect (map (\<lambda>(i, k). CancelDeadline i) ds)"
  by (induction ds) auto

lemma quietly_cancel: "quietly c (cancel k c)"
  by (auto simp: quietly_def cancel_def Let_def quiet_cancels intro!: exI)

lemma quietly_emit: "quiet_effect e \<Longrightarrow> quietly c (emit e c)"
  by (simp add: quietly_def)

lemma quietly_upd: "en_phase (f (fst c)) = en_phase (fst c) \<Longrightarrow> en_active (f (fst c)) = en_active (fst c) \<Longrightarrow>
    quietly c (upd f c)"
  by (simp add: quietly_def)

lemma quietly_arm: "quietly c (arm k a c)"
proof -
  have "quietly (cancel k c) (arm k a c)"
    by (auto simp: quietly_def arm_def Let_def)
  with quietly_cancel show ?thesis by (rule quietly_trans)
qed

lemma quietly_rearm: "quietly c (rearm_frame_deadline p st c)"
  using quietly_trans[OF quietly_cancel quietly_arm]
  by (simp add: rearm_cases quietly_cancel)

lemma quietly_fail_rekey: "quietly c (fail_rekey e c)"
  unfolding fail_rekey_def Let_def
  by (intro quietly_trans[OF _ quietly_emit] quietly_trans[OF _ quietly_arm] quietly_trans[OF _ quietly_upd]
      quietly_trans[OF _ quietly_cancel] quietly_refl) simp_all

lemma commit_encode_type: "commit_encode X c = Inr f \<Longrightarrow> f_type f \<noteq> MData"
  by (auto simp: commit_encode_def res_simps Let_def frame_new_iff message_type_for_purpose_def
      split: handshake_purpose.splits if_splits)

lemma quietly_start_initiator_run: "start_initiator_run X p prev c = (res, c') \<Longrightarrow> quietly c c'"
  by (auto simp: quietly_def start_initiator_run_def fresh_keys_values Let_def sbind_case commit_encode_type
      split: sum.splits)

lemma quietly_begin_rekey: "quietly c (begin_rekey X c)"
proof (cases "en_phase (fst c) \<noteq> PhEstablished \<or> en_run (fst c) \<noteq> None \<or> active_session_id (fst c) = None")
  case True
  then show ?thesis by (auto simp: begin_rekey_def quietly_refl)
next
  case False
  then obtain previous where prev: "active_session_id (fst c) = Some previous" by blast
  obtain res c1 where st: "start_initiator_run X PRekey (Some previous) c = (res, c1)" by (metis surj_pair)
  have q: "quietly c c1" by (rule quietly_start_initiator_run[OF st])
  show ?thesis
  proof (cases res)
    case (Inl e)
    with False prev st quietly_trans[OF q quietly_fail_rekey] show ?thesis by (simp add: begin_rekey_def)
  next
    case (Inr u)
    have "quietly c (emit (Notify RekeyStarted)
        (rearm_frame_deadline PRekey Hello (arm KHandshakeTotal HANDSHAKE_TOTAL_TIMEOUT_SECS c1)))"
      by (intro quietly_trans[OF _ quietly_emit] quietly_trans[OF _ quietly_rearm] quietly_trans[OF _ quietly_arm] q) simp
    with False prev st Inr show ?thesis by (simp add: begin_rekey_def Let_def)
  qed
qed

lemma quietly_maybe: "quietly c (maybe_trigger_rekey X (count_message c))"
proof -
  have "quietly c (count_message c)" unfolding count_message_def by (rule quietly_upd) simp_all
  then show ?thesis
    using quietly_begin_rekey[of "count_message c" X]
    by (auto simp: maybe_trigger_rekey_def intro: quietly_trans)
qed

section \<open>Conversations\<close>

fun delivered_by :: "effect \<Rightarrow> bytes list" where
  "delivered_by (Deliver m) = [m]"
| "delivered_by _ = []"

definition delivered :: "effect list \<Rightarrow> bytes list" where
  "delivered out = concat (map delivered_by out)"

definition data_frames :: "effect list \<Rightarrow> frame list" where
  "data_frames out = filter (\<lambda>f. f_type f = MData) (sends out)"

lemma quiet_delivers: "list_all quiet_effect out \<Longrightarrow> delivered out = [] \<and> data_frames out = []"
  by (induction out) (auto simp: delivered_def data_frames_def elim!: quiet_effect.elims)

lemma delivered_simps [simp]:
  "delivered [] = []" "delivered (e # out) = delivered_by e @ delivered out"
  "delivered (out @ out') = delivered out @ delivered out'"
  by (simp_all add: delivered_def)

lemma data_frames_simps [simp]:
  "data_frames [] = []" "data_frames (e # out) = filter (\<lambda>f. f_type f = MData) (sent e) @ data_frames out"
  "data_frames (out @ out') = data_frames out @ data_frames out'"
  by (simp_all add: data_frames_def)

text \<open>
  The messages \<open>cs\<close> sent by \<open>a\<close>, one after the other, each \<open>DATA\<close> frame handed to \<open>b\<close>; what \<open>b\<close>
  delivers, and both engines at the end.
\<close>

fun chat :: "ext \<Rightarrow> bytes list \<Rightarrow> engine \<Rightarrow> engine \<Rightarrow> bytes list \<times> engine \<times> engine" where
  "chat X [] a b = ([], a, b)"
| "chat X (c # cs) a b =
     (let (a, oa) = handle X (LocalSend c) a;
          (b, ob) = feed X (data_frames oa) b;
          (ms, ab) = chat X cs a b
      in (delivered ob @ ms, ab))"

lemma prepare_next:
  assumes "chain_rel X d ck rc U" "n \<le> u64_max" "prepare_message_key X rc n = Inr (k, rc')"
  shows "rc_next_counter rc' \<le> max (rc_next_counter rc) (Suc n)"
proof (cases "map_of (rc_skipped rc) n")
  case (Some k0)
  with assms(3) show ?thesis by (simp add: prepare_message_key_def)
next
  case None
  from prepare_step[OF None assms(2,3)] have al: "prepare_allowed rc n"
    and rc': "rc_next_counter rc' = Suc (rc_next_counter (derive_skipped X rc n))"
    by (auto simp: Let_def split_beta)
  have "rc_next_counter (derive_skipped X rc n) = n"
    using derive_skipped_rel[OF assms(1), of n] al by (auto simp: prepare_allowed_def)
  with rc' show ?thesis by simp
qed

lemma commit_next: "commit_message_key rc n = Inr rc' \<Longrightarrow> rc_next_counter rc' = rc_next_counter rc"
  by (auto simp: commit_message_key_def split: if_splits option.splits)

lemma receiver_next:
  assumes rel: "receiver_rel X sid d ck r S" and dec: "receiver_decrypt X r f = (Inr content, r')"
    and n: "frame_counter X f = Inr n"
  shows "rc_next_counter (dr_chain r') \<le> max (rc_next_counter (dr_chain r)) (Suc n)"
proof -
  obtain pl where pl: "receive_checks X r f = Inr pl" using dec by (auto simp: receiver_decrypt_def split: sum.splits)
  then have cnt: "d_counter pl = n" "n \<le> u64_max"
    using n decode_payload_counter[of X "f_payload f" pl] by (auto simp: receive_checks_Inr frame_counter_def)
  obtain k c where prep: "prepare_message_key X (dr_chain r) n = Inr (k, c)"
    using dec pl cnt by (auto simp: receiver_decrypt_def split: sum.splits)
  have "rc_next_counter (dr_chain r') = rc_next_counter c"
    using dec pl cnt prep by (auto simp: receiver_decrypt_def Let_def commit_next split: sum.splits)
  with prepare_next[OF _ cnt(2) prep] rel show ?thesis by (auto simp: receiver_rel_def)
qed

lemma sealed_frame_ok: "sealed X sid d ck n content f \<Longrightarrow> frame_ok f"
  using payload_size by (auto simp: sealed_def frame_ok_def)

text \<open>The next message: its frame, and both sessions after it.\<close>

lemma linked_sealed:
  assumes X: "cbor_ok X" "crypto_ok X" and link: "linked X d ck n a b" and n: "n < u64_max"
    and len: "length content \<le> MAX_CONTENT"
  obtains sa sb f s' r' where "en_phase a = PhEstablished" "en_phase b = PhEstablished"
    "en_active a = Some sa" "en_active b = Some sb" "f_type f = MData" "frame_ok f"
    "sender_encrypt X (sn_sender sa) content = (Inr f, s')" "receiver_decrypt X (sn_receiver sb) f = (Inr content, r')"
    "\<And>a' b'. en_phase a' = PhEstablished \<Longrightarrow> en_phase b' = PhEstablished \<Longrightarrow>
       en_active a' = Some (sa\<lparr>sn_sender := s'\<rparr>) \<Longrightarrow> en_active b' = Some (sb\<lparr>sn_receiver := r'\<rparr>) \<Longrightarrow>
       linked X d ck (Suc n) a' b'"
proof -
  obtain sa sb sid where ph: "en_phase a = PhEstablished" "en_phase b = PhEstablished"
    and act: "en_active a = Some sa" "en_active b = Some sb" and sid: "length sid = 16"
    and snd: "sender_rel X sid d ck (sn_sender sa) n"
    and rcv: "receiver_rel X sid d ck (sn_receiver sb) {..<n}" "rc_next_counter (dr_chain (sn_receiver sb)) \<le> n"
    using link unfolding linked_def by blast
  obtain f s' where f: "sender_encrypt X (sn_sender sa) content = (Inr f, s')" "sealed X sid d ck n content f"
    and s': "sender_rel X sid d ck s' (Suc n)"
    using encrypt_seals[OF X sid snd n len] by blast
  have "deliverable (sn_receiver sb) {..<n} n" by (rule in_order_next[OF rcv(1) n rcv(2)])
  then obtain r' where r': "receiver_decrypt X (sn_receiver sb) f = (Inr content, r')"
    and rr: "receiver_rel X sid d ck r' (insert n {..<n})"
    using deliver_sealed[OF X(1) rcv(1) f(2)] by auto
  have next_counter: "rc_next_counter (dr_chain r') \<le> Suc n"
    using receiver_next[OF rcv(1) r', of n] rcv(2) sealed_payload[OF X(1) f(2)]
    by (auto simp: frame_counter_def)
  have ty: "f_type f = MData" using f(2) by (auto simp: sealed_def)
  have "linked X d ck (Suc n) a' b'" if "en_phase a' = PhEstablished" "en_phase b' = PhEstablished"
    "en_active a' = Some (sa\<lparr>sn_sender := s'\<rparr>)" "en_active b' = Some (sb\<lparr>sn_receiver := r'\<rparr>)" for a' b'
    unfolding linked_def using that sid s' rr next_counter
    by (intro conjI exI[of _ "sa\<lparr>sn_sender := s'\<rparr>"] exI[of _ "sb\<lparr>sn_receiver := r'\<rparr>"] exI[of _ sid])
      (simp_all add: lessThan_Suc)
  then show thesis by (rule that[OF ph act ty sealed_frame_ok[OF f(2)] f(1) r'])
qed

lemma linked_step:
  assumes X: "cbor_ok X" "crypto_ok X" and link: "linked X d ck n a b" and n: "n < u64_max"
    and len: "length content \<le> MAX_CONTENT"
  shows "\<exists>f a' oa b' ob. handle X (LocalSend content) a = (a', oa) \<and> data_frames oa = [f] \<and>
    handle X (FrameReceived f) b = (b', ob) \<and> delivered ob = [content] \<and> linked X d ck (Suc n) a' b'"
proof (rule linked_sealed[OF X link n len])
  fix sa sb f s' r'
  assume ph: "en_phase a = PhEstablished" "en_phase b = PhEstablished"
    and act: "en_active a = Some sa" "en_active b = Some sb" and ty: "f_type f = MData"
    and f: "sender_encrypt X (sn_sender sa) content = (Inr f, s')"
    and r': "receiver_decrypt X (sn_receiver sb) f = (Inr content, r')"
    and linked: "\<And>a' b'. en_phase a' = PhEstablished \<Longrightarrow> en_phase b' = PhEstablished \<Longrightarrow>
       en_active a' = Some (sa\<lparr>sn_sender := s'\<rparr>) \<Longrightarrow> en_active b' = Some (sb\<lparr>sn_receiver := r'\<rparr>) \<Longrightarrow>
       linked X d ck (Suc n) a' b'"
  let ?ca = "emit (Send f) (a\<lparr>en_active := Some (sa\<lparr>sn_sender := s'\<rparr>)\<rparr>, [])"
  let ?cb = "emit (Deliver content) (b\<lparr>en_active := Some (sb\<lparr>sn_receiver := r'\<rparr>)\<rparr>, [])"
  obtain a' oa where a': "maybe_trigger_rekey X (count_message ?ca) = (a', oa)" by (metis surj_pair)
  obtain b' ob where b': "maybe_trigger_rekey X (count_message ?cb) = (b', ob)" by (metis surj_pair)
  have ha: "handle X (LocalSend content) a = (a', oa)"
    using ph act len f a' by (simp add: handle_def on_send_def Let_def)
  have hb: "handle X (FrameReceived f) b = (b', ob)"
    using ph act ty r' b' by (simp add: handle_def on_frame_def on_data_def Let_def)
  have qa: "data_frames oa = [f] \<and> en_phase a' = PhEstablished \<and> en_active a' = Some (sa\<lparr>sn_sender := s'\<rparr>)"
    using quietly_maybe[of ?ca X] a' ph ty quiet_delivers by (auto simp: quietly_def)
  have qb: "delivered ob = [content] \<and> en_phase b' = PhEstablished \<and> en_active b' = Some (sb\<lparr>sn_receiver := r'\<rparr>)"
    using quietly_maybe[of ?cb X] b' ph quiet_delivers by (auto simp: quietly_def)
  have "linked X d ck (Suc n) a' b'" using qa qb by (intro linked) simp_all
  with ha hb qa qb show ?thesis by blast
qed

lemma chat_delivers:
  assumes X: "cbor_ok X" "crypto_ok X" and link: "linked X d ck n a b"
    and "n + length cs \<le> u64_max" "\<forall>c \<in> set cs. length c \<le> MAX_CONTENT"
  shows "fst (chat X cs a b) = cs"
  using assms(3-5)
proof (induction cs arbitrary: n a b)
  case (Cons c cs)
  then have "n < u64_max" "length c \<le> MAX_CONTENT" by auto
  from linked_step[OF X Cons.prems(1) this] obtain f a' oa b' ob where
    s: "handle X (LocalSend c) a = (a', oa)" "data_frames oa = [f]"
      "handle X (FrameReceived f) b = (b', ob)" "delivered ob = [c]" "linked X d ck (Suc n) a' b'" by blast
  then have "fst (chat X cs a' b') = cs" using Cons.prems by (intro Cons.IH) auto
  with s show ?case by (simp add: split_beta)
qed simp

end
