(* ===== verification/Reference_Ext.thy ===== *)
theory Reference_Ext
  imports Encoding Close_Payload Handshake_Codecs
begin

unbundle bit_operations_syntax

text \<open>
  A concrete instance of the external functions, which shows that what the program relies on can
  be met. Its CBOR half is a real decoder for flat maps of integers, byte strings and texts; its
  cryptographic half is a toy with the documented lengths and round trips and no strength. It is
  used by witnesses only.
\<close>

section \<open>Reading flat CBOR maps\<close>

definition ref_head :: "bytes \<Rightarrow> (nat \<times> nat \<times> bytes) option" where
  "ref_head bs =
     (case bs of
        [] \<Rightarrow> None
      | b # rest \<Rightarrow>
          let major = unat b div 32; a = unat b mod 32;
              k = (if a = 24 then 1 else if a = 25 then 2 else if a = 26 then 4 else 8) in
          if a < 24 then Some (major, a, rest)
          else if a \<le> 27 \<and> k \<le> length rest then Some (major, be_value (take k rest), drop k rest)
          else None)"

definition cont_byte :: "u8 \<Rightarrow> nat" where
  "cont_byte b = unat b - 128"

fun ref_utf8 :: "bytes \<Rightarrow> ustr option" where
  "ref_utf8 [] = Some []"
| "ref_utf8 (b # bs) =
     (if unat b < 128 then map_option (Cons (unat b)) (ref_utf8 bs)
      else if unat b < 224 then
        (case bs of c # bs' \<Rightarrow>
           map_option (Cons ((unat b - 192) * 64 + cont_byte c)) (ref_utf8 bs') | _ \<Rightarrow> None)
      else if unat b < 240 then
        (case bs of c # d # bs' \<Rightarrow>
           map_option (Cons ((unat b - 224) * 4096 + cont_byte c * 64 + cont_byte d)) (ref_utf8 bs')
         | _ \<Rightarrow> None)
      else
        (case bs of c # d # e # bs' \<Rightarrow>
           map_option (Cons ((unat b - 240) * 262144 + cont_byte c * 4096 + cont_byte d * 64 + cont_byte e))
             (ref_utf8 bs')
         | _ \<Rightarrow> None))"

definition ref_item :: "bytes \<Rightarrow> (cvalue \<times> bytes) option" where
  "ref_item bs =
     (case ref_head bs of
        None \<Rightarrow> None
      | Some (major, n, rest) \<Rightarrow>
          if major = 0 then Some (CInteger (int n), rest)
          else if major = 1 then Some (CInteger (- int n - 1), rest)
          else if length rest < n then None
          else if major = 2 then Some (CBytes (take n rest), drop n rest)
          else if major = 3 then
            (case ref_utf8 (take n rest) of None \<Rightarrow> None | Some s \<Rightarrow> Some (CText s, drop n rest))
          else None)"

fun ref_entries :: "nat \<Rightarrow> bytes \<Rightarrow> ((cvalue \<times> cvalue) list \<times> bytes) option" where
  "ref_entries 0 bs = Some ([], bs)"
| "ref_entries (Suc k) bs =
     (case ref_item bs of
        None \<Rightarrow> None
      | Some (key, bs1) \<Rightarrow>
          (case ref_item bs1 of
             None \<Rightarrow> None
           | Some (val, bs2) \<Rightarrow>
               (case ref_entries k bs2 of
                  None \<Rightarrow> None
                | Some (es, bs3) \<Rightarrow> Some ((key, val) # es, bs3))))"

definition ref_de :: "bytes \<Rightarrow> string + (cvalue \<times> nat)" where
  "ref_de bs =
     (case ref_head bs of
        None \<Rightarrow> Inl ''eof''
      | Some (major, n, rest) \<Rightarrow>
          if major = 5 \<and> n < 24 then
            (case ref_entries n rest of
               None \<Rightarrow> Inl ''syntax''
             | Some (es, rest') \<Rightarrow> Inr (CMap es, length bs - length rest'))
          else Inl ''unsupported'')"

definition ref_ser :: "cvalue \<Rightarrow> string + bytes" where
  "ref_ser v =
     (case v of
        CMap es \<Rightarrow>
          if length es < 24 \<and> list_all (\<lambda>(k, v). scalar_ok k \<and> scalar_ok v) es then Inr (map_bytes es)
          else Inl ''unsupported''
      | _ \<Rightarrow> Inl ''unsupported'')"

lemma ref_head_cbor_head:
  assumes "n \<le> u64_max" "m < 8"
  shows "ref_head (cbor_head m n @ rest) = Some (m, n, rest)"
proof -
  consider (small) "n < 24" | (ext) additional k where
      "(additional, k) \<in> {(24, 1), (25, 2), (26, 4), (27, 8)}"
      "cbor_head m n = word_of_nat (32 * m + additional) # be_bytes k n" "n < 256 ^ k"
    by (rule head_form[OF assms(1), where m = m]) (auto intro: that)
  then show ?thesis
  proof cases
    case small
    with assms(2) show ?thesis
      by (simp add: ref_head_def cbor_head_def unat_head_byte del: of_nat_add of_nat_mult)
  next
    case ext
    then have a: "24 \<le> additional" "additional \<le> 27" by auto
    have "k = (if additional = 24 then 1 else if additional = 25 then 2
               else if additional = 26 then 4 else 8)"
      using ext(1) by auto
    with a assms(2) ext(2) be_value_be_bytes[OF ext(3)] show ?thesis
      by (simp add: ref_head_def unat_head_byte Let_def del: of_nat_add of_nat_mult)
  qed
qed

lemma cont_byte_of_nat: "c < 64 \<Longrightarrow> cont_byte (word_of_nat (128 + c)) = c"
  by (simp add: cont_byte_def unat_word_of_nat_u8 del: of_nat_add)

lemma unat_small_byte: "n < 256 \<Longrightarrow> unat (word_of_nat n :: u8) = n"
  by (simp add: unat_word_of_nat_u8)

lemma scalar_parts:
  fixes c :: nat
  shows "c div 64 * 64 + c mod 64 = c"
    and "c div 4096 * 4096 + c div 64 mod 64 * 64 + c mod 64 = c"
    and "c div 262144 * 262144 + c div 4096 mod 64 * 4096 + c div 64 mod 64 * 64 + c mod 64 = c"
proof -
  show a: "c div 64 * 64 + c mod 64 = c" by simp
  have "c div 64 div 64 * 64 + c div 64 mod 64 = c div 64" by simp
  then have b: "c div 4096 * 64 + c div 64 mod 64 = c div 64" by (simp add: div_mult2_eq[symmetric])
  have "c div 4096 div 64 * 64 + c div 4096 mod 64 = c div 4096" by simp
  then have d: "c div 262144 * 64 + c div 4096 mod 64 = c div 4096" by (simp add: div_mult2_eq[symmetric])
  show b': "c div 4096 * 4096 + c div 64 mod 64 * 64 + c mod 64 = c" using a b by linarith
  show "c div 262144 * 262144 + c div 4096 mod 64 * 4096 + c div 64 mod 64 * 64 + c mod 64 = c"
    using b' d by linarith
qed

lemma ref_utf8_char:
  assumes "scalar_value c"
  shows "ref_utf8 (utf8_char c @ bs) = map_option (Cons c) (ref_utf8 bs)"
proof -
  have c: "c < 1114112" using assms by (auto simp: scalar_value_def)
  consider "c < 128" | "128 \<le> c" "c < 2048" | "2048 \<le> c" "c < 65536" | "65536 \<le> c" by linarith
  then show ?thesis
  proof cases
    case 1
    then show ?thesis by (simp add: utf8_char_def unat_small_byte)
  next
    case 2
    define q where "q = c div 64"
    define r where "r = c mod 64"
    have q: "q < 32" "r < 64" "q * 64 + r = c" using 2 by (auto simp: q_def r_def)
    then have "unat (word_of_nat (192 + q) :: u8) = 192 + q" by (intro unat_small_byte) simp
    with 2 q show ?thesis
      by (simp add: utf8_char_def cont_byte_of_nat flip: q_def r_def del: of_nat_add)
  next
    case 3
    then have "unat (word_of_nat (224 + c div 4096) :: u8) = 224 + c div 4096" "c div 4096 < 16"
      by (auto intro!: unat_small_byte simp del: of_nat_add)
    with 3 scalar_parts(2)[of c] show ?thesis by (simp add: utf8_char_def cont_byte_of_nat del: of_nat_add)
  next
    case 4
    with c have "unat (word_of_nat (240 + c div 262144) :: u8) = 240 + c div 262144"
      by (auto intro!: unat_small_byte simp del: of_nat_add)
    with 4 scalar_parts(3)[of c] show ?thesis by (simp add: utf8_char_def cont_byte_of_nat del: of_nat_add)
  qed
qed

lemma ref_utf8_utf8: "\<forall>c \<in> set s. scalar_value c \<Longrightarrow> ref_utf8 (utf8 s) = Some s"
proof (induction s)
  case Nil
  then show ?case by (simp add: utf8_def)
next
  case (Cons c s)
  have "utf8 (c # s) = utf8_char c @ utf8 s" by (simp add: utf8_def)
  with Cons show ?case by (simp add: ref_utf8_char)
qed

lemma ref_item_scalar: "scalar_ok v \<Longrightarrow> ref_item (scalar_bytes v @ rest) = Some (v, rest)"
  by (cases v) (auto simp: ref_item_def ref_head_cbor_head length_utf8[symmetric] ref_utf8_utf8)

lemma ref_entries_entries:
  "\<forall>(k, v) \<in> set es. scalar_ok k \<and> scalar_ok v \<Longrightarrow>
   ref_entries (length es) (concat (map entry_bytes es) @ rest) = Some (es, rest)"
  by (induction es) (auto simp: ref_item_scalar)

lemma ref_de_map:
  assumes "flat_map es"
  shows "ref_de (map_bytes es @ rest) = Inr (CMap es, length (map_bytes es))"
proof -
  have "length es \<le> u64_max" using assms by (simp add: flat_map_def u64_max_def)
  then have "ref_head (map_bytes es @ rest) = Some (5, length es, concat (map entry_bytes es) @ rest)"
    by (simp add: map_bytes_def ref_head_cbor_head)
  moreover have "ref_entries (length es) (concat (map entry_bytes es) @ rest) = Some (es, rest)"
    using assms by (intro ref_entries_entries) (simp add: flat_map_def)
  ultimately show ?thesis
    using assms by (simp add: ref_de_def flat_map_def)
qed

section \<open>Toy cryptography\<close>

definition toy_hash :: "bytes \<Rightarrow> bytes" where
  "toy_hash m = be_bytes 32 (foldl (\<lambda>v b. (v * 65599 + unat b + 1) mod 2 ^ 256) 0 m)"

definition toy_mask :: "bytes \<Rightarrow> bytes \<Rightarrow> bytes" where
  "toy_mask k m = map (\<lambda>b. b XOR hd (k @ [0])) m"

definition toy_tag :: "bytes \<Rightarrow> bytes \<Rightarrow> bytes \<Rightarrow> bytes \<Rightarrow> bytes" where
  "toy_tag k n a c = drop 16 (toy_hash (k @ n @ a @ c))"

definition toy_encrypt :: "bytes \<Rightarrow> bytes \<Rightarrow> bytes \<Rightarrow> bytes \<Rightarrow> bytes option" where
  "toy_encrypt k n a m = (let c = toy_mask k m in Some (c @ toy_tag k n a c))"

definition toy_decrypt :: "bytes \<Rightarrow> bytes \<Rightarrow> bytes \<Rightarrow> bytes \<Rightarrow> bytes option" where
  "toy_decrypt k n a c =
     (let body = take (length c - 16) c in
      if 16 \<le> length c \<and> drop (length c - 16) c = toy_tag k n a body then Some (toy_mask k body) else None)"

definition toy_sign :: "bytes \<Rightarrow> bytes \<Rightarrow> bytes" where
  "toy_sign s m = toy_hash (s @ m) @ toy_hash (m @ s)"

definition ref_ext :: ext where
  "ref_ext =
     \<lparr>cbor_ser = ref_ser, cbor_de = ref_de, sha256 = toy_hash,
      hkdf_expand = (\<lambda>s k i n. if n \<le> 8160 then Some (be_bytes n (be_value (toy_hash (s @ k @ i)))) else None),
      hmac_sha256 = (\<lambda>k m. toy_hash (k @ m)), ed_public = (\<lambda>s. s), ed_sign = toy_sign,
      ed_key_valid = (\<lambda>p. length p = 32), ed_verify_strict = (\<lambda>p m s. s = toy_sign p m),
      x_public = (\<lambda>s. s), x_diffie_hellman = (\<lambda>s p. be_bytes 32 (be_value s + be_value p)),
      x_was_contributory = list_ex (\<lambda>b. b \<noteq> 0), aead_encrypt = toy_encrypt, aead_decrypt = toy_decrypt,
      bip39_words = map (\<lambda>i. [char_of (48 + i div 64), char_of (48 + i mod 64)]) [0..<2048]\<rparr>"

lemma length_toy_hash [simp]: "length (toy_hash m) = 32"
  by (simp add: toy_hash_def)

lemma length_toy_tag [simp]: "length (toy_tag k n a c) = 16"
  by (simp add: toy_tag_def)

lemma toy_mask_twice [simp]: "toy_mask k (toy_mask k m) = m"
  by (simp add: toy_mask_def comp_def xor.assoc)

lemma length_toy_mask [simp]: "length (toy_mask k m) = length m"
  by (simp add: toy_mask_def)

lemma toy_decrypt_encrypt:
  "toy_encrypt k n a m = Some c \<Longrightarrow> toy_decrypt k n a c = Some m \<and> length c = length m + 16"
  by (auto simp: toy_encrypt_def toy_decrypt_def Let_def)

lemma ref_cbor_ok: "cbor_ok ref_ext"
proof -
  have "ref_ser (CMap es) = Inr (map_bytes es)" if "flat_map es" for es
    using that by (auto simp: ref_ser_def flat_map_def list_all_iff)
  then show ?thesis
    using ref_de_map by (simp add: cbor_ok_def ref_ext_def)
qed

lemma ref_crypto_ok: "crypto_ok ref_ext"
proof -
  have "\<exists>c. toy_encrypt k n a m = Some c \<and> length c = length m + 16 \<and> toy_decrypt k n a c = Some m" for k n a m
    using toy_decrypt_encrypt[of k n a m] by (simp add: toy_encrypt_def Let_def)
  then show ?thesis
    unfolding crypto_ok_def ref_ext_def by (simp add: toy_sign_def add.commute)
qed

lemmas ref_ok = ref_cbor_ok ref_crypto_ok

interpretation ref: cbor_lib ref_ext
  by unfold_locales (rule ref_cbor_ok)

end
