(* ===== verification/Reference_Run.thy ===== *)
theory Reference_Run
  imports Machine_Chat Reference_Ext
begin

text \<open>
  The runs behind a connection, and one connection between two concrete parties on the reference
  library: the examples on which the properties of runs are shown to apply.
\<close>

section \<open>The runs behind a connection\<close>

lemma run_handle:
  "engine_run X role identity entropy h en \<Longrightarrow> handle X inp en = (en', out) \<Longrightarrow>
   \<exists>h'. engine_run X role identity entropy h' en' \<and> effects h' = effects h @ out"
  by (intro exI[of _ "h @ [(inp, out)]"]) (auto intro: engine_run.input)

lemma run_feed:
  "engine_run X role identity entropy h en \<Longrightarrow> feed X fs en = (en', out) \<Longrightarrow>
   \<exists>h'. engine_run X role identity entropy h' en' \<and> effects h' = effects h @ out"
proof (induction fs arbitrary: h en out)
  case (Cons f fs)
  obtain en1 o1 where 1: "handle X (FrameReceived f) en = (en1, o1)" by (metis surj_pair)
  obtain en2 o2 where 2: "feed X fs en1 = (en2, o2)" by (metis surj_pair)
  from run_handle[OF Cons.prems(1) 1] obtain h1 where h1: "engine_run X role identity entropy h1 en1"
    "effects h1 = effects h @ o1" by blast
  have en2: "en2 = en'" using Cons.prems(2) 1 2 by simp
  from Cons.IH[OF h1(1) 2[unfolded en2]] obtain h2 where "engine_run X role identity entropy h2 en'"
    "effects h2 = effects h1 @ o2" by blast
  with Cons.prems(2) 1 2 h1(2) show ?case by (intro exI[of _ h2]) simp
qed (use engine_run.intros in auto)

lemma connect_run:
  assumes "connect X sa ea sb eb = ((a, oa), (b, ob))"
  shows "\<exists>h. engine_run X Initiator sa ea h a \<and> set oa \<subseteq> set (effects h)"
proof -
  from assms obtain a1 o1 b0 o0 b1 o2 a2 o3 b2 o4 a3 o5 b3 o6 b4 o7 a4 o8 b5 o9 o10 where
    s: "handle X Start (engine_new Initiator sa ea) = (a1, o1)" "feed X (sends o2) a1 = (a2, o3)"
      "handle X (SasDecision True) a2 = (a3, o5)" "feed X (sends o7) a3 = (a4, o8)"
      "feed X (sends o9) a4 = (a, o10)" "oa = o3 @ o10"
    unfolding connect_def by (auto simp: split_beta Let_def prod_eq_iff)
  obtain h1 where h1: "engine_run X Initiator sa ea h1 a1" "effects h1 = o1"
    using run_handle[OF engine_run.created s(1)] by auto
  obtain h2 where h2: "engine_run X Initiator sa ea h2 a2" "effects h2 = o1 @ o3"
    using run_feed[OF h1(1) s(2)] h1(2) by auto
  obtain h3 where h3: "engine_run X Initiator sa ea h3 a3" "effects h3 = o1 @ o3 @ o5"
    using run_handle[OF h2(1) s(3)] h2(2) by auto
  obtain h4 where h4: "engine_run X Initiator sa ea h4 a4" "effects h4 = o1 @ o3 @ o5 @ o8"
    using run_feed[OF h3(1) s(4)] h3(2) by auto
  obtain h5 where "engine_run X Initiator sa ea h5 a" "effects h5 = o1 @ o3 @ o5 @ o8 @ o10"
    using run_feed[OF h4(1) s(5)] h4(2) by auto
  then show ?thesis using s(6) by (intro exI[of _ h5]) auto
qed

lemma connect_run_responder:
  assumes "connect X sa ea sb eb = ((a, oa), (b, ob))"
  shows "\<exists>h. engine_run X Responder sb eb h b \<and> set ob \<subseteq> set (effects h)"
proof -
  from assms obtain o1 b0 o0 b1 o2 o3 b2 o4 o5 b3 o6 b4 o7 o8 o9 where
    s: "handle X Start (engine_new Responder sb eb) = (b0, o0)" "feed X (sends o1) b0 = (b1, o2)"
      "feed X (sends o3) b1 = (b2, o4)" "handle X (SasDecision True) b2 = (b3, o6)"
      "feed X (sends o5) b3 = (b4, o7)" "feed X (sends o8) b4 = (b, o9)" "ob = o4 @ o9"
    unfolding connect_def by (auto simp: split_beta Let_def prod_eq_iff)
  obtain h0 where h0: "engine_run X Responder sb eb h0 b0" "effects h0 = o0"
    using run_handle[OF engine_run.created s(1)] by auto
  obtain h1 where h1: "engine_run X Responder sb eb h1 b1" "effects h1 = o0 @ o2"
    using run_feed[OF h0(1) s(2)] h0(2) by auto
  obtain h2 where h2: "engine_run X Responder sb eb h2 b2" "effects h2 = o0 @ o2 @ o4"
    using run_feed[OF h1(1) s(3)] h1(2) by auto
  obtain h3 where h3: "engine_run X Responder sb eb h3 b3" "effects h3 = o0 @ o2 @ o4 @ o6"
    using run_handle[OF h2(1) s(4)] h2(2) by auto
  obtain h4 where h4: "engine_run X Responder sb eb h4 b4" "effects h4 = o0 @ o2 @ o4 @ o6 @ o7"
    using run_feed[OF h3(1) s(5)] h3(2) by auto
  obtain h5 where "engine_run X Responder sb eb h5 b" "effects h5 = o0 @ o2 @ o4 @ o6 @ o7 @ o9"
    using run_feed[OF h4(1) s(6)] h4(2) by auto
  then show ?thesis using s(7) by (intro exI[of _ h5]) auto
qed

text \<open>Two parties with concrete seeds and entropy, on the reference library.\<close>

definition seed :: "nat \<Rightarrow> bytes" where "seed n = replicate 32 (word_of_nat n)"

definition steady :: "nat \<Rightarrow> nat \<Rightarrow> u8" where "steady n i = word_of_nat n"

lemma entropy_steady: "entropy_secret (steady n) = replicate 32 (word_of_nat n)"
  unfolding entropy_secret_def by (rule nth_equalityI) (simp_all add: steady_def)

lemma demo_contributory:
  "x_was_contributory ref_ext (x_diffie_hellman ref_ext (bs @ [1]) (cs @ [2]))"
proof -
  have "word_of_nat (be_value (bs @ [1])) = (1 :: u8)" "word_of_nat (be_value (cs @ [2])) = (2 :: u8)"
    by (simp_all add: be_value_snoc)
  then have "word_of_nat (be_value (bs @ [1]) + be_value (cs @ [2])) = (3 :: u8)"
    unfolding of_nat_add by simp
  moreover have "word_of_nat n \<in> set (be_bytes 32 n)" for n
    using be_bytes.simps(2)[of 31 n] by simp
  ultimately have "(3 :: u8) \<in> set (be_bytes 32 (be_value (bs @ [1]) + be_value (cs @ [2])))" by metis
  then have "list_ex (\<lambda>b. b \<noteq> 0) (be_bytes 32 (be_value (bs @ [1]) + be_value (cs @ [2])))"
    by (auto simp: list_ex_iff intro!: bexI[of _ 3])
  then show ?thesis by (simp add: ref_ext_def)
qed

lemma demo_pair: "honest_pair ref_ext (seed 1) (steady 1) (seed 2) (steady 2)"
proof -
  have keys: "identity_of ref_ext s = s" "x_public ref_ext s = s" for s
    by (simp_all add: ref_ext_def identity_of_def)
  have "replicate 32 (b :: u8) = replicate 31 b @ [b]" for b
    using replicate_append_same[of 31 b] by (simp add: eval_nat_numeral)
  then have ent: "entropy_secret (steady 1) = replicate 31 1 @ [1]" "entropy_secret (steady 2) = replicate 31 2 @ [2]"
    by (simp_all add: entropy_steady)
  have "x_was_contributory ref_ext (x_diffie_hellman ref_ext (entropy_secret (steady 1)) (entropy_secret (steady 2)))"
    unfolding ent by (rule demo_contributory)
  moreover have "seed 1 \<noteq> seed 2" by (simp add: seed_def)
  moreover have "entropy_secret (steady 1) \<noteq> entropy_secret (steady 2)" by (simp add: entropy_steady)
  ultimately show ?thesis
    using ref_cbor_ok ref_crypto_ok by (simp add: honest_pair_def keys) (simp add: seed_def)
qed

lemma demo_connected:
  "\<exists>keys a oa b ob words. connect ref_ext (seed 1) (steady 1) (seed 2) (steady 2) = ((a, oa), (b, ob)) \<and>
    length (k_session_id keys) = 16 \<and>
    engine_state a = SActive \<and> en_active a = Some (session_new keys Initiator (identity_of ref_ext (seed 2))) \<and>
    engine_state b = SActive \<and> en_active b = Some (session_new keys Responder (identity_of ref_ext (seed 1))) \<and>
    Notify (Established (identity_of ref_ext (seed 2))) \<in> set oa"
  using connect_succeeds[OF demo_pair] by blast

lemma demo_run:
  "\<exists>h en. engine_run ref_ext Initiator (seed 1) (steady 1) h en \<and> engine_state en = SActive \<and>
    peer_identity en = Some (identity_of ref_ext (seed 2)) \<and>
    Notify (Established (identity_of ref_ext (seed 2))) \<in> set (effects h)"
proof -
  obtain keys a oa b ob where c: "connect ref_ext (seed 1) (steady 1) (seed 2) (steady 2) = ((a, oa), (b, ob))"
    "engine_state a = SActive" "en_active a = Some (session_new keys Initiator (identity_of ref_ext (seed 2)))"
    "Notify (Established (identity_of ref_ext (seed 2))) \<in> set oa"
    using demo_connected by metis
  from connect_run[OF c(1)] c(2-4) show ?thesis by (fastforce simp: peer_identity_def)
qed

lemma demo_linked:
  "\<exists>(keys :: session_keys) a b. connect ref_ext (seed 1) (steady 1) (seed 2) (steady 2) = (a, b) \<and>
     linked ref_ext InitiatorToResponder (k_initiator_to_responder keys) 0 (fst a) (fst b)"
proof -
  obtain keys a oa b ob where c: "connect ref_ext (seed 1) (steady 1) (seed 2) (steady 2) = ((a, oa), (b, ob))"
    "length (k_session_id keys) = 16"
    "engine_state a = SActive" "en_active a = Some (session_new keys Initiator (identity_of ref_ext (seed 2)))"
    "engine_state b = SActive" "en_active b = Some (session_new keys Responder (identity_of ref_ext (seed 1)))"
    using demo_connected by metis
  have "linked ref_ext (send_direction Initiator) (send_key Initiator keys) 0 a b"
    using c by (intro linked_connect) (simp_all add: other_role_def)
  then show ?thesis
    using c(1)
    by (intro exI[of _ keys] exI[of _ "(a, oa)"] exI[of _ "(b, ob)"])
      (simp add: send_direction_def send_key_def)
qed


lemma demo_delivery:
  "\<exists>h en. engine_run ref_ext Responder (seed 2) (steady 2) h en \<and> Deliver [1, 2, 3] \<in> set (effects h)"
proof -
  obtain keys :: session_keys and ab where c: "connect ref_ext (seed 1) (steady 1) (seed 2) (steady 2) = ab"
    "linked ref_ext InitiatorToResponder (k_initiator_to_responder keys) 0 (fst (fst ab)) (fst (snd ab))"
    using demo_linked by auto
  obtain a oa b ob where ab: "ab = ((a, oa), (b, ob))" by (cases ab) auto
  obtain h where h: "engine_run ref_ext Responder (seed 2) (steady 2) h b"
    using connect_run_responder c(1) ab by blast
  obtain f where "Deliver [1, 2, 3] \<in> set (snd (handle ref_ext (FrameReceived f) b))"
    using linked_message[OF ref_cbor_ok ref_crypto_ok, of _ _ 0 a b "[1, 2, 3]"] c(2) ab
    by (auto simp: bounds_defs)
  moreover obtain en out where "handle ref_ext (FrameReceived f) b = (en, out)" by (metis surj_pair)
  ultimately show ?thesis using run_handle[OF h] by fastforce
qed

end
