(* ===== verification/Machine_Glare.thy ===== *)
theory Machine_Glare
  imports Machine_Chat Reference_Run
begin

text \<open>
  Simultaneous rekeys between two connected engines, from both requests to one initiator. An engine
  never changes its own identity or role, which the comparison of the two identities rests on.
\<close>

section \<open>Identity and role are fixed\<close>

definition self :: "engine \<Rightarrow> identity_keypair \<times> hello_role" where
  "self en = (en_identity en, en_role en)"

lemma self_ops [simp]:
  "self (fst (cancel k c)) = self (fst c)" "self (fst (arm k a c)) = self (fst c)"
  "self (fst (rearm_frame_deadline p st c)) = self (fst c)"
  "self (fst (cancel_all c)) = self (fst c)" "self (fst (fail_rekey e c)) = self (fst c)"
  "self (fst (note_rekey_rejection c)) = self (fst c)"
  by (simp_all add: self_def cancel_all_def fail_rekey_def note_rekey_rejection_def Let_def)

lemma self_terminate [simp]:
  "self (fst (terminate X cause r c)) = self (fst c)" "self (fst (fail_initial X e c)) = self (fst c)"
proof -
  show t: "self (fst (terminate X cause r c)) = self (fst c)" for cause r
    by (simp add: terminate_def Let_def cancel_all_def self_def split: option.split sum.split)
  show "self (fst (fail_initial X e c)) = self (fst c)"
    by (simp add: fail_initial_def t split_beta)
qed

lemma self_start_runs:
  "self (fst (snd (start_initiator_run X p prev c))) = self (fst c)"
  "self (fst (snd (start_responder_run X commit b c))) = self (fst c)"
  by (auto simp: start_initiator_run_def start_responder_run_def fresh_keys_values Let_def sbind_case self_def
      split: sum.splits)

lemma self_sbind: "(\<And>x. self (fst (snd (f x c))) = self (fst c)) \<Longrightarrow> self (fst (snd (sbind (m, c) f))) = self (fst c)"
  by (cases m) simp_all

lemma self_after:
  "self (fst (snd (step_auth_init X r f c))) = self (fst c)"
  "self (fst (snd (after_approval X r c))) = self (fst c)"
proof -
  show i: "self (fst (snd (step_auth_init X r f c))) = self (fst c)" for r f
    unfolding step_auth_init_def Let_def split_beta
    by (intro self_sbind) (simp add: self_def)
  show "self (fst (snd (after_approval X r c))) = self (fst c)"
    unfolding after_approval_def Let_def
    by (intro self_sbind) (auto simp: i split: hello_role.split option.split intro!: self_sbind)
qed

lemma self_after_hellos: "self (fst (snd (after_hellos X r remote c))) = self (fst c)"
  unfolding after_hellos_def Let_def split_beta
  by (intro self_sbind) (simp add: self_after split: handshake_purpose.split)

lemma self_step_run: "self (fst (snd (step_run X r f c))) = self (fst c)"
proof -
  have "self (fst (snd (step_hello X r f c))) = self (fst c)"
    unfolding step_hello_def by (intro self_sbind) (simp add: self_after_hellos)
  moreover have "self (fst (snd (step_reveal X r f c))) = self (fst c)"
    unfolding step_reveal_def by (intro self_sbind) (simp add: self_after_hellos)
  moreover have "self (fst (snd (step_auth_resp X r f c))) = self (fst c)"
    unfolding step_auth_resp_def Let_def split_beta by (intro self_sbind) (simp add: self_def)
  moreover have "self (fst (snd (step_confirm_resp X r f c))) = self (fst c)"
    unfolding step_confirm_resp_def Let_def by (intro self_sbind) simp
  moreover have "self (fst (snd (step_confirm_init X r f c))) = self (fst c)"
    unfolding step_confirm_init_def Let_def sbind_case by (simp add: self_def split: sum.split)
  ultimately show ?thesis
    by (simp add: step_run_def step_sas_def self_after split: step.split)
qed

lemma self_drive_run: "self (fst (snd (drive_run X f c))) = self (fst c)"
proof -
  have "self (fst (snd (step_run X r f (upd (\<lambda>en. en\<lparr>en_run := None\<rparr>) c)))) = self (fst c)" for r
    unfolding self_step_run by (simp add: self_def)
  then show ?thesis
    by (simp add: drive_run_def Let_def self_def split_beta split: option.split sum.split prod.split)
qed

lemma self_complete [simp]:
  "self (fst (complete_initial cand c)) = self (fst c)" "self (fst (complete_rekey cand c)) = self (fst c)"
  by (simp_all add: complete_initial_def complete_rekey_def Let_def self_def fail_rekey_def split: option.split)


lemma self_results:
  "start_initiator_run X p prev c = (res, c') \<Longrightarrow> self (fst c') = self (fst c)"
  "start_responder_run X commit b c = (res, c') \<Longrightarrow> self (fst c') = self (fst c)"
  "after_approval X r c = (sres, c') \<Longrightarrow> self (fst c') = self (fst c)"
  "drive_run X f c = (dres, c') \<Longrightarrow> self (fst c') = self (fst c)"
  using self_start_runs(1)[of X p prev c] self_start_runs(2)[of X commit b c] self_after(2)[of X r c] self_drive_run[of X f c]
  by auto

lemma self_upd: "(\<And>en. self (f en) = self en) \<Longrightarrow> self (fst (upd f c)) = self (fst c)"
  by simp

lemma self_begin_rekey: "self (fst (begin_rekey X c)) = self (fst c)"
  by (auto simp: begin_rekey_def Let_def dest: self_results split: option.split prod.split sum.split)

lemma self_maybe: "self (fst (maybe_trigger_rekey X c)) = self (fst c)"
  by (simp add: maybe_trigger_rekey_def self_begin_rekey)

lemma self_incoming: "self (fst (on_incoming_commit X commit b c)) = self (fst c)"
proof -
  have "self (en\<lparr>en_consecutive_rekey_rejections := 0\<rparr>) = self en" for en by (simp add: self_def)
  then show ?thesis
    by (auto simp: on_incoming_commit_def Let_def dest!: self_results split: prod.split sum.split)
qed

lemma self_glare: "self (fst (resolve_glare X commit c)) = self (fst c)"
  by (auto simp: resolve_glare_def Let_def self_incoming split: option.split) (simp add: self_def)

lemma self_rekey_frame: "self (fst (on_rekey_frame X f c)) = self (fst c)"
proof -
  have late: "self (en\<lparr>en_late_rekey_frames := n\<rparr>) = self en" for en n by (simp add: self_def)
  show ?thesis
    by (auto simp: on_rekey_frame_def Let_def self_incoming self_glare late dest!: self_results
        split: option.split prod.split sum.split)
qed

lemma self_handshaking: "self (fst (on_frame_handshaking X f c)) = self (fst c)"
proof -
  have "self (fst (on_close_frame X f c)) = self (fst c)"
    by (auto simp: on_close_frame_def split: sum.split option.split) (simp add: self_def)
  moreover have "accept_first_commit X f c = (res, c') \<Longrightarrow> self (fst c') = self (fst c)" for res c'
    by (auto simp: accept_first_commit_def sbind_case dest!: self_results split: sum.splits)
  then have "sbind (accept_first_commit X f c) (\<lambda>_ c. (Inr None, c)) = (res, c') \<Longrightarrow> self (fst c') = self (fst c)"
    for res :: "candidate option res" and c'
    by (cases "accept_first_commit X f c", cases "fst (accept_first_commit X f c)") auto
  ultimately show ?thesis
    by (auto simp: on_frame_handshaking_def dest!: self_results split: prod.split sum.split option.split)
qed

lemma self_data: "self (fst (on_data X f c)) = self (fst c)"
proof -
  have a: "self (en\<lparr>en_active := s\<rparr>) = self en" "self (en\<lparr>en_draining := s\<rparr>) = self en"
    "self (en\<lparr>en_messages := n\<rparr>) = self en" for en s n by (simp_all add: self_def)
  show ?thesis
    by (auto simp: on_data_def Let_def self_maybe count_message_def a split: option.split prod.split sum.split)
qed

lemma self_send: "self (fst (on_send X m c)) = self (fst c)"
proof -
  have a: "self (en\<lparr>en_active := s\<rparr>) = self en" "self (en\<lparr>en_messages := n\<rparr>) = self en" for en s n
    by (simp_all add: self_def)
  show ?thesis
    by (auto simp: on_send_def Let_def self_maybe count_message_def a split: option.split prod.split sum.split error.split)
qed

lemma handle_self: "self (fst (handle X inp en)) = self en"
proof -
  have f: "self (fst (on_frame X fr (en, []))) = self en" for fr
  proof -
    have "self (fst (on_close_frame X fr (en, []))) = self en"
      by (auto simp: on_close_frame_def split: sum.split option.split) (simp add: self_def)
    then show ?thesis
      by (simp add: on_frame_def self_handshaking self_data self_rekey_frame split: phase.split message_type.split)
  qed
  have u: "self (en\<lparr>en_run := r\<rparr>) = self en" "self (en\<lparr>en_phase := ph\<rparr>) = self en"
    "self (en\<lparr>en_deadlines := ds\<rparr>) = self en" "self (en\<lparr>en_draining := d\<rparr>) = self en"
    "self (en\<lparr>en_rekey_blocked := b, en_late_rekey_frames := n\<rparr>) = self en" for en r ph ds d b n
    by (simp_all add: self_def)
  have s: "self (fst (on_sas X b (en, []))) = self en" for b
    by (auto simp: on_sas_def Let_def u dest!: self_results split: option.split prod.split sum.split)
  have t: "self (fst (on_timeout X i (en, []))) = self en" for i
    by (auto simp: on_timeout_def Let_def u self_begin_rekey split: option.split deadline_kind.split)
  have st: "self (fst (start X (en, []))) = self en"
    by (auto simp: start_def Let_def u dest!: self_results split: prod.split sum.split)
  show ?thesis
    by (simp add: handle_def f s t st self_send self_begin_rekey Let_def split: input.split)
qed

lemma run_self: "engine_run X role identity entropy h en \<Longrightarrow> en_identity en = identity \<and> en_role en = role"
proof (induction rule: engine_run.induct)
  case created
  then show ?case by (simp add: engine_new_def)
next
  case (input h en inp en' out)
  then show ?case using handle_self[of X inp en] by (simp add: self_def)
qed simp


section \<open>Two requests at once\<close>

lemma request_rekey_offers:
  assumes X: "cbor_ok X" "crypto_ok X" and ok: "engine_ok X en" and ph: "en_phase en = PhEstablished"
    and idle: "en_run en = None" and sid: "active_session_id en = Some sid" "length sid = 16"
    and peer: "peer_identity en = Some peer" and seed: "length (en_identity en) = 32"
  shows "\<exists>en' out f commit. handle X RequestRekey en = (en', out) \<and> rekey_offered X en' sid peer \<and>
    en_identity en' = en_identity en \<and> sends out = [f] \<and> f_type f = MRekey \<and>
    commit_decode X f = Inr commit \<and> m_previous commit = Some sid"
proof -
  let ?hello = "\<lparr>h_cipher_suite = 1, h_purpose = PRekey, h_role = Initiator,
      h_identity = identity_of X (en_identity en), h_ephemeral = x_public X (entropy_secret (en_entropy en)),
      h_nonce = entropy_nonce (en_entropy en), h_previous = Some sid\<rparr>"
  have wf: "hello_wf ?hello"
    using X seed sid by (simp add: hello_wf_def crypto_ok_x_public crypto_ok_public identity_of_def)
  have hello: "hello_encode X ?hello = Inr (hello_frame ?hello)"
    using hello_encode_iff[OF X(1) wf] by (simp add: hello_frame_def purpose_mismatch_def)
  let ?commit = "\<lparr>m_cipher_suite = 1, m_purpose = PRekey,
      m_commitment = commit_hash X (f_payload (hello_frame ?hello)), m_previous = Some sid\<rparr>"
  let ?f = "\<lparr>f_version = V1, f_type = MRekey, f_payload = payload_bytes (commit_entries ?commit)\<rparr>"
  have cwf: "commit_wf ?commit"
    using X(2) sid(2) by (simp add: commit_wf_def commit_hash_def crypto_ok_def)
  have commit: "commit_encode X ?commit = Inr ?f"
    using commit_encode_iff[OF X(1) cwf] by (simp add: purpose_mismatch_def message_type_for_purpose_def)
  then have dec: "commit_decode X ?f = Inr ?commit" using commit_decode_encode[OF X(1) cwf] by blast
  obtain en' out where h: "handle X RequestRekey en = (en', out)" by (metis surj_pair)
  have ok': "engine_ok X en'" using handle_step[OF ok h] by blast
  have parts: "en_phase en' = PhEstablished" "en_active en' = en_active en" "en_identity en' = en_identity en"
    "\<exists>r. en_run en' = Some r \<and> ru_role r = Initiator \<and> ru_step r = Hello" "sends out = [?f]"
    using h ph idle sid(1) hello commit
    by (auto simp: handle_def begin_rekey_def start_initiator_run_def fresh_keys_values Let_def
        ephemeral_from_bytes_def)
  have "rekey_offered X en' sid peer"
    using ok' parts sid(1) peer by (simp add: rekey_offered_def active_session_id_def peer_identity_def)
  with h parts(3,5) dec show ?thesis by (intro exI[of _ en'] exI[of _ out] exI[of _ ?f] exI[of _ ?commit]) simp
qed

text \<open>
  What each of two engines with rekeys of their own does with the other's offer: the one with the
  greater identity goes on with its own, the other answers.
\<close>

definition one_initiator :: "ext \<Rightarrow> engine \<Rightarrow> frame \<Rightarrow> engine \<Rightarrow> frame \<Rightarrow> bool" where
  "one_initiator X a fa b fb \<longleftrightarrow>
     handle X (FrameReceived fb) a = (a, []) \<and>
     (\<exists>commit. commit_decode X fa = Inr commit \<and>
        rekey_answers b (fst (handle X (FrameReceived fa) b)) commit (snd (handle X (FrameReceived fa) b)))"

definition facing :: "ext \<Rightarrow> engine \<Rightarrow> engine \<Rightarrow> bool" where
  "facing X a b \<longleftrightarrow> engine_ok X a \<and> engine_state a = SActive \<and> length (en_identity a) = 32 \<and>
     peer_identity a = Some (identity_of X (en_identity b)) \<and>
     (\<exists>sid. active_session_id a = Some sid \<and> active_session_id b = Some sid \<and> length sid = 16)"

lemma active_phase: "engine_state en = SActive \<Longrightarrow> en_phase en = PhEstablished \<and> en_run en = None"
  by (auto simp: engine_state_def split: phase.splits if_splits)

lemma simultaneous_requests:
  assumes X: "cbor_ok X" "crypto_ok X" and ab: "facing X a b" and ba: "facing X b a"
    and ids: "identity_of X (en_identity a) \<noteq> identity_of X (en_identity b)"
  shows "\<exists>a' oa fa b' ob fb. handle X RequestRekey a = (a', oa) \<and> sends oa = [fa] \<and>
    handle X RequestRekey b = (b', ob) \<and> sends ob = [fb] \<and>
    (if bytes_greater (identity_of X (en_identity a)) (identity_of X (en_identity b))
     then one_initiator X a' fa b' fb else one_initiator X b' fb a' fa)"
proof -
  obtain sid where sid: "active_session_id a = Some sid" "active_session_id b = Some sid" "length sid = 16"
    using ab by (auto simp: facing_def)
  let ?ia = "identity_of X (en_identity a)" and ?ib = "identity_of X (en_identity b)"
  obtain a' oa fa ca where a': "handle X RequestRekey a = (a', oa)" "rekey_offered X a' sid ?ib"
    "en_identity a' = en_identity a" "sends oa = [fa]" "f_type fa = MRekey" "commit_decode X fa = Inr ca"
    "m_previous ca = Some sid"
    using request_rekey_offers[OF X, of a sid ?ib] ab sid active_phase[of a] by (auto simp: facing_def)
  obtain b' ob fb cb where b': "handle X RequestRekey b = (b', ob)" "rekey_offered X b' sid ?ia"
    "en_identity b' = en_identity b" "sends ob = [fb]" "f_type fb = MRekey" "commit_decode X fb = Inr cb"
    "m_previous cb = Some sid"
    using request_rekey_offers[OF X, of b sid ?ia] ba sid active_phase[of b] by (auto simp: facing_def)
  have la: "length (en_identity a') = 32" "length (en_identity b') = 32"
    using ab ba a'(3) b'(3) by (simp_all add: facing_def)
  show ?thesis
  proof (cases "bytes_greater ?ia ?ib")
    case True
    then have lose: "\<not> bytes_greater (identity_of X (en_identity b')) ?ia" using b'(3) glare_asym by simp
    have "handle X (FrameReceived fb) a' = (a', [])"
      using glare_winner[OF a'(2) b'(6,5,7)] True a'(3) by simp
    with glare_loser[OF X la(2) sid(3) b'(2) a'(6,5,7) lose] True a' b' show ?thesis
      by (simp add: one_initiator_def)
  next
    case False
    then have win: "bytes_greater ?ib ?ia" using glare_total ids by blast
    then have lose: "\<not> bytes_greater (identity_of X (en_identity a')) ?ib" using a'(3) glare_asym by simp
    have "handle X (FrameReceived fa) b' = (b', [])"
      using glare_winner[OF b'(2) a'(6,5,7)] win b'(3) by simp
    with glare_loser[OF X la(1) sid(3) a'(2) b'(6,5,7) lose] False a' b' show ?thesis
      by (simp add: one_initiator_def)
  qed
qed

text \<open>Engines fresh from a handshake face each other.\<close>

lemma connect_facing:
  assumes hp: "honest_pair X sa ea sb eb" and c: "connect X sa ea sb eb = ((a, oa), (b, ob))"
  shows "facing X a b \<and> facing X b a \<and> en_identity a = sa \<and> en_identity b = sb"
proof -
  obtain keys where k: "length (k_session_id keys) = 16" "engine_state a = SActive" "engine_state b = SActive"
    "en_active a = Some (session_new keys Initiator (identity_of X sb))"
    "en_active b = Some (session_new keys Responder (identity_of X sa))"
    using connect_succeeds[OF hp] c by auto
  obtain ha where ha: "engine_run X Initiator sa ea ha a" using connect_run[OF c] by blast
  obtain hb where hb: "engine_run X Responder sb eb hb b" using connect_run_responder[OF c] by blast
  from run_self[OF ha] run_self[OF hb] have "en_identity a = sa" "en_identity b = sb" by auto
  moreover have "length sa = 32" "length sb = 32" using hp by (simp_all add: honest_pair_def)
  ultimately show ?thesis
    using k run_ok_engine[OF ha] run_ok_engine[OF hb]
    by (auto simp: facing_def peer_identity_def active_session_id_def)
qed

lemma demo_facing:
  "\<exists>a b. facing ref_ext a b \<and> facing ref_ext b a \<and>
    identity_of ref_ext (en_identity a) \<noteq> identity_of ref_ext (en_identity b)"
proof -
  obtain a oa b ob where "connect ref_ext (seed 1) (steady 1) (seed 2) (steady 2) = ((a, oa), (b, ob))"
    using demo_connected by metis
  from connect_facing[OF demo_pair this] demo_pair show ?thesis
    by (intro exI[of _ a] exI[of _ b]) (simp add: honest_pair_def)
qed

text \<open>A run that is rekeying.\<close>

lemma demo_rekeying:
  "\<exists>h en. engine_run ref_ext Initiator (seed 1) (steady 1) h en \<and> engine_state en = SRekeying"
proof -
  obtain a oa b ob where c: "connect ref_ext (seed 1) (steady 1) (seed 2) (steady 2) = ((a, oa), (b, ob))"
    using demo_connected by metis
  obtain h where h: "engine_run ref_ext Initiator (seed 1) (steady 1) h a" using connect_run[OF c] by blast
  have "facing ref_ext a b" using connect_facing[OF demo_pair c] by blast
  then obtain sid peer where f: "active_session_id a = Some sid" "length sid = 16" "peer_identity a = Some peer"
    "engine_ok ref_ext a" "engine_state a = SActive" "length (en_identity a) = 32" by (auto simp: facing_def)
  obtain en' out where r: "handle ref_ext RequestRekey a = (en', out)" "rekey_offered ref_ext en' sid peer"
    using request_rekey_offers[OF ref_cbor_ok ref_crypto_ok f(4) _ _ f(1,2,3,6)] active_phase[OF f(5)] by auto
  then have "engine_state en' = SRekeying" by (auto simp: rekey_offered_def engine_state_def)
  with run_handle[OF h r(1)] show ?thesis by blast
qed

end
