(* ===== verification/Data_Stream.thy ===== *)
theory Data_Stream
  imports Data_Session
begin

text \<open>
  A sender and a receiver together: the frames of a run of the sender are sealed with consecutive
  counters, and a receiver that gets them in any order within the replay window delivers them all.
\<close>

lemma sender_run_seals:
  assumes X: "cbor_ok X" "crypto_ok X" and sid: "length sid = 16"
  shows "sender_rel X sid d ck s n \<Longrightarrow> n + length cs \<le> u64_max \<Longrightarrow> \<forall>c \<in> set cs. length c \<le> MAX_CONTENT \<Longrightarrow>
    \<exists>fs s'. sender_run X s cs = (map Inr fs, s') \<and> length fs = length cs \<and>
      (\<forall>i < length cs. sealed X sid d ck (n + i) (cs ! i) (fs ! i))"
proof (induction cs arbitrary: s n)
  case (Cons c cs)
  then have "n < u64_max" "length c \<le> MAX_CONTENT" by auto
  from encrypt_seals[OF X sid Cons.prems(1) this] obtain f s1 where
    f: "sender_encrypt X s c = (Inr f, s1)" "sender_rel X sid d ck s1 (Suc n)" "sealed X sid d ck n c f" by blast
  obtain fs s' where fs: "sender_run X s1 cs = (map Inr fs, s')" "length fs = length cs"
    "\<forall>i < length cs. sealed X sid d ck (Suc n + i) (cs ! i) (fs ! i)"
    using Cons.IH[OF f(2)] Cons.prems by auto
  have "sealed X sid d ck (n + i) ((c # cs) ! i) ((f # fs) ! i)" if "i < length (c # cs)" for i
    using that f(3) fs(3) by (cases i) auto
  with f(1) fs(1,2) show ?case by (intro exI[of _ "f # fs"] exI[of _ s']) simp
qed simp

lemma sent_frames_Inr [simp]: "sent_frames (map Inr fs) = fs"
  by (induction fs) (simp_all add: sent_frames_def)

lemma stream_any_order:
  assumes X: "cbor_ok X" "crypto_ok X" and sid: "length sid = 16"
    and cs: "length cs \<le> 64" "\<forall>c \<in> set cs. length c \<le> MAX_CONTENT"
    and ns: "distinct ns" "set ns \<subseteq> {..<length cs}"
    and fs: "fs = sent_frames (fst (sender_run X (sender_new sid d ck) cs))"
  shows "map snd (fst (receiver_run X (receiver_new sid d ck) (map (\<lambda>n. fs ! n) ns))) = map (\<lambda>n. cs ! n) ns"
proof -
  have "0 + length cs \<le> u64_max" using cs(1) by (simp add: bounds_defs)
  from sender_run_seals[OF X sid sender_rel_new[of X sid d ck] this cs(2)] obtain fs0 s' where
    r: "sender_run X (sender_new sid d ck) cs = (map Inr fs0, s')"
    and sealed: "\<forall>i < length cs. sealed X sid d ck i (cs ! i) (fs0 ! i)" by auto
  then have "fs = fs0" by (simp add: fs)
  then have "fst (receiver_run X (receiver_new sid d ck) (map (\<lambda>n. fs ! n) ns)) = map (\<lambda>n. (fs ! n, cs ! n)) ns"
    using sealed ns cs(1) by (intro any_order_run[OF X(1) receiver_rel_new]) auto
  then show ?thesis by (simp add: comp_def)
qed


section \<open>Padding\<close>

text \<open>The length of the ciphertext of a content padded with \<open>n\<close> zero bytes.\<close>

definition sealed_length :: "bytes \<Rightarrow> nat \<Rightarrow> nat" where
  "sealed_length content n =
     length (payload_bytes (plaintext_entries \<lparr>p_content = content, p_padding = replicate n 0\<rparr>)) + AEAD_TAG_SIZE"

lemma sealed_length_total:
  assumes "length content \<le> MAX_CONTENT" "n \<le> MAX_CONTENT"
  shows "sealed_length content n = pad_total (pad_fixed content) n"
proof -
  have "plaintext_ok \<lparr>p_content = content, p_padding = replicate n 0\<rparr>" using assms by (simp add: plaintext_ok_def)
  from plaintext_length[OF this] show ?thesis by (simp add: sealed_length_def pad_total_def pad_fixed_def)
qed

lemma padded_least:
  assumes "length content \<le> MAX_CONTENT"
  shows "\<exists>n. padded content = Inr \<lparr>p_content = content, p_padding = replicate n 0\<rparr> \<and> n \<le> 511 \<and>
    sealed_length content n mod DEFAULT_PADDING_QUANTUM = 0 \<and>
    (\<forall>m < n. sealed_length content m mod DEFAULT_PADDING_QUANTUM \<noteq> 0)"
proof -
  obtain n where n: "padded content = Inr \<lparr>p_content = content, p_padding = replicate n 0\<rparr>" "n \<le> 511"
    "pad_total (pad_fixed content) n mod 256 = 0" "\<forall>m < n. pad_total (pad_fixed content) m mod 256 \<noteq> 0"
    using padded_ok[OF assms] by (elim exE conjE)
  have "sealed_length content m = pad_total (pad_fixed content) m" if "m \<le> n" for m
    using that n(2) by (intro sealed_length_total[OF assms]) (simp add: MAX_CONTENT_def)
  with n show ?thesis unfolding DEFAULT_PADDING_QUANTUM_def by (metis less_imp_le order_refl)
qed

text \<open>A message key is used for one message: two sealed counters never share key and nonce.\<close>

lemma consecutive_nonces:
  assumes "k \<le> u64_max"
  shows "distinct (map (message_nonce d) [0..<k])"
  using assms message_nonce_inject[of _ _ d d] by (auto simp: distinct_map inj_on_def)

end
