(* ===== verification/Crypto_Sas.thy ===== *)
theory Crypto_Sas
  imports Crypto
begin

unbundle bit_operations_syntax

text \<open>
  The short authentication string: the shifts and masks of \<^verbatim>\<open>sas_indices\<close> are the first 33 bits
  of the hash, most significant bit first, cut into three numbers of 11 bits.
\<close>

lemma or_low_bits:
  fixes x y :: nat
  assumes "y < 2 ^ k"
  shows "push_bit k x OR y = 2 ^ k * x + y"
proof -
  have "y = take_bit k y" using assms by (simp add: take_bit_nat_eq_self)
  then have "push_bit k x AND y = push_bit k x AND take_bit k y" by simp
  also have "\<dots> = 0" by (auto simp: bit_eq_iff bit_simps)
  finally have "push_bit k x + y = push_bit k x OR y" by (rule disjunctive_add_eq_or)
  then show ?thesis by (simp add: push_bit_eq_mult ac_simps)
qed

lemma pack_byte:
  fixes x c :: nat
  assumes "c < 256"
  shows "push_bit (n + 8) x OR push_bit n c = push_bit n (256 * x + c)"
proof -
  have "push_bit (n + 8) x = push_bit n (push_bit 8 x)" by (simp only: push_bit_push_bit)
  then have "push_bit (n + 8) x OR push_bit n c = push_bit n (push_bit 8 x OR c)" by (simp only: push_bit_or)
  then show ?thesis using or_low_bits[of c 8 x] assms by simp
qed

lemma unat_push_byte:
  assumes "n \<le> 25"
  shows "unat (push_bit n (ucast (b :: u8)) :: u64) = push_bit n (unat b)"
proof -
  have b: "unat b < 2 ^ 8" using u8_bound[of b] by simp
  then have "2 ^ n * unat b < 2 ^ 25 * 2 ^ 8"
    using assms by (intro mult_le_less_imp_less power_increasing) simp_all
  then have "push_bit n (unat b) < 2 ^ 64" by (simp add: push_bit_eq_mult mult.commute)
  moreover have "unat (ucast b :: u64) = unat b"
    using b by (simp add: unsigned_ucast_eq take_bit_nat_eq_self)
  ultimately show ?thesis by (simp add: unsigned_push_bit_eq take_bit_nat_eq_self)
qed

lemma unat_sas_packed:
  "unat (sas_packed hash) =
     2 * (256 * (256 * (256 * unat (hash ! 0) + unat (hash ! 1)) + unat (hash ! 2)) + unat (hash ! 3)) +
     unat (hash ! 4) div 128"
proof -
  have e: "unat (ucast (drop_bit 7 (hash ! 4)) :: u64) = unat (hash ! 4) div 128"
  proof -
    have "unat (drop_bit 7 (hash ! 4)) = unat (hash ! 4) div 128"
      unfolding unat_drop_bit_eq by (simp add: drop_bit_eq_div)
    moreover have "unat (hash ! 4) div 128 < 2 ^ 64" using u8_bound[of "hash ! 4"] by simp
    ultimately show ?thesis by (simp add: unsigned_ucast_eq take_bit_nat_eq_self)
  qed
  have h: "unat (hash ! i) < 256" for i by (rule u8_bound)
  have p1: "push_bit 25 x OR push_bit 17 c = push_bit 17 (256 * x + c)" if "c < 256" for x c :: nat
    using pack_byte[OF that, of 17 x] by simp
  have p2: "push_bit 17 x OR push_bit 9 c = push_bit 9 (256 * x + c)" if "c < 256" for x c :: nat
    using pack_byte[OF that, of 9 x] by simp
  have p3: "push_bit 9 x OR push_bit 1 c = push_bit 1 (256 * x + c)" if "c < 256" for x c :: nat
    using pack_byte[OF that, of 1 x] by simp
  have p4: "push_bit 1 x OR y = 2 * x + y" if "y < 2" for x y :: nat
    using or_low_bits[of y 1 x] that by simp
  have "unat (hash ! 4) div 128 < 2" using h[of 4] by simp
  have u: "unat (push_bit 25 (ucast b) :: u64) = push_bit 25 (unat b)"
    "unat (push_bit 17 (ucast b) :: u64) = push_bit 17 (unat b)"
    "unat (push_bit 9 (ucast b) :: u64) = push_bit 9 (unat b)"
    "unat (push_bit 1 (ucast b) :: u64) = push_bit 1 (unat b)" for b :: u8
    by (rule unat_push_byte, simp)+
  show ?thesis
    unfolding sas_packed_def unsigned_or_eq e or.assoc[symmetric] u
      p1[OF h] p2[OF h] p3[OF h] p4[OF \<open>unat (hash ! 4) div 128 < 2\<close>] ..
qed

lemma sas_packed_bits:
  assumes "5 \<le> length hash"
  shows "unat (sas_packed hash) = be_value (take 5 hash) div 128"
proof -
  have "take 5 hash = [hash ! 0, hash ! 1, hash ! 2, hash ! 3, hash ! 4]"
    using assms by (intro nth_equalityI) (auto simp: less_Suc_eq numeral_eq_Suc)
  then have "be_value (take 5 hash) =
      128 * (2 * (256 * (256 * (256 * unat (hash ! 0) + unat (hash ! 1)) + unat (hash ! 2)) + unat (hash ! 3))) +
      unat (hash ! 4)"
    by (simp add: be_value_def)
  then show ?thesis unfolding unat_sas_packed by simp
qed

lemma unat_low_eleven: "unat (ucast (w AND 0x7ff :: u64) :: 16 word) = unat w mod 2048"
proof -
  have m: "(0x7ff :: u64) = mask 11" by (simp add: mask_eq_exp_minus_1)
  have "unat (w AND 0x7ff) = unat w mod 2048"
    unfolding m take_bit_eq_mask[symmetric] unsigned_take_bit_eq by (simp add: take_bit_eq_mod)
  moreover have "unat w mod 2048 < 2 ^ 16" by (rule less_trans[OF mod_less_divisor]) simp_all
  ultimately show ?thesis by (simp add: unsigned_ucast_eq take_bit_nat_eq_self)
qed

lemma sas_index_values:
  "unat (sas_first (sas_indices hash)) = unat (sas_packed hash) div 2 ^ 22 mod 2048"
  "unat (sas_second (sas_indices hash)) = unat (sas_packed hash) div 2 ^ 11 mod 2048"
  "unat (sas_third (sas_indices hash)) = unat (sas_packed hash) mod 2048"
  unfolding sas_indices_def Let_def sas_index.simps unat_low_eleven unat_drop_bit_eq
  by (simp_all only: drop_bit_eq_div)

lemma three_elevens: "(n :: nat) < 2 ^ 33 \<Longrightarrow>
    n = (n div 2 ^ 22 mod 2048) * 2 ^ 22 + (n div 2 ^ 11 mod 2048) * 2 ^ 11 + n mod 2048"
proof -
  have digits: "(x * 2048 + y) * 2048 + z = x * 2 ^ 22 + y * 2 ^ 11 + z" for x y z :: nat by simp
  assume "n < 2 ^ 33"
  then have lt: "n div 2 ^ 22 < 2048" by (simp add: less_mult_imp_div_less)
  have q: "n div 2 ^ 22 = n div 2048 div 2048" by (simp add: div_mult2_eq[symmetric])
  have low: "n div 2 ^ 11 = n div 2048" by simp
  from lt q have top: "n div 2 ^ 22 mod 2048 = n div 2048 div 2048" by simp
  have "n = n div 2048 * 2048 + n mod 2048" by (rule div_mult_mod_eq[symmetric])
  also have "n div 2048 = n div 2048 div 2048 * 2048 + n div 2048 mod 2048" by (rule div_mult_mod_eq[symmetric])
  finally have "n = (n div 2048 div 2048 * 2048 + n div 2048 mod 2048) * 2048 + n mod 2048" .
  also have "\<dots> = (n div 2 ^ 22 mod 2048) * 2 ^ 22 + (n div 2 ^ 11 mod 2048) * 2 ^ 11 + n mod 2048"
    unfolding top low by (rule digits)
  finally show ?thesis .
qed

end
