(* ===== verification/Display.thy ===== *)
theory Display
  imports Prelude
begin

text \<open>
  Text for the terminal: \<^verbatim>\<open>ruxmsg-core/src/display.rs\<close>, the functions of
  \<^verbatim>\<open>ruxmsg-cli/src/app.rs\<close> that turn peer bytes and identities into text, and what they
  use of Rust's standard library: character classes, decimal and hexadecimal formatting, and UTF-8
  decoding, strict (\<^verbatim>\<open>from_utf8\<close>) and lossy (\<^verbatim>\<open>from_utf8_lossy\<close>).
\<close>

section \<open>Characters and numbers\<close>

text \<open>\<^verbatim>\<open>char::is_control\<close>: the general category Cc.\<close>

definition is_control :: "nat \<Rightarrow> bool" where
  "is_control c \<longleftrightarrow> c < 32 \<or> (127 \<le> c \<and> c < 160)"

definition digit :: "nat \<Rightarrow> nat" where
  "digit d = (if d < 10 then 48 + d else 87 + d)"

text \<open>\<^verbatim>\<open>{n}\<close> in base ten and \<^verbatim>\<open>{n:x}\<close>.\<close>

fun in_base :: "nat \<Rightarrow> nat \<Rightarrow> ustr" where
  "in_base b n = (if n < b \<or> b < 2 then [digit n] else in_base b (n div b) @ [digit (n mod b)])"

declare in_base.simps [simp del]

definition dec :: "nat \<Rightarrow> ustr" where
  "dec n = in_base 10 n"

text \<open>\<^verbatim>\<open>{n:0wx}\<close>: at least \<open>w\<close> hexadecimal digits.\<close>

definition hex_padded :: "nat \<Rightarrow> nat \<Rightarrow> ustr" where
  "hex_padded w n = (let s = in_base 16 n in replicate (w - length s) 48 @ s)"

section \<open>display.rs\<close>

definition unsafe_char :: "nat \<Rightarrow> bool" where
  "unsafe_char c \<longleftrightarrow>
     (is_control c \<and> c \<noteq> 10 \<and> c \<noteq> 9) \<or>
     c = 0x061C \<or> c = 0x200E \<or> c = 0x200F \<or> (0x2028 \<le> c \<and> c \<le> 0x202E) \<or>
     (0x2066 \<le> c \<and> c \<le> 0x2069) \<or> c = 0xFEFF"

definition escape :: "nat \<Rightarrow> ustr" where
  "escape c = [92, 117, 123] @ hex_padded 4 c @ [125]"

definition sanitize_for_display :: "ustr \<Rightarrow> ustr" where
  "sanitize_for_display input = concat (map (\<lambda>c. if unsafe_char c then escape c else [c]) input)"

section \<open>error.rs\<close>

text \<open>The display form of an error; \<open>{:#0wx}\<close> counts the prefix \<open>0x\<close> in its width.\<close>

definition hex_prefixed :: "nat \<Rightarrow> nat \<Rightarrow> ustr" where
  "hex_prefixed w n = lit ''0x'' @ hex_padded (w - 2) n"

primrec error_text :: "error \<Rightarrow> ustr" where
  "error_text (UnsupportedVersion v) = lit ''unsupported protocol version: '' @ hex_prefixed 4 v"
| "error_text (UnknownMessageType t) = lit ''unknown message type: '' @ hex_prefixed 4 t"
| "error_text (InvalidFrameLength n) = lit ''invalid frame payload length: '' @ dec n @ lit '' bytes''"
| "error_text (InvalidDirection d) = lit ''invalid direction identifier: '' @ hex_prefixed 10 d"
| "error_text (InvalidLength kind expected actual) =
     lit ''invalid fixed-size value for '' @ lit kind @ lit '': expected '' @ dec expected
     @ lit '' bytes, got '' @ dec actual"
| "error_text (Storage m) = lit ''storage operation failed: '' @ lit m"
| "error_text InvalidIdentityKey = lit ''invalid Ed25519 identity key''"
| "error_text AllZeroSharedSecret = lit ''all-zero X25519 shared secret''"
| "error_text SignatureInvalid = lit ''invalid Ed25519 signature''"
| "error_text ConfirmationInvalid = lit ''invalid session confirmation''"
| "error_text KeyDerivation = lit ''key derivation failed''"
| "error_text AeadFailure = lit ''AEAD operation failed''"
| "error_text (Encoding m) = lit ''deterministic encoding failed: '' @ lit m"
| "error_text TruncatedFrame = lit ''truncated frame''"
| "error_text InvalidPayloadShape = lit ''invalid CBOR payload shape''"
| "error_text InvalidMapKey = lit ''invalid CBOR map key''"
| "error_text (DuplicateMapKey k) = lit ''duplicate CBOR map key: '' @ dec k"
| "error_text NonCanonicalEncoding = lit ''non-canonical encoding''"
| "error_text ReplayRejected = lit ''replayed or out-of-window message''"
| "error_text (MessageKeyUnavailable c) = lit ''message key unavailable for counter '' @ dec c"
| "error_text SkippedKeyLimit = lit ''skipped-message-key limit exceeded''"
| "error_text CounterOverflow = lit ''message counter overflow''"
| "error_text InvalidStateTransition = lit ''invalid session state transition''"
| "error_text TransportTimeout = lit ''transport read timed out''"
| "error_text InvalidDataPayload = lit ''invalid DATA payload''"
| "error_text InvalidPadding = lit ''invalid DATA padding''"
| "error_text DataTooLarge = lit ''DATA payload exceeds the configured limit''"
| "error_text InvalidHandshake = lit ''invalid handshake payload''"
| "error_text InvalidClosePayload = lit ''invalid CLOSE payload''"
| "error_text SasRejected = lit ''short authentication string was not approved''"
| "error_text IdentityMismatch = lit ''peer identity does not match the expected identity''"

section \<open>UTF-8 decoding\<close>

text \<open>
  The first character of a byte string: its scalar value, or \<open>None\<close> for an ill-formed sequence, and
  the number of bytes of the sequence. An ill-formed sequence is a maximal prefix of a well-formed
  one, or one byte; both decoders of the standard library go by these units.
\<close>

definition utf8_width :: "nat \<Rightarrow> nat" where
  "utf8_width b =
     (if b < 128 then 1 else if b < 194 then 0 else if b < 224 then 2 else if b < 240 then 3
      else if b < 245 then 4 else 0)"

definition continues :: "nat \<Rightarrow> bool" where
  "continues b \<longleftrightarrow> 128 \<le> b \<and> b < 192"

definition second_ok :: "nat \<Rightarrow> nat \<Rightarrow> bool" where
  "second_ok b0 b1 \<longleftrightarrow> continues b1 \<and> (b0 = 224 \<longrightarrow> 160 \<le> b1) \<and> (b0 = 237 \<longrightarrow> b1 < 160) \<and>
     (b0 = 240 \<longrightarrow> 144 \<le> b1) \<and> (b0 = 244 \<longrightarrow> b1 < 144)"

definition utf8_next :: "nat list \<Rightarrow> nat option \<times> nat" where
  "utf8_next bs =
     (case bs of
        [] \<Rightarrow> (None, 0)
      | b0 # r0 \<Rightarrow>
          if utf8_width b0 = 1 then (Some b0, 1)
          else if utf8_width b0 = 0 then (None, 1)
          else (case r0 of
                  [] \<Rightarrow> (None, 1)
                | b1 # r1 \<Rightarrow>
                    if \<not> second_ok b0 b1 then (None, 1)
                    else if utf8_width b0 = 2 then (Some ((b0 - 192) * 64 + (b1 - 128)), 2)
                    else (case r1 of
                            [] \<Rightarrow> (None, 2)
                          | b2 # r2 \<Rightarrow>
                              if \<not> continues b2 then (None, 2)
                              else if utf8_width b0 = 3
                              then (Some ((b0 - 224) * 4096 + (b1 - 128) * 64 + (b2 - 128)), 3)
                              else (case r2 of
                                      [] \<Rightarrow> (None, 3)
                                    | b3 # r3 \<Rightarrow>
                                        if \<not> continues b3 then (None, 3)
                                        else (Some ((b0 - 240) * 262144 + (b1 - 128) * 4096 +
                                                    (b2 - 128) * 64 + (b3 - 128)), 4)))))"

lemma utf8_next_progress: "bs \<noteq> [] \<Longrightarrow> 1 \<le> snd (utf8_next bs)"
  by (auto simp: utf8_next_def split: list.splits)

function utf8_units :: "nat list \<Rightarrow> nat option list" where
  "utf8_units bs =
     (if bs = [] then []
      else let (c, k) = utf8_next bs in c # utf8_units (drop k bs))"
  by auto
termination
proof (relation "measure length", simp)
  fix bs :: "nat list" and x c k
  assume "bs \<noteq> []" "x = utf8_next bs" "(c, k) = x"
  then have "1 \<le> k" using utf8_next_progress[of bs] by (metis snd_conv)
  with \<open>bs \<noteq> []\<close> show "(drop k bs, bs) \<in> measure length" by (cases bs) auto
qed

declare utf8_units.simps [simp del]

text \<open>U+FFFD, the replacement character, is 65533.\<close>

definition from_utf8_lossy :: "bytes \<Rightarrow> ustr" where
  "from_utf8_lossy bs = map (\<lambda>u. case u of Some c \<Rightarrow> c | None \<Rightarrow> 65533) (utf8_units (map unat bs))"

definition from_utf8 :: "bytes \<Rightarrow> ustr option" where
  "from_utf8 bs =
     (let units = utf8_units (map unat bs) in
      if None \<in> set units then None else Some (map the units))"

section \<open>Text functions of app.rs\<close>

definition fingerprint :: "bytes \<Rightarrow> ustr" where
  "fingerprint identity = concat (map (\<lambda>b. hex_padded 2 (unat b)) identity)"

text \<open>\<open>index\<close> counts the characters of the fingerprint.\<close>

fun group_from :: "nat \<Rightarrow> ustr \<Rightarrow> ustr" where
  "group_from index [] = []"
| "group_from index (c # cs) =
     (if index > 0 \<and> index mod 8 = 0 then [32] else []) @ [c] @ group_from (index + 1) cs"

definition grouped :: "ustr \<Rightarrow> ustr" where
  "grouped s = group_from 0 s"

definition ingest :: "bytes \<Rightarrow> ustr" where
  "ingest bs =
     (let safe = sanitize_for_display (from_utf8_lossy bs) in
      if 9 \<notin> set safe then safe
      else concat (map (\<lambda>c. if c = 9 then [32, 32, 32, 32] else [c]) safe))"

section \<open>Facts about numbers\<close>

lemma in_base_small: "n < b \<Longrightarrow> in_base b n = [digit n]"
  by (simp add: in_base.simps)

lemma in_base_step: "b \<le> n \<Longrightarrow> 2 \<le> b \<Longrightarrow> in_base b n = in_base b (n div b) @ [digit (n mod b)]"
  by (subst in_base.simps) simp

lemma in_base_not_Nil [simp]: "in_base b n \<noteq> []"
  by (subst in_base.simps) simp

lemma digit_inject: "d < 16 \<Longrightarrow> d' < 16 \<Longrightarrow> digit d = digit d' \<longleftrightarrow> d = d'"
  by (auto simp: digit_def split: if_splits)

lemma digit_range: "d < 16 \<Longrightarrow> (48 \<le> digit d \<and> digit d < 58) \<or> (97 \<le> digit d \<and> digit d < 103)"
  by (auto simp: digit_def)

lemma in_base_inject:
  assumes "2 \<le> b" "b \<le> 16"
  shows "in_base b m = in_base b n \<longleftrightarrow> m = n"
proof
  show "in_base b m = in_base b n \<Longrightarrow> m = n"
  proof (induction m arbitrary: n rule: less_induct)
    case (less m)
    have singles: "length (in_base b k) = 1 \<longleftrightarrow> k < b" for k
      using assms by (cases "k < b") (simp_all add: in_base_small in_base_step)
    have small: "k < b \<Longrightarrow> k < 16" for k using assms by simp
    show ?case
    proof (cases "m < b")
      case True
      with less.prems singles have "n < b" by metis
      with True less.prems small show ?thesis by (simp add: in_base_small digit_inject)
    next
      case False
      with less.prems singles have "\<not> n < b" by metis
      with False less.prems assms have eqs: "in_base b (m div b) = in_base b (n div b)"
        "digit (m mod b) = digit (n mod b)"
        by (simp_all add: in_base_step)
      have "m div b < m" using False assms by (intro div_less_dividend) auto
      then have "m div b = n div b" using less.IH eqs(1) by blast
      moreover have "m mod b = n mod b"
        using eqs(2) assms by (subst (asm) digit_inject) (auto intro: small)
      ultimately show ?thesis by (metis div_mult_mod_eq)
    qed
  qed
qed simp

lemma dec_inject: "dec m = dec n \<longleftrightarrow> m = n"
  by (simp add: dec_def in_base_inject)

lemma in_base_digits: "2 \<le> b \<Longrightarrow> b \<le> 16 \<Longrightarrow> c \<in> set (in_base b n) \<Longrightarrow>
    (48 \<le> c \<and> c < 58) \<or> (97 \<le> c \<and> c < 103)"
proof (induction n rule: less_induct)
  case (less n)
  show ?case
  proof (cases "n < b")
    case True
    with less.prems show ?thesis using digit_range[of n] by (simp add: in_base_small)
  next
    case False
    with less.prems have "c \<in> set (in_base b (n div b)) \<or> c = digit (n mod b)"
      by (auto simp: in_base_step)
    moreover have "n div b < n" using False less.prems by (intro div_less_dividend) auto
    moreover have "n mod b < 16" using less.prems mod_less_divisor[of b n] by linarith
    ultimately show ?thesis using less digit_range[of "n mod b"] by blast
  qed
qed

lemma hex_padded_digits: "c \<in> set (hex_padded w n) \<Longrightarrow> (48 \<le> c \<and> c < 58) \<or> (97 \<le> c \<and> c < 103)"
  using in_base_digits[of 16 c n] by (auto simp: hex_padded_def Let_def)

lemma length_in_base_16: "n < 16 ^ k \<Longrightarrow> 0 < k \<Longrightarrow> length (in_base 16 n) \<le> k"
proof (induction k arbitrary: n)
  case (Suc k)
  show ?case
  proof (cases "n < 16")
    case False
    with Suc.prems have k: "0 < k" by (cases k) auto
    have "n div 16 < 16 ^ k" using Suc.prems by (simp add: less_mult_imp_div_less mult.commute)
    with Suc.IH k False show ?thesis by (simp add: in_base_step)
  qed (simp add: in_base_small)
qed simp

lemma length_hex_padded: "n < 16 ^ w \<Longrightarrow> 0 < w \<Longrightarrow> length (hex_padded w n) = w"
  using length_in_base_16[of n w] by (simp add: hex_padded_def Let_def)

section \<open>Facts about displayed text\<close>

lemma escape_safe: "c \<in> set (escape d) \<Longrightarrow> \<not> unsafe_char c \<and> c \<noteq> 9"
  using hex_padded_digits[of c 4 d] by (auto simp: escape_def unsafe_char_def is_control_def)

lemma sanitize_safe: "c \<in> set (sanitize_for_display s) \<Longrightarrow> \<not> unsafe_char c"
  using escape_safe by (auto simp: sanitize_for_display_def split: if_splits)

lemma sanitize_identity: "(\<forall>c \<in> set s. \<not> unsafe_char c) \<Longrightarrow> sanitize_for_display s = s"
  by (induction s) (auto simp: sanitize_for_display_def)

lemma sanitize_idempotent: "sanitize_for_display (sanitize_for_display s) = sanitize_for_display s"
  using sanitize_identity sanitize_safe by blast

lemma sanitize_append: "sanitize_for_display (s @ t) = sanitize_for_display s @ sanitize_for_display t"
  by (simp add: sanitize_for_display_def)

lemma unsafe_bound: "unsafe_char c \<Longrightarrow> c < 16 ^ 4"
  by (auto simp: unsafe_char_def is_control_def)

lemma length_escape: "unsafe_char c \<Longrightarrow> length (escape c) = 8"
  using length_hex_padded[of c 4] unsafe_bound by (simp add: escape_def)

lemma ingest_safe: "c \<in> set (ingest bs) \<Longrightarrow> \<not> unsafe_char c \<and> c \<noteq> 9"
  using sanitize_safe by (auto simp: ingest_def Let_def unsafe_char_def is_control_def split: if_splits)

lemma ingest_control: "c \<in> set (ingest bs) \<Longrightarrow> is_control c \<Longrightarrow> c = 10"
  using ingest_safe[of c bs] by (auto simp: unsafe_char_def)

section \<open>Facts about UTF-8\<close>

lemma unat_byte: "n < 256 \<Longrightarrow> unat (word_of_nat n :: u8) = n"
  by (simp only: unat_word_of_nat_u8 mod_less)

lemma utf8_char_units:
  assumes "c < 1114112"
  shows "map unat (utf8_char c) =
     (if c < 128 then [c]
      else if c < 2048 then [192 + c div 64, 128 + c mod 64]
      else if c < 65536 then [224 + c div 4096, 128 + c div 64 mod 64, 128 + c mod 64]
      else [240 + c div 262144, 128 + c div 4096 mod 64, 128 + c div 64 mod 64, 128 + c mod 64])"
proof -
  have low: "128 + n mod 64 < (256 :: nat)" for n :: nat by (simp add: less_trans[OF mod_less_divisor])
  have "c < 2048 \<Longrightarrow> 192 + c div 64 < 256" "c < 65536 \<Longrightarrow> 224 + c div 4096 < 256"
    "240 + c div 262144 < 256" "c < 128 \<Longrightarrow> c < 256"
    using assms less_mult_imp_div_less[of c 32 64] less_mult_imp_div_less[of c 16 4096]
      less_mult_imp_div_less[of c 5 262144] by simp_all
  with low show ?thesis by (simp only: utf8_char_def list.map if_distrib[of "map unat"] unat_byte cong: if_cong)
qed

text \<open>The digits of a character to the base 64.\<close>

lemma base64_digits:
  "c = c div 64 * 64 + c mod 64"
  "c div 64 = c div 4096 * 64 + c div 64 mod 64"
  "c div 4096 = c div 262144 * 64 + c div 4096 mod 64" for c :: nat
  using div_mult_mod_eq[of c 64] div_mult_mod_eq[of "c div 64" 64] div_mult_mod_eq[of "c div 4096" 64]
  by (simp_all flip: div_mult2_eq)

lemma utf8_next_char:
  assumes "scalar_value c"
  shows "utf8_next (map unat (utf8_char c) @ rest) = (Some c, len_utf8 c)"
proof -
  have c: "c < 1114112" and gap: "\<not> (55296 \<le> c \<and> c < 57344)" using assms by (auto simp: scalar_value_def)
  note defs = utf8_next_def utf8_width_def second_ok_def continues_def
  consider "c < 128" | "128 \<le> c" "c < 2048" | "2048 \<le> c" "c < 65536" | "65536 \<le> c" by linarith
  then show ?thesis
  proof cases
    case 1
    then show ?thesis by (simp add: defs utf8_char_units len_utf8_def)
  next
    case 2
    define p q where "p = c div 64" and "q = c mod 64"
    have eq: "c = p * 64 + q" "q < 64" "2 \<le> p" "p < 32"
      using 2 base64_digits(1)[of c] less_mult_imp_div_less[of c 32 64] div_le_mono[of 128 c 64]
      unfolding p_def q_def by (linarith | simp)+
    have "map unat (utf8_char c) = [192 + p, 128 + q]" "len_utf8 c = 2"
      using 2 c by (simp_all add: utf8_char_units len_utf8_def p_def q_def)
    then show ?thesis using eq by (simp only: append_Cons append_Nil) (simp add: defs)
  next
    case 3
    define p q r where "p = c div 4096" and "q = c div 64 mod 64" and "r = c mod 64"
    have eq: "c = p * 4096 + q * 64 + r" "q < 64" "r < 64" "p < 16"
      using 3 base64_digits(1,2)[of c] less_mult_imp_div_less[of c 16 4096]
      unfolding p_def q_def r_def by (linarith | simp)+
    have lo: "p = 0 \<Longrightarrow> 32 \<le> q" using 3 eq by (cases "32 \<le> q") auto
    have hi: "p = 13 \<Longrightarrow> q < 32" using gap eq by (cases "q < 32") auto
    have "map unat (utf8_char c) = [224 + p, 128 + q, 128 + r]" "len_utf8 c = 3"
      using 3 c by (simp_all add: utf8_char_units len_utf8_def p_def q_def r_def)
    then show ?thesis using lo hi eq by (simp only: append_Cons append_Nil) (simp add: defs)
  next
    case 4
    define p q r t where "p = c div 262144" and "q = c div 4096 mod 64" and "r = c div 64 mod 64" and "t = c mod 64"
    have eq: "c = p * 262144 + q * 4096 + r * 64 + t" "q < 64" "r < 64" "t < 64" "p < 5"
      using c base64_digits[of c] less_mult_imp_div_less[of c 5 262144]
      unfolding p_def q_def r_def t_def by (linarith | simp)+
    have lo: "p = 0 \<Longrightarrow> 16 \<le> q" using 4 eq by (cases "16 \<le> q") auto
    have hi: "p = 4 \<Longrightarrow> q < 16" using c eq by (cases "q < 16") auto
    have "map unat (utf8_char c) = [240 + p, 128 + q, 128 + r, 128 + t]" "len_utf8 c = 4"
      using 4 c by (simp_all add: utf8_char_units len_utf8_def p_def q_def r_def t_def)
    then show ?thesis using lo hi eq by (simp only: append_Cons append_Nil) (simp add: defs)
  qed
qed

lemma utf8_units_char:
  assumes "scalar_value c"
  shows "utf8_units (map unat (utf8_char c) @ rest) = Some c # utf8_units rest"
proof -
  have "map unat (utf8_char c) @ rest \<noteq> []" using len_utf8_bounds(1)[of c] length_utf8_char[of c]
    by (metis append_is_Nil_conv length_0_conv length_map not_one_le_zero)
  then show ?thesis using utf8_next_char[OF assms, of rest] by (subst utf8_units.simps) simp
qed

lemma utf8_units_utf8: "\<forall>c \<in> set s. scalar_value c \<Longrightarrow> utf8_units (map unat (utf8 s)) = map Some s"
  by (induction s) (simp_all add: utf8_def utf8_units_char utf8_units.simps[of "[]"])

lemma from_utf8_lossy_utf8: "\<forall>c \<in> set s. scalar_value c \<Longrightarrow> from_utf8_lossy (utf8 s) = s"
  by (simp add: from_utf8_lossy_def utf8_units_utf8 comp_def)

lemma from_utf8_utf8: "\<forall>c \<in> set s. scalar_value c \<Longrightarrow> from_utf8 (utf8 s) = Some s"
  by (auto simp: from_utf8_def utf8_units_utf8 comp_def)

text \<open>What the decoder returns are scalar values.\<close>

lemma utf8_next_cases:
  assumes "utf8_next bs = (Some c, k)"
  obtains b0 where "b0 < 128" "c = b0"
  | b0 b1 where "194 \<le> b0" "b0 < 224" "continues b1" "c = (b0 - 192) * 64 + (b1 - 128)"
  | b0 b1 b2 where "224 \<le> b0" "b0 < 240" "second_ok b0 b1" "continues b2"
      "c = (b0 - 224) * 4096 + (b1 - 128) * 64 + (b2 - 128)"
  | b0 b1 b2 b3 where "240 \<le> b0" "b0 < 245" "second_ok b0 b1" "continues b2" "continues b3"
      "c = (b0 - 240) * 262144 + (b1 - 128) * 4096 + (b2 - 128) * 64 + (b3 - 128)"
proof -
  have second: "second_ok b b' \<Longrightarrow> continues b'" for b b' by (simp add: second_ok_def)
  from assms obtain b0 r0 where bs: "bs = b0 # r0" by (cases bs) (auto simp: utf8_next_def)
  consider "b0 < 128" | "utf8_width b0 = 0" | "194 \<le> b0" "b0 < 224" | "224 \<le> b0" "b0 < 240" | "240 \<le> b0" "b0 < 245"
    unfolding utf8_width_def by (metis not_less)
  then show thesis
  proof cases
    case 1
    then have "utf8_width b0 = 1" by (simp add: utf8_width_def)
    with assms bs have "c = b0" by (simp add: utf8_next_def)
    with 1 that(1) show ?thesis by blast
  next
    case 2
    with assms bs show ?thesis by (simp add: utf8_next_def)
  next
    case 3
    then have w: "utf8_width b0 = 2" by (simp add: utf8_width_def)
    from assms w obtain b1 r1 where "r0 = b1 # r1" by (cases r0) (auto simp: utf8_next_def bs)
    with assms w have "second_ok b0 b1 \<and> c = (b0 - 192) * 64 + (b1 - 128)"
      by (simp add: utf8_next_def bs split: if_splits)
    with 3 that(2) second show ?thesis by blast
  next
    case 4
    then have w: "utf8_width b0 = 3" by (simp add: utf8_width_def)
    from assms w obtain b1 r1 where r0: "r0 = b1 # r1" by (cases r0) (auto simp: utf8_next_def bs)
    from assms w obtain b2 r2 where "r1 = b2 # r2"
      by (cases r1) (auto simp: utf8_next_def bs r0 split: if_splits)
    with assms w have "second_ok b0 b1 \<and> continues b2 \<and> c = (b0 - 224) * 4096 + (b1 - 128) * 64 + (b2 - 128)"
      by (simp add: utf8_next_def bs r0 split: if_splits)
    with 4 that(3) show ?thesis by blast
  next
    case 5
    then have w: "utf8_width b0 = 4" by (simp add: utf8_width_def)
    from assms w obtain b1 r1 where r0: "r0 = b1 # r1" by (cases r0) (auto simp: utf8_next_def bs)
    from assms w obtain b2 r2 where r1: "r1 = b2 # r2"
      by (cases r1) (auto simp: utf8_next_def bs r0 split: if_splits)
    from assms w obtain b3 r3 where "r2 = b3 # r3"
      by (cases r2) (auto simp: utf8_next_def bs r0 r1 split: if_splits)
    with assms w have "second_ok b0 b1 \<and> continues b2 \<and> continues b3 \<and>
        c = (b0 - 240) * 262144 + (b1 - 128) * 4096 + (b2 - 128) * 64 + (b3 - 128)"
      by (simp add: utf8_next_def bs r0 r1 split: if_splits)
    with 5 that(4) show ?thesis by blast
  qed
qed

lemma utf8_next_scalar: "utf8_next bs = (Some c, k) \<Longrightarrow> scalar_value c"
proof (erule utf8_next_cases)
  fix b0 b1 b2
  assume "224 \<le> b0" "b0 < 240" "second_ok b0 b1" "continues b2"
    and c: "c = (b0 - 224) * 4096 + (b1 - 128) * 64 + (b2 - 128)"
  then obtain p q r where "b0 = 224 + p" "b1 = 128 + q" "b2 = 128 + r" "p < 16" "q < 64" "r < 64"
    "p = 13 \<longrightarrow> q < 32"
    by (auto simp: second_ok_def continues_def le_iff_add)
  with c show "scalar_value c" by (cases "p < 13"; cases "p = 13") (auto simp: scalar_value_def)
next
  fix b0 b1 b2 b3
  assume "240 \<le> b0" "b0 < 245" "second_ok b0 b1" "continues b2" "continues b3"
    and c: "c = (b0 - 240) * 262144 + (b1 - 128) * 4096 + (b2 - 128) * 64 + (b3 - 128)"
  then obtain p q r t where "b0 = 240 + p" "b1 = 128 + q" "b2 = 128 + r" "b3 = 128 + t"
    "p < 5" "q < 64" "r < 64" "t < 64" "p = 0 \<longrightarrow> 16 \<le> q" "p = 4 \<longrightarrow> q < 16"
    by (auto simp: second_ok_def continues_def le_iff_add)
  with c show "scalar_value c" by (cases "p = 0"; cases "p = 4") (auto simp: scalar_value_def)
qed (auto simp: scalar_value_def continues_def)

lemma utf8_units_scalar: "Some c \<in> set (utf8_units bs) \<Longrightarrow> scalar_value c"
proof (induction bs rule: utf8_units.induct)
  case (1 bs)
  obtain u k where u: "utf8_next bs = (u, k)" by fastforce
  from 1(2) have ne: "bs \<noteq> []" by (auto simp: utf8_units.simps[of "[]"])
  with u 1(2) have "Some c = u \<or> Some c \<in> set (utf8_units (drop k bs))" by (simp add: utf8_units.simps[of bs])
  with 1(1)[OF ne] u show ?case using utf8_next_scalar by metis
qed

lemma from_utf8_lossy_scalar: "c \<in> set (from_utf8_lossy bs) \<Longrightarrow> scalar_value c"
  using utf8_units_scalar[of _ "map unat bs"]
  by (auto simp: from_utf8_lossy_def scalar_value_def[of 65533] split: option.splits)

lemma ingest_utf8:
  assumes "\<forall>c \<in> set s. scalar_value c \<and> \<not> unsafe_char c \<and> c \<noteq> 9"
  shows "ingest (utf8 s) = s"
  using assms by (auto simp: ingest_def Let_def from_utf8_lossy_utf8 sanitize_identity)

section \<open>Facts about fingerprints\<close>

lemma length_concat_const: "(\<And>x. x \<in> set xs \<Longrightarrow> length (f x) = k) \<Longrightarrow> length (concat (map f xs)) = k * length xs"
  by (induction xs) auto

lemma length_fingerprint: "length (fingerprint identity) = 2 * length identity"
  unfolding fingerprint_def using u8_bound by (intro length_concat_const length_hex_padded) simp_all

lemma hex_padded_inject_2:
  assumes "m < 256" "n < 256" "hex_padded 2 m = hex_padded 2 n"
  shows "m = n"
proof -
  have two: "hex_padded 2 k = [digit (k div 16), digit (k mod 16)]" if "k < 256" for k
    using that by (cases "k < 16")
      (simp_all add: hex_padded_def in_base_small in_base_step less_mult_imp_div_less digit_def)
  have "m div 16 < 16" "n div 16 < 16" "m mod 16 < 16" "n mod 16 < 16" using assms by simp_all
  with assms two have "m div 16 = n div 16" "m mod 16 = n mod 16" by (simp_all add: digit_inject)
  then show ?thesis by (metis div_mult_mod_eq)
qed

lemma fingerprint_inject: "fingerprint a = fingerprint b \<longleftrightarrow> a = b"
proof
  show "fingerprint a = fingerprint b \<Longrightarrow> a = b"
  proof (induction a arbitrary: b)
    case Nil
    then have "length (fingerprint b) = 0" by (simp add: fingerprint_def)
    then show ?case by (simp only: length_fingerprint) simp
  next
    case (Cons x a)
    then obtain y b' where b: "b = y # b'" using length_fingerprint[of b] length_fingerprint[of "x # a"]
      by (cases b) auto
    have len: "length (hex_padded 2 (unat z)) = 2" for z :: u8 using u8_bound[of z] by (intro length_hex_padded) simp_all
    have "hex_padded 2 (unat x) = hex_padded 2 (unat y)" "fingerprint a = fingerprint b'"
      using Cons.prems len[of x] len[of y] by (simp_all add: b fingerprint_def)
    with Cons.IH b show ?case using hex_padded_inject_2 u8_bound unsigned_word_eqI by blast
  qed
qed simp

lemma group_from_filter: "32 \<notin> set s \<Longrightarrow> filter (\<lambda>c. c \<noteq> 32) (group_from i s) = s"
  by (induction s arbitrary: i) auto

lemma grouped_filter: "32 \<notin> set s \<Longrightarrow> filter (\<lambda>c. c \<noteq> 32) (grouped s) = s"
  by (simp add: grouped_def group_from_filter)

end
