(* ===== verification/Scrollback.thy ===== *)
theory Scrollback
  imports Display
begin

text \<open>
  \<^verbatim>\<open>ruxmsg-cli/src/scrollback.rs\<close>: the bounded history of one conversation, its entries
  oldest first. A state is the one \<open>push\<close> reaches: the history it keeps is shown to be the longest
  tail of all entries ever pushed that fits both limits.
\<close>

definition MAX_ENTRIES :: nat where "MAX_ENTRIES = 1000"
definition MAX_BYTES :: nat where "MAX_BYTES = 256 * 1024"
definition MAX_ENTRY_BYTES :: nat where "MAX_ENTRY_BYTES = 64 * 1024"

datatype author = ALocal | ARemote | ASystem

record entry =
  e_author :: author
  e_text :: ustr

record scrollback =
  sb_entries :: "entry list"
  sb_bytes :: nat

definition scrollback_default :: scrollback where
  "scrollback_default = \<lparr>sb_entries = [], sb_bytes = 0\<rparr>"

text \<open>\<^verbatim>\<open>str::is_char_boundary\<close>, and the part of a string before a boundary.\<close>

definition is_char_boundary :: "ustr \<Rightarrow> nat \<Rightarrow> bool" where
  "is_char_boundary s i \<longleftrightarrow> i \<in> set (map (\<lambda>k. str_len (take k s)) [0..<Suc (length s)])"

fun str_prefix :: "ustr \<Rightarrow> nat \<Rightarrow> ustr" where
  "str_prefix [] i = []"
| "str_prefix (c # s) i = (if len_utf8 c \<le> i then c # str_prefix s (i - len_utf8 c) else [])"

fun back_to_boundary :: "ustr \<Rightarrow> nat \<Rightarrow> nat" where
  "back_to_boundary s 0 = 0"
| "back_to_boundary s (Suc pos) =
     (if is_char_boundary s (Suc pos) then Suc pos else back_to_boundary s pos)"

text \<open>The ellipsis is U+2026, 8230.\<close>

definition shorten :: "ustr \<Rightarrow> ustr" where
  "shorten text =
     (if str_len text > MAX_ENTRY_BYTES
      then str_prefix text (back_to_boundary text MAX_ENTRY_BYTES) @ [8230]
      else text)"

fun evict :: "entry list \<Rightarrow> nat \<Rightarrow> scrollback" where
  "evict [] n = \<lparr>sb_entries = [], sb_bytes = n\<rparr>"
| "evict (e # es) n =
     (if length (e # es) > MAX_ENTRIES \<or> n > MAX_BYTES then evict es (n - str_len (e_text e))
      else \<lparr>sb_entries = e # es, sb_bytes = n\<rparr>)"

definition push :: "author \<Rightarrow> ustr \<Rightarrow> scrollback \<Rightarrow> scrollback" where
  "push who text s =
     (let text = shorten text in
      evict (sb_entries s @ [\<lparr>e_author = who, e_text = text\<rparr>]) (sb_bytes s + str_len text))"

section \<open>Shortening\<close>

lemma is_char_boundary_iff: "is_char_boundary s i \<longleftrightarrow> (\<exists>k \<le> length s. i = str_len (take k s))"
  unfolding is_char_boundary_def set_map image_iff set_upt atLeastLessThan_iff
  by (auto simp: less_Suc_eq_le Bex_def)

lemma is_char_boundary_0 [simp]: "is_char_boundary s 0"
  unfolding is_char_boundary_iff by (rule exI[of _ 0]) simp

lemma back_to_boundary: "is_char_boundary s (back_to_boundary s pos) \<and> back_to_boundary s pos \<le> pos"
  by (induction pos) auto

lemma back_to_boundary_greatest:
  "is_char_boundary s i \<Longrightarrow> i \<le> pos \<Longrightarrow> i \<le> back_to_boundary s pos"
  by (induction pos) (auto simp: le_Suc_eq)

lemma str_prefix_boundary: "k \<le> length s \<Longrightarrow> str_prefix s (str_len (take k s)) = take k s"
proof (induction s arbitrary: k)
  case (Cons c s)
  show ?case
  proof (cases k)
    case 0
    then show ?thesis using len_utf8_bounds(1)[of c] by simp
  next
    case (Suc j)
    then show ?thesis using Cons by simp
  qed
qed simp

text \<open>A shortened entry is the longest prefix within the limit, with the ellipsis.\<close>

lemma shorten_prefix:
  assumes "str_len text > MAX_ENTRY_BYTES"
  obtains k where "shorten text = take k text @ [8230]" "k < length text" "str_len (take k text) \<le> MAX_ENTRY_BYTES"
    "MAX_ENTRY_BYTES < str_len (take (Suc k) text)"
proof -
  let ?pos = "back_to_boundary text MAX_ENTRY_BYTES"
  from back_to_boundary[of "text" MAX_ENTRY_BYTES] obtain k where
    k: "k \<le> length text" "?pos = str_len (take k text)" "?pos \<le> MAX_ENTRY_BYTES"
    by (auto simp: is_char_boundary_iff)
  have less: "k < length text"
    using k assms by (metis le_neq_implies_less not_le take_all_iff le_refl)
  have "MAX_ENTRY_BYTES < str_len (take (Suc k) text)"
  proof (rule ccontr)
    assume "\<not> ?thesis"
    then have "str_len (take (Suc k) text) \<le> ?pos"
      using less Suc_leI[OF less] unfolding not_less
      by (intro back_to_boundary_greatest) (auto simp only: is_char_boundary_iff)
    then show False using less k(2) len_utf8_bounds(1)[of "text ! k"] by (simp add: take_Suc_conv_app_nth)
  qed
  moreover have "shorten text = take k text @ [8230]"
    using assms k by (simp add: shorten_def str_prefix_boundary)
  ultimately show thesis using that less k by simp
qed

lemma shorten_short: "str_len text \<le> MAX_ENTRY_BYTES \<Longrightarrow> shorten text = text"
  by (simp add: shorten_def)

lemma str_len_shorten: "str_len (shorten text) \<le> MAX_ENTRY_BYTES + 3"
proof (cases "str_len text > MAX_ENTRY_BYTES")
  case True
  then obtain k where "shorten text = take k text @ [8230]" "str_len (take k text) \<le> MAX_ENTRY_BYTES"
    using shorten_prefix by blast
  then show ?thesis by (simp add: len_utf8_def)
qed (simp add: shorten_short)

lemma set_shorten: "set (shorten text) \<subseteq> insert 8230 (set text)"
proof (cases "str_len text > MAX_ENTRY_BYTES")
  case True
  then show ?thesis using shorten_prefix set_take_subset by (metis Un_insert_right list.simps(15) set_append sup_bot.right_neutral insert_mono empty_set)
qed (auto simp: shorten_short)

section \<open>The bounds\<close>

definition weight :: "entry list \<Rightarrow> nat" where
  "weight es = (\<Sum>e\<leftarrow>es. str_len (e_text e))"

lemma weight_simps [simp]: "weight [] = 0" "weight (e # es) = str_len (e_text e) + weight es"
  "weight (es @ fs) = weight es + weight fs"
  by (simp_all add: weight_def)

definition fits :: "entry list \<Rightarrow> bool" where
  "fits es \<longleftrightarrow> length es \<le> MAX_ENTRIES \<and> weight es \<le> MAX_BYTES"

definition scrollback_ok :: "scrollback \<Rightarrow> bool" where
  "scrollback_ok s \<longleftrightarrow> fits (sb_entries s) \<and> sb_bytes s = weight (sb_entries s) \<and>
     (\<forall>e \<in> set (sb_entries s). str_len (e_text e) \<le> MAX_ENTRY_BYTES + 3)"

lemma fits_suffix: "fits (es @ fs) \<Longrightarrow> fits fs"
  by (simp add: fits_def)

text \<open>What eviction keeps: the longest tail that fits.\<close>

lemma evict_spec:
  "\<exists>k. sb_entries (evict es (weight es)) = drop k es \<and> fits (drop k es) \<and>
     sb_bytes (evict es (weight es)) = weight (drop k es) \<and> (\<forall>j < k. \<not> fits (drop j es))"
proof (induction es)
  case Nil
  show ?case by (rule exI[of _ 0]) (simp add: fits_def)
next
  case (Cons e es)
  show ?case
  proof (cases "fits (e # es)")
    case True
    then have "evict (e # es) (weight (e # es)) = \<lparr>sb_entries = e # es, sb_bytes = weight (e # es)\<rparr>"
      by (auto simp: fits_def)
    with True show ?thesis by (intro exI[of _ 0]) simp
  next
    case False
    then have step: "evict (e # es) (weight (e # es)) = evict es (weight es)"
      by (auto simp: fits_def)
    from Cons.IH obtain k where k: "sb_entries (evict es (weight es)) = drop k es" "fits (drop k es)"
      "sb_bytes (evict es (weight es)) = weight (drop k es)" "\<forall>j < k. \<not> fits (drop j es)" by blast
    have "\<forall>j < Suc k. \<not> fits (drop j (e # es))"
      using False k(4) by (auto simp: less_Suc_eq_0_disj)
    with step k show ?thesis by (intro exI[of _ "Suc k"]) simp
  qed
qed

lemma push_spec:
  fixes who and msg
  assumes "scrollback_ok s"
  defines "es \<equiv> sb_entries s @ [\<lparr>e_author = who, e_text = shorten msg\<rparr>]"
  obtains k where "sb_entries (push who msg s) = drop k es" "fits (drop k es)" "k < length es"
    "sb_bytes (push who msg s) = weight (drop k es)" "\<forall>j < k. \<not> fits (drop j es)"
proof -
  have "push who msg s = evict es (weight es)"
    using assms by (simp add: push_def Let_def scrollback_ok_def es_def)
  with evict_spec[of es] obtain k where
    k: "sb_entries (push who msg s) = drop k es" "fits (drop k es)"
      "sb_bytes (push who msg s) = weight (drop k es)" "\<forall>j < k. \<not> fits (drop j es)" by auto
  have last: "fits (drop (length es - 1) es)"
    using str_len_shorten[of msg]
    by (simp add: es_def fits_def MAX_ENTRIES_def MAX_BYTES_def MAX_ENTRY_BYTES_def)
  have "k \<le> length es - 1" using k(4) last by (meson not_le)
  then have "k < length es" by (simp add: es_def)
  with k that show thesis by blast
qed

lemma push_ok: "scrollback_ok s \<Longrightarrow> scrollback_ok (push who text s)"
proof -
  assume ok: "scrollback_ok s"
  from push_spec[OF this, of who "text"] obtain k where k:
    "sb_entries (push who text s) = drop k (sb_entries s @ [\<lparr>e_author = who, e_text = shorten text\<rparr>])"
    "fits (sb_entries (push who text s))" "sb_bytes (push who text s) = weight (sb_entries (push who text s))"
    by metis
  have "set (sb_entries (push who text s)) \<subseteq> insert \<lparr>e_author = who, e_text = shorten text\<rparr> (set (sb_entries s))"
    unfolding k(1) using set_drop_subset by fastforce
  with k ok str_len_shorten[of "text"] show ?thesis by (auto simp: scrollback_ok_def)
qed

lemma scrollback_default_ok: "scrollback_ok scrollback_default"
  by (simp add: scrollback_ok_def scrollback_default_def fits_def)

text \<open>The newest entry always stays.\<close>

lemma push_last:
  assumes "scrollback_ok s"
  shows "sb_entries (push who text s) \<noteq> [] \<and>
    last (sb_entries (push who text s)) = \<lparr>e_author = who, e_text = shorten text\<rparr>"
proof -
  from push_spec[OF assms, of who "text"] obtain k where
    "sb_entries (push who text s) = drop k (sb_entries s @ [\<lparr>e_author = who, e_text = shorten text\<rparr>])"
    "k < length (sb_entries s @ [\<lparr>e_author = who, e_text = shorten text\<rparr>])" by metis
  then show ?thesis by (metis drop_eq_Nil last_drop last_snoc not_le)
qed

section \<open>Histories\<close>

text \<open>All that was pushed, and the scrollback it leaves.\<close>

definition pushed :: "(author \<times> ustr) list \<Rightarrow> scrollback" where
  "pushed ms = fold (\<lambda>(who, text). push who text) ms scrollback_default"

definition as_entry :: "author \<times> ustr \<Rightarrow> entry" where
  "as_entry m = \<lparr>e_author = fst m, e_text = shorten (snd m)\<rparr>"

lemma pushed_snoc: "pushed (ms @ [(who, text)]) = push who text (pushed ms)"
  by (simp add: pushed_def)

lemma pushed_ok: "scrollback_ok (pushed ms)"
proof (induction ms rule: rev_induct)
  case Nil
  then show ?case by (simp add: pushed_def scrollback_default_ok)
next
  case (snoc m ms)
  then show ?case by (cases m) (simp add: pushed_snoc push_ok)
qed

lemma drop_longest:
  assumes "\<forall>j < k. \<not> fits (drop j es)" "fits (drop k' (drop k es @ fs))" "k \<le> length es"
    "\<forall>j < k'. \<not> fits (drop j (drop k es @ fs))"
  shows "\<forall>j < k + k'. \<not> fits (drop j (es @ fs))"
proof (intro allI impI)
  fix j assume "j < k + k'"
  show "\<not> fits (drop j (es @ fs))"
  proof (cases "j < k")
    case True
    with assms have "\<not> fits (drop j es)" by simp
    moreover have "drop j (es @ fs) = drop j es @ fs" using True assms(3) by simp
    ultimately show ?thesis by (auto simp: fits_def)
  next
    case False
    then have "drop j (es @ fs) = drop (j - k) (drop k es @ fs)"
    proof -
      have "drop j (es @ fs) = drop (j - k) (drop k (es @ fs))"
        using False by (simp only: drop_drop) simp
      also have "drop k (es @ fs) = drop k es @ fs" using assms(3) by simp
      finally show ?thesis .
    qed
    moreover have "j - k < k'" using False \<open>j < k + k'\<close> by simp
    ultimately show ?thesis using assms(4) by metis
  qed
qed

lemma set_evict: "set (sb_entries (evict es n)) \<subseteq> set es"
  by (induction es n rule: evict.induct) auto

lemma set_push: "set (sb_entries (push who t s)) \<subseteq> insert \<lparr>e_author = who, e_text = shorten t\<rparr> (set (sb_entries s))"
  using set_evict by (fastforce simp: push_def Let_def)

lemma pushed_longest_tail:
  "\<exists>k \<le> length ms. sb_entries (pushed ms) = drop k (map as_entry ms) \<and> (\<forall>j < k. \<not> fits (drop j (map as_entry ms)))"
proof (induction ms rule: rev_induct)
  case Nil
  then show ?case by (simp add: pushed_def scrollback_default_def)
next
  case (snoc m ms)
  then obtain k where k: "k \<le> length ms" "sb_entries (pushed ms) = drop k (map as_entry ms)"
    "\<forall>j < k. \<not> fits (drop j (map as_entry ms))" by blast
  have e: "\<lparr>e_author = fst m, e_text = shorten (snd m)\<rparr> = as_entry m" by (simp add: as_entry_def)
  obtain k' where k': "sb_entries (push (fst m) (snd m) (pushed ms)) = drop k' (drop k (map as_entry ms) @ [as_entry m])"
    "fits (drop k' (drop k (map as_entry ms) @ [as_entry m]))" "k' < length (drop k (map as_entry ms) @ [as_entry m])"
    "\<forall>j < k'. \<not> fits (drop j (drop k (map as_entry ms) @ [as_entry m]))"
    using push_spec[OF pushed_ok, of "fst m" "snd m" ms] unfolding e k(2) by metis
  have "\<forall>j < k + k'. \<not> fits (drop j (map as_entry ms @ [as_entry m]))"
    using k k' by (intro drop_longest) auto
  moreover have "sb_entries (pushed (ms @ [m])) = drop (k + k') (map as_entry (ms @ [m]))"
    using k' k pushed_snoc[of ms "fst m" "snd m"] by (simp add: add.commute)
  moreover have "k + k' \<le> length (ms @ [m])" using k' k by simp
  ultimately show ?case by auto
qed

end
