(* ===== verification/Storage.thy ===== *)
theory Storage
  imports Crypto Display
begin

text \<open>
  \<^verbatim>\<open>ruxmsg-core/src/storage.rs\<close>, \<^verbatim>\<open>ruxmsg-cli/src/keyring_store.rs\<close> and the
  profile functions of \<^verbatim>\<open>ruxmsg-cli/src/app.rs\<close>: the one secret that outlives the program.
  The trait \<^verbatim>\<open>SecretStore\<close> is the record \<open>secret_store\<close> of its three operations on a state
  \<open>'s\<close>; the keyring crate is the parameter \<open>keyring\<close>, whose documented behaviour is \<open>keyring_ok\<close>.
\<close>

section \<open>The trait\<close>

record 's secret_store =
  ss_ensure_persistent :: "'s \<Rightarrow> unit res"
  ss_get_secret :: "'s \<Rightarrow> ustr \<Rightarrow> bytes option res"
  ss_set_secret :: "'s \<Rightarrow> ustr \<Rightarrow> bytes \<Rightarrow> unit res \<times> 's"

section \<open>IdentityKeyStore\<close>

text \<open>\<^verbatim>\<open>load\<close>; \<^verbatim>\<open>IdentityKeypair::from_bytes\<close> keeps the seed.\<close>

definition ks_load :: "'s secret_store \<Rightarrow> 's \<Rightarrow> ustr \<Rightarrow> identity_keypair option res" where
  "ks_load S s account =
     rbind (ss_ensure_persistent S s) (\<lambda>_.
     rbind (ss_get_secret S s account) (\<lambda>found.
     case found of
       None \<Rightarrow> Inr None
     | Some seed \<Rightarrow>
         if length seed = 32 then Inr (Some seed)
         else Inl (Storage ''stored identity seed has the wrong length'')))"

definition ks_save :: "'s secret_store \<Rightarrow> identity_keypair \<Rightarrow> ustr \<Rightarrow> 's \<Rightarrow> unit res \<times> 's" where
  "ks_save S identity account s =
     (case ss_ensure_persistent S s of
        Inl e \<Rightarrow> (Inl e, s)
      | Inr _ \<Rightarrow>
          (case ss_set_secret S s account identity of
             (Inl e, s) \<Rightarrow> (Inl e, s)
           | (Inr _, s) \<Rightarrow>
               (rbind (ss_get_secret S s account) (\<lambda>stored.
                  guard (case stored of None \<Rightarrow> False
                         | Some stored \<Rightarrow> length stored = length identity \<and> stored = identity)
                    (Storage ''credential store did not return the saved identity'')), s)))"

text \<open>The seed that \<^verbatim>\<open>generate\<close> would draw is an argument.\<close>

definition ks_load_or_generate ::
  "'s secret_store \<Rightarrow> identity_keypair \<Rightarrow> ustr \<Rightarrow> 's \<Rightarrow> identity_keypair res \<times> 's" where
  "ks_load_or_generate S fresh account s =
     (case ks_load S s account of
        Inl e \<Rightarrow> (Inl e, s)
      | Inr (Some identity) \<Rightarrow> (Inr identity, s)
      | Inr None \<Rightarrow>
          (case ks_save S fresh account s of
             (Inl e, s) \<Rightarrow> (Inl e, s)
           | (Inr _, s) \<Rightarrow> (Inr fresh, s)))"

section \<open>The keyring adapter\<close>

datatype keyring_error = NoEntry | KeyringFailure string

text \<open>\<^verbatim>\<open>Entry::new\<close>, \<^verbatim>\<open>get_secret\<close> and \<^verbatim>\<open>set_secret\<close> of the keyring crate.\<close>

record 'k keyring =
  kr_new :: "ustr \<Rightarrow> ustr \<Rightarrow> string + unit"
  kr_get :: "'k \<Rightarrow> ustr \<Rightarrow> ustr \<Rightarrow> keyring_error + bytes"
  kr_set :: "'k \<Rightarrow> ustr \<Rightarrow> ustr \<Rightarrow> bytes \<Rightarrow> (string + unit) \<times> 'k"

definition keyring_entry :: "'k keyring \<Rightarrow> ustr \<Rightarrow> ustr \<Rightarrow> unit res" where
  "keyring_entry K service account = map_err Storage (kr_new K service account)"

definition keyring_ensure_persistent :: "bool \<Rightarrow> unit res" where
  "keyring_ensure_persistent native =
     (if native then Inr ()
      else Inl (Storage ''no verified persistent native credential-store backend for this platform''))"

definition keyring_get_secret :: "'k keyring \<Rightarrow> ustr \<Rightarrow> 'k \<Rightarrow> ustr \<Rightarrow> bytes option res" where
  "keyring_get_secret K service k account =
     rbind (keyring_entry K service account) (\<lambda>_.
     case kr_get K k service account of
       Inr secret \<Rightarrow> Inr (Some secret)
     | Inl NoEntry \<Rightarrow> Inr None
     | Inl (KeyringFailure m) \<Rightarrow> Inl (Storage m))"

definition keyring_set_secret :: "'k keyring \<Rightarrow> ustr \<Rightarrow> 'k \<Rightarrow> ustr \<Rightarrow> bytes \<Rightarrow> unit res \<times> 'k" where
  "keyring_set_secret K service k account secret =
     (case keyring_entry K service account of
        Inl e \<Rightarrow> (Inl e, k)
      | Inr _ \<Rightarrow> let (r, k) = kr_set K k service account secret in (map_err Storage r, k))"

text \<open>\<open>native\<close> is the compile-time condition on the platform.\<close>

definition keyring_store :: "'k keyring \<Rightarrow> bool \<Rightarrow> ustr \<Rightarrow> 'k secret_store" where
  "keyring_store K native service =
     \<lparr>ss_ensure_persistent = (\<lambda>k. keyring_ensure_persistent native),
      ss_get_secret = keyring_get_secret K service,
      ss_set_secret = keyring_set_secret K service\<rparr>"

section \<open>Profiles\<close>

definition is_alphanumeric :: "nat \<Rightarrow> bool" where
  "is_alphanumeric c \<longleftrightarrow> (48 \<le> c \<and> c \<le> 57) \<or> (65 \<le> c \<and> c \<le> 90) \<or> (97 \<le> c \<and> c \<le> 122)"

text \<open>\<open>'s'\<close> in a message.\<close>

definition quoted :: "ustr \<Rightarrow> ustr" where
  "quoted s = [39] @ s @ [39]"

definition validate_profile_name :: "ustr \<Rightarrow> ustr + unit" where
  "validate_profile_name name =
     rbind (guard (name \<noteq> []) (lit ''profile name cannot be empty'')) (\<lambda>_.
     rbind (guard (\<not> str_len name > 64) (lit ''profile name is too long'')) (\<lambda>_.
     guard (list_all (\<lambda>b. is_alphanumeric (unat b) \<or> unat b = 95 \<or> unat b = 45) (utf8 name))
       (lit ''profile names may contain only ASCII letters, digits, '' @ quoted (lit ''-'') @ lit '' and ''
        @ quoted (lit ''_''))))"

text \<open>
  \<^verbatim>\<open>App::load_identity\<close>, run to its end on the blocking pool; \<open>fresh\<close> is the seed that
  \<^verbatim>\<open>generate\<close> would draw.
\<close>

definition load_identity ::
  "'k keyring \<Rightarrow> bool \<Rightarrow> identity_keypair \<Rightarrow> ustr \<Rightarrow> bool \<Rightarrow> 'k \<Rightarrow> (ustr + identity_keypair) \<times> 'k" where
  "load_identity K native fresh name create k =
     (case validate_profile_name name of
        Inl e \<Rightarrow> (Inl e, k)
      | Inr _ \<Rightarrow>
          let S = keyring_store K native (lit ''ruxmsg-'' @ name); account = lit ''identity'' in
          if create then
            (case ks_load S k account of
               Inl e \<Rightarrow> (Inl (error_text e), k)
             | Inr (Some _) \<Rightarrow> (Inl (lit ''profile '' @ quoted name @ lit '' already exists''), k)
             | Inr None \<Rightarrow>
                 (case ks_save S fresh account k of
                    (Inl e, k) \<Rightarrow> (Inl (error_text e), k)
                  | (Inr _, k) \<Rightarrow> (Inr fresh, k)))
          else
            (case ks_load S k account of
               Inl e \<Rightarrow> (Inl (error_text e), k)
             | Inr None \<Rightarrow> (Inl (lit ''profile '' @ quoted name @ lit '' does not exist''), k)
             | Inr (Some identity) \<Rightarrow> (Inr identity, k)))"

section \<open>Facts that hold for every store\<close>

text \<open>Loading does not depend on the store's honesty once saving succeeded: it was read back.\<close>

lemma ks_save_then_load:
  assumes "ks_save S identity account s = (Inr (), s')" "length identity = 32"
    "\<And>s a v. ss_ensure_persistent S (snd (ss_set_secret S s a v)) = ss_ensure_persistent S s"
  shows "ks_load S s' account = Inr (Some identity)"
proof -
  from assms(1) obtain u where u: "ss_ensure_persistent S s = Inr u"
    by (auto simp: ks_save_def split: sum.splits)
  with assms(1) have set: "ss_set_secret S s account identity = (Inr (), s')"
    and get: "ss_get_secret S s' account = Inr (Some identity)"
    by (auto simp: ks_save_def res_simps split: sum.splits prod.splits option.splits)
  have "ss_ensure_persistent S s' = Inr u" using assms(3)[of s account identity] set u by simp
  with get assms(2) show ?thesis by (simp add: ks_load_def)
qed

lemma ks_load_length: "ks_load S s account = Inr (Some identity) \<Longrightarrow> length identity = 32"
  by (auto simp: ks_load_def res_simps split: option.splits if_splits)

lemma ks_load_or_generate_existing:
  "ks_load S s account = Inr (Some identity) \<Longrightarrow> ks_load_or_generate S fresh account s = (Inr identity, s)"
  by (simp add: ks_load_or_generate_def)

lemma ks_load_or_generate_error:
  "ks_load S s account = Inl e \<Longrightarrow> ks_load_or_generate S fresh account s = (Inl e, s)"
  by (simp add: ks_load_or_generate_def)

lemma keyring_store_persistent [simp]:
  "ss_ensure_persistent (keyring_store K native service) k = keyring_ensure_persistent native"
  by (simp add: keyring_store_def)

section \<open>The store's contract\<close>

text \<open>
  What an honest credential store promises: a stored secret is found again, and storing under one
  account leaves the others alone.
\<close>

locale honest_store =
  fixes S :: "'s secret_store"
  assumes ensure_set: "ss_ensure_persistent S (snd (ss_set_secret S s a v)) = ss_ensure_persistent S s"
    and get_set: "ss_set_secret S s a v = (Inr (), s') \<Longrightarrow> ss_get_secret S s' a = Inr (Some v)"
    and get_set_other: "ss_set_secret S s a v = (r, s') \<Longrightarrow> b \<noteq> a \<Longrightarrow> ss_get_secret S s' b = ss_get_secret S s b"
begin

lemma save_ok_iff:
  "fst (ks_save S identity a s) = Inr () \<longleftrightarrow>
     ss_ensure_persistent S s = Inr () \<and> fst (ss_set_secret S s a identity) = Inr ()"
  using get_set[of s a identity]
  by (auto simp: ks_save_def res_simps split: sum.splits prod.splits)

lemma save_other:
  assumes "ks_save S identity a s = (r, s')" "b \<noteq> a"
  shows "ss_get_secret S s' b = ss_get_secret S s b"
proof (cases "ss_ensure_persistent S s")
  case (Inl e)
  with assms show ?thesis by (simp add: ks_save_def)
next
  case (Inr u)
  obtain r2 s2 where "ss_set_secret S s a identity = (r2, s2)" by fastforce
  with Inr assms get_set_other[of s a identity r2 s2 b] show ?thesis
    by (cases r2) (simp_all add: ks_save_def)
qed

lemma load_or_generate_stable:
  assumes "ks_load_or_generate S fresh a s = (Inr identity, s')" "length fresh = 32"
  shows "ks_load_or_generate S other a s' = (Inr identity, s')"
proof (cases "ks_load S s a")
  case (Inl e)
  with assms show ?thesis by (simp add: ks_load_or_generate_def)
next
  case (Inr found)
  show ?thesis
  proof (cases found)
    case None
    with Inr assms have "ks_save S fresh a s = (Inr (), s')" "identity = fresh"
      by (auto simp: ks_load_or_generate_def split: prod.splits sum.splits)
    then have "ks_load S s' a = Inr (Some identity)"
      using ks_save_then_load assms(2) ensure_set by metis
    then show ?thesis by (rule ks_load_or_generate_existing)
  next
    case (Some i)
    with Inr assms show ?thesis by (simp add: ks_load_or_generate_def)
  qed
qed

end

section \<open>The adapter on a keyring as documented\<close>

definition keyring_ok :: "'k keyring \<Rightarrow> bool" where
  "keyring_ok K \<longleftrightarrow>
     (\<forall>k service account v k'. kr_set K k service account v = (Inr (), k') \<longrightarrow> kr_get K k' service account = Inr v) \<and>
     (\<forall>k service account v r k' service' account'. kr_set K k service account v = (r, k') \<longrightarrow>
        (service', account') \<noteq> (service, account) \<longrightarrow> kr_get K k' service' account' = kr_get K k service' account')"

lemma keyring_honest:
  assumes "keyring_ok K"
  shows "honest_store (keyring_store K native service)"
proof
  show "ss_ensure_persistent (keyring_store K native service) (snd (ss_set_secret (keyring_store K native service) s a v)) =
      ss_ensure_persistent (keyring_store K native service) s" for s a v
    by simp
next
  fix s a v s'
  assume "ss_set_secret (keyring_store K native service) s a v = (Inr (), s')"
  then have new: "kr_new K service a = Inr ()" and set: "kr_set K s service a v = (Inr (), s')"
    by (auto simp: keyring_store_def keyring_set_secret_def keyring_entry_def Let_def res_simps
        split: sum.splits prod.splits)
  from assms set have "kr_get K s' service a = Inr v" unfolding keyring_ok_def by blast
  with new show "ss_get_secret (keyring_store K native service) s' a = Inr (Some v)"
    by (simp add: keyring_store_def keyring_get_secret_def keyring_entry_def)
next
  fix s a v r s' b
  assume set: "ss_set_secret (keyring_store K native service) s a v = (r, s')" and b: "b \<noteq> a"
  show "ss_get_secret (keyring_store K native service) s' b = ss_get_secret (keyring_store K native service) s b"
  proof (cases "kr_new K service a")
    case (Inl e)
    with set have "s' = s" by (simp add: keyring_store_def keyring_set_secret_def keyring_entry_def)
    then show ?thesis by simp
  next
    case (Inr u)
    with set obtain r' where "kr_set K s service a v = (r', s')"
      by (auto simp: keyring_store_def keyring_set_secret_def keyring_entry_def Let_def split: prod.splits)
    with assms b have "kr_get K s' service b = kr_get K s service b" unfolding keyring_ok_def by blast
    then show ?thesis by (simp add: keyring_store_def keyring_get_secret_def)
  qed
qed

text \<open>A keyring in memory: the reference instance.\<close>

definition ref_keyring :: "((ustr \<times> ustr) \<times> bytes) list keyring" where
  "ref_keyring =
     \<lparr>kr_new = (\<lambda>service account. Inr ()),
      kr_get = (\<lambda>k service account. case map_of k (service, account) of Some v \<Rightarrow> Inr v | None \<Rightarrow> Inl NoEntry),
      kr_set = (\<lambda>k service account v. (Inr (), ((service, account), v) # k))\<rparr>"

lemma ref_keyring_ok: "keyring_ok ref_keyring"
  by (simp add: keyring_ok_def ref_keyring_def)

interpretation ref_store: honest_store "keyring_store ref_keyring native service"
  by (rule keyring_honest[OF ref_keyring_ok])

section \<open>Facts about profiles\<close>

lemma utf8_char_ascii:
  assumes "c < 1114112" "\<forall>b \<in> set (utf8_char c). unat b < 128"
  shows "c < 128"
proof -
  from assms(2) have "\<forall>b \<in> set (map unat (utf8_char c)). b < 128" by (simp only: set_map ball_simps)
  moreover have "128 \<le> c \<Longrightarrow> \<exists>b \<in> set (map unat (utf8_char c)). 128 \<le> b"
    unfolding utf8_char_units[OF assms(1)] by (simp split: if_split del: add_le_same_cancel1)
  ultimately show ?thesis by (meson not_le)
qed

lemma validate_profile_name_ok:
  assumes "validate_profile_name name = Inr u" "\<forall>c \<in> set name. scalar_value c"
  shows "0 < length name" "length name \<le> 64" "\<forall>c \<in> set name. is_alphanumeric c \<or> c = 95 \<or> c = 45"
proof -
  from assms have ne: "name \<noteq> []" and len: "str_len name \<le> 64"
    and ok: "\<forall>b \<in> set (utf8 name). is_alphanumeric (unat b) \<or> unat b = 95 \<or> unat b = 45"
    by (auto simp: validate_profile_name_def res_simps list_all_iff)
  from ne show "0 < length name" by simp
  from len length_le_str_len[of name] show "length name \<le> 64" by simp
  from ok have ascii: "\<forall>b \<in> set (utf8 name). unat b < 128"
    by (auto simp: is_alphanumeric_def)
  show "\<forall>c \<in> set name. is_alphanumeric c \<or> c = 95 \<or> c = 45"
  proof
    fix c assume c: "c \<in> set name"
    with assms(2) have "c < 1114112" by (auto simp: scalar_value_def)
    with ascii c have small: "c < 128" by (intro utf8_char_ascii) (auto simp: utf8_def)
    then have "word_of_nat c \<in> set (utf8 name)" using c by (force simp: utf8_def utf8_char_def)
    with ok have "is_alphanumeric (unat (word_of_nat c :: u8)) \<or> unat (word_of_nat c :: u8) = 95 \<or> unat (word_of_nat c :: u8) = 45"
      by blast
    with small show "is_alphanumeric c \<or> c = 95 \<or> c = 45" by (simp add: unat_word_of_nat_u8)
  qed
qed

lemma load_identity_invalid: "validate_profile_name name = Inl e \<Longrightarrow> load_identity K native fresh name create k = (Inl e, k)"
  by (simp add: load_identity_def)

lemma load_identity_use_pure: "snd (load_identity K native fresh name False k) = k"
  by (auto simp: load_identity_def Let_def split: sum.splits option.splits)

text \<open>Creating a profile never overwrites one; loading returns what creation stored.\<close>

lemma load_identity_existing:
  assumes "load_identity K native fresh name False k = (Inr identity, k)"
  shows "load_identity K native fresh' name True k = (Inl (lit ''profile '' @ quoted name @ lit '' already exists''), k)"
  using assms by (auto simp: load_identity_def Let_def split: sum.splits option.splits)

lemma load_identity_created:
  assumes "load_identity K native fresh name True k = (Inr identity, k')" "length fresh = 32"
  shows "identity = fresh \<and> load_identity K native other name False k' = (Inr fresh, k')"
proof -
  let ?S = "keyring_store K native (lit ''ruxmsg-'' @ name)"
  from assms have "ks_save ?S fresh (lit ''identity'') k = (Inr (), k')" "identity = fresh"
    and name: "validate_profile_name name = Inr ()"
    by (auto simp: load_identity_def Let_def split: sum.splits option.splits prod.splits)
  then have "ks_load ?S k' (lit ''identity'') = Inr (Some fresh)" "identity = fresh"
    using ks_save_then_load[of ?S fresh "lit ''identity''" k k'] assms(2) by simp_all
  with name show ?thesis by (simp add: load_identity_def Let_def)
qed

lemma load_identity_was_absent:
  assumes "load_identity K native fresh name True k = (Inr identity, k')"
  shows "load_identity K native other name False k = (Inl (lit ''profile '' @ quoted name @ lit '' does not exist''), k)"
  using assms by (auto simp: load_identity_def Let_def split: sum.splits option.splits prod.splits)

text \<open>Profiles are separate: what is done with one leaves the others as they are.\<close>

lemma keyring_other_service:
  assumes "keyring_ok K" "service' \<noteq> service"
  shows "keyring_get_secret K service' (snd (keyring_set_secret K service k account secret)) account' =
    keyring_get_secret K service' k account'"
proof -
  obtain r k' where set: "kr_set K k service account secret = (r, k')" by fastforce
  with assms have "kr_get K k' service' account' = kr_get K k service' account'"
    unfolding keyring_ok_def by (metis prod.inject)
  with set show ?thesis
    by (simp add: keyring_get_secret_def keyring_set_secret_def split: sum.split)
qed

lemma ks_save_state:
  "snd (ks_save S identity account s) \<in> {s, snd (ss_set_secret S s account identity)}"
  by (auto simp: ks_save_def split: sum.splits prod.splits)

lemma load_identity_other:
  assumes "keyring_ok K" "other \<noteq> name"
  shows "fst (load_identity K native f other False (snd (load_identity K native fresh name create k))) =
    fst (load_identity K native f other False k)"
proof -
  let ?S = "\<lambda>n. keyring_store K native (lit ''ruxmsg-'' @ n)"
  have "snd (load_identity K native fresh name create k) \<in> {k, snd (ss_set_secret (?S name) k (lit ''identity'') fresh)}"
    using ks_save_state[of "?S name" fresh "lit ''identity''" k]
    by (auto simp: load_identity_def Let_def split: sum.splits option.splits prod.splits)
  moreover have "ks_load (?S other) (snd (ss_set_secret (?S name) k (lit ''identity'') fresh)) (lit ''identity'') =
      ks_load (?S other) k (lit ''identity'')"
    using assms by (simp add: ks_load_def keyring_store_def keyring_other_service)
  ultimately have "ks_load (?S other) (snd (load_identity K native fresh name create k)) (lit ''identity'') =
      ks_load (?S other) k (lit ''identity'')" by auto
  then show ?thesis by (simp add: load_identity_def Let_def split: sum.split option.split)
qed

end
