(* ===== verification/Commands.thy ===== *)
theory Commands
  imports Display
begin

text \<open>
  \<^verbatim>\<open>ruxmsg-cli/src/commands.rs\<close>: the command language of the prompt, with the string
  functions of the standard library it is parsed by. \<open>render\<close> writes a command; parsing what it
  wrote gives the command back, whatever white space surrounds it, and every parsed command is one
  that can be written.
\<close>

section \<open>White space\<close>

text \<open>\<^verbatim>\<open>char::is_whitespace\<close>: the Unicode property White_Space.\<close>

definition is_whitespace :: "nat \<Rightarrow> bool" where
  "is_whitespace c \<longleftrightarrow> (9 \<le> c \<and> c \<le> 13) \<or> c = 32 \<or> c = 0x85 \<or> c = 0xA0 \<or> c = 0x1680 \<or>
     (0x2000 \<le> c \<and> c \<le> 0x200A) \<or> c = 0x2028 \<or> c = 0x2029 \<or> c = 0x202F \<or> c = 0x205F \<or> c = 0x3000"

definition trim_start :: "ustr \<Rightarrow> ustr" where
  "trim_start s = dropWhile is_whitespace s"

definition trim_end :: "ustr \<Rightarrow> ustr" where
  "trim_end s = rev (dropWhile is_whitespace (rev s))"

definition trim :: "ustr \<Rightarrow> ustr" where
  "trim s = trim_end (trim_start s)"

function split_whitespace :: "ustr \<Rightarrow> ustr list" where
  "split_whitespace s =
     (let t = trim_start s in
      if t = [] then []
      else takeWhile (\<lambda>c. \<not> is_whitespace c) t # split_whitespace (dropWhile (\<lambda>c. \<not> is_whitespace c) t))"
  by auto
termination
proof (relation "measure length", simp)
  fix s t :: ustr
  assume t: "t = trim_start s" "t \<noteq> []"
  then have "\<not> is_whitespace (hd t)" by (simp add: trim_start_def hd_dropWhile)
  then have "length (dropWhile (\<lambda>c. \<not> is_whitespace c) t) < length t"
    using t(2) by (cases t) (simp_all add: length_dropWhile_le le_imp_less_Suc)
  also have "length t \<le> length s" by (simp add: t(1) trim_start_def length_dropWhile_le)
  finally show "(dropWhile (\<lambda>c. \<not> is_whitespace c) t, s) \<in> measure length" by simp
qed

declare split_whitespace.simps [simp del]

text \<open>\<^verbatim>\<open>split_once(char::is_whitespace)\<close>.\<close>

definition split_once_ws :: "ustr \<Rightarrow> (ustr \<times> ustr) option" where
  "split_once_ws s =
     (case dropWhile (\<lambda>c. \<not> is_whitespace c) s of
        [] \<Rightarrow> None
      | c # rest \<Rightarrow> Some (takeWhile (\<lambda>c. \<not> is_whitespace c) s, rest))"

section \<open>The commands\<close>

datatype profile_command = PInit ustr | PUse ustr | PList

datatype tailscale_command = TsStatus | TsUp | TsIp

datatype command =
    Profile profile_command
  | StartCmd ustr
  | StopCmd
  | Connect ustr
  | Peers
  | Use ustr
  | Message ustr ustr
  | CloseCmd ustr
  | RekeyCmd ustr
  | Fingerprint "ustr option"
  | SessionCmd ustr
  | ChatCmd "ustr option"
  | Tailscale tailscale_command
  | Help
  | Quit

section \<open>The parser\<close>

definition no_args :: "ustr list \<Rightarrow> command \<Rightarrow> string \<Rightarrow> ustr + command" where
  "no_args args command usage =
     (if args \<noteq> [] then Inl (lit ''usage: '' @ lit usage) else Inr command)"

text \<open>
  The repeated shapes of the code: a required word with nothing after it, and an optional one.
\<close>

definition one_arg :: "ustr list \<Rightarrow> (ustr \<Rightarrow> command) \<Rightarrow> string \<Rightarrow> ustr + command" where
  "one_arg args mk usage =
     (case args of
        [] \<Rightarrow> Inl (lit usage)
      | arg # more \<Rightarrow> if more \<noteq> [] then Inl (lit usage) else Inr (mk arg))"

definition optional_arg :: "ustr list \<Rightarrow> (ustr option \<Rightarrow> command) \<Rightarrow> string \<Rightarrow> ustr + command" where
  "optional_arg args mk usage =
     (case args of
        [] \<Rightarrow> Inr (mk None)
      | arg # more \<Rightarrow> if more \<noteq> [] then Inl (lit usage) else Inr (mk (Some arg)))"

definition parse_profile :: "ustr list \<Rightarrow> ustr + command" where
  "parse_profile args =
     (case args of
        [] \<Rightarrow> Inl (lit ''usage: profile <init|use|list> ...'')
      | subcommand # args \<Rightarrow>
          if subcommand = lit ''init'' then one_arg args (\<lambda>n. Profile (PInit n)) ''usage: profile init <name>''
          else if subcommand = lit ''use'' then one_arg args (\<lambda>n. Profile (PUse n)) ''usage: profile use <name>''
          else if subcommand = lit ''list'' then no_args args (Profile PList) ''profile list''
          else Inl (lit ''usage: profile <init|use|list> ...''))"

definition parse_tailscale :: "ustr list \<Rightarrow> ustr + command" where
  "parse_tailscale args =
     (let subcommand = (case args of [] \<Rightarrow> lit ''status'' | s # _ \<Rightarrow> s) in
      if tl args \<noteq> [] then Inl (lit ''usage: tailscale <status|up|ip>'')
      else if subcommand = lit ''status'' then Inr (Tailscale TsStatus)
      else if subcommand = lit ''up'' then Inr (Tailscale TsUp)
      else if subcommand = lit ''ip'' then Inr (Tailscale TsIp)
      else Inl (lit ''usage: tailscale <status|up|ip>''))"

definition parse_start :: "ustr list \<Rightarrow> ustr + command" where
  "parse_start args =
     (if args = [] then Inr (StartCmd (lit ''127.0.0.1:4443''))
      else if length args = 2 \<and> args ! 0 = lit ''--addr'' then Inr (StartCmd (args ! 1))
      else Inl (lit ''usage: start [--addr <addr>]''))"

definition parse_msg :: "ustr \<Rightarrow> ustr + command" where
  "parse_msg line =
     (let rest = trim_start (drop 3 (trim_start line)) in
      case split_once_ws rest of
        None \<Rightarrow> Inl (lit ''usage: msg <label> <text>'')
      | Some (label, body) \<Rightarrow>
          let body = trim body in
          if label = [] \<or> body = [] then Inl (lit ''usage: msg <label> <text>'')
          else Inr (Message label body))"

definition parse_command :: "ustr \<Rightarrow> ustr + command" where
  "parse_command line =
     (let line = trim line in
      if line = [] then Inl (lit ''empty command'')
      else
        let args = split_whitespace line;
            command = (case args of [] \<Rightarrow> [] | c # _ \<Rightarrow> c);
            args = tl args
        in
        if command = lit ''profile'' then parse_profile args
        else if command = lit ''start'' then parse_start args
        else if command = lit ''stop'' then no_args args StopCmd ''stop''
        else if command = lit ''connect'' then one_arg args Connect ''usage: connect <addr>''
        else if command = lit ''peers'' then no_args args Peers ''peers''
        else if command = lit ''use'' then one_arg args Use ''usage: use <label>''
        else if command = lit ''msg'' then parse_msg line
        else if command = lit ''close'' then one_arg args CloseCmd ''usage: close <label>''
        else if command = lit ''rekey'' then one_arg args RekeyCmd ''usage: rekey <label>''
        else if command = lit ''fingerprint'' then optional_arg args Fingerprint ''usage: fingerprint [label]''
        else if command = lit ''session'' then one_arg args SessionCmd ''usage: session <label>''
        else if command = lit ''chat'' then optional_arg args ChatCmd ''usage: chat [label]''
        else if command = lit ''tailscale'' then parse_tailscale args
        else if command = lit ''help'' then no_args args Help ''help''
        else if command = lit ''quit'' \<or> command = lit ''exit'' then no_args args Quit ''quit''
        else Inl (lit ''unknown command: '' @ command @ lit ''; type `help`''))"

section \<open>Writing commands\<close>

definition word_ok :: "ustr \<Rightarrow> bool" where
  "word_ok w \<longleftrightarrow> w \<noteq> [] \<and> (\<forall>c \<in> set w. \<not> is_whitespace c)"

definition trimmed :: "ustr \<Rightarrow> bool" where
  "trimmed s \<longleftrightarrow> s \<noteq> [] \<and> \<not> is_whitespace (hd s) \<and> \<not> is_whitespace (last s)"

fun command_ok :: "command \<Rightarrow> bool" where
  "command_ok (Profile (PInit n)) = word_ok n"
| "command_ok (Profile (PUse n)) = word_ok n"
| "command_ok (StartCmd a) = word_ok a"
| "command_ok (Connect a) = word_ok a"
| "command_ok (Use l) = word_ok l"
| "command_ok (Message l t) = (word_ok l \<and> trimmed t)"
| "command_ok (CloseCmd l) = word_ok l"
| "command_ok (RekeyCmd l) = word_ok l"
| "command_ok (Fingerprint (Some l)) = word_ok l"
| "command_ok (SessionCmd l) = word_ok l"
| "command_ok (ChatCmd (Some l)) = word_ok l"
| "command_ok _ = True"

fun render :: "command \<Rightarrow> ustr" where
  "render (Profile (PInit n)) = lit ''profile init '' @ n"
| "render (Profile (PUse n)) = lit ''profile use '' @ n"
| "render (Profile PList) = lit ''profile list''"
| "render (StartCmd a) = lit ''start --addr '' @ a"
| "render StopCmd = lit ''stop''"
| "render (Connect a) = lit ''connect '' @ a"
| "render Peers = lit ''peers''"
| "render (Use l) = lit ''use '' @ l"
| "render (Message l t) = lit ''msg '' @ l @ [32] @ t"
| "render (CloseCmd l) = lit ''close '' @ l"
| "render (RekeyCmd l) = lit ''rekey '' @ l"
| "render (Fingerprint None) = lit ''fingerprint''"
| "render (Fingerprint (Some l)) = lit ''fingerprint '' @ l"
| "render (SessionCmd l) = lit ''session '' @ l"
| "render (ChatCmd None) = lit ''chat''"
| "render (ChatCmd (Some l)) = lit ''chat '' @ l"
| "render (Tailscale TsStatus) = lit ''tailscale status''"
| "render (Tailscale TsUp) = lit ''tailscale up''"
| "render (Tailscale TsIp) = lit ''tailscale ip''"
| "render Help = lit ''help''"
| "render Quit = lit ''quit''"

section \<open>Facts about words\<close>

lemma is_whitespace_32 [simp]: "is_whitespace 32"
  by (simp add: is_whitespace_def)

lemma dropWhile_all_append: "\<forall>c \<in> set xs. P c \<Longrightarrow> dropWhile P (xs @ ys) = dropWhile P ys"
  by (induction xs) auto

lemma trim_start_padded: "\<forall>c \<in> set p. is_whitespace c \<Longrightarrow> trim_start (p @ s) = trim_start s"
  by (simp add: trim_start_def dropWhile_all_append)

lemma trim_start_id: "s = [] \<or> \<not> is_whitespace (hd s) \<Longrightarrow> trim_start s = s"
  by (cases s) (auto simp: trim_start_def)

lemma trim_padded:
  assumes "trimmed s" "\<forall>c \<in> set p. is_whitespace c" "\<forall>c \<in> set q. is_whitespace c"
  shows "trim (p @ s @ q) = s"
proof -
  have "trim_start (p @ s @ q) = s @ q"
    using assms(1,2) by (simp add: trim_start_padded trim_start_id trimmed_def)
  moreover have "trim_end (s @ q) = s"
  proof -
    have "dropWhile is_whitespace (rev s) = rev s"
      using assms(1) by (cases "rev s") (auto simp: trimmed_def hd_rev[symmetric])
    then show ?thesis using assms(3) by (simp add: trim_end_def dropWhile_all_append)
  qed
  ultimately show ?thesis by (simp add: trim_def)
qed

lemma trim_trimmed: "trimmed s \<Longrightarrow> trim s = s"
  using trim_padded[of s "[]" "[]"] by simp

lemma trim_result: "trim s = [] \<or> trimmed (trim s)"
proof (cases "trim s = []")
  case False
  let ?t = "trim_start s" and ?w = "dropWhile is_whitespace (rev (trim_start s))"
  have w: "?w \<noteq> []" using False by (simp add: trim_def trim_end_def)
  then have "\<not> is_whitespace (hd ?w)" by (rule hd_dropWhile)
  then have last: "\<not> is_whitespace (last (trim s))" by (simp add: trim_def trim_end_def last_rev)
  have t: "?t \<noteq> []" using w by auto
  obtain p where "rev ?t = p @ ?w" by (metis takeWhile_dropWhile_id)
  then have "?t = rev ?w @ rev p" by (metis rev_append rev_rev_ident)
  then have "?t = trim s @ rev p" by (simp only: trim_def trim_end_def)
  then have "hd (trim s) = hd ?t" using False by (metis hd_append2)
  moreover have "\<not> is_whitespace (hd ?t)" using t unfolding trim_start_def by (rule hd_dropWhile)
  ultimately show ?thesis using False last by (simp add: trimmed_def)
qed simp

lemma word_trimmed: "word_ok w \<Longrightarrow> trimmed w"
  by (auto simp: word_ok_def trimmed_def)

lemma split_whitespace_Nil [simp]: "split_whitespace [] = []"
  by (simp add: split_whitespace.simps trim_start_def)

lemma split_whitespace_word:
  assumes "word_ok w"
  shows "split_whitespace w = [w]"
proof -
  have parts: "dropWhile (\<lambda>c. \<not> is_whitespace c) w = []" "takeWhile (\<lambda>c. \<not> is_whitespace c) w = w"
    "trim_start w = w"
    using assms by (auto simp: word_ok_def takeWhile_eq_all_conv intro: trim_start_id)
  from assms have "w \<noteq> []" by (simp add: word_ok_def)
  then show ?thesis by (subst split_whitespace.simps) (simp only: parts Let_def split_whitespace_Nil if_False)
qed

lemma split_whitespace_space: "split_whitespace (32 # s) = split_whitespace s"
  by (subst (1 2) split_whitespace.simps) (simp add: trim_start_def)

lemma split_whitespace_Cons:
  assumes "word_ok w"
  shows "split_whitespace (w @ 32 # s) = w # split_whitespace s"
proof -
  have "trim_start (w @ 32 # s) = w @ 32 # s"
    using assms by (intro trim_start_id) (auto simp: word_ok_def)
  moreover have "takeWhile (\<lambda>c. \<not> is_whitespace c) (w @ 32 # s) = w"
    "dropWhile (\<lambda>c. \<not> is_whitespace c) (w @ 32 # s) = 32 # s"
    using assms by (simp_all add: word_ok_def takeWhile_append2 dropWhile_append2)
  ultimately show ?thesis using assms
    by (subst split_whitespace.simps) (simp add: word_ok_def split_whitespace_space)
qed

lemma split_whitespace_words: "w \<in> set (split_whitespace s) \<Longrightarrow> word_ok w"
proof (induction s rule: split_whitespace.induct)
  case (1 s)
  let ?t = "trim_start s"
  from 1(2) have ne: "?t \<noteq> []" by (auto simp: split_whitespace.simps[of s] Let_def)
  with 1(2) have "w = takeWhile (\<lambda>c. \<not> is_whitespace c) ?t \<or>
      w \<in> set (split_whitespace (dropWhile (\<lambda>c. \<not> is_whitespace c) ?t))"
    by (simp add: split_whitespace.simps[of s] Let_def)
  then show ?case
  proof
    assume w: "w = takeWhile (\<lambda>c. \<not> is_whitespace c) ?t"
    have "\<not> is_whitespace (hd ?t)" using ne unfolding trim_start_def by (rule hd_dropWhile)
    then have "w \<noteq> []" using ne w by (cases ?t) auto
    with w show ?thesis by (auto simp: word_ok_def dest: set_takeWhileD)
  qed (use 1(1) ne in blast)
qed

lemma lit_Cons [simp]: "lit (c # s) = of_char c # lit s" and lit_Nil [simp]: "lit [] = []"
  by (simp_all add: lit_def)

lemma lit_append: "lit (s @ t) = lit s @ lit t"
  by (simp add: lit_def)

section \<open>Parsing what was written\<close>

lemma word_of_lit: "\<forall>c \<in> set (lit s). \<not> is_whitespace c \<Longrightarrow> s \<noteq> [] \<Longrightarrow> word_ok (lit s)"
  by (simp add: word_ok_def lit_def)

lemma trimmed_append: "trimmed s \<Longrightarrow> trimmed t \<Longrightarrow> trimmed (s @ 32 # t)"
  by (auto simp: trimmed_def)

lemma parse_command_trimmed: "trimmed s \<Longrightarrow> \<forall>c \<in> set p. is_whitespace c \<Longrightarrow> \<forall>c \<in> set q. is_whitespace c \<Longrightarrow>
    parse_command (p @ s @ q) = parse_command s"
  by (simp add: parse_command_def trim_padded trim_trimmed)

lemmas word_simps = word_ok_def is_whitespace_def

lemma parse_word:
  assumes "word_ok w"
  shows "split_whitespace (32 # w) = [w]"
  using assms by (simp add: split_whitespace_space split_whitespace_word)

lemma trimmed_word: "word_ok w \<Longrightarrow> word_ok v \<Longrightarrow> trimmed (w @ 32 # v)"
  by (simp add: trimmed_append word_trimmed)

lemma parse_one_word:
  assumes "word_ok w"
  shows "split_whitespace (trim w) = [w]" "trim w = w"
  using assms by (simp_all add: trim_trimmed word_trimmed split_whitespace_word)

lemma parse_two_words:
  assumes "word_ok w" "word_ok v"
  shows "split_whitespace (trim (w @ 32 # v)) = [w, v]" "trim (w @ 32 # v) = w @ 32 # v"
  using assms
  by (simp_all add: trim_trimmed trimmed_word split_whitespace_Cons split_whitespace_word)

lemma parse_three_words:
  assumes "word_ok w" "word_ok v" "word_ok u"
  shows "split_whitespace (trim (w @ 32 # v @ 32 # u)) = [w, v, u]"
    "trim (w @ 32 # v @ 32 # u) = w @ 32 # v @ 32 # u"
  using assms
  by (simp_all add: trim_trimmed trimmed_append trimmed_word word_trimmed split_whitespace_Cons
      split_whitespace_word)

lemma literal_words:
  "word_ok (lit ''profile'')" "word_ok (lit ''init'')" "word_ok (lit ''use'')" "word_ok (lit ''list'')"
  "word_ok (lit ''start'')" "word_ok (lit ''--addr'')" "word_ok (lit ''stop'')" "word_ok (lit ''connect'')"
  "word_ok (lit ''peers'')" "word_ok (lit ''msg'')" "word_ok (lit ''close'')" "word_ok (lit ''rekey'')"
  "word_ok (lit ''fingerprint'')" "word_ok (lit ''session'')" "word_ok (lit ''chat'')"
  "word_ok (lit ''tailscale'')" "word_ok (lit ''status'')" "word_ok (lit ''up'')" "word_ok (lit ''ip'')"
  "word_ok (lit ''help'')" "word_ok (lit ''quit'')"
  by (simp_all add: word_simps)

lemma split_once_ws_word: "word_ok w \<Longrightarrow> split_once_ws (w @ 32 # s) = Some (w, s)"
  by (simp add: split_once_ws_def word_ok_def takeWhile_append2 dropWhile_append2)

lemma parse_msg_render:
  assumes "word_ok l" "trimmed t"
  shows "parse_msg (lit ''msg'' @ 32 # l @ 32 # t) = Inr (Message l t)"
proof -
  have "trim_start (lit ''msg'' @ 32 # l @ 32 # t) = lit ''msg'' @ 32 # l @ 32 # t"
    by (rule trim_start_id) (simp add: is_whitespace_def)
  moreover have "trim_start (32 # l @ 32 # t) = l @ 32 # t"
    using assms(1) trim_start_id[of "l @ 32 # t"] by (simp add: trim_start_def word_ok_def)
  ultimately show ?thesis using assms
    by (simp add: parse_msg_def split_once_ws_word trim_trimmed) (simp add: word_ok_def trimmed_def)
qed

lemma parse_render:
  assumes "command_ok c"
  shows "parse_command (render c) = Inr c"
proof (cases c)
  case (Profile p)
  show ?thesis
  proof (cases p)
    case (PInit n)
    then show ?thesis
      using assms Profile parse_three_words[of "lit ''profile''" "lit ''init''" n] literal_words
      by (simp add: parse_command_def parse_profile_def one_arg_def)
  next
    case (PUse n)
    then show ?thesis
      using assms Profile parse_three_words[of "lit ''profile''" "lit ''use''" n] literal_words
      by (simp add: parse_command_def parse_profile_def one_arg_def)
  next
    case PList
    then show ?thesis
      using Profile parse_two_words[of "lit ''profile''" "lit ''list''"] literal_words
      by (simp add: parse_command_def parse_profile_def no_args_def)
  qed
next
  case (StartCmd a)
  then show ?thesis
    using assms parse_three_words[of "lit ''start''" "lit ''--addr''" a] literal_words
    by (simp add: parse_command_def parse_start_def)
next
  case (Message l t)
  have "split_whitespace (lit ''msg'' @ 32 # l @ 32 # t) = lit ''msg'' # split_whitespace (l @ 32 # t)"
    using literal_words(10) by (rule split_whitespace_Cons)
  moreover have "trimmed (lit ''msg'' @ 32 # l @ 32 # t)"
    using assms Message literal_words(10) by (simp only: command_ok.simps trimmed_append word_trimmed)
  ultimately show ?thesis
    using assms Message parse_msg_render[of l t] by (simp add: parse_command_def trim_trimmed)
next
  case (Fingerprint label)
  then show ?thesis
    using assms parse_two_words[of "lit ''fingerprint''"] parse_one_word[of "lit ''fingerprint''"] literal_words
    by (cases label) (simp_all add: parse_command_def optional_arg_def)
next
  case (ChatCmd label)
  then show ?thesis
    using assms parse_two_words[of "lit ''chat''"] parse_one_word[of "lit ''chat''"] literal_words
    by (cases label) (simp_all add: parse_command_def optional_arg_def)
next
  case (Tailscale t)
  then show ?thesis
    using parse_two_words[of "lit ''tailscale''"] literal_words
    by (cases t) (simp_all add: parse_command_def parse_tailscale_def)
next
  case StopCmd
  then show ?thesis using parse_one_word[of "lit ''stop''"] literal_words
    by (simp add: parse_command_def no_args_def)
next
  case (Connect a)
  then show ?thesis using assms parse_two_words[of "lit ''connect''" a] literal_words
    by (simp add: parse_command_def one_arg_def)
next
  case Peers
  then show ?thesis using parse_one_word[of "lit ''peers''"] literal_words
    by (simp add: parse_command_def no_args_def)
next
  case (Use l)
  then show ?thesis using assms parse_two_words[of "lit ''use''" l] literal_words
    by (simp add: parse_command_def one_arg_def)
next
  case (CloseCmd l)
  then show ?thesis using assms parse_two_words[of "lit ''close''" l] literal_words
    by (simp add: parse_command_def one_arg_def)
next
  case (RekeyCmd l)
  then show ?thesis using assms parse_two_words[of "lit ''rekey''" l] literal_words
    by (simp add: parse_command_def one_arg_def)
next
  case (SessionCmd l)
  then show ?thesis using assms parse_two_words[of "lit ''session''" l] literal_words
    by (simp add: parse_command_def one_arg_def)
next
  case Help
  then show ?thesis using parse_one_word[of "lit ''help''"] literal_words
    by (simp add: parse_command_def no_args_def)
next
  case Quit
  then show ?thesis using parse_one_word[of "lit ''quit''"] literal_words
    by (simp add: parse_command_def no_args_def)
qed

lemma word_ends: "word_ok w \<Longrightarrow> w \<noteq> [] \<and> \<not> is_whitespace (last w)"
  by (simp add: word_ok_def)

lemma trimmed_Cons: "\<not> is_whitespace c \<Longrightarrow> \<not> is_whitespace (last (c # s)) \<Longrightarrow> trimmed (c # s)"
  by (simp add: trimmed_def)

lemma ascii_letter: "33 \<le> c \<Longrightarrow> c < 127 \<Longrightarrow> \<not> is_whitespace c"
  by (simp add: is_whitespace_def)

lemma render_trimmed: "command_ok c \<Longrightarrow> trimmed (render c)"
  by (cases c rule: render.cases)
    (simp_all add: trimmed_Cons ascii_letter word_ends, simp_all add: trimmed_def ascii_letter)

lemma parse_render_padded:
  assumes "command_ok c" "\<forall>x \<in> set p. is_whitespace x" "\<forall>x \<in> set q. is_whitespace x"
  shows "parse_command (p @ render c @ q) = Inr c"
  using parse_command_trimmed[OF render_trimmed[OF assms(1)] assms(2,3)] parse_render[OF assms(1)] by simp

section \<open>What is parsed can be written\<close>

lemma no_args_ok: "no_args args c usage = Inr c' \<Longrightarrow> c' = c"
  by (simp add: no_args_def split: if_splits)

lemma one_arg_ok: "one_arg args mk usage = Inr c \<Longrightarrow> \<exists>w \<in> set args. c = mk w"
  by (auto simp: one_arg_def split: list.splits if_splits)

lemma optional_arg_ok: "optional_arg args mk usage = Inr c \<Longrightarrow> c = mk None \<or> (\<exists>w \<in> set args. c = mk (Some w))"
  by (auto simp: optional_arg_def split: list.splits if_splits)

lemma split_once_ws_label: "split_once_ws s = Some (l, t) \<Longrightarrow> \<forall>c \<in> set l. \<not> is_whitespace c"
  by (auto simp: split_once_ws_def dest: set_takeWhileD split: list.splits)

lemma parse_msg_ok: "parse_msg line = Inr c \<Longrightarrow> command_ok c"
  using trim_result split_once_ws_label
  by (fastforce simp: parse_msg_def word_ok_def Let_def split: option.splits prod.splits if_splits)

lemma parse_profile_ok:
  assumes "parse_profile args = Inr c" "\<forall>w \<in> set args. word_ok w"
  shows "command_ok c"
  using assms
  by (auto simp: parse_profile_def dest!: one_arg_ok no_args_ok split: list.splits if_splits)

lemma parse_tailscale_ok: "parse_tailscale args = Inr c \<Longrightarrow> command_ok c"
  by (auto simp: parse_tailscale_def Let_def split: if_splits)

lemma parse_start_ok:
  assumes "parse_start args = Inr c" "\<forall>w \<in> set args. word_ok w"
  shows "command_ok c"
proof (cases "args = []")
  case True
  with assms(1) show ?thesis by (auto simp: parse_start_def word_ok_def is_whitespace_def)
next
  case False
  with assms(1) have "length args = 2" "c = StartCmd (args ! 1)" by (auto simp: parse_start_def split: if_splits)
  with assms(2) show ?thesis by simp
qed

lemma parse_command_ok:
  assumes "parse_command line = Inr c"
  shows "command_ok c"
proof -
  define args where "args = tl (split_whitespace (trim line))"
  have words: "\<forall>w \<in> set args. word_ok w"
    using split_whitespace_words unfolding args_def by (metis list.set_sel(2) tl_Nil)
  show ?thesis using assms words
    by (auto simp: parse_command_def Let_def simp flip: args_def
        dest!: one_arg_ok no_args_ok optional_arg_ok
        intro: parse_profile_ok parse_start_ok parse_msg_ok parse_tailscale_ok split: if_splits)
qed

end
