(* ===== verification/Config.thy ===== *)
theory Config
  imports Commands
begin

unbundle bit_operations_syntax

text \<open>
  \<^verbatim>\<open>ruxmsg-cli/src/config.rs\<close>: the configuration file. The toml crate is the parameter
  \<open>toml\<close>, which gives the raw tables or the place of a syntax error; the file system is the
  outcome of opening and reading. What an accepted configuration guarantees is \<open>config_ok\<close>.
\<close>

definition MAX_CONFIG_BYTES :: nat where "MAX_CONFIG_BYTES = 16 * 1024"
definition MIN_TICK_MS :: nat where "MIN_TICK_MS = 100"
definition MAX_TICK_MS :: nat where "MAX_TICK_MS = 1000"

datatype config_error = Unreadable | UnsafeFile | TooLargeFile | NotUtf8 | Syntax nat | InvalidColor
  | InvalidKey | ReservedOrDuplicateKey | InvalidBorder | TickOutOfRange

definition config_error_text :: "config_error \<Rightarrow> ustr" where
  "config_error_text e =
     (case e of
        Unreadable \<Rightarrow> lit ''file could not be read''
      | UnsafeFile \<Rightarrow> lit ''file must be a regular file you own that others cannot write, and not a symlink''
      | TooLargeFile \<Rightarrow> lit ''file is larger than '' @ dec MAX_CONFIG_BYTES @ lit '' bytes''
      | NotUtf8 \<Rightarrow> lit ''file is not valid UTF-8''
      | Syntax line \<Rightarrow> lit ''invalid syntax or unknown field near line '' @ dec line
      | InvalidColor \<Rightarrow> lit ''invalid colour (use a listed name or #rrggbb)''
      | InvalidKey \<Rightarrow> lit ''invalid key binding''
      | ReservedOrDuplicateKey \<Rightarrow> lit ''key binding is reserved, unprintable-only, or used twice''
      | InvalidBorder \<Rightarrow> lit ''unknown border style''
      | TickOutOfRange \<Rightarrow> lit ''tick_ms must be '' @ dec MIN_TICK_MS @ lit '' to '' @ dec MAX_TICK_MS)"

section \<open>The configuration\<close>

datatype named_color = Black | Red | Green | Yellow | Blue | Magenta | Cyan | Gray | DarkGray | White
datatype color_spec = Named named_color | Rgb u8 u8 u8
datatype border_style = Plain | Rounded | Double | Thick

record theme_spec =
  th_border :: color_spec
  th_accent :: color_spec
  th_local :: color_spec
  th_remote :: color_spec
  th_system :: color_spec
  th_warning :: color_spec
  th_dim :: color_spec

definition theme_default :: theme_spec where
  "theme_default = \<lparr>th_border = Named DarkGray, th_accent = Named Cyan, th_local = Named Green,
     th_remote = Named Yellow, th_system = Named Magenta, th_warning = Named Red, th_dim = Named Gray\<rparr>"

datatype key_name = Esc | KUp | KDown | PageUp | PageDown | KHome | KEnd | Function nat | Letter nat

record key_spec =
  k_key :: key_name
  k_ctrl :: bool
  k_alt :: bool

definition to_ascii_lowercase :: "nat \<Rightarrow> nat" where
  "to_ascii_lowercase c = (if 65 \<le> c \<and> c \<le> 90 then c + 32 else c)"

definition to_ascii_uppercase :: "nat \<Rightarrow> nat" where
  "to_ascii_uppercase c = (if 97 \<le> c \<and> c \<le> 122 then c - 32 else c)"

definition key_text :: "key_spec \<Rightarrow> ustr" where
  "key_text k =
     (if k_ctrl k then lit ''Ctrl+'' else []) @ (if k_alt k then lit ''Alt+'' else []) @
     (case k_key k of
        Esc \<Rightarrow> lit ''Esc'' | KUp \<Rightarrow> lit ''Up'' | KDown \<Rightarrow> lit ''Down'' | PageUp \<Rightarrow> lit ''PageUp''
      | PageDown \<Rightarrow> lit ''PageDown'' | KHome \<Rightarrow> lit ''Home'' | KEnd \<Rightarrow> lit ''End''
      | Function n \<Rightarrow> lit ''F'' @ dec n | Letter c \<Rightarrow> [to_ascii_uppercase c])"

record key_map =
  km_leave :: key_spec
  km_rekey :: key_spec
  km_scroll_up :: key_spec
  km_scroll_down :: key_spec
  km_page_up :: key_spec
  km_page_down :: key_spec

definition plain :: "key_name \<Rightarrow> key_spec" where
  "plain k = \<lparr>k_key = k, k_ctrl = False, k_alt = False\<rparr>"

definition keys_default :: key_map where
  "keys_default = \<lparr>km_leave = plain Esc, km_rekey = \<lparr>k_key = Letter 114, k_ctrl = True, k_alt = False\<rparr>,
     km_scroll_up = plain KUp, km_scroll_down = plain KDown, km_page_up = plain PageUp,
     km_page_down = plain PageDown\<rparr>"

definition all_keys :: "key_map \<Rightarrow> key_spec list" where
  "all_keys m = [km_leave m, km_rekey m, km_scroll_up m, km_scroll_down m, km_page_up m, km_page_down m]"

record config =
  cf_theme :: theme_spec
  cf_keys :: key_map
  cf_border :: border_style
  cf_tick_ms :: nat

definition config_default :: config where
  "config_default = \<lparr>cf_theme = theme_default, cf_keys = keys_default, cf_border = Plain, cf_tick_ms = 250\<rparr>"

section \<open>The schema\<close>

record raw_theme =
  rt_border :: "ustr option"
  rt_accent :: "ustr option"
  rt_local :: "ustr option"
  rt_remote :: "ustr option"
  rt_system :: "ustr option"
  rt_warning :: "ustr option"
  rt_dim :: "ustr option"

record raw_keys =
  rk_leave :: "ustr option"
  rk_rekey :: "ustr option"
  rk_scroll_up :: "ustr option"
  rk_scroll_down :: "ustr option"
  rk_page_up :: "ustr option"
  rk_page_down :: "ustr option"

record raw_ui =
  ru_border :: "ustr option"
  ru_tick_ms :: "nat option"

record raw_config =
  rc_theme :: "raw_theme option"
  rc_keys :: "raw_keys option"
  rc_ui :: "raw_ui option"

definition raw_theme_default :: raw_theme where
  "raw_theme_default = \<lparr>rt_border = None, rt_accent = None, rt_local = None, rt_remote = None,
     rt_system = None, rt_warning = None, rt_dim = None\<rparr>"

definition raw_keys_default :: raw_keys where
  "raw_keys_default = \<lparr>rk_leave = None, rk_rekey = None, rk_scroll_up = None, rk_scroll_down = None,
     rk_page_up = None, rk_page_down = None\<rparr>"

definition raw_ui_default :: raw_ui where
  "raw_ui_default = \<lparr>ru_border = None, ru_tick_ms = None\<rparr>"

section \<open>Colours\<close>

definition strip_prefix :: "ustr \<Rightarrow> ustr \<Rightarrow> ustr option" where
  "strip_prefix p s = (if take (length p) s = p then Some (drop (length p) s) else None)"

definition is_hexdigit :: "nat \<Rightarrow> bool" where
  "is_hexdigit c \<longleftrightarrow> (48 \<le> c \<and> c \<le> 57) \<or> (65 \<le> c \<and> c \<le> 70) \<or> (97 \<le> c \<and> c \<le> 102)"

definition hex_value :: "nat \<Rightarrow> nat" where
  "hex_value c = (if c \<le> 57 then c - 48 else if c \<le> 70 then c - 55 else c - 87)"

text \<open>\<^verbatim>\<open>u8::from_str_radix(&hex[i..i + 2], 16)\<close>, on digits that were checked.\<close>

definition channel :: "ustr \<Rightarrow> nat \<Rightarrow> u8" where
  "channel hex i = word_of_nat (16 * hex_value (hex ! i) + hex_value (hex ! (i + 1)))"

definition color_of_name :: "ustr \<Rightarrow> named_color option" where
  "color_of_name s =
     (if s = lit ''black'' then Some Black else if s = lit ''red'' then Some Red
      else if s = lit ''green'' then Some Green else if s = lit ''yellow'' then Some Yellow
      else if s = lit ''blue'' then Some Blue else if s = lit ''magenta'' then Some Magenta
      else if s = lit ''cyan'' then Some Cyan
      else if s = lit ''gray'' \<or> s = lit ''grey'' then Some Gray
      else if s = lit ''dark-gray'' \<or> s = lit ''dark-grey'' then Some DarkGray
      else if s = lit ''white'' then Some White else None)"

definition parse_color :: "ustr \<Rightarrow> config_error + color_spec" where
  "parse_color s =
     (case strip_prefix [35] s of
        Some hex \<Rightarrow>
          if str_len hex \<noteq> 6 \<or> \<not> list_all (\<lambda>b. is_hexdigit (unat b)) (utf8 hex) then Inl InvalidColor
          else Inr (Rgb (channel hex 0) (channel hex 2) (channel hex 4))
      | None \<Rightarrow>
          map_err (\<lambda>_. InvalidColor) (case color_of_name (map to_ascii_lowercase s) of
            Some c \<Rightarrow> Inr (Named c) | None \<Rightarrow> Inl ()))"

section \<open>Keys\<close>

lemma strip_prefix_shorter:
  assumes "strip_prefix p s = Some t" "p \<noteq> []"
  shows "length t < length s"
proof -
  from assms have "t = drop (length p) s" "s \<noteq> []" by (auto simp: strip_prefix_def split: if_splits)
  with assms(2) show ?thesis by (cases s) auto
qed

function strip_modifiers :: "ustr \<Rightarrow> bool \<Rightarrow> bool \<Rightarrow> bool \<times> bool \<times> ustr" where
  "strip_modifiers rest ctrl alt =
     (case strip_prefix (lit ''ctrl-'') rest of
        Some tail \<Rightarrow> strip_modifiers tail True alt
      | None \<Rightarrow>
          (case strip_prefix (lit ''alt-'') rest of
             Some tail \<Rightarrow> strip_modifiers tail ctrl True
           | None \<Rightarrow> (ctrl, alt, rest)))"
  by auto
termination
  by (relation "measure (\<lambda>(rest, ctrl, alt). length rest)")
    (auto dest: strip_prefix_shorter)

declare strip_modifiers.simps [simp del]

text \<open>\<^verbatim>\<open>str::parse::<u8>\<close>: an optional plus sign, then decimal digits, at most 255.\<close>

fun decimal :: "ustr \<Rightarrow> nat \<Rightarrow> nat option" where
  "decimal [] acc = Some acc"
| "decimal (c # s) acc =
     (if 48 \<le> c \<and> c \<le> 57 \<and> acc * 10 + (c - 48) \<le> 255 then decimal s (acc * 10 + (c - 48)) else None)"

definition parse_u8 :: "ustr \<Rightarrow> nat option" where
  "parse_u8 s = (let digits = (case s of c # t \<Rightarrow> if c = 43 then t else s | [] \<Rightarrow> s) in
     if digits = [] then None else decimal digits 0)"

definition key_name_of :: "ustr \<Rightarrow> config_error + key_name" where
  "key_name_of s =
     (if s = lit ''esc'' then Inr Esc else if s = lit ''up'' then Inr KUp
      else if s = lit ''down'' then Inr KDown else if s = lit ''pageup'' then Inr PageUp
      else if s = lit ''pagedown'' then Inr PageDown else if s = lit ''home'' then Inr KHome
      else if s = lit ''end'' then Inr KEnd
      else
        (case strip_prefix [102] s of
           Some number \<Rightarrow>
             (case parse_u8 number of
                Some n \<Rightarrow> if 1 \<le> n \<and> n \<le> 12 then Inr (Function n) else Inl InvalidKey
              | None \<Rightarrow> Inl InvalidKey)
         | None \<Rightarrow>
             (case s of
                [letter] \<Rightarrow> if 97 \<le> letter \<and> letter \<le> 122 then Inr (Letter letter) else Inl InvalidKey
              | _ \<Rightarrow> Inl InvalidKey)))"

definition is_letter :: "key_name \<Rightarrow> bool" where
  "is_letter k \<longleftrightarrow> (case k of Letter _ \<Rightarrow> True | _ \<Rightarrow> False)"

definition parse_key :: "ustr \<Rightarrow> config_error + key_spec" where
  "parse_key s =
     (if s = [] \<or> str_len s > 16 \<or> \<not> list_all (\<lambda>c. c < 128) s then Inl InvalidKey
      else
        let (ctrl, alt, rest) = strip_modifiers (map to_ascii_lowercase s) False False in
        rbind (key_name_of rest) (\<lambda>key.
        rbind (guard (\<not> (is_letter key \<and> \<not> (ctrl \<or> alt))) ReservedOrDuplicateKey) (\<lambda>_.
        rbind (guard (\<not> ((key = Letter 99 \<or> key = Letter 100) \<and> ctrl)) ReservedOrDuplicateKey) (\<lambda>_.
        Inr \<lparr>k_key = key, k_ctrl = ctrl, k_alt = alt\<rparr>))))"

section \<open>Parsing\<close>

definition pick :: "ustr option \<Rightarrow> 'a \<Rightarrow> (ustr \<Rightarrow> config_error + 'a) \<Rightarrow> config_error + 'a" where
  "pick raw fallback parse = (case raw of Some s \<Rightarrow> parse s | None \<Rightarrow> Inr fallback)"

definition line_of :: "ustr \<Rightarrow> nat \<Rightarrow> nat" where
  "line_of s offset =
     length (filter (\<lambda>b. unat b = 10) (take (min offset (str_len s)) (utf8 s))) + 1"

definition parse_theme :: "raw_theme \<Rightarrow> config_error + theme_spec" where
  "parse_theme t =
     rbind (pick (rt_border t) (th_border theme_default) parse_color) (\<lambda>border.
     rbind (pick (rt_accent t) (th_accent theme_default) parse_color) (\<lambda>accent.
     rbind (pick (rt_local t) (th_local theme_default) parse_color) (\<lambda>local.
     rbind (pick (rt_remote t) (th_remote theme_default) parse_color) (\<lambda>remote.
     rbind (pick (rt_system t) (th_system theme_default) parse_color) (\<lambda>system.
     rbind (pick (rt_warning t) (th_warning theme_default) parse_color) (\<lambda>warning.
     rbind (pick (rt_dim t) (th_dim theme_default) parse_color) (\<lambda>dim.
     Inr \<lparr>th_border = border, th_accent = accent, th_local = local, th_remote = remote,
          th_system = system, th_warning = warning, th_dim = dim\<rparr>)))))))"

definition parse_keys :: "raw_keys \<Rightarrow> config_error + key_map" where
  "parse_keys k =
     rbind (pick (rk_leave k) (km_leave keys_default) parse_key) (\<lambda>leave.
     rbind (pick (rk_rekey k) (km_rekey keys_default) parse_key) (\<lambda>rekey.
     rbind (pick (rk_scroll_up k) (km_scroll_up keys_default) parse_key) (\<lambda>scroll_up.
     rbind (pick (rk_scroll_down k) (km_scroll_down keys_default) parse_key) (\<lambda>scroll_down.
     rbind (pick (rk_page_up k) (km_page_up keys_default) parse_key) (\<lambda>page_up.
     rbind (pick (rk_page_down k) (km_page_down keys_default) parse_key) (\<lambda>page_down.
     Inr \<lparr>km_leave = leave, km_rekey = rekey, km_scroll_up = scroll_up, km_scroll_down = scroll_down,
          km_page_up = page_up, km_page_down = page_down\<rparr>))))))"

text \<open>\<^verbatim>\<open>bound[..index].contains(spec)\<close> for some index.\<close>

definition has_duplicate :: "key_spec list \<Rightarrow> bool" where
  "has_duplicate bound \<longleftrightarrow> list_ex (\<lambda>i. bound ! i \<in> set (take i bound)) [0..<length bound]"

definition parse_border :: "ustr \<Rightarrow> config_error + border_style" where
  "parse_border s =
     (let s = map to_ascii_lowercase s in
      if s = lit ''plain'' then Inr Plain else if s = lit ''rounded'' then Inr Rounded
      else if s = lit ''double'' then Inr Double else if s = lit ''thick'' then Inr Thick
      else Inl InvalidBorder)"

definition parse_config :: "(ustr \<Rightarrow> nat option + raw_config) \<Rightarrow> ustr \<Rightarrow> config_error + config" where
  "parse_config toml s =
     (if str_len s > MAX_CONFIG_BYTES then Inl TooLargeFile
      else
        rbind (map_err (\<lambda>span. Syntax (case span of None \<Rightarrow> 1 | Some start \<Rightarrow> line_of s start)) (toml s)) (\<lambda>raw.
        rbind (parse_theme (case rc_theme raw of Some t \<Rightarrow> t | None \<Rightarrow> raw_theme_default)) (\<lambda>theme.
        rbind (parse_keys (case rc_keys raw of Some k \<Rightarrow> k | None \<Rightarrow> raw_keys_default)) (\<lambda>keys.
        let ui = (case rc_ui raw of Some u \<Rightarrow> u | None \<Rightarrow> raw_ui_default) in
        rbind (guard (\<not> has_duplicate (all_keys keys)) ReservedOrDuplicateKey) (\<lambda>_.
        rbind (pick (ru_border ui) (cf_border config_default) parse_border) (\<lambda>border.
        let tick_ms = (case ru_tick_ms ui of Some n \<Rightarrow> n | None \<Rightarrow> cf_tick_ms config_default) in
        rbind (guard (MIN_TICK_MS \<le> tick_ms \<and> tick_ms \<le> MAX_TICK_MS) TickOutOfRange) (\<lambda>_.
        Inr \<lparr>cf_theme = theme, cf_keys = keys, cf_border = border, cf_tick_ms = tick_ms\<rparr>)))))))"

section \<open>Loading\<close>

text \<open>
  The open file: its metadata and its contents, each of which may fail to be read, and how opening
  without following a symbolic link may end. \<open>uid\<close> is the current user.
\<close>

record file_metadata =
  fm_is_file :: bool
  fm_uid :: nat
  fm_mode :: "32 word"
  fm_len :: nat

record opened_file =
  fi_metadata :: "file_metadata option"
  fi_contents :: "bytes option"

datatype open_result = NotFound | OpenFailed | OpenedFile opened_file

definition load_from :: "(ustr \<Rightarrow> nat option + raw_config) \<Rightarrow> nat \<Rightarrow> open_result \<Rightarrow> config_error + config" where
  "load_from toml uid r =
     (case r of
        NotFound \<Rightarrow> Inr config_default
      | OpenFailed \<Rightarrow> Inl UnsafeFile
      | OpenedFile f \<Rightarrow>
          rbind (ok_or (fi_metadata f) Unreadable) (\<lambda>m.
          rbind (guard (fm_is_file m) UnsafeFile) (\<lambda>_.
          rbind (guard (\<not> (fm_uid m \<noteq> uid \<or> fm_mode m AND 18 \<noteq> 0)) UnsafeFile) (\<lambda>_.
          rbind (guard (\<not> fm_len m > MAX_CONFIG_BYTES) TooLargeFile) (\<lambda>_.
          rbind (ok_or (fi_contents f) Unreadable) (\<lambda>contents.
          let read = take (MAX_CONFIG_BYTES + 1) contents in
          rbind (guard (\<not> length read > MAX_CONFIG_BYTES) TooLargeFile) (\<lambda>_.
          rbind (ok_or (from_utf8 read) NotUtf8) (\<lambda>s. parse_config toml s))))))))"

text \<open>
  \<^verbatim>\<open>default_path\<close>: the two variables of the environment are arguments; a path is the
  string of its components.
\<close>

definition path_join :: "ustr \<Rightarrow> ustr \<Rightarrow> ustr" where
  "path_join base p = (if base = [] \<or> last base = 47 then base @ p else base @ [47] @ p)"

definition default_path :: "ustr option \<Rightarrow> ustr option \<Rightarrow> ustr option" where
  "default_path xdg_config_home home =
     map_option (\<lambda>base. path_join (path_join base (lit ''ruxmsg'')) (lit ''config.toml''))
       (case xdg_config_home of
          Some path \<Rightarrow> if path \<noteq> [] \<and> hd path = 47 then Some path else map_option (\<lambda>h. path_join h (lit ''.config'')) home
        | None \<Rightarrow> map_option (\<lambda>h. path_join h (lit ''.config'')) home)"

section \<open>What an accepted key is\<close>

definition key_ok :: "key_spec \<Rightarrow> bool" where
  "key_ok k \<longleftrightarrow>
     (case k_key k of
        Letter c \<Rightarrow> 97 \<le> c \<and> c \<le> 122 \<and> (k_ctrl k \<or> k_alt k) \<and> \<not> (k_ctrl k \<and> (c = 99 \<or> c = 100))
      | Function n \<Rightarrow> 1 \<le> n \<and> n \<le> 12
      | _ \<Rightarrow> True)"

definition config_ok :: "config \<Rightarrow> bool" where
  "config_ok c \<longleftrightarrow> distinct (all_keys (cf_keys c)) \<and> (\<forall>k \<in> set (all_keys (cf_keys c)). key_ok k) \<and>
     MIN_TICK_MS \<le> cf_tick_ms c \<and> cf_tick_ms c \<le> MAX_TICK_MS"

lemma key_name_of_letter: "key_name_of s = Inr (Letter c) \<Longrightarrow> s = [c] \<and> 97 \<le> c \<and> c \<le> 122 \<and> c \<noteq> 102"
  by (auto simp: key_name_of_def strip_prefix_def split: if_splits list.splits option.splits)

lemma key_name_of_function: "key_name_of s = Inr (Function n) \<Longrightarrow> 1 \<le> n \<and> n \<le> 12"
  by (auto simp: key_name_of_def split: if_splits list.splits option.splits)

lemma parse_key_ok:
  assumes "parse_key s = Inr k"
  shows "key_ok k"
proof -
  obtain ctrl alt rest where strip: "strip_modifiers (map to_ascii_lowercase s) False False = (ctrl, alt, rest)"
    by (metis prod_cases3)
  with assms obtain key where key: "key_name_of rest = Inr key"
    and letter: "is_letter key \<Longrightarrow> ctrl \<or> alt" and ctrl: "\<not> ((key = Letter 99 \<or> key = Letter 100) \<and> ctrl)"
    and k: "k = \<lparr>k_key = key, k_ctrl = ctrl, k_alt = alt\<rparr>"
    by (auto simp: parse_key_def res_simps split: if_splits)
  show ?thesis
  proof (cases key)
    case (Function n)
    with key key_name_of_function show ?thesis by (simp add: k key_ok_def)
  next
    case (Letter c)
    with key key_name_of_letter[of rest c] letter ctrl show ?thesis by (auto simp: k key_ok_def is_letter_def)
  qed (simp_all add: k key_ok_def)
qed

lemma keys_default_ok: "\<forall>k \<in> set (all_keys keys_default). key_ok k"
  by (simp add: all_keys_def keys_default_def plain_def key_ok_def)

lemma pick_ok: "pick raw d parse = Inr x \<Longrightarrow> Q d \<Longrightarrow> (\<And>s x. parse s = Inr x \<Longrightarrow> Q x) \<Longrightarrow> Q x"
  by (auto simp: pick_def split: option.splits)

lemma parse_keys_ok:
  assumes "parse_keys raw = Inr keys"
  shows "\<forall>k \<in> set (all_keys keys). key_ok k"
proof -
  note d = keys_default_ok[unfolded all_keys_def, simplified]
  from assms have "pick (rk_leave raw) (km_leave keys_default) parse_key = Inr (km_leave keys)"
    "pick (rk_rekey raw) (km_rekey keys_default) parse_key = Inr (km_rekey keys)"
    "pick (rk_scroll_up raw) (km_scroll_up keys_default) parse_key = Inr (km_scroll_up keys)"
    "pick (rk_scroll_down raw) (km_scroll_down keys_default) parse_key = Inr (km_scroll_down keys)"
    "pick (rk_page_up raw) (km_page_up keys_default) parse_key = Inr (km_page_up keys)"
    "pick (rk_page_down raw) (km_page_down keys_default) parse_key = Inr (km_page_down keys)"
    by (auto simp: parse_keys_def res_simps)
  then show ?thesis using d pick_ok[where Q = key_ok and parse = parse_key] parse_key_ok
    unfolding all_keys_def by (metis empty_iff list.set(1) set_ConsD)
qed

lemma has_duplicate_iff: "has_duplicate xs \<longleftrightarrow> \<not> distinct xs"
proof
  assume "has_duplicate xs"
  then obtain i where "i < length xs" "xs ! i \<in> set (take i xs)" by (auto simp: has_duplicate_def list_ex_iff)
  then obtain j where "j < i" "xs ! j = xs ! i" by (auto simp: in_set_conv_nth)
  with \<open>i < length xs\<close> show "\<not> distinct xs" by (auto simp: distinct_conv_nth intro: less_trans)
next
  assume "\<not> distinct xs"
  then obtain i j where "i < length xs" "j < i" "xs ! j = xs ! i"
    by (metis distinct_conv_nth linorder_neqE_nat)
  then have "xs ! i \<in> set (take i xs)" by (metis in_set_conv_nth length_take min.absorb4 nth_take)
  with \<open>i < length xs\<close> show "has_duplicate xs" by (auto simp: has_duplicate_def list_ex_iff)
qed

lemma parse_config_ok:
  assumes "parse_config toml s = Inr c"
  shows "config_ok c"
  using assms parse_keys_ok
  by (auto simp: parse_config_def config_ok_def res_simps Let_def has_duplicate_iff split: if_splits)

lemma config_default_ok: "config_ok config_default"
  using keys_default_ok
  by (simp add: config_ok_def config_default_def MIN_TICK_MS_def MAX_TICK_MS_def)
    (simp add: all_keys_def keys_default_def plain_def)

lemma parse_theme_default: "parse_theme raw_theme_default = Inr theme_default"
  by (simp add: parse_theme_def raw_theme_default_def pick_def)

lemma parse_keys_default: "parse_keys raw_keys_default = Inr keys_default"
  by (simp add: parse_keys_def raw_keys_default_def pick_def)

lemma parse_config_empty:
  assumes "toml s = Inr \<lparr>rc_theme = None, rc_keys = None, rc_ui = None\<rparr>" "str_len s \<le> MAX_CONFIG_BYTES"
  shows "parse_config toml s = Inr config_default"
proof -
  have keys: "cf_keys config_default = keys_default" "cf_tick_ms config_default = 250" "cf_border config_default = Plain"
    by (simp_all add: config_default_def)
  have "\<not> has_duplicate (all_keys keys_default)"
    using config_default_ok by (simp add: config_ok_def has_duplicate_iff keys)
  with assms show ?thesis
    by (simp add: parse_config_def parse_theme_default parse_keys_default keys pick_def raw_ui_default_def
        MIN_TICK_MS_def MAX_TICK_MS_def) (simp add: config_default_def)
qed

section \<open>What is read\<close>

lemma load_from_cases:
  assumes "load_from toml uid r = Inr c"
  shows "(r = NotFound \<and> c = config_default) \<or>
    (\<exists>f m contents s. r = OpenedFile f \<and> fi_metadata f = Some m \<and> fm_is_file m \<and> fm_uid m = uid \<and>
       fm_mode m AND 18 = 0 \<and> fi_contents f = Some contents \<and> length contents \<le> MAX_CONFIG_BYTES \<and>
       from_utf8 contents = Some s \<and> parse_config toml s = Inr c)"
proof (cases r)
  case (OpenedFile f)
  with assms obtain m contents where f: "fi_metadata f = Some m" "fm_is_file m" "fm_uid m = uid"
    "fm_mode m AND 18 = 0" "fi_contents f = Some contents"
    and len: "length (take (MAX_CONFIG_BYTES + 1) contents) \<le> MAX_CONFIG_BYTES"
    and rest: "rbind (ok_or (from_utf8 (take (MAX_CONFIG_BYTES + 1) contents)) NotUtf8) (parse_config toml) = Inr c"
    by (auto simp: load_from_def res_simps Let_def not_less)
  from len have "length contents \<le> MAX_CONFIG_BYTES" by (simp add: min_def split: if_splits)
  then have all: "take (MAX_CONFIG_BYTES + 1) contents = contents" by simp
  from rest obtain s where "from_utf8 contents = Some s" "parse_config toml s = Inr c"
    unfolding all by (auto simp: res_simps)
  with OpenedFile f \<open>length contents \<le> MAX_CONFIG_BYTES\<close> show ?thesis by blast
qed (use assms in \<open>auto simp: load_from_def\<close>)

lemma load_from_ok: "load_from toml uid r = Inr c \<Longrightarrow> config_ok c"
  using load_from_cases parse_config_ok config_default_ok by blast

section \<open>Letters with a modifier\<close>

lemma strip_modifiers_letter:
  assumes "97 \<le> c" "c \<le> 122"
  shows "strip_modifiers [c] ctrl alt = (ctrl, alt, [c])"
  using assms by (simp add: strip_modifiers.simps[of "[c]"] strip_prefix_def)

lemma strip_modifiers_ctrl: "strip_modifiers (lit ''ctrl-'' @ s) ctrl alt = strip_modifiers s True alt"
  by (subst strip_modifiers.simps) (simp add: strip_prefix_def)

lemma strip_modifiers_alt: "strip_modifiers (lit ''alt-'' @ s) ctrl alt = strip_modifiers s ctrl True"
  by (subst strip_modifiers.simps) (simp add: strip_prefix_def)

lemma lowercase_letter: "97 \<le> c \<Longrightarrow> to_ascii_lowercase c = c"
  by (simp add: to_ascii_lowercase_def)

lemma key_name_of_single:
  assumes "97 \<le> c" "c \<le> 122"
  shows "key_name_of [c] = (if c = 102 then Inl InvalidKey else Inr (Letter c))"
  using assms by (simp add: key_name_of_def strip_prefix_def parse_u8_def)

lemma parse_key_ctrl_letter:
  assumes "97 \<le> c" "c \<le> 122"
  shows "parse_key (lit ''ctrl-'' @ [c]) =
    (if c = 102 then Inl InvalidKey
     else if c = 99 \<or> c = 100 then Inl ReservedOrDuplicateKey
     else Inr \<lparr>k_key = Letter c, k_ctrl = True, k_alt = False\<rparr>)"
proof -
  have "map to_ascii_lowercase (lit ''ctrl-'' @ [c]) = lit ''ctrl-'' @ [c]"
    using assms by (simp add: to_ascii_lowercase_def)
  moreover have "str_len (lit ''ctrl-'' @ [c]) = 6" "list_all (\<lambda>c. c < 128) (lit ''ctrl-'' @ [c])"
    using assms by (simp_all add: len_utf8_def)
  ultimately show ?thesis using assms
    by (simp only: parse_key_def strip_modifiers_ctrl strip_modifiers_letter[OF assms])
      (simp add: key_name_of_single is_letter_def)
qed

lemma parse_key_alt_letter:
  assumes "97 \<le> c" "c \<le> 122"
  shows "parse_key (lit ''alt-'' @ [c]) =
    (if c = 102 then Inl InvalidKey else Inr \<lparr>k_key = Letter c, k_ctrl = False, k_alt = True\<rparr>)"
proof -
  have "map to_ascii_lowercase (lit ''alt-'' @ [c]) = lit ''alt-'' @ [c]"
    using assms by (simp add: to_ascii_lowercase_def)
  moreover have "str_len (lit ''alt-'' @ [c]) = 5" "list_all (\<lambda>c. c < 128) (lit ''alt-'' @ [c])"
    using assms by (simp_all add: len_utf8_def)
  ultimately show ?thesis using assms
    by (simp only: parse_key_def strip_modifiers_alt strip_modifiers_letter[OF assms])
      (simp add: key_name_of_single is_letter_def)
qed

end
