(* ===== verification/Theme.thy ===== *)
theory Theme
  imports Config
begin

text \<open>
  \<^verbatim>\<open>ruxmsg-cli/src/theme.rs\<close>: the validated configuration as colours and borders of the
  terminal library, of which only the names the program uses are listed.
\<close>

datatype tcolor = TRgb u8 u8 u8 | TBlack | TRed | TGreen | TYellow | TBlue | TMagenta | TCyan | TGray | TDarkGray | TWhite

datatype border_type = BtPlain | BtRounded | BtDouble | BtThick

record theme =
  tm_border :: tcolor
  tm_accent :: tcolor
  tm_local :: tcolor
  tm_remote :: tcolor
  tm_system :: tcolor
  tm_warning :: tcolor
  tm_dim :: tcolor
  tm_border_type :: border_type

fun color :: "color_spec \<Rightarrow> tcolor" where
  "color (Rgb red green blue) = TRgb red green blue"
| "color (Named named) =
     (case named of
        Black \<Rightarrow> TBlack | Red \<Rightarrow> TRed | Green \<Rightarrow> TGreen | Yellow \<Rightarrow> TYellow | Blue \<Rightarrow> TBlue
      | Magenta \<Rightarrow> TMagenta | Cyan \<Rightarrow> TCyan | Gray \<Rightarrow> TGray | DarkGray \<Rightarrow> TDarkGray | White \<Rightarrow> TWhite)"

definition theme_new :: "theme_spec \<Rightarrow> border_style \<Rightarrow> theme" where
  "theme_new spec border =
     \<lparr>tm_border = color (th_border spec), tm_accent = color (th_accent spec), tm_local = color (th_local spec),
      tm_remote = color (th_remote spec), tm_system = color (th_system spec), tm_warning = color (th_warning spec),
      tm_dim = color (th_dim spec),
      tm_border_type =
        (case border of Plain \<Rightarrow> BtPlain | Rounded \<Rightarrow> BtRounded | Double \<Rightarrow> BtDouble | Thick \<Rightarrow> BtThick)\<rparr>"

text \<open>No two configured colours are shown as one.\<close>

lemma color_inject: "color a = color b \<longleftrightarrow> a = b"
  by (cases a; cases b) (auto split: named_color.splits)

end
