(* ===== verification/App.thy ===== *)
theory App
  imports Net Scrollback Storage Theme "HOL-Library.List_Lexorder"
begin

text \<open>
  \<^verbatim>\<open>ruxmsg-cli/src/app.rs\<close>: the application's state and what it does on the events of the
  network. A peer's handle is the connection handle of \<open>Net\<close>, whose queues the connection task
  drains. What the program prints above its prompt is recorded, row by row, in \<open>ap_said\<close>, the
  dialed addresses in \<open>ap_dialed\<close>; drawing and terminal control sequences are left out.
\<close>

section \<open>State\<close>

datatype peer_status = PsHandshaking | PsConnected | PsClosed

definition status_text :: "peer_status \<Rightarrow> ustr" where
  "status_text s =
     (case s of PsHandshaking \<Rightarrow> lit ''handshaking'' | PsConnected \<Rightarrow> lit ''connected'' | PsClosed \<Rightarrow> lit ''closed'')"

record peer =
  pr_id :: nat
  pr_handle :: connection_handle
  pr_remote :: ustr
  pr_outbound :: bool
  pr_status :: peer_status
  pr_fingerprint :: "ustr option"
  pr_rekeying :: bool
  pr_last_data_rejection_notice :: "nat option"
  pr_scrollback :: scrollback
  pr_unread :: nat
  pr_close_note :: "ustr option"

record pending_sas =
  ps_id :: nat
  ps_label :: ustr
  ps_words :: "string list"
  ps_fingerprint :: ustr
  ps_outbound :: bool
  ps_since :: nat
  ps_typed :: ustr

record chat_view =
  cv_label :: ustr
  cv_input :: ustr
  cv_scroll :: nat
  cv_max_scroll :: nat

datatype mode = Repl | Chat chat_view

text \<open>
  \<open>ap_net\<close> is the identity of the facade, \<open>ap_net_rx\<close> whether its events are received,
  \<open>ap_listener\<close> the address listened on, \<open>ap_terminal\<close> whether a chat holds the terminal,
  \<open>ap_wiped\<close> whether the screen was wiped at the end. The maps are association lists.
\<close>

record app =
  ap_net :: "identity_keypair option"
  ap_net_rx :: bool
  ap_own_fingerprint :: "ustr option"
  ap_peers :: "(ustr \<times> peer) list"
  ap_by_id :: "(nat \<times> ustr) list"
  ap_default_target :: "ustr option"
  ap_next_label :: nat
  ap_listener :: "ustr option"
  ap_sas :: "pending_sas list"
  ap_mode :: mode
  ap_input :: ustr
  ap_terminal :: bool
  ap_theme :: theme
  ap_keys :: key_map
  ap_tick_ms :: nat
  ap_quit :: bool
  ap_touched :: bool
  ap_said :: "ustr list"
  ap_dialed :: "ustr list"
  ap_wiped :: bool

definition app_new :: "config \<Rightarrow> app" where
  "app_new config =
     \<lparr>ap_net = None, ap_net_rx = False, ap_own_fingerprint = None, ap_peers = [], ap_by_id = [],
      ap_default_target = None, ap_next_label = 0, ap_listener = None, ap_sas = [], ap_mode = Repl,
      ap_input = [], ap_terminal = False, ap_theme = theme_new (cf_theme config) (cf_border config),
      ap_keys = cf_keys config, ap_tick_ms = cf_tick_ms config,
      ap_quit = False, ap_touched = False, ap_said = [], ap_dialed = [], ap_wiped = False\<rparr>"

section \<open>Texts\<close>

definition is_approval :: "ustr \<Rightarrow> bool" where
  "is_approval typed \<longleftrightarrow> map to_ascii_lowercase (trim typed) = lit ''yes''"

definition reason_text :: "close_reason \<Rightarrow> ustr" where
  "reason_text r =
     (case r of RNormal \<Rightarrow> lit ''Normal'' | RProtocolError \<Rightarrow> lit ''ProtocolError''
      | RAuthenticationFailure \<Rightarrow> lit ''AuthenticationFailure'' | RIdentityChanged \<Rightarrow> lit ''IdentityChanged''
      | RResourceLimit \<Rightarrow> lit ''ResourceLimit'' | RShutdown \<Rightarrow> lit ''Shutdown'')"

definition cause_text :: "close_cause \<Rightarrow> ustr" where
  "cause_text c =
     (case c of
        CLocal \<Rightarrow> lit ''closed''
      | CPeerUnauthenticated reason \<Rightarrow> lit ''peer closed (unauthenticated, '' @ reason_text reason @ lit '')''
      | CTransportLost \<Rightarrow> lit ''connection lost''
      | CProtocolError \<Rightarrow> lit ''protocol error''
      | CAuthenticationFailure \<Rightarrow> lit ''authentication failed''
      | CSasRejected \<Rightarrow> lit ''SAS not approved''
      | CTimeout \<Rightarrow> lit ''timed out'')"

definition rekey_failure_text :: "rekey_failure \<Rightarrow> ustr" where
  "rekey_failure_text f =
     (case f of
        FTimeout \<Rightarrow> lit ''rekey timed out; session unchanged''
      | FIdentityMismatch \<Rightarrow> lit ''rekey rejected: identity changed; session unchanged''
      | FInvalid \<Rightarrow> lit ''rekey failed; session unchanged''
      | FRepeated \<Rightarrow> lit ''rekey failed repeatedly; session still using old keys (network or interference issue)'')"

definition handle_error_text :: "handle_error \<Rightarrow> ustr" where
  "handle_error_text e = (case e of Busy \<Rightarrow> lit ''Busy'' | Gone \<Rightarrow> lit ''Gone'')"

text \<open>\<open>[label] text\<close>.\<close>

definition tagged :: "ustr \<Rightarrow> ustr \<Rightarrow> ustr" where
  "tagged label t = lit ''['' @ label @ lit ''] '' @ t"

fun split_lines :: "ustr \<Rightarrow> ustr list" where
  "split_lines [] = [[]]"
| "split_lines (c # s) =
     (if c = 10 then [] # split_lines s
      else (case split_lines s of l # ls \<Rightarrow> (c # l) # ls | [] \<Rightarrow> [[c]]))"

section \<open>Printing\<close>

definition say :: "ustr \<Rightarrow> app \<Rightarrow> app" where
  "say t a =
     (case ap_mode a of
        Repl \<Rightarrow> a\<lparr>ap_said := ap_said a @ split_lines (trim_end t)\<rparr>
      | Chat _ \<Rightarrow> a)"

definition say_message :: "ustr \<Rightarrow> ustr \<Rightarrow> app \<Rightarrow> app" where
  "say_message label t a =
     (case ap_mode a of
        Repl \<Rightarrow>
          (case split_lines t of
             l # ls \<Rightarrow> a\<lparr>ap_said := ap_said a @ tagged label l # map (\<lambda>l. lit ''    '' @ l) ls\<rparr>
           | [] \<Rightarrow> a)
      | Chat _ \<Rightarrow> a)"

definition direction_text :: "bool \<Rightarrow> ustr" where
  "direction_text outbound = (if outbound then lit ''outbound'' else lit ''inbound'')"

text \<open>8212 is the em dash.\<close>

definition sas_announcement :: "pending_sas \<Rightarrow> ustr" where
  "sas_announcement p =
     tagged (ps_label p) (lit ''SECURITY VERIFICATION '' @ [8212] @ lit '' Short Authentication String ('' @
       direction_text (ps_outbound p) @ lit '')'') @ [10] @
     tagged (ps_label p) (lit ''compare these words with your peer over a separate channel:'') @ [10, 10] @
     lit ''        '' @ lit (ps_words p ! 0) @ lit '' '' @ lit (ps_words p ! 1) @ lit '' '' @ lit (ps_words p ! 2) @ [10, 10] @
     tagged (ps_label p) (lit ''peer key (claimed until approved): '' @ ps_fingerprint p) @ [10] @
     tagged (ps_label p) (lit ''type `yes` and press Enter to approve; anything else rejects ('' @
       dec SAS_DECISION_TIMEOUT_SECS @ lit '' s).'')"

definition announce_sas :: "app \<Rightarrow> app" where
  "announce_sas a = (case ap_sas a of [] \<Rightarrow> a | p # _ \<Rightarrow> say (sas_announcement p) a)"

section \<open>The peer table\<close>

definition set_peer :: "ustr \<Rightarrow> peer \<Rightarrow> app \<Rightarrow> app" where
  "set_peer label p a = a\<lparr>ap_peers := AList.update label p (ap_peers a)\<rparr>"

text \<open>\<^verbatim>\<open>if let Some(peer) = self.peers.get_mut(label)\<close>.\<close>

definition with_peer :: "ustr \<Rightarrow> (peer \<Rightarrow> peer) \<Rightarrow> app \<Rightarrow> app" where
  "with_peer label f a =
     (case map_of (ap_peers a) label of None \<Rightarrow> a | Some p \<Rightarrow> set_peer label (f p) a)"

definition add_note :: "author \<Rightarrow> ustr \<Rightarrow> peer \<Rightarrow> peer" where
  "add_note who t p = p\<lparr>pr_scrollback := push who t (pr_scrollback p)\<rparr>"

definition no_such_session :: "ustr \<Rightarrow> ustr" where
  "no_such_session label = lit ''no such session '' @ quoted label"

definition not_connected :: "ustr \<Rightarrow> ustr" where
  "not_connected label = lit ''session '' @ quoted label @ lit '' is not connected''"

definition find_peer :: "app \<Rightarrow> ustr \<Rightarrow> ustr + peer" where
  "find_peer a label = ok_or (map_of (ap_peers a) label) (no_such_session label)"

definition forget :: "ustr \<Rightarrow> app \<Rightarrow> app" where
  "forget label a =
     (case map_of (ap_peers a) label of
        None \<Rightarrow> a
      | Some p \<Rightarrow> a\<lparr>ap_peers := AList.delete label (ap_peers a), ap_by_id := AList.delete (pr_id p) (ap_by_id a)\<rparr>)"

definition label_of :: "nat \<Rightarrow> ustr" where
  "label_of n = lit ''peer'' @ dec n"

definition fresh_label :: "app \<Rightarrow> ustr \<times> app" where
  "fresh_label a = (label_of (ap_next_label a + 1), a\<lparr>ap_next_label := ap_next_label a + 1\<rparr>)"

section \<open>Identity and listener\<close>

definition ensure_idle :: "app \<Rightarrow> ustr + unit" where
  "ensure_idle a =
     guard (ap_peers a = [] \<and> ap_listener a = None)
       (lit ''close all sessions and stop the listener before switching profiles'')"

definition install_identity :: "ext \<Rightarrow> identity_keypair \<Rightarrow> app \<Rightarrow> ustr \<times> app" where
  "install_identity X identity a =
     (let f = fingerprint (identity_of X identity)
      in (f, a\<lparr>ap_net := Some identity, ap_net_rx := True, ap_own_fingerprint := Some f\<rparr>))"

definition profile_open ::
  "ext \<Rightarrow> 'k keyring \<Rightarrow> bool \<Rightarrow> identity_keypair \<Rightarrow> ustr \<Rightarrow> bool \<Rightarrow> app \<times> 'k \<Rightarrow> (ustr + ustr) \<times> app \<times> 'k" where
  "profile_open X K native fresh name create s =
     (case ensure_idle (fst s) of
        Inl e \<Rightarrow> (Inl e, s)
      | Inr _ \<Rightarrow>
          let (r, k) = load_identity K native fresh name create (snd s) in
          (case r of
             Inl e \<Rightarrow> (Inl e, fst s, k)
           | Inr identity \<Rightarrow> let (f, a) = install_identity X identity (fst s) in (Inr f, a, k)))"

definition profile_init ::
  "ext \<Rightarrow> 'k keyring \<Rightarrow> bool \<Rightarrow> identity_keypair \<Rightarrow> ustr \<Rightarrow> app \<times> 'k \<Rightarrow> (ustr + ustr) \<times> app \<times> 'k" where
  "profile_init X K native fresh name s = profile_open X K native fresh name True s"

definition profile_use ::
  "ext \<Rightarrow> 'k keyring \<Rightarrow> bool \<Rightarrow> ustr \<Rightarrow> app \<times> 'k \<Rightarrow> (ustr + ustr) \<times> app \<times> 'k" where
  "profile_use X K native name s = profile_open X K native [] name False s"

definition no_identity :: ustr where
  "no_identity = lit ''no identity loaded '' @ [8212] @ lit '' run `profile use <name>` first''"

text \<open>\<open>bound\<close> is the outcome of binding: an error text, or the local address.\<close>

definition app_start :: "string + ustr \<Rightarrow> app \<Rightarrow> (ustr + ustr) \<times> app" where
  "app_start bound a =
     (if ap_listener a \<noteq> None
      then (Inl (lit ''already listening '' @ [8212] @ lit '' run `stop` first''), a)
      else if ap_net a = None then (Inl no_identity, a)
      else (case bound of
              Inl e \<Rightarrow> (Inl (lit e), a)
            | Inr addr \<Rightarrow> (Inr addr, a\<lparr>ap_listener := Some addr\<rparr>)))"

definition app_stop :: "app \<Rightarrow> (ustr + ustr) \<times> app" where
  "app_stop a =
     (case ap_listener a of
        None \<Rightarrow> (Inl (lit ''not listening''), a)
      | Some addr \<Rightarrow> (Inr addr, a\<lparr>ap_listener := None\<rparr>))"

definition app_dial :: "ustr \<Rightarrow> app \<Rightarrow> (ustr + unit) \<times> app" where
  "app_dial addr a =
     (if ap_net a = None then (Inl no_identity, a) else (Inr (), a\<lparr>ap_dialed := ap_dialed a @ [addr]\<rparr>))"

section \<open>Sessions\<close>

definition send_text :: "ustr \<Rightarrow> ustr \<Rightarrow> app \<Rightarrow> (ustr + unit) \<times> app" where
  "send_text label t a =
     (if str_len t > MAX_CONTENT
      then (Inl (lit ''message too long (limit '' @ dec MAX_CONTENT @ lit '' bytes)''), a)
      else
        (case map_of (ap_peers a) label of
           None \<Rightarrow> (Inl (no_such_session label), a)
         | Some p \<Rightarrow>
             if pr_status p \<noteq> PsConnected then (Inl (not_connected label), a)
             else
               let shown = ingest (utf8 t); (r, h) = send_message (pr_handle p) (utf8 t); p = p\<lparr>pr_handle := h\<rparr> in
               (case r of
                  Inl Busy \<Rightarrow> (Inl (lit ''send queue is full; try again''), set_peer label p a)
                | Inl Gone \<Rightarrow> (Inl (lit ''session already closed''), set_peer label p a)
                | Inr _ \<Rightarrow> (Inr (), (set_peer label (add_note ALocal shown p) a)\<lparr>ap_touched := True\<rparr>))))"

text \<open>A command to a peer's handle, whose failure is reported as a closed session.\<close>

definition command_peer ::
  "ustr \<Rightarrow> (connection_handle \<Rightarrow> (handle_error + unit) \<times> connection_handle) \<Rightarrow> peer \<Rightarrow> app \<Rightarrow> (ustr + unit) \<times> app" where
  "command_peer label f p a =
     (let (r, h) = f (pr_handle p)
      in (map_err (\<lambda>_. lit ''session already closed'') r, set_peer label (p\<lparr>pr_handle := h\<rparr>) a))"

definition close_session :: "ustr \<Rightarrow> app \<Rightarrow> (ustr + unit) \<times> app" where
  "close_session label a =
     (case find_peer a label of
        Inl e \<Rightarrow> (Inl e, a)
      | Inr p \<Rightarrow> command_peer label (\<lambda>h. handle_close h RNormal) p a)"

definition request_rekey :: "ustr \<Rightarrow> app \<Rightarrow> (ustr + unit) \<times> app" where
  "request_rekey label a =
     (case find_peer a label of
        Inl e \<Rightarrow> (Inl e, a)
      | Inr p \<Rightarrow>
          if pr_status p \<noteq> PsConnected then (Inl (not_connected label), a)
          else command_peer label handle_request_rekey p a)"

definition use_target :: "ustr \<Rightarrow> app \<Rightarrow> (ustr + unit) \<times> app" where
  "use_target label a =
     (case find_peer a label of
        Inl e \<Rightarrow> (Inl e, a)
      | Inr p \<Rightarrow> (Inr (), a\<lparr>ap_default_target := Some label\<rparr>))"

text \<open>\<^verbatim>\<open>{:<n}\<close>.\<close>

definition pad :: "nat \<Rightarrow> ustr \<Rightarrow> ustr" where
  "pad n s = s @ replicate (n - length s) 32"

text \<open>The rows in the order of the labels; 9472 draws the rule below the heading.\<close>

definition peer_row :: "ustr \<times> peer \<Rightarrow> ustr" where
  "peer_row lp =
     (let (label, p) = lp in
      lit ''  '' @ pad 8 label @ lit '' '' @ pad 4 (if pr_outbound p then lit ''out'' else lit ''in'') @ lit '' '' @
      pad 21 (pr_remote p) @ lit ''  '' @ pad 12 (status_text (pr_status p)) @ lit ''  '' @ dec (pr_unread p) @ [10])"

definition peers_table :: "app \<Rightarrow> ustr" where
  "peers_table a =
     (if ap_peers a = [] then lit ''no active sessions''
      else lit ''  LABEL    DIR  REMOTE                 STATUS        NEW'' @ [10] @
        lit ''  '' @ replicate 7 9472 @ lit ''  '' @ replicate 3 9472 @ lit ''  '' @ replicate 21 9472 @ lit ''  '' @
        replicate 12 9472 @ lit ''  '' @ replicate 3 9472 @ [10] @
        concat (map peer_row (sort_key fst (ap_peers a))))"

definition session_info :: "ustr \<Rightarrow> app \<Rightarrow> ustr + ustr" where
  "session_info label a =
     rbind (find_peer a label) (\<lambda>p.
     Inr (lit ''label:       '' @ label @ [10] @
          lit ''remote addr: '' @ pr_remote p @ [10] @
          lit ''direction:   '' @ direction_text (pr_outbound p) @ [10] @
          lit ''status:      '' @ status_text (pr_status p) @ [10] @
          lit ''fingerprint: '' @ (case pr_fingerprint p of Some f \<Rightarrow> f | None \<Rightarrow> lit ''(pending)'')))"

definition fingerprint_of :: "ustr option \<Rightarrow> app \<Rightarrow> ustr + ustr" where
  "fingerprint_of label a =
     (case label of
        None \<Rightarrow> ok_or (ap_own_fingerprint a) (lit ''no identity loaded'')
      | Some l \<Rightarrow> rbind (find_peer a l) (\<lambda>p. ok_or (pr_fingerprint p) (lit ''handshake not complete yet'')))"

section \<open>SAS answers\<close>

definition answer_sas :: "bool \<Rightarrow> app \<Rightarrow> app" where
  "answer_sas yes a =
     (case ap_sas a of
        [] \<Rightarrow> a
      | pending # rest \<Rightarrow>
          let a = a\<lparr>ap_sas := rest\<rparr>;
              a = with_peer (ps_label pending)
                    (\<lambda>p. p\<lparr>pr_handle := snd (handle_answer_sas (pr_handle p) yes)\<rparr>) a;
              a = say (tagged (ps_label pending) (if yes then lit ''approved'' else lit ''rejected'')) a
          in announce_sas a)"

section \<open>Network events\<close>

text \<open>\<open>DATA_NOTICE\<close>: five seconds, in the nanoseconds of the clock.\<close>

definition DATA_NOTICE :: nat where "DATA_NOTICE = 5000000000"

definition on_closed :: "nat \<Rightarrow> ustr \<Rightarrow> close_cause \<Rightarrow> app \<Rightarrow> app" where
  "on_closed i label cause a =
     (let was_front = (case ap_sas a of [] \<Rightarrow> False | p # _ \<Rightarrow> ps_id p = i);
          a = a\<lparr>ap_sas := filter (\<lambda>p. ps_id p \<noteq> i) (ap_sas a)\<rparr>;
          remark = cause_text cause;
          is_open = (case ap_mode a of Chat view \<Rightarrow> cv_label view = label | Repl \<Rightarrow> False);
          a = with_peer label (\<lambda>p. add_note ASystem remark
                (p\<lparr>pr_status := PsClosed, pr_rekeying := False, pr_close_note := Some remark\<rparr>)) a;
          a = say (tagged label remark) a;
          a = (if ap_default_target a = Some label then a\<lparr>ap_default_target := None\<rparr> else a);
          a = (if \<not> is_open then forget label a else a)
      in if was_front then announce_sas a else a)"

definition on_sas_required :: "nat \<Rightarrow> nat \<Rightarrow> ustr \<Rightarrow> string list \<Rightarrow> peer_identity \<Rightarrow> app \<Rightarrow> app" where
  "on_sas_required now i label words identity a =
     (let claimed = fingerprint identity;
          (outbound, rejection_result, a) =
            (case map_of (ap_peers a) label of
               None \<Rightarrow> (False, None, a)
             | Some p \<Rightarrow>
                 let p = p\<lparr>pr_fingerprint := Some claimed\<rparr> in
                 if length (ap_sas a) \<ge> MAX_UNAUTHENTICATED_HANDSHAKES
                 then let (r, h) = handle_answer_sas (pr_handle p) False
                      in (pr_outbound p, Some r, set_peer label (p\<lparr>pr_handle := h\<rparr>) a)
                 else (pr_outbound p, None, set_peer label p a))
      in (case rejection_result of
            Some result \<Rightarrow>
              let notice = (case result of
                    Inr _ \<Rightarrow> lit ''SAS prompt rejected: too many verifications are already pending''
                  | Inl e \<Rightarrow> lit ''too many SAS verifications are pending, and rejection could not be sent: '' @ handle_error_text e)
              in say (tagged label notice) (with_peer label (add_note ASystem notice) a)
          | None \<Rightarrow>
              let was_empty = (ap_sas a = []);
                  a = a\<lparr>ap_touched := True,
                    ap_sas := ap_sas a @ [\<lparr>ps_id = i, ps_label = label, ps_words = words, ps_fingerprint = claimed,
                      ps_outbound = outbound, ps_since = now, ps_typed = []\<rparr>]\<rparr>
              in if was_empty then announce_sas a else a))"

definition on_message :: "ustr \<Rightarrow> bytes \<Rightarrow> app \<Rightarrow> app" where
  "on_message label content a =
     (let a = a\<lparr>ap_touched := True\<rparr>;
          t = ingest content;
          is_open = (case ap_mode a of Chat view \<Rightarrow> cv_label view = label | Repl \<Rightarrow> False);
          a = (if \<not> is_open then say_message label t a else a);
          a = with_peer label (\<lambda>p. add_note ARemote t (if \<not> is_open then p\<lparr>pr_unread := pr_unread p + 1\<rparr> else p)) a
      in (case ap_mode a of
            Chat view \<Rightarrow> if cv_label view = label then a\<lparr>ap_mode := Chat (view\<lparr>cv_scroll := 0\<rparr>)\<rparr> else a
          | Repl \<Rightarrow> a))"

definition on_data_rejected :: "nat \<Rightarrow> ustr \<Rightarrow> app \<Rightarrow> app" where
  "on_data_rejected now label a =
     (case map_of (ap_peers a) label of
        None \<Rightarrow> a
      | Some p \<Rightarrow>
          if (case pr_last_data_rejection_notice p of Some before \<Rightarrow> now - before < DATA_NOTICE | None \<Rightarrow> False) then a
          else
            say (tagged label (lit ''dropped an invalid or unauthenticated message''))
              (set_peer label (add_note ASystem (lit ''an invalid or unauthenticated message was dropped'')
                 (p\<lparr>pr_last_data_rejection_notice := Some now\<rparr>)) a))"

definition on_conn_event :: "nat \<Rightarrow> nat \<Rightarrow> conn_event \<Rightarrow> app \<Rightarrow> app" where
  "on_conn_event now i ev a =
     (case map_of (ap_by_id a) i of
        None \<Rightarrow> a
      | Some label \<Rightarrow>
          (case ev of
             CSasRequired words identity \<Rightarrow> on_sas_required now i label words identity a
           | CEstablished identity \<Rightarrow>
               let claimed = fingerprint identity in
               say (tagged label (lit ''connected'' @ [10] @ lit ''    peer fingerprint: '' @ claimed))
                 (with_peer label (\<lambda>p. add_note ASystem (lit ''secure session established'')
                    (p\<lparr>pr_status := PsConnected, pr_fingerprint := Some claimed\<rparr>)) a)
           | CMessage content \<Rightarrow> on_message label content a
           | CRekeyStarted \<Rightarrow> with_peer label (\<lambda>p. p\<lparr>pr_rekeying := True\<rparr>) a
           | CRekeyCompleted \<Rightarrow> with_peer label (\<lambda>p. p\<lparr>pr_rekeying := False\<rparr>) a
           | CRekeyFailed failure \<Rightarrow>
               let t = rekey_failure_text failure in
               say (tagged label t) (with_peer label (\<lambda>p. add_note ASystem t (p\<lparr>pr_rekeying := False\<rparr>)) a)
           | CDataRejected \<Rightarrow> on_data_rejected now label a
           | CSendRejected reason \<Rightarrow>
               let t = (case reason of
                          NotActive \<Rightarrow> lit ''message not sent: session not active''
                        | TooLarge \<Rightarrow> lit ''message not sent: too large'')
               in say (tagged label t) (with_peer label (add_note ASystem t) a)
           | CClosed cause \<Rightarrow> on_closed i label cause a))"

text \<open>\<open>h\<close> is the handle that an \<open>Opened\<close> event carries.\<close>

definition on_opened :: "nat \<Rightarrow> connection_handle \<Rightarrow> ustr \<Rightarrow> bool \<Rightarrow> app \<Rightarrow> app" where
  "on_opened i h remote outbound a =
     (let (label, a) = fresh_label a;
          a = a\<lparr>ap_by_id := AList.update i label (ap_by_id a)\<rparr>;
          a = set_peer label \<lparr>pr_id = i, pr_handle = h, pr_remote = remote, pr_outbound = outbound,
                pr_status = PsHandshaking, pr_fingerprint = None, pr_rekeying = False,
                pr_last_data_rejection_notice = None, pr_scrollback = scrollback_default, pr_unread = 0,
                pr_close_note = None\<rparr> a
      in say (if outbound then tagged label (lit ''connected to '' @ remote @ lit ''; handshaking'')
              else tagged label (lit ''inbound connection from '' @ remote @ lit ''; handshaking'')) a)"

definition on_net_event :: "nat \<Rightarrow> connection_handle \<Rightarrow> net_event \<Rightarrow> app \<Rightarrow> app" where
  "on_net_event now h ev a =
     (case ev of
        Opened i remote outbound \<Rightarrow> on_opened i h (lit remote) outbound a
      | DialFailed addr e \<Rightarrow> say (lit ''could not connect to '' @ lit addr @ lit '': '' @ lit e) a
      | ListenerStopped addr e \<Rightarrow>
          say (case e of
                 Some e \<Rightarrow> lit ''listener on '' @ lit addr @ lit '' stopped: '' @ lit e
               | None \<Rightarrow> lit ''listener on '' @ lit addr @ lit '' stopped'')
            (a\<lparr>ap_listener := None\<rparr>)
      | Conn i ev \<Rightarrow> on_conn_event now i ev a)"

section \<open>Shutting down\<close>

text \<open>\<open>evs\<close>: the events received until the deadline, or until the channel closes.\<close>

fun await_closed :: "net_event list \<Rightarrow> app \<Rightarrow> app" where
  "await_closed [] a = a"
| "await_closed (ev # evs) a =
     (if \<not> list_ex (\<lambda>(_, p). pr_status p \<noteq> PsClosed) (ap_peers a) then a
      else await_closed evs
        (case ev of
           Conn i (CClosed _) \<Rightarrow>
             (case map_of (ap_by_id a) i of
                Some label \<Rightarrow> with_peer label (\<lambda>p. p\<lparr>pr_status := PsClosed\<rparr>) a
              | None \<Rightarrow> a)
         | _ \<Rightarrow> a))"

definition close_all :: "app \<Rightarrow> app" where
  "close_all a =
     a\<lparr>ap_peers := map (\<lambda>(l, p). (l, p\<lparr>pr_handle := snd (handle_close (pr_handle p) RShutdown)\<rparr>)) (ap_peers a)\<rparr>"

definition shutdown :: "net_event list \<Rightarrow> app \<Rightarrow> app" where
  "shutdown evs a =
     (let a = snd (app_stop a);
          a = close_all a;
          a = (if ap_net_rx a then await_closed evs (a\<lparr>ap_net_rx := False\<rparr>) else a);
          a = a\<lparr>ap_peers := [], ap_by_id := [], ap_sas := [], ap_input := [], ap_mode := Repl\<rparr>
      in if ap_touched a then a\<lparr>ap_wiped := True\<rparr> else a)"

end
