(* ===== verification/App_Keys.thy ===== *)
theory App_Keys
  imports App
begin

text \<open>
  \<^verbatim>\<open>ruxmsg-cli/src/repl.rs\<close> and the key handling of \<^verbatim>\<open>ruxmsg-cli/src/tui.rs\<close>: what
  a key press does at the prompt, in a conversation and while a verification is pending, the
  dispatch of commands, and the main loop as a step relation. The terminal library's key codes are
  the datatype \<open>key_code\<close>; those the program does not name are \<open>CodeOther\<close>.
\<close>

datatype key_code = CodeEnter | CodeBackspace | CodeEsc | CodeUp | CodeDown | CodePageUp | CodePageDown
  | CodeHome | CodeEnd | CodeF nat | CodeChar nat | CodeOther

record key_event =
  ke_code :: key_code
  ke_control :: bool
  ke_alt :: bool

text \<open>
  What the commands need from outside: the primitives, the keyring and the platform, the seed a new
  profile draws, how binding an address and taking the terminal end, and the clock.
\<close>

record 'k shell =
  sh_ext :: ext
  sh_keyring :: "'k keyring"
  sh_native :: bool
  sh_fresh :: identity_keypair
  sh_bind :: "ustr \<Rightarrow> string + ustr"
  sh_unspecified :: "ustr \<Rightarrow> bool"
  sh_terminal :: "string + unit"
  sh_draw :: "string + unit"

section \<open>Entering and leaving a conversation\<close>

definition try_enter_chat :: "string + unit \<Rightarrow> string + unit \<Rightarrow> ustr \<Rightarrow> app \<Rightarrow> (ustr + unit) \<times> app" where
  "try_enter_chat terminal draw label a =
     (case find_peer a label of
        Inl e \<Rightarrow> (Inl e, a)
      | Inr p \<Rightarrow>
          if pr_status p \<noteq> PsConnected then (Inl (not_connected label), a)
          else
            (case terminal of
               Inl e \<Rightarrow> (Inl (lit e), a)
             | Inr _ \<Rightarrow>
                 let a = a\<lparr>ap_terminal := True, ap_default_target := Some label, ap_touched := True\<rparr>;
                     a = with_peer label (\<lambda>p. p\<lparr>pr_unread := 0\<rparr>) a
                 in (map_err lit draw,
                     a\<lparr>ap_mode := Chat \<lparr>cv_label = label, cv_input = [], cv_scroll = 0, cv_max_scroll = 0\<rparr>\<rparr>)))"

definition leave_chat :: "app \<Rightarrow> app" where
  "leave_chat a =
     (let old = ap_mode a; a = a\<lparr>ap_terminal := False, ap_mode := Repl\<rparr>;
          a = (case old of
                 Chat view \<Rightarrow>
                   if (case map_of (ap_peers a) (cv_label view) of Some p \<Rightarrow> pr_status p = PsClosed | None \<Rightarrow> False)
                   then forget (cv_label view) a else a
               | Repl \<Rightarrow> a)
      in announce_sas a)"

section \<open>Commands\<close>

definition say_error :: "ustr \<Rightarrow> app \<Rightarrow> app" where
  "say_error e a = say (lit ''error: '' @ e) a"

text \<open>\<open>match r { Ok(x) => say(ok(x)), Err(e) => say("error: {e}") }\<close>.\<close>

definition say_result :: "('b \<Rightarrow> ustr) \<Rightarrow> (ustr + 'b) \<times> app \<Rightarrow> app" where
  "say_result ok r = (case fst r of Inr x \<Rightarrow> say (ok x) (snd r) | Inl e \<Rightarrow> say_error e (snd r))"

fun join_lines :: "ustr list \<Rightarrow> ustr" where
  "join_lines [] = []"
| "join_lines [l] = l"
| "join_lines (l # ls) = l @ [10] @ join_lines ls"

definition help_text :: ustr where
  "help_text = join_lines (map lit
     [''RUXMSG COMMANDS'',
      '''',
      ''IDENTITY'',
      ''  profile init <name>       create a new identity profile'',
      ''  profile use <name>        load an existing identity profile'',
      ''  profile list              explain why profile enumeration is unavailable'',
      ''  fingerprint [label]       show own or peer identity fingerprint'',
      '''',
      ''NETWORK'',
      ''  start [--addr <addr>]     start accepting connections'',
      ''                            default: 127.0.0.1:4443 (loopback only)'',
      ''  stop                      stop accepting new connections'',
      ''  connect <addr>            connect to a peer'',
      '''',
      ''SESSIONS'',
      ''  peers                     list active sessions'',
      ''  use <label>               set the default chat target'',
      ''  session <label>           show session information'',
      ''  rekey <label>             start a rekey now'',
      ''  close <label>             close a session'',
      '''',
      ''MESSAGING'',
      ''  chat [label]              open the conversation view'',
      ''  msg <label> <text>        send a message directly'',
      '''',
      ''VERIFICATION'',
      ''  Every new connection shows a Short Authentication String. Compare the'',
      ''  three words with your peer over a separate channel, then type `yes` and'',
      ''  press Enter. Anything else rejects the connection.'',
      '''',
      ''TAILSCALE'',
      ''  tailscale status          show Tailscale state'',
      ''  tailscale up              bring Tailscale up'',
      ''  tailscale ip              print the Tailscale address'',
      '''',
      ''GENERAL'',
      ''  help                      show this guide'',
      ''  quit                      close sessions, wipe the screen and exit'',
      '''',
      ''CONVERSATION VIEW'',
      ''  Enter                     send message'',
      ''  Esc / Ctrl+C              return to the REPL'',
      ''  Ctrl+R                    rekey this session'',
      ''  Up/Down, PageUp/PageDown  scroll''])"

definition profile_list_text :: ustr where
  "profile_list_text =
     lit ''profile list isn'' @ [39] @ lit ''t supported: identity seeds persist in the OS keyring, '' @
     lit ''and OS keyrings do not provide a portable enumeration-by-prefix interface.'' @ [10] @
     lit ''Track profile names yourself and use `profile use <name>`.''"

definition execute_profile :: "'k shell \<Rightarrow> profile_command \<Rightarrow> app \<times> 'k \<Rightarrow> app \<times> 'k" where
  "execute_profile E c s =
     (case c of
        PInit name \<Rightarrow>
          let (r, a, k) = profile_init (sh_ext E) (sh_keyring E) (sh_native E) (sh_fresh E) name s
          in (say_result (\<lambda>f. lit ''created profile '' @ quoted name @ lit '', fingerprint '' @ f) (r, a), k)
      | PUse name \<Rightarrow>
          let (r, a, k) = profile_use (sh_ext E) (sh_keyring E) (sh_native E) name s
          in (say_result (\<lambda>f. lit ''loaded profile '' @ quoted name @ lit '', fingerprint '' @ f) (r, a), k)
      | PList \<Rightarrow> (say profile_list_text (fst s), snd s))"

definition start_listening :: "'k shell \<Rightarrow> ustr \<Rightarrow> app \<Rightarrow> app" where
  "start_listening E addr a =
     (case app_start (sh_bind E addr) a of
        (Inr bound, a) \<Rightarrow>
          let a = say (lit ''listening on '' @ bound) a in
          if sh_unspecified E bound
          then say (lit ''warning: listening on every interface; prefer loopback or a tailnet address'') a
          else a
      | (Inl e, a) \<Rightarrow> say_error e a)"

definition open_chat :: "'k shell \<Rightarrow> ustr option \<Rightarrow> app \<Rightarrow> app" where
  "open_chat E label a =
     (case (case label of Some l \<Rightarrow> Some l | None \<Rightarrow> ap_default_target a) of
        Some target \<Rightarrow>
          let (r, a) = try_enter_chat (sh_terminal E) (sh_draw E) target a
          in (case r of Inl e \<Rightarrow> say_error e a | Inr _ \<Rightarrow> a)
      | None \<Rightarrow> say (lit ''usage: chat <label>'' @ [10] @ lit ''or select a target first with `use <label>`'') a)"

text \<open>The Tailscale commands start another program and change nothing here; 8230 is the ellipsis.\<close>

definition dispatch_command :: "'k shell \<Rightarrow> command \<Rightarrow> app \<times> 'k \<Rightarrow> app \<times> 'k" where
  "dispatch_command E c s =
     (let (a, k) = s in
      case c of
        Profile p \<Rightarrow> execute_profile E p s
      | StartCmd addr \<Rightarrow> (start_listening E addr a, k)
      | StopCmd \<Rightarrow> (say_result (\<lambda>addr. lit ''stopped listening on '' @ addr) (app_stop a), k)
      | Connect addr \<Rightarrow> (say_result (\<lambda>_. lit ''dialing '' @ addr @ [8230]) (app_dial addr a), k)
      | Peers \<Rightarrow> (say (peers_table a) a, k)
      | Use label \<Rightarrow> (say_result (\<lambda>_. lit ''default target set to '' @ quoted label) (use_target label a), k)
      | Message label t \<Rightarrow>
          (case send_text label t a of (Inl e, a) \<Rightarrow> (say_error e a, k) | (Inr _, a) \<Rightarrow> (a, k))
      | CloseCmd label \<Rightarrow> (say_result (\<lambda>_. lit ''closing '' @ quoted label) (close_session label a), k)
      | RekeyCmd label \<Rightarrow> (say_result (\<lambda>_. lit ''rekeying '' @ quoted label) (request_rekey label a), k)
      | Fingerprint label \<Rightarrow> (say_result (\<lambda>f. f) (fingerprint_of label a, a), k)
      | SessionCmd label \<Rightarrow> (say_result (\<lambda>i. i) (session_info label a, a), k)
      | ChatCmd label \<Rightarrow> (open_chat E label a, k)
      | Tailscale t \<Rightarrow> (a, k)
      | Help \<Rightarrow> (say help_text a, k)
      | Quit \<Rightarrow> (a\<lparr>ap_quit := True\<rparr>, k))"

definition dispatch :: "'k shell \<Rightarrow> ustr \<Rightarrow> app \<times> 'k \<Rightarrow> app \<times> 'k" where
  "dispatch E line s =
     (case parse_command line of
        Inl e \<Rightarrow> (say_error e (fst s), snd s)
      | Inr c \<Rightarrow> dispatch_command E c s)"

section \<open>Keys while a verification is pending\<close>

definition type_sas :: "(ustr \<Rightarrow> ustr) \<Rightarrow> app \<Rightarrow> app" where
  "type_sas f a =
     (case ap_sas a of
        [] \<Rightarrow> a
      | p # rest \<Rightarrow> a\<lparr>ap_sas := p\<lparr>ps_typed := f (ps_typed p)\<rparr> # rest\<rparr>)"

definition push_sas :: "nat \<Rightarrow> ustr \<Rightarrow> ustr" where
  "push_sas c typed = (if str_len typed + len_utf8 c \<le> 16 then typed @ [c] else typed)"

definition front_approves :: "app \<Rightarrow> bool" where
  "front_approves a = (case ap_sas a of [] \<Rightarrow> False | p # _ \<Rightarrow> is_approval (ps_typed p))"

definition repl_sas_key :: "key_event \<Rightarrow> app \<Rightarrow> app" where
  "repl_sas_key key a =
     (case ke_code key of
        CodeEnter \<Rightarrow> answer_sas (front_approves a) a
      | CodeEsc \<Rightarrow> answer_sas False a
      | CodeBackspace \<Rightarrow> type_sas butlast a
      | CodeChar c \<Rightarrow>
          if \<not> ke_control key \<and> \<not> ke_alt key \<and> \<not> is_control c then type_sas (push_sas c) a else a
      | _ \<Rightarrow> a)"

definition chat_sas_key :: "key_event \<Rightarrow> app \<Rightarrow> app" where
  "chat_sas_key key a =
     (case ke_code key of
        CodeEnter \<Rightarrow> answer_sas (front_approves a) a
      | CodeEsc \<Rightarrow> answer_sas False a
      | CodeBackspace \<Rightarrow> type_sas butlast a
      | CodeChar c \<Rightarrow>
          if c = 99 \<and> ke_control key then answer_sas False a
          else if \<not> ke_control key \<and> \<not> ke_alt key \<and> \<not> is_control c then type_sas (push_sas c) a else a
      | _ \<Rightarrow> a)"

section \<open>Keys at the prompt\<close>

definition repl_key :: "'k shell \<Rightarrow> key_event \<Rightarrow> app \<times> 'k \<Rightarrow> app \<times> 'k" where
  "repl_key E key s =
     (let (a, k) = s in
      if ke_control key \<and> (ke_code key = CodeChar 99 \<or> ke_code key = CodeChar 100) then (a\<lparr>ap_quit := True\<rparr>, k)
      else if ap_sas a \<noteq> [] then (repl_sas_key key a, k)
      else
        (case ke_code key of
           CodeEnter \<Rightarrow>
             let line = trim (ap_input a); a = a\<lparr>ap_input := []\<rparr> in
             if line \<noteq> [] then dispatch E line (a, k) else (a, k)
         | CodeBackspace \<Rightarrow> (a\<lparr>ap_input := butlast (ap_input a)\<rparr>, k)
         | CodeChar c \<Rightarrow>
             if \<not> ke_control key \<and> \<not> ke_alt key \<and> \<not> is_control c \<and> str_len (ap_input a) + len_utf8 c \<le> MAX_CONTENT
             then (a\<lparr>ap_input := ap_input a @ [c]\<rparr>, k) else (a, k)
         | _ \<Rightarrow> (a, k)))"

section \<open>Keys in a conversation\<close>

definition key_matches :: "key_spec \<Rightarrow> key_event \<Rightarrow> bool" where
  "key_matches spec key \<longleftrightarrow>
     (case k_key spec of
        Esc \<Rightarrow> ke_code key = CodeEsc
      | KUp \<Rightarrow> ke_code key = CodeUp
      | KDown \<Rightarrow> ke_code key = CodeDown
      | PageUp \<Rightarrow> ke_code key = CodePageUp
      | PageDown \<Rightarrow> ke_code key = CodePageDown
      | KHome \<Rightarrow> ke_code key = CodeHome
      | KEnd \<Rightarrow> ke_code key = CodeEnd
      | Function n \<Rightarrow> ke_code key = CodeF n
      | Letter l \<Rightarrow>
          (case ke_code key of
             CodeChar typed \<Rightarrow> to_ascii_lowercase typed = to_ascii_lowercase l
           | _ \<Rightarrow> False)) \<and>
     ke_control key = k_ctrl spec \<and> ke_alt key = k_alt spec"

definition with_view :: "(chat_view \<Rightarrow> chat_view) \<Rightarrow> app \<Rightarrow> app" where
  "with_view f a = (case ap_mode a of Chat view \<Rightarrow> a\<lparr>ap_mode := Chat (f view)\<rparr> | Repl \<Rightarrow> a)"

definition scroll_by :: "nat \<Rightarrow> chat_view \<Rightarrow> chat_view" where
  "scroll_by n view = view\<lparr>cv_scroll := min (cv_scroll view + n) (cv_max_scroll view)\<rparr>"

definition scroll_back :: "nat \<Rightarrow> chat_view \<Rightarrow> chat_view" where
  "scroll_back n view = view\<lparr>cv_scroll := cv_scroll view - n\<rparr>"

text \<open>The line that Enter sends; a message that is not sent leaves a note.\<close>

definition chat_send :: "chat_view \<Rightarrow> app \<Rightarrow> app" where
  "chat_send view a =
     (let t = trim (cv_input view);
          a = with_view (\<lambda>v. v\<lparr>cv_input := []\<rparr>) a;
          a = (if t \<noteq> []
               then (case send_text (cv_label view) t a of
                       (Inl e, a) \<Rightarrow> with_peer (cv_label view) (add_note ASystem (lit ''not sent: '' @ e)) a
                     | (Inr _, a) \<Rightarrow> a)
               else a)
      in with_view (\<lambda>v. v\<lparr>cv_scroll := 0\<rparr>) a)"

definition chat_rekey :: "chat_view \<Rightarrow> app \<Rightarrow> app" where
  "chat_rekey view a =
     (case request_rekey (cv_label view) a of
        (Inl e, a) \<Rightarrow> with_peer (cv_label view) (add_note ASystem (lit ''rekey: '' @ e)) a
      | (Inr _, a) \<Rightarrow> a)"

definition chat_key :: "key_event \<Rightarrow> app \<Rightarrow> app" where
  "chat_key key a =
     (if ap_sas a \<noteq> [] then chat_sas_key key a
      else if key_matches (km_leave (ap_keys a)) key \<or> (ke_control key \<and> ke_code key = CodeChar 99) then leave_chat a
      else
        (case ap_mode a of
           Repl \<Rightarrow> a
         | Chat view \<Rightarrow>
             if ke_code key = CodeEnter then chat_send view a
             else if key_matches (km_rekey (ap_keys a)) key then chat_rekey view a
             else if ke_code key = CodeBackspace then with_view (\<lambda>v. v\<lparr>cv_input := butlast (cv_input v)\<rparr>) a
             else
               (case (case ke_code key of
                        CodeChar c \<Rightarrow>
                          if \<not> ke_control key \<and> \<not> ke_alt key \<and> \<not> is_control c \<and>
                             str_len (cv_input view) + len_utf8 c \<le> MAX_CONTENT
                          then Some c else None
                      | _ \<Rightarrow> None) of
                  Some c \<Rightarrow> with_view (\<lambda>v. v\<lparr>cv_input := cv_input v @ [c]\<rparr>) a
                | None \<Rightarrow>
                    if key_matches (km_scroll_up (ap_keys a)) key then with_view (scroll_by 1) a
                    else if key_matches (km_scroll_down (ap_keys a)) key then with_view (scroll_back 1) a
                    else if key_matches (km_page_up (ap_keys a)) key then with_view (scroll_by 10) a
                    else if key_matches (km_page_down (ap_keys a)) key then with_view (scroll_back 10) a
                    else a)))"

definition on_key :: "'k shell \<Rightarrow> key_event \<Rightarrow> app \<times> 'k \<Rightarrow> app \<times> 'k" where
  "on_key E key s =
     (case ap_mode (fst s) of
        Chat _ \<Rightarrow> (chat_key key (fst s), snd s)
      | Repl \<Rightarrow> repl_key E key s)"

section \<open>Wrapping\<close>

text \<open>
  \<^verbatim>\<open>wrap\<close>: the rows of one line, with the part of the current row and its columns; \<open>w\<close> is the
  column width of a character, of the unicode-width crate.
\<close>

fun wrap_line :: "(nat \<Rightarrow> nat) \<Rightarrow> nat \<Rightarrow> ustr \<Rightarrow> ustr \<Rightarrow> nat \<Rightarrow> ustr list" where
  "wrap_line w width [] row used = [row]"
| "wrap_line w width (c # s) row used =
     (if used + w c > width \<and> row \<noteq> [] then row # wrap_line w width s [c] (w c)
      else wrap_line w width s (row @ [c]) (used + w c))"

definition wrap :: "(nat \<Rightarrow> nat) \<Rightarrow> ustr \<Rightarrow> nat \<Rightarrow> ustr list" where
  "wrap w t width = concat (map (\<lambda>l. wrap_line w (max width 1) l [] 0) (split_lines t))"

section \<open>The main loop\<close>

text \<open>
  A turn of the loop: a key, a network event, a redraw that sets how far a conversation can scroll,
  or the connection tasks taking commands from the queues. The network opens a connection under a
  new number and sends nothing for one after its \<open>Closed\<close>.
\<close>

fun event_expected :: "app \<Rightarrow> net_event \<Rightarrow> bool" where
  "event_expected a (Opened i remote outbound) = (i \<notin> fst ` set (ap_by_id a))"
| "event_expected a (Conn i ev) =
     (\<forall>l p. map_of (ap_by_id a) i = Some l \<longrightarrow> map_of (ap_peers a) l = Some p \<longrightarrow> pr_status p \<noteq> PsClosed)"
| "event_expected a _ = True"

definition drained :: "(connection_handle \<Rightarrow> connection_handle) \<Rightarrow> app \<Rightarrow> app" where
  "drained f a = a\<lparr>ap_peers := map (\<lambda>(l, p). (l, p\<lparr>pr_handle := f (pr_handle p)\<rparr>)) (ap_peers a)\<rparr>"

text \<open>What the tasks may do to a handle: take from the front of its queues, or end.\<close>

definition drains :: "(connection_handle \<Rightarrow> connection_handle) \<Rightarrow> bool" where
  "drains f \<longleftrightarrow> (\<forall>h. hd_id (f h) = hd_id h \<and> (\<exists>k. hd_control (f h) = drop k (hd_control h)) \<and>
     (\<exists>k. hd_messages (f h) = drop k (hd_messages h)))"

inductive app_step :: "'k shell \<Rightarrow> app \<times> 'k \<Rightarrow> app \<times> 'k \<Rightarrow> bool" for E where
  pressed: "\<not> ap_quit (fst s) \<Longrightarrow> app_step E s (on_key E key s)"
| received: "\<not> ap_quit a \<Longrightarrow> event_expected a ev \<Longrightarrow> hd_id h = i \<Longrightarrow> hd_control h = [] \<Longrightarrow> (\<forall>remote outbound j. ev = Opened j remote outbound \<longrightarrow> j = i) \<Longrightarrow>
    app_step E (a, k) (on_net_event now h ev a, k)"
| redrawn: "\<not> ap_quit a \<Longrightarrow> app_step E (a, k) (with_view (\<lambda>v. v\<lparr>cv_max_scroll := m\<rparr>) a, k)"
| taken: "drains f \<Longrightarrow> app_step E (a, k) (drained f a, k)"

definition app_run :: "'k shell \<Rightarrow> app \<times> 'k \<Rightarrow> app \<times> 'k \<Rightarrow> bool" where
  "app_run E = (app_step E)\<^sup>*\<^sup>*"

end
