(* ===== verification/App_Inv.thy ===== *)
theory App_Inv
  imports App_Keys
begin

text \<open>
  The invariant of the application: the peer table and the index by connection number agree, every
  peer's handle is its own, every label was given once, every pending verification belongs to a
  connection that is open, at most four are pending, the conversation shown exists, closed peers
  remain only while their conversation is open, and what peers and the user wrote is kept in a form
  that is safe to display. Every turn of the main loop preserves it.
\<close>

section \<open>The invariant\<close>

definition displayable :: "scrollback \<Rightarrow> bool" where
  "displayable s \<longleftrightarrow>
     (\<forall>e \<in> set (sb_entries s). e_author e \<noteq> ASystem \<longrightarrow> (\<forall>c \<in> set (e_text e). \<not> unsafe_char c \<and> c \<noteq> 9))"

definition peer_ok :: "peer \<Rightarrow> bool" where
  "peer_ok p \<longleftrightarrow> hd_id (pr_handle p) = pr_id p \<and> scrollback_ok (pr_scrollback p) \<and> displayable (pr_scrollback p)"

definition index_ok :: "(ustr \<rightharpoonup> peer) \<Rightarrow> (nat \<rightharpoonup> ustr) \<Rightarrow> bool" where
  "index_ok P I \<longleftrightarrow> (\<forall>i l. I i = Some l \<longleftrightarrow> (\<exists>p. P l = Some p \<and> pr_id p = i))"

definition peers_ok :: "(ustr \<rightharpoonup> peer) \<Rightarrow> nat \<Rightarrow> bool" where
  "peers_ok P n \<longleftrightarrow> (\<forall>l p. P l = Some p \<longrightarrow> peer_ok p \<and> (\<exists>k. 1 \<le> k \<and> k \<le> n \<and> l = label_of k))"

definition prompts_ok :: "(ustr \<rightharpoonup> peer) \<Rightarrow> pending_sas list \<Rightarrow> bool" where
  "prompts_ok P qs \<longleftrightarrow> length qs \<le> MAX_UNAUTHENTICATED_HANDSHAKES \<and>
     (\<forall>q \<in> set qs. str_len (ps_typed q) \<le> 16 \<and>
        (\<exists>p. P (ps_label q) = Some p \<and> pr_id p = ps_id q \<and> pr_status p \<noteq> PsClosed))"

definition view_ok :: "(ustr \<rightharpoonup> peer) \<Rightarrow> mode \<Rightarrow> bool" where
  "view_ok P m \<longleftrightarrow>
     (\<forall>v. m = Chat v \<longrightarrow> P (cv_label v) \<noteq> None \<and> str_len (cv_input v) \<le> MAX_CONTENT) \<and>
     (\<forall>l p. P l = Some p \<longrightarrow> pr_status p = PsClosed \<longrightarrow> (\<exists>v. m = Chat v \<and> cv_label v = l))"

definition target_ok :: "(ustr \<rightharpoonup> peer) \<Rightarrow> ustr option \<Rightarrow> bool" where
  "target_ok P t \<longleftrightarrow> (\<forall>l. t = Some l \<longrightarrow> (\<exists>p. P l = Some p \<and> pr_status p \<noteq> PsClosed))"

definition app_ok :: "app \<Rightarrow> bool" where
  "app_ok a \<longleftrightarrow> distinct (map fst (ap_peers a)) \<and> distinct (map fst (ap_by_id a)) \<and>
     index_ok (map_of (ap_peers a)) (map_of (ap_by_id a)) \<and>
     peers_ok (map_of (ap_peers a)) (ap_next_label a) \<and>
     prompts_ok (map_of (ap_peers a)) (ap_sas a) \<and>
     view_ok (map_of (ap_peers a)) (ap_mode a) \<and>
     target_ok (map_of (ap_peers a)) (ap_default_target a) \<and>
     str_len (ap_input a) \<le> MAX_CONTENT \<and> (ap_terminal a \<longleftrightarrow> ap_mode a \<noteq> Repl)"

lemma app_okD:
  assumes "app_ok a"
  shows "index_ok (map_of (ap_peers a)) (map_of (ap_by_id a))"
    and "peers_ok (map_of (ap_peers a)) (ap_next_label a)"
    and "prompts_ok (map_of (ap_peers a)) (ap_sas a)"
    and "view_ok (map_of (ap_peers a)) (ap_mode a)"
    and "target_ok (map_of (ap_peers a)) (ap_default_target a)"
  using assms by (simp_all add: app_ok_def)

lemma app_new_ok: "app_ok (app_new config)"
  by (simp add: app_ok_def app_new_def index_ok_def peers_ok_def prompts_ok_def view_ok_def target_ok_def)

text \<open>What the invariant reads of a state.\<close>

definition same_core :: "app \<Rightarrow> app \<Rightarrow> bool" where
  "same_core a b \<longleftrightarrow> ap_peers a = ap_peers b \<and> ap_by_id a = ap_by_id b \<and> ap_next_label a = ap_next_label b \<and>
     ap_sas a = ap_sas b \<and> ap_mode a = ap_mode b \<and> ap_default_target a = ap_default_target b \<and>
     ap_input a = ap_input b \<and> ap_terminal a = ap_terminal b"

lemma same_core_ok: "same_core a b \<Longrightarrow> app_ok a \<longleftrightarrow> app_ok b"
  by (simp add: app_ok_def same_core_def)

lemma same_core_refl [simp]: "same_core a a"
  by (simp add: same_core_def)

lemma same_core_trans: "same_core a b \<Longrightarrow> same_core b c \<Longrightarrow> same_core a c"
  by (simp add: same_core_def)

lemma say_core [simp]: "same_core (say t a) a"
  by (simp add: same_core_def say_def split: mode.split)

lemma say_message_core [simp]: "same_core (say_message l t a) a"
  by (simp add: same_core_def say_message_def split: mode.split list.split)

lemma announce_sas_core [simp]: "same_core (announce_sas a) a"
  by (simp add: announce_sas_def split: list.split)

lemma say_error_core [simp]: "same_core (say_error e a) a"
  by (simp add: say_error_def)

lemma say_result_core [simp]: "same_core (say_result ok r) (snd r)"
  by (simp add: say_result_def split: sum.split)

lemma say_ok [simp]: "app_ok (say t a) \<longleftrightarrow> app_ok a"
  "app_ok (say_message l t a) \<longleftrightarrow> app_ok a" "app_ok (announce_sas a) \<longleftrightarrow> app_ok a"
  "app_ok (say_error e a) \<longleftrightarrow> app_ok a" "app_ok (say_result ok r) \<longleftrightarrow> app_ok (snd r)"
  by (rule same_core_ok, simp)+

lemma app_core_fields [simp]:
  "ap_peers (say t a) = ap_peers a" "ap_by_id (say t a) = ap_by_id a" "ap_sas (say t a) = ap_sas a"
  "ap_mode (say t a) = ap_mode a" "ap_default_target (say t a) = ap_default_target a"
  "ap_peers (say_message l t a) = ap_peers a" "ap_sas (say_message l t a) = ap_sas a"
  "ap_mode (say_message l t a) = ap_mode a"
  "ap_peers (announce_sas a) = ap_peers a" "ap_sas (announce_sas a) = ap_sas a"
  "ap_peers (say_error e a) = ap_peers a" "ap_sas (say_error e a) = ap_sas a"
  "ap_peers (say_result ok r) = ap_peers (snd r)" "ap_sas (say_result ok r) = ap_sas (snd r)"
  using say_core[of t a] say_message_core[of l t a] announce_sas_core[of a] say_error_core[of e a] say_result_core[of ok r]
  by (simp_all add: same_core_def)

text \<open>Nothing that is said ends the loop.\<close>

lemma quit_fields [simp]:
  "ap_quit (say t a) = ap_quit a" "ap_quit (announce_sas a) = ap_quit a"
  "ap_mode (announce_sas a) = ap_mode a" "ap_by_id (announce_sas a) = ap_by_id a"
  using announce_sas_core[of a] by (simp_all add: same_core_def say_def announce_sas_def split: mode.split list.split)

section \<open>Updating a peer\<close>

lemma map_of_set_peer [simp]: "map_of (ap_peers (set_peer l p a)) = (map_of (ap_peers a))(l \<mapsto> p)"
  by (simp add: set_peer_def update_conv')

lemma set_peer_fields [simp]:
  "ap_by_id (set_peer l p a) = ap_by_id a" "ap_next_label (set_peer l p a) = ap_next_label a"
  "ap_sas (set_peer l p a) = ap_sas a" "ap_mode (set_peer l p a) = ap_mode a"
  "ap_default_target (set_peer l p a) = ap_default_target a" "ap_input (set_peer l p a) = ap_input a"
  "ap_terminal (set_peer l p a) = ap_terminal a" "ap_keys (set_peer l p a) = ap_keys a"
  by (simp_all add: set_peer_def)

lemma set_peer_distinct: "distinct (map fst (ap_peers a)) \<Longrightarrow> distinct (map fst (ap_peers (set_peer l p a)))"
  by (simp add: set_peer_def distinct_update)

text \<open>A change that keeps the peer's number and does not close it.\<close>

lemma index_ok_update: "index_ok P I \<Longrightarrow> P l = Some p \<Longrightarrow> pr_id p' = pr_id p \<Longrightarrow> index_ok (P(l \<mapsto> p')) I"
  unfolding index_ok_def by simp

lemma peers_ok_update: "peers_ok P n \<Longrightarrow> P l = Some p \<Longrightarrow> peer_ok p' \<Longrightarrow> peers_ok (P(l \<mapsto> p')) n"
  unfolding peers_ok_def by simp

lemma prompts_ok_update:
  assumes "prompts_ok P qs" "P l = Some p" "pr_id p' = pr_id p" "pr_status p \<noteq> PsClosed \<longrightarrow> pr_status p' \<noteq> PsClosed"
  shows "prompts_ok (P(l \<mapsto> p')) qs"
  using assms unfolding prompts_ok_def by fastforce

lemma view_ok_update:
  assumes "view_ok P m" "P l = Some p" "pr_status p' = PsClosed \<longrightarrow> pr_status p = PsClosed"
  shows "view_ok (P(l \<mapsto> p')) m"
  using assms unfolding view_ok_def by (simp split: if_split)

lemma target_ok_update:
  assumes "target_ok P t" "P l = Some p" "pr_status p \<noteq> PsClosed \<longrightarrow> pr_status p' \<noteq> PsClosed"
  shows "target_ok (P(l \<mapsto> p')) t"
  using assms unfolding target_ok_def by fastforce

lemma set_peer_ok:
  assumes "app_ok a" "map_of (ap_peers a) l = Some p" "pr_id p' = pr_id p" "peer_ok p'"
    "pr_status p' = PsClosed \<longleftrightarrow> pr_status p = PsClosed"
  shows "app_ok (set_peer l p' a)"
  using assms index_ok_update peers_ok_update prompts_ok_update view_ok_update target_ok_update
  unfolding app_ok_def map_of_set_peer set_peer_fields by (simp add: set_peer_distinct)

lemma app_ok_peer: "app_ok a \<Longrightarrow> map_of (ap_peers a) l = Some p \<Longrightarrow> peer_ok p"
  unfolding app_ok_def peers_ok_def by blast

lemma with_peer_ok:
  assumes "app_ok a"
    "\<And>p. map_of (ap_peers a) l = Some p \<Longrightarrow> peer_ok p \<Longrightarrow>
      pr_id (f p) = pr_id p \<and> peer_ok (f p) \<and> (pr_status (f p) = PsClosed \<longleftrightarrow> pr_status p = PsClosed)"
  shows "app_ok (with_peer l f a)"
proof (cases "map_of (ap_peers a) l")
  case (Some p)
  with assms(1) have "peer_ok p" by (rule app_ok_peer)
  with assms Some show ?thesis by (simp add: with_peer_def set_peer_ok)
qed (simp add: with_peer_def assms(1))

lemma with_peer_fields [simp]:
  "ap_by_id (with_peer l f a) = ap_by_id a" "ap_next_label (with_peer l f a) = ap_next_label a"
  "ap_sas (with_peer l f a) = ap_sas a" "ap_mode (with_peer l f a) = ap_mode a"
  "ap_default_target (with_peer l f a) = ap_default_target a" "ap_input (with_peer l f a) = ap_input a"
  "ap_terminal (with_peer l f a) = ap_terminal a" "ap_keys (with_peer l f a) = ap_keys a"
  by (simp_all add: with_peer_def split: option.split)

section \<open>Notes in a conversation\<close>

lemma push_displayable:
  assumes "displayable s" "scrollback_ok s" "who = ASystem \<or> (\<forall>c \<in> set t. \<not> unsafe_char c \<and> c \<noteq> 9)"
  shows "displayable (push who t s)"
proof -
  from push_spec[OF assms(2), of who t] obtain k where
    k: "sb_entries (push who t s) = drop k (sb_entries s @ [\<lparr>e_author = who, e_text = shorten t\<rparr>])" by metis
  have "\<not> unsafe_char 8230" by (simp add: unsafe_char_def is_control_def)
  with assms(3) set_shorten[of t] have "who = ASystem \<or> (\<forall>c \<in> set (shorten t). \<not> unsafe_char c \<and> c \<noteq> 9)"
    by (metis insertE subset_code(1) numeral_eq_iff semiring_norm(88) num.distinct(3) rel_simps(48) subsetD)
  moreover have "set (sb_entries (push who t s)) \<subseteq> insert \<lparr>e_author = who, e_text = shorten t\<rparr> (set (sb_entries s))"
    unfolding k using set_drop_subset by fastforce
  ultimately show ?thesis using assms(1) unfolding displayable_def by (metis entry.select_convs insertE subsetD)
qed

lemma add_note_fields [simp]:
  "pr_id (add_note who t p) = pr_id p" "pr_handle (add_note who t p) = pr_handle p"
  "pr_status (add_note who t p) = pr_status p"
  by (simp_all add: add_note_def)

lemma add_note_ok:
  "peer_ok p \<Longrightarrow> who = ASystem \<or> (\<forall>c \<in> set t. \<not> unsafe_char c \<and> c \<noteq> 9) \<Longrightarrow> peer_ok (add_note who t p)"
  by (simp add: peer_ok_def add_note_def push_ok push_displayable)

lemma peer_ok_fields:
  "pr_id p' = pr_id p \<Longrightarrow> pr_handle p' = pr_handle p \<Longrightarrow> pr_scrollback p' = pr_scrollback p \<Longrightarrow>
   peer_ok p' \<longleftrightarrow> peer_ok p"
  by (simp add: peer_ok_def)

lemma add_system_note_ok: "peer_ok p \<Longrightarrow> peer_ok (add_note ASystem t p)"
  by (simp add: add_note_ok)

lemma add_ingested_ok: "peer_ok p \<Longrightarrow> peer_ok (add_note who (ingest b) p)"
  using ingest_safe by (intro add_note_ok) auto

lemma system_note_app_ok: "app_ok a \<Longrightarrow> app_ok (with_peer l (add_note ASystem t) a)"
  by (intro with_peer_ok) (simp_all add: add_system_note_ok)

section \<open>Handles\<close>

lemma handle_ops_id [simp]:
  "hd_id (snd (send_message h b)) = hd_id h" "hd_id (snd (send_control h c)) = hd_id h"
  "hd_id (snd (handle_close h r)) = hd_id h" "hd_id (snd (handle_request_rekey h)) = hd_id h"
  "hd_id (snd (handle_answer_sas h y)) = hd_id h"
  by (simp_all add: send_message_def send_control_def handle_close_def handle_request_rekey_def handle_answer_sas_def
      split: prod.split)

lemma set_handle_ok:
  assumes "app_ok a" "map_of (ap_peers a) l = Some p" "hd_id h = hd_id (pr_handle p)"
  shows "app_ok (set_peer l (p\<lparr>pr_handle := h\<rparr>) a)"
  using assms app_ok_peer[OF assms(1,2)] by (intro set_peer_ok[OF assms(1,2)]) (simp_all add: peer_ok_def)

lemma command_peer_ok:
  assumes "app_ok a" "map_of (ap_peers a) l = Some p" "\<And>h. hd_id (snd (f h)) = hd_id h"
  shows "app_ok (snd (command_peer l f p a))"
  using assms(3)[of "pr_handle p"] set_handle_ok[OF assms(1,2)]
  by (cases "f (pr_handle p)") (simp add: command_peer_def)

section \<open>Sessions\<close>

lemma find_peer_Inr: "find_peer a l = Inr p \<longleftrightarrow> map_of (ap_peers a) l = Some p"
  by (simp add: find_peer_def ok_or_Inr_iff)

lemma touched_ok [simp]: "app_ok (a\<lparr>ap_touched := b\<rparr>) \<longleftrightarrow> app_ok a"
  by (rule same_core_ok) (simp add: same_core_def)

lemma send_text_ok:
  assumes "app_ok a"
  shows "app_ok (snd (send_text l t a))"
proof (cases "map_of (ap_peers a) l")
  case None
  then show ?thesis using assms by (simp add: send_text_def)
next
  case (Some p)
  obtain r h where send: "send_message (pr_handle p) (utf8 t) = (r, h)" by fastforce
  then have "hd_id h = hd_id (pr_handle p)" using handle_ops_id(1) by (metis snd_conv)
  note ok = set_handle_ok[OF assms Some this]
  have "peer_ok (p\<lparr>pr_handle := h\<rparr>)"
    using app_ok_peer[OF assms Some] \<open>hd_id h = hd_id (pr_handle p)\<close> by (simp add: peer_ok_def)
  then have "app_ok (set_peer l (add_note ALocal (ingest (utf8 t)) (p\<lparr>pr_handle := h\<rparr>)) a)"
    by (intro set_peer_ok[OF assms Some]) (simp_all add: add_ingested_ok)
  with ok show ?thesis using assms
    by (simp add: send_text_def Some send Let_def split: sum.split handle_error.split)
qed

lemma close_session_ok: "app_ok a \<Longrightarrow> app_ok (snd (close_session l a))"
  by (simp add: close_session_def find_peer_Inr command_peer_ok split: sum.split)

lemma request_rekey_ok: "app_ok a \<Longrightarrow> app_ok (snd (request_rekey l a))"
  by (simp add: request_rekey_def find_peer_Inr command_peer_ok split: sum.split)

lemma app_ok_not_closed:
  assumes "app_ok a" "ap_mode a = Repl" "map_of (ap_peers a) l = Some p"
  shows "pr_status p \<noteq> PsClosed"
  using assms unfolding app_ok_def view_ok_def by auto

lemma use_target_ok:
  assumes "app_ok a" "ap_mode a = Repl"
  shows "app_ok (snd (use_target l a))"
proof (cases "find_peer a l")
  case (Inr p)
  then have "map_of (ap_peers a) l = Some p" by (simp add: find_peer_Inr)
  moreover from this app_ok_not_closed[OF assms] have "pr_status p \<noteq> PsClosed" by simp
  ultimately have "target_ok (map_of (ap_peers a)) (Some l)" unfolding target_ok_def by blast
  with Inr assms(1) show ?thesis by (simp add: use_target_def app_ok_def)
qed (use assms in \<open>simp add: use_target_def\<close>)

section \<open>Verification answers\<close>

lemma prompts_ok_tail: "prompts_ok P (q # qs) \<Longrightarrow> prompts_ok P qs"
  by (simp add: prompts_ok_def)

lemma set_sas_ok: "app_ok a \<Longrightarrow> prompts_ok (map_of (ap_peers a)) qs \<Longrightarrow> app_ok (a\<lparr>ap_sas := qs\<rparr>)"
  by (simp add: app_ok_def)

lemma answer_handle_ok:
  "app_ok a \<Longrightarrow> app_ok (with_peer l (\<lambda>p. p\<lparr>pr_handle := snd (handle_answer_sas (pr_handle p) y)\<rparr>) a)"
  by (intro with_peer_ok) (simp_all add: peer_ok_def)

lemma answer_sas_ok:
  assumes "app_ok a"
  shows "app_ok (answer_sas y a)"
proof (cases "ap_sas a")
  case (Cons q qs)
  then have "app_ok (a\<lparr>ap_sas := qs\<rparr>)"
    using assms prompts_ok_tail by (intro set_sas_ok) (auto simp: app_ok_def)
  then show ?thesis by (simp add: answer_sas_def Cons answer_handle_ok)
qed (simp add: answer_sas_def assms)

lemma type_sas_ok:
  assumes "app_ok a" "\<And>t. str_len t \<le> 16 \<Longrightarrow> str_len (f t) \<le> 16"
  shows "app_ok (type_sas f a)"
proof (cases "ap_sas a")
  case (Cons q qs)
  with assms app_okD(3)[OF assms(1)] have "prompts_ok (map_of (ap_peers a)) (q\<lparr>ps_typed := f (ps_typed q)\<rparr> # qs)"
    unfolding prompts_ok_def by simp
  with assms(1) Cons show ?thesis by (simp add: type_sas_def set_sas_ok)
qed (simp add: type_sas_def assms(1))

lemma str_len_butlast: "str_len (butlast t) \<le> str_len t"
proof (cases "t = []")
  case False
  then have "str_len t = str_len (butlast t) + len_utf8 (last t)"
    by (metis append_butlast_last_id str_len_append str_len_Cons str_len_Nil add.right_neutral)
  then show ?thesis by simp
qed simp

lemma str_len_push_sas: "str_len t \<le> 16 \<Longrightarrow> str_len (push_sas c t) \<le> 16"
  by (simp add: push_sas_def)

lemma butlast_bound: "str_len t \<le> n \<Longrightarrow> str_len (butlast t) \<le> n"
  using str_len_butlast[of t] by simp

lemma repl_sas_key_ok: "app_ok a \<Longrightarrow> app_ok (repl_sas_key key a)"
  by (simp add: repl_sas_key_def answer_sas_ok type_sas_ok str_len_push_sas butlast_bound split: key_code.split)

lemma chat_sas_key_ok: "app_ok a \<Longrightarrow> app_ok (chat_sas_key key a)"
  by (simp add: chat_sas_key_def answer_sas_ok type_sas_ok str_len_push_sas butlast_bound split: key_code.split)

section \<open>Forgetting a session\<close>

lemma index_label_unique:
  "index_ok P I \<Longrightarrow> P l = Some p \<Longrightarrow> P l' = Some p' \<Longrightarrow> pr_id p = pr_id p' \<Longrightarrow> l = l'"
  unfolding index_ok_def by (metis option.inject)

text \<open>A peer that nothing refers to any more.\<close>

lemma forget_ok:
  assumes d: "distinct (map fst (ap_peers a))" "distinct (map fst (ap_by_id a))"
    and I: "index_ok (map_of (ap_peers a)) (map_of (ap_by_id a))"
    and P: "peers_ok (map_of (ap_peers a)) (ap_next_label a)"
    and p: "map_of (ap_peers a) l = Some p"
    and q: "prompts_ok (map_of (ap_peers a)) (ap_sas a)" "\<forall>q \<in> set (ap_sas a). ps_label q \<noteq> l"
    and v: "view_ok ((map_of (ap_peers a))(l := None)) (ap_mode a)"
    and t: "target_ok (map_of (ap_peers a)) (ap_default_target a)" "ap_default_target a \<noteq> Some l"
    and i: "str_len (ap_input a) \<le> MAX_CONTENT" "ap_terminal a \<longleftrightarrow> ap_mode a \<noteq> Repl"
  shows "app_ok (forget l a)"
proof -
  let ?P = "(map_of (ap_peers a))(l := None)" and ?I = "(map_of (ap_by_id a))(pr_id p := None)"
  have "index_ok ?P ?I"
    unfolding index_ok_def
  proof (intro allI)
    fix i l'
    show "?I i = Some l' \<longleftrightarrow> (\<exists>q. ?P l' = Some q \<and> pr_id q = i)"
    proof (cases "i = pr_id p")
      case True
      then show ?thesis using index_label_unique[OF I p] by (metis fun_upd_apply option.distinct(1))
    next
      case False
      then have "?I i = Some l' \<longleftrightarrow> (\<exists>q. map_of (ap_peers a) l' = Some q \<and> pr_id q = i)"
        using I unfolding index_ok_def by simp
      then show ?thesis using False p by (cases "l' = l") simp_all
    qed
  qed
  moreover have "peers_ok ?P (ap_next_label a)" using P unfolding peers_ok_def by simp
  moreover have "prompts_ok ?P (ap_sas a)" using q unfolding prompts_ok_def by simp
  moreover have "target_ok ?P (ap_default_target a)" using t unfolding target_ok_def by auto
  ultimately show ?thesis using d v i
    by (simp add: forget_def p app_ok_def delete_conv' distinct_delete)
qed

section \<open>The end of a connection\<close>

definition closing :: "nat \<Rightarrow> ustr \<Rightarrow> close_cause \<Rightarrow> app \<Rightarrow> app" where
  "closing i l cause a =
     (let a = with_peer l (\<lambda>p. add_note ASystem (cause_text cause)
                (p\<lparr>pr_status := PsClosed, pr_rekeying := False, pr_close_note := Some (cause_text cause)\<rparr>))
                (a\<lparr>ap_sas := filter (\<lambda>p. ps_id p \<noteq> i) (ap_sas a)\<rparr>);
          a = say (tagged l (cause_text cause)) a
      in if ap_default_target a = Some l then a\<lparr>ap_default_target := None\<rparr> else a)"

definition open_label :: "app \<Rightarrow> ustr \<Rightarrow> bool" where
  "open_label a l \<longleftrightarrow> (case ap_mode a of Chat view \<Rightarrow> cv_label view = l | Repl \<Rightarrow> False)"

lemma on_closed_closing:
  "\<exists>front. on_closed i l cause a =
     (let b = closing i l cause a; b = (if \<not> open_label a l then forget l b else b) in if front then announce_sas b else b)"
  by (auto simp: on_closed_def closing_def open_label_def Let_def)

lemma on_closed_ok:
  assumes ok: "app_ok a" and p: "map_of (ap_peers a) l = Some p" "pr_id p = i"
  shows "app_ok (on_closed i l cause a)"
proof -
  define p' where "p' = add_note ASystem (cause_text cause)
    (p\<lparr>pr_status := PsClosed, pr_rekeying := False, pr_close_note := Some (cause_text cause)\<rparr>)"
  define b where "b = closing i l cause a"
  have p': "pr_id p' = i" "pr_status p' = PsClosed" "peer_ok p'"
  proof -
    have "peer_ok (p\<lparr>pr_status := PsClosed, pr_rekeying := False, pr_close_note := Some (cause_text cause)\<rparr>)"
      using app_ok_peer[OF ok p(1)] by (simp add: peer_ok_def)
    then show "peer_ok p'" unfolding p'_def by (rule add_system_note_ok)
  qed (simp_all add: p'_def p)
  have b: "ap_peers b = ap_peers (set_peer l p' a)" "ap_by_id b = ap_by_id a" "ap_next_label b = ap_next_label a"
    "ap_sas b = filter (\<lambda>q. ps_id q \<noteq> i) (ap_sas a)" "ap_mode b = ap_mode a" "ap_input b = ap_input a"
    "ap_terminal b = ap_terminal a"
    "ap_default_target b = (if ap_default_target a = Some l then None else ap_default_target a)"
    using p by (simp_all add: b_def closing_def Let_def with_peer_def p'_def set_peer_def say_def split: mode.split)
  let ?P = "map_of (ap_peers a)" and ?P' = "(map_of (ap_peers a))(l \<mapsto> p')"
  have map: "map_of (ap_peers b) = ?P'" by (simp add: b)
  have index: "index_ok ?P (map_of (ap_by_id a))" using ok by (simp add: app_ok_def)
  have labels: "\<forall>q \<in> set (ap_sas b). ps_label q \<noteq> l"
  proof
    fix q assume "q \<in> set (ap_sas b)"
    then have q: "q \<in> set (ap_sas a)" "ps_id q \<noteq> i" by (simp_all add: b)
    then obtain p2 where "?P (ps_label q) = Some p2" "pr_id p2 = ps_id q"
      using app_okD(3)[OF ok] unfolding prompts_ok_def by blast
    then show "ps_label q \<noteq> l" using p q by auto
  qed
  have core: "distinct (map fst (ap_peers b))" "distinct (map fst (ap_by_id b))"
    "index_ok (map_of (ap_peers b)) (map_of (ap_by_id b))" "peers_ok (map_of (ap_peers b)) (ap_next_label b)"
    "str_len (ap_input b) \<le> MAX_CONTENT" "ap_terminal b \<longleftrightarrow> ap_mode b \<noteq> Repl"
    using ok p p' unfolding map b(2-7) app_ok_def
    by (simp_all add: b(1) set_peer_distinct index_ok_update peers_ok_update)
  have prompts: "prompts_ok (map_of (ap_peers b)) (ap_sas b)"
  proof -
    have "prompts_ok ?P (ap_sas a)" using ok by (simp add: app_ok_def)
    then have "length (ap_sas b) \<le> MAX_UNAUTHENTICATED_HANDSHAKES"
      unfolding b prompts_ok_def by (meson length_filter_le le_trans)
    with \<open>prompts_ok ?P (ap_sas a)\<close> labels show ?thesis unfolding map by (simp add: prompts_ok_def b)
  qed
  have target: "target_ok (map_of (ap_peers b)) (ap_default_target b)" "ap_default_target b \<noteq> Some l"
    using ok unfolding map b(8) app_ok_def target_ok_def by auto
  have "app_ok (if \<not> open_label a l then forget l b else b)"
  proof (cases "open_label a l")
    case True
    then obtain v where v: "ap_mode a = Chat v" "cv_label v = l" by (auto simp: open_label_def split: mode.splits)
    have "view_ok ?P (ap_mode a)" using ok by (simp add: app_ok_def)
    then have "view_ok (map_of (ap_peers b)) (ap_mode b)"
      unfolding map b(5) view_ok_def using v by auto
    with True core prompts target show ?thesis by (simp add: app_ok_def)
  next
    case False
    have "view_ok ?P (ap_mode a)" using ok by (simp add: app_ok_def)
    moreover have "\<forall>v. ap_mode a = Chat v \<longrightarrow> cv_label v \<noteq> l" using False by (auto simp: open_label_def)
    ultimately have "view_ok ((map_of (ap_peers b))(l := None)) (ap_mode b)"
      unfolding map b(5) view_ok_def by auto
    then have "app_ok (forget l b)"
      using core prompts target labels by (intro forget_ok[where p = p']) (simp_all add: map)
    with False show ?thesis by simp
  qed
  with on_closed_closing[of i l cause a] show ?thesis by (auto simp: b_def Let_def)
qed

end
