(* ===== verification/App_Turns.thy ===== *)
theory App_Turns
  imports App_Inv
begin

text \<open>
  Every turn of the main loop preserves the application's invariant: the network events, the keys at
  the prompt and in a conversation, and the commands.
\<close>

section \<open>Network events\<close>

lemma label_of_inject: "label_of m = label_of n \<longleftrightarrow> m = n"
  by (simp add: label_of_def dec_inject)

lemma on_opened_ok:
  assumes ok: "app_ok a" and fresh: "i \<notin> fst ` set (ap_by_id a)" and h: "hd_id h = i"
  shows "app_ok (on_opened i h remote outbound a)"
proof -
  let ?n = "ap_next_label a + 1"
  let ?l = "label_of ?n"
  define p where "p = \<lparr>pr_id = i, pr_handle = h, pr_remote = remote, pr_outbound = outbound,
    pr_status = PsHandshaking, pr_fingerprint = None, pr_rekeying = False, pr_last_data_rejection_notice = None,
    pr_scrollback = scrollback_default, pr_unread = 0, pr_close_note = None\<rparr>"
  define b where "b = set_peer ?l p ((a\<lparr>ap_next_label := ?n\<rparr>)
    \<lparr>ap_by_id := AList.update i ?l (ap_by_id (a\<lparr>ap_next_label := ?n\<rparr>))\<rparr>)"
  let ?P = "map_of (ap_peers a)" and ?I = "map_of (ap_by_id a)"
  have new: "?P ?l = None"
  proof (cases "?P ?l")
    case (Some q)
    then obtain k where "k \<le> ap_next_label a" "?l = label_of k"
      using app_okD(2)[OF ok] unfolding peers_ok_def by blast
    then show ?thesis by (simp add: label_of_inject)
  qed simp
  have unused: "?I i = None" using fresh by (simp add: map_of_eq_None_iff)
  have p: "pr_id p = i" "pr_status p = PsHandshaking" "peer_ok p"
    by (simp_all add: p_def peer_ok_def h scrollback_default_ok displayable_def) (simp add: scrollback_default_def)
  have b: "map_of (ap_peers b) = ?P(?l \<mapsto> p)" "map_of (ap_by_id b) = ?I(i \<mapsto> ?l)" "ap_next_label b = ?n"
    "ap_sas b = ap_sas a" "ap_mode b = ap_mode a" "ap_default_target b = ap_default_target a"
    "ap_input b = ap_input a" "ap_terminal b = ap_terminal a"
    by (simp_all add: b_def set_peer_def update_conv')
  have "index_ok (?P(?l \<mapsto> p)) (?I(i \<mapsto> ?l))"
    unfolding index_ok_def
  proof (intro allI)
    fix j l
    have old: "?I j = Some l \<longleftrightarrow> (\<exists>q. ?P l = Some q \<and> pr_id q = j)" for j l
      using app_okD(1)[OF ok] unfolding index_ok_def by blast
    show "(?I(i \<mapsto> ?l)) j = Some l \<longleftrightarrow> (\<exists>q. (?P(?l \<mapsto> p)) l = Some q \<and> pr_id q = j)"
    proof (cases "l = ?l")
      case True
      with old[of j ?l] new p show ?thesis by auto
    next
      case False
      with old[of j l] old[of i l] unused show ?thesis by auto
    qed
  qed
  moreover have "peers_ok (?P(?l \<mapsto> p)) ?n"
    unfolding peers_ok_def
  proof (intro allI impI)
    fix l q assume q: "(?P(?l \<mapsto> p)) l = Some q"
    show "peer_ok q \<and> (\<exists>k. 1 \<le> k \<and> k \<le> ?n \<and> l = label_of k)"
    proof (cases "l = ?l")
      case True
      with q p show ?thesis by auto
    next
      case False
      with q have "?P l = Some q" by simp
      then obtain k where "peer_ok q" "1 \<le> k" "k \<le> ap_next_label a" "l = label_of k"
        using app_okD(2)[OF ok] unfolding peers_ok_def by blast
      then show ?thesis by auto
    qed
  qed
  moreover have "prompts_ok (?P(?l \<mapsto> p)) (ap_sas a)"
    using app_okD(3)[OF ok] new unfolding prompts_ok_def by (metis fun_upd_apply option.distinct(1))
  moreover have "view_ok (?P(?l \<mapsto> p)) (ap_mode a)"
    using app_okD(4)[OF ok] new p(2) unfolding view_ok_def by auto
  moreover have "target_ok (?P(?l \<mapsto> p)) (ap_default_target a)"
    using app_okD(5)[OF ok] new unfolding target_ok_def by (metis fun_upd_apply option.distinct(1))
  ultimately have "app_ok b"
    using ok unfolding app_ok_def b
    by (simp add: b_def set_peer_def distinct_update)
  moreover have "\<exists>t. on_opened i h remote outbound a = say t b"
    unfolding on_opened_def fresh_label_def Let_def prod.case p_def b_def by (rule exI, rule refl)
  ultimately show ?thesis by auto
qed

lemma on_sas_required_ok:
  assumes ok: "app_ok a" and p: "map_of (ap_peers a) l = Some p" "pr_id p = i" "pr_status p \<noteq> PsClosed"
  shows "app_ok (on_sas_required now i l words identity a)"
proof -
  define p1 where "p1 = p\<lparr>pr_fingerprint := Some (fingerprint identity)\<rparr>"
  have p1: "pr_id p1 = pr_id p" "peer_ok p1" "pr_status p1 = pr_status p"
    using app_ok_peer[OF ok p(1)] by (simp_all add: p1_def peer_ok_def)
  have ok1: "app_ok (set_peer l p1 a)" using p1 by (intro set_peer_ok[OF ok p(1)]) simp_all
  show ?thesis
  proof (cases "length (ap_sas a) \<ge> MAX_UNAUTHENTICATED_HANDSHAKES")
    case True
    have same: "pr_handle p1 = pr_handle p" by (simp add: p1_def)
    obtain r h where rh: "handle_answer_sas (pr_handle p) False = (r, h)" by fastforce
    then have "hd_id h = hd_id (pr_handle p1)" unfolding same using handle_ops_id(5) by (metis snd_conv)
    then have "app_ok (set_peer l (p1\<lparr>pr_handle := h\<rparr>) a)"
      using p1 by (intro set_peer_ok[OF ok p(1)]) (simp_all add: peer_ok_def)
    with True show ?thesis
      by (simp add: on_sas_required_def p rh system_note_app_ok Let_def flip: p1_def)
  next
    case False
    let ?q = "\<lparr>ps_id = i, ps_label = l, ps_words = words, ps_fingerprint = fingerprint identity,
      ps_outbound = pr_outbound p, ps_since = now, ps_typed = []\<rparr>"
    have "prompts_ok (map_of (ap_peers (set_peer l p1 a))) (ap_sas (set_peer l p1 a) @ [?q])"
      using app_okD(3)[OF ok1] False p p1 unfolding prompts_ok_def by auto
    then have "app_ok ((set_peer l p1 a)\<lparr>ap_sas := ap_sas (set_peer l p1 a) @ [?q]\<rparr>)"
      by (rule set_sas_ok[OF ok1])
    then have "app_ok ((set_peer l p1 a)\<lparr>ap_touched := True, ap_sas := ap_sas (set_peer l p1 a) @ [?q]\<rparr>)"
      by (simp add: app_ok_def)
    with False show ?thesis
      by (cases "ap_sas a") (simp_all add: on_sas_required_def p Let_def flip: p1_def)
  qed
qed

lemma remote_note_ok:
  assumes "app_ok b"
  shows "app_ok (with_peer l (\<lambda>p. add_note ARemote (ingest content) (if c then p\<lparr>pr_unread := pr_unread p + 1\<rparr> else p)) b)"
proof (rule with_peer_ok[OF assms])
  fix p assume "peer_ok p"
  then have "peer_ok (if c then p\<lparr>pr_unread := pr_unread p + 1\<rparr> else p)" by (simp add: peer_ok_def)
  then show "pr_id (add_note ARemote (ingest content) (if c then p\<lparr>pr_unread := pr_unread p + 1\<rparr> else p)) = pr_id p \<and>
      peer_ok (add_note ARemote (ingest content) (if c then p\<lparr>pr_unread := pr_unread p + 1\<rparr> else p)) \<and>
      (pr_status (add_note ARemote (ingest content) (if c then p\<lparr>pr_unread := pr_unread p + 1\<rparr> else p)) = PsClosed \<longleftrightarrow>
       pr_status p = PsClosed)"
    by (simp add: add_ingested_ok)
qed

lemma set_view_ok:
  assumes ok: "app_ok b" "ap_mode b = Chat v" and v': "cv_label v' = cv_label v" "str_len (cv_input v') \<le> MAX_CONTENT"
  shows "app_ok (b\<lparr>ap_mode := Chat v'\<rparr>)"
proof -
  have "view_ok (map_of (ap_peers b)) (Chat v')"
    using app_okD(4)[OF ok(1)] ok(2) v' unfolding view_ok_def by simp
  with ok show ?thesis by (simp add: app_ok_def)
qed

lemma view_input_bound: "app_ok b \<Longrightarrow> ap_mode b = Chat v \<Longrightarrow> str_len (cv_input v) \<le> MAX_CONTENT"
  using app_okD(4) unfolding view_ok_def by blast

lemma with_view_ok:
  assumes "app_ok b"
    "\<And>v. ap_mode b = Chat v \<Longrightarrow> str_len (cv_input v) \<le> MAX_CONTENT \<Longrightarrow>
      cv_label (f v) = cv_label v \<and> str_len (cv_input (f v)) \<le> MAX_CONTENT"
  shows "app_ok (with_view f b)"
proof (cases "ap_mode b")
  case (Chat v)
  with assms view_input_bound[OF assms(1) Chat] show ?thesis by (simp add: with_view_def set_view_ok)
qed (simp add: with_view_def assms(1))

lemma on_message_ok:
  assumes "app_ok a"
  shows "app_ok (on_message l content a)"
proof -
  define shown where "shown \<longleftrightarrow> open_label (a\<lparr>ap_touched := True\<rparr>) l"
  define b where "b = (if \<not> shown then say_message l (ingest content) (a\<lparr>ap_touched := True\<rparr>) else a\<lparr>ap_touched := True\<rparr>)"
  define c where "c = with_peer l (\<lambda>p. add_note ARemote (ingest content)
    (if \<not> shown then p\<lparr>pr_unread := pr_unread p + 1\<rparr> else p)) b"
  have "app_ok b" using assms by (simp add: b_def)
  then have c: "app_ok c" unfolding c_def by (rule remote_note_ok)
  have "on_message l content a =
      (case ap_mode c of Chat view \<Rightarrow> if cv_label view = l then c\<lparr>ap_mode := Chat (view\<lparr>cv_scroll := 0\<rparr>)\<rparr> else c | Repl \<Rightarrow> c)"
    unfolding on_message_def Let_def c_def b_def shown_def open_label_def by (rule refl)
  with c view_input_bound[OF c] set_view_ok[OF c] show ?thesis by (simp split: mode.split)
qed

lemma on_data_rejected_ok:
  assumes "app_ok a"
  shows "app_ok (on_data_rejected now l a)"
proof (cases "map_of (ap_peers a) l")
  case (Some p)
  let ?p = "add_note ASystem (lit ''an invalid or unauthenticated message was dropped'')
    (p\<lparr>pr_last_data_rejection_notice := Some now\<rparr>)"
  have "peer_ok (p\<lparr>pr_last_data_rejection_notice := Some now\<rparr>)"
    using app_ok_peer[OF assms Some] by (simp add: peer_ok_def)
  then have "app_ok (set_peer l ?p a)"
    by (intro set_peer_ok[OF assms Some]) (simp_all add: add_system_note_ok)
  with assms show ?thesis by (simp add: on_data_rejected_def Some)
qed (simp add: on_data_rejected_def assms)

lemma flag_note_ok:
  assumes "app_ok a"
    "\<And>p. pr_id (g p) = pr_id p \<and> pr_handle (g p) = pr_handle p \<and> pr_scrollback (g p) = pr_scrollback p \<and>
      pr_status (g p) = pr_status p"
  shows "app_ok (with_peer l (\<lambda>p. add_note ASystem t (g p)) a)" "app_ok (with_peer l g a)"
  using assms(2) by (auto intro!: with_peer_ok[OF assms(1)] add_system_note_ok simp: peer_ok_def)

lemma on_established_ok:
  assumes "app_ok a" "map_of (ap_peers a) l = Some p" "pr_status p \<noteq> PsClosed"
  shows "app_ok (with_peer l (\<lambda>p. add_note ASystem t (p\<lparr>pr_status := PsConnected, pr_fingerprint := f\<rparr>)) a)"
proof (rule with_peer_ok[OF assms(1)])
  fix q assume q: "map_of (ap_peers a) l = Some q" "peer_ok q"
  then have "peer_ok (q\<lparr>pr_status := PsConnected, pr_fingerprint := f\<rparr>)" by (simp add: peer_ok_def)
  with q assms show "pr_id (add_note ASystem t (q\<lparr>pr_status := PsConnected, pr_fingerprint := f\<rparr>)) = pr_id q \<and>
      peer_ok (add_note ASystem t (q\<lparr>pr_status := PsConnected, pr_fingerprint := f\<rparr>)) \<and>
      (pr_status (add_note ASystem t (q\<lparr>pr_status := PsConnected, pr_fingerprint := f\<rparr>)) = PsClosed \<longleftrightarrow> pr_status q = PsClosed)"
    by (simp add: add_system_note_ok)
qed

lemma on_conn_event_ok:
  assumes ok: "app_ok a" and expected: "event_expected a (Conn i ev)"
  shows "app_ok (on_conn_event now i ev a)"
proof (cases "map_of (ap_by_id a) i")
  case (Some l)
  then obtain p where p: "map_of (ap_peers a) l = Some p" "pr_id p = i"
    using app_okD(1)[OF ok] unfolding index_ok_def by blast
  with expected Some have open_peer: "pr_status p \<noteq> PsClosed" by simp
  show ?thesis
    using on_sas_required_ok[OF ok p open_peer] on_established_ok[OF ok p(1) open_peer] on_message_ok[OF ok]
      on_data_rejected_ok[OF ok] on_closed_ok[OF ok p] ok
    by (cases ev) (simp_all add: on_conn_event_def Some flag_note_ok system_note_app_ok Let_def)
qed (simp add: on_conn_event_def ok)

lemma on_net_event_ok:
  assumes ok: "app_ok a" and expected: "event_expected a ev" and h: "\<And>i r out. ev = Opened i r out \<Longrightarrow> hd_id h = i"
  shows "app_ok (on_net_event now h ev a)"
proof (cases ev)
  case (Opened i r out)
  with expected h show ?thesis by (simp add: on_net_event_def on_opened_ok[OF ok])
next
  case (ListenerStopped addr e)
  have "same_core (a\<lparr>ap_listener := None\<rparr>) a" by (simp add: same_core_def)
  with ok ListenerStopped show ?thesis by (simp add: on_net_event_def same_core_ok)
next
  case (Conn i ce)
  with expected show ?thesis by (simp only: on_net_event_def net_event.case on_conn_event_ok[OF ok])
qed (simp add: on_net_event_def ok)

section \<open>Keys\<close>

lemma try_enter_chat_ok:
  assumes ok: "app_ok a" and repl: "ap_mode a = Repl"
  shows "app_ok (snd (try_enter_chat terminal draw l a))"
proof (cases "map_of (ap_peers a) l")
  case None
  then show ?thesis using ok by (simp add: try_enter_chat_def find_peer_def)
next
  case (Some p)
  let ?p = "p\<lparr>pr_unread := 0\<rparr>"
  let ?P = "map_of (ap_peers a)"
  show ?thesis
  proof (cases "pr_status p = PsConnected \<and> (\<exists>u. terminal = Inr u)")
    case False
    then show ?thesis using ok Some
      by (cases terminal) (auto simp: try_enter_chat_def find_peer_def)
  next
    case True
    have p: "pr_id ?p = pr_id p" "peer_ok ?p" "pr_status ?p = pr_status p" "pr_status p \<noteq> PsClosed"
      using app_ok_peer[OF ok Some] True by (simp_all add: peer_ok_def)
    define b where "b = (set_peer l ?p (a\<lparr>ap_terminal := True, ap_default_target := Some l, ap_touched := True\<rparr>))
      \<lparr>ap_mode := Chat \<lparr>cv_label = l, cv_input = [], cv_scroll = 0, cv_max_scroll = 0\<rparr>\<rparr>"
    have b: "map_of (ap_peers b) = ?P(l \<mapsto> ?p)" "ap_by_id b = ap_by_id a" "ap_next_label b = ap_next_label a"
      "ap_sas b = ap_sas a" "ap_default_target b = Some l" "ap_input b = ap_input a" "ap_terminal b"
      "ap_mode b = Chat \<lparr>cv_label = l, cv_input = [], cv_scroll = 0, cv_max_scroll = 0\<rparr>"
      by (simp_all add: b_def set_peer_def update_conv')
    have "index_ok (?P(l \<mapsto> ?p)) (map_of (ap_by_id a))" by (rule index_ok_update[OF app_okD(1)[OF ok] Some p(1)])
    moreover have "peers_ok (?P(l \<mapsto> ?p)) (ap_next_label a)" by (rule peers_ok_update[OF app_okD(2)[OF ok] Some p(2)])
    moreover have "prompts_ok (?P(l \<mapsto> ?p)) (ap_sas a)"
      using p by (intro prompts_ok_update[OF app_okD(3)[OF ok] Some]) simp_all
    moreover have "view_ok (?P(l \<mapsto> ?p)) (ap_mode b)"
      using app_ok_not_closed[OF ok repl] p(3,4) by (auto simp: view_ok_def b(8))
    moreover have "target_ok (?P(l \<mapsto> ?p)) (Some l)"
      using p unfolding target_ok_def by auto
    ultimately have "app_ok b"
      using ok unfolding app_ok_def b(1-7) by (simp add: b_def set_peer_def distinct_update)
    moreover have "snd (try_enter_chat terminal draw l a) = b"
      using True Some by (auto simp: try_enter_chat_def find_peer_def with_peer_def Let_def b_def)
    ultimately show ?thesis by simp
  qed
qed

lemma leave_chat_ok:
  assumes ok: "app_ok a"
  shows "app_ok (leave_chat a)"
proof -
  define b where "b = a\<lparr>ap_terminal := False, ap_mode := Repl\<rparr>"
  have core: "distinct (map fst (ap_peers b))" "distinct (map fst (ap_by_id b))"
    "index_ok (map_of (ap_peers b)) (map_of (ap_by_id b))" "peers_ok (map_of (ap_peers b)) (ap_next_label b)"
    "prompts_ok (map_of (ap_peers b)) (ap_sas b)" "target_ok (map_of (ap_peers b)) (ap_default_target b)"
    "str_len (ap_input b) \<le> MAX_CONTENT" "ap_terminal b \<longleftrightarrow> ap_mode b \<noteq> Repl"
    using ok by (simp_all add: b_def app_ok_def)
  have view: "view_ok (map_of (ap_peers b)) (ap_mode a)" using app_okD(4)[OF ok] by (simp add: b_def)
  show ?thesis
  proof (cases "\<exists>v p. ap_mode a = Chat v \<and> map_of (ap_peers b) (cv_label v) = Some p \<and> pr_status p = PsClosed")
    case True
    then obtain v p where v: "ap_mode a = Chat v" and p: "map_of (ap_peers b) (cv_label v) = Some p" "pr_status p = PsClosed"
      by blast
    have "\<forall>q \<in> set (ap_sas b). ps_label q \<noteq> cv_label v"
      using core(5) p unfolding prompts_ok_def by force
    moreover have "ap_default_target b \<noteq> Some (cv_label v)" using core(6) p unfolding target_ok_def by force
    moreover have "view_ok ((map_of (ap_peers b))(cv_label v := None)) (ap_mode b)"
      using view v unfolding view_ok_def by (auto simp: b_def)
    ultimately have "app_ok (forget (cv_label v) b)" using core p by (intro forget_ok) simp_all
    then show ?thesis using v p by (simp add: leave_chat_def Let_def flip: b_def)
  next
    case False
    have "pr_status p \<noteq> PsClosed" if "map_of (ap_peers b) l = Some p" for l p
      using view False that unfolding view_ok_def by blast
    then have "view_ok (map_of (ap_peers b)) (ap_mode b)"
      unfolding view_ok_def by (simp add: b_def)
    then have "app_ok b" using core by (simp add: app_ok_def)
    with False show ?thesis
      by (auto simp: leave_chat_def Let_def simp flip: b_def split: mode.split option.split)
  qed
qed

lemma send_text_mode [simp]: "ap_mode (snd (send_text l t a)) = ap_mode a"
  by (simp add: send_text_def Let_def split: option.split sum.split prod.split handle_error.split)

lemma chat_send_ok:
  assumes ok: "app_ok a"
  shows "app_ok (chat_send view a)"
proof -
  let ?t = "trim (cv_input view)" and ?l = "cv_label view"
  define b where "b = with_view (\<lambda>v. v\<lparr>cv_input := []\<rparr>) a"
  have b: "app_ok b" unfolding b_def by (rule with_view_ok[OF ok]) simp
  define c where "c = (if ?t \<noteq> [] then (case send_text ?l ?t b of
      (Inl e, a) \<Rightarrow> with_peer ?l (add_note ASystem (lit ''not sent: '' @ e)) a | (Inr _, a) \<Rightarrow> a) else b)"
  have "app_ok (snd (send_text ?l ?t b))" using b by (rule send_text_ok)
  then have "app_ok c" using b unfolding c_def
    by (cases "send_text ?l ?t b"; cases "fst (send_text ?l ?t b)") (simp_all add: system_note_app_ok)
  then have "app_ok (with_view (\<lambda>v. v\<lparr>cv_scroll := 0\<rparr>) c)" by (rule with_view_ok) simp
  then show ?thesis unfolding chat_send_def Let_def c_def b_def .
qed

lemma chat_rekey_ok:
  assumes "app_ok a"
  shows "app_ok (chat_rekey view a)"
proof -
  have "app_ok (snd (request_rekey (cv_label view) a))" using assms by (rule request_rekey_ok)
  then show ?thesis
    by (cases "request_rekey (cv_label view) a"; cases "fst (request_rekey (cv_label view) a)")
      (simp_all add: chat_rekey_def system_note_app_ok)
qed

lemma chat_key_ok:
  assumes ok: "app_ok a"
  shows "app_ok (chat_key key a)"
proof (cases "ap_mode a")
  case (Chat v)
  have typing: "app_ok (with_view (\<lambda>v. v\<lparr>cv_input := cv_input v @ [c]\<rparr>) a)"
    if "str_len (cv_input v) + len_utf8 c \<le> MAX_CONTENT" for c
    by (rule with_view_ok[OF ok]) (use Chat that in simp)
  have simple: "app_ok (with_view (\<lambda>v. v\<lparr>cv_input := butlast (cv_input v)\<rparr>) a)"
    "app_ok (with_view (scroll_by n) a)" "app_ok (with_view (scroll_back n) a)" for n
    by (rule with_view_ok[OF ok], simp add: butlast_bound scroll_by_def scroll_back_def)+
  show ?thesis
    using ok typing simple
    by (simp add: chat_key_def Chat chat_sas_key_ok leave_chat_ok chat_send_ok chat_rekey_ok
        split: key_code.split)
qed (simp add: chat_key_def chat_sas_key_ok leave_chat_ok ok)

section \<open>Commands\<close>

lemma app_dial_core: "same_core (snd (app_dial addr a)) a"
  by (simp add: app_dial_def same_core_def)

lemma app_start_core: "same_core (snd (app_start bound a)) a"
  by (simp add: app_start_def same_core_def split: sum.split)

lemma app_stop_core: "same_core (snd (app_stop a)) a"
  by (simp add: app_stop_def same_core_def split: option.split)

lemma profile_open_core: "same_core (fst (snd (profile_open X K native fresh name create s))) (fst s)"
  by (simp add: profile_open_def install_identity_def Let_def same_core_def split: sum.split prod.split)

lemma execute_profile_ok:
  assumes "app_ok (fst s)"
  shows "app_ok (fst (execute_profile E c s))"
proof -
  have opened: "app_ok a" if "profile_open X K native fresh name create s = (r, a, k)" for X K native fresh name create r a k
    using same_core_ok[OF profile_open_core, of X K native fresh name create s] assms that by simp
  show ?thesis using assms
    by (cases c) (auto simp: execute_profile_def profile_init_def profile_use_def dest: opened split: prod.split)
qed

lemma start_listening_ok: "app_ok a \<Longrightarrow> app_ok (start_listening E addr a)"
  using same_core_ok[OF app_start_core, of "sh_bind E addr" a]
  by (auto simp: start_listening_def Let_def split: prod.split sum.split)

lemma open_chat_ok:
  assumes "app_ok a" "ap_mode a = Repl"
  shows "app_ok (open_chat E l a)"
  using assms try_enter_chat_ok[OF assms]
  by (auto simp: open_chat_def Let_def split: option.split prod.split sum.split)
    (metis snd_conv)+

lemma dispatch_command_ok:
  assumes ok: "app_ok a" and repl: "ap_mode a = Repl"
  shows "app_ok (fst (dispatch_command E c (a, k)))"
proof (cases c)
  case (Message l t)
  show ?thesis using send_text_ok[OF ok, of l t]
    by (cases "send_text l t a"; cases "fst (send_text l t a)") (simp_all add: dispatch_command_def Message)
next
  case (Profile p)
  then show ?thesis using execute_profile_ok[of "(a, k)" E p] ok by (simp add: dispatch_command_def)
next
  case Quit
  have "same_core (a\<lparr>ap_quit := True\<rparr>) a" by (simp add: same_core_def)
  then show ?thesis using ok by (simp add: dispatch_command_def Quit same_core_ok)
qed (use ok repl in \<open>simp_all add: dispatch_command_def start_listening_ok open_chat_ok use_target_ok close_session_ok
      request_rekey_ok same_core_ok[OF app_stop_core] same_core_ok[OF app_dial_core]\<close>)

lemma dispatch_ok:
  "app_ok a \<Longrightarrow> ap_mode a = Repl \<Longrightarrow> app_ok (fst (dispatch E line (a, k)))"
  by (simp add: dispatch_def dispatch_command_ok split: sum.split)

lemma set_input_ok: "app_ok a \<Longrightarrow> str_len t \<le> MAX_CONTENT \<Longrightarrow> app_ok (a\<lparr>ap_input := t\<rparr>)"
  by (simp add: app_ok_def)

lemma repl_key_ok:
  assumes ok: "app_ok a" and repl: "ap_mode a = Repl"
  shows "app_ok (fst (repl_key E key (a, k)))"
proof -
  have quit: "app_ok (a\<lparr>ap_quit := True\<rparr>)" using ok by (simp add: app_ok_def)
  have bound: "str_len (ap_input a) \<le> MAX_CONTENT" using ok by (simp add: app_ok_def)
  have enter: "app_ok (a\<lparr>ap_input := []\<rparr>)" using ok by (simp add: set_input_ok)
  have "app_ok (fst (dispatch E line (a\<lparr>ap_input := []\<rparr>, k)))" for line
    using enter repl by (intro dispatch_ok) simp_all
  with ok quit enter bound show ?thesis
    by (simp add: repl_key_def Let_def repl_sas_key_ok set_input_ok butlast_bound split: key_code.split)
qed

section \<open>Runs\<close>

lemma on_key_ok: "app_ok (fst s) \<Longrightarrow> app_ok (fst (on_key E key s))"
  by (cases s) (simp add: on_key_def chat_key_ok repl_key_ok split: mode.split)

lemma map_of_map_values: "map_of (map (\<lambda>(l, p). (l, g p)) xs) k = map_option g (map_of xs k)"
  by (induction xs) auto

lemma drained_ok:
  assumes ok: "app_ok a" and f: "drains f"
  shows "app_ok (drained f a)"
proof -
  let ?g = "\<lambda>p. p\<lparr>pr_handle := f (pr_handle p)\<rparr>"
  let ?P = "map_of (ap_peers a)" and ?Q = "map_of (ap_peers (drained f a))"
  have Q: "?Q l = map_option ?g (?P l)" for l by (simp add: drained_def map_of_map_values)
  have g: "pr_id (?g p) = pr_id p" "pr_status (?g p) = pr_status p" "peer_ok p \<Longrightarrow> peer_ok (?g p)" for p
    using f by (simp_all add: peer_ok_def drains_def)
  have "index_ok ?Q (map_of (ap_by_id a))"
    using app_okD(1)[OF ok] unfolding index_ok_def Q by fastforce
  moreover have "peers_ok ?Q (ap_next_label a)"
    using app_okD(2)[OF ok] g(3) unfolding peers_ok_def Q by auto
  moreover have "prompts_ok ?Q (ap_sas a)"
    using app_okD(3)[OF ok] unfolding prompts_ok_def Q by fastforce
  moreover have "view_ok ?Q (ap_mode a)"
    using app_okD(4)[OF ok] unfolding view_ok_def Q by auto
  moreover have "target_ok ?Q (ap_default_target a)"
    using app_okD(5)[OF ok] unfolding target_ok_def Q by fastforce
  moreover have "distinct (map fst (ap_peers (drained f a)))"
  proof -
    have "map fst (ap_peers (drained f a)) = map fst (ap_peers a)"
      by (simp add: drained_def comp_def case_prod_unfold)
    with ok show ?thesis by (simp only: app_ok_def)
  qed
  ultimately show ?thesis using ok unfolding app_ok_def by (simp add: drained_def)
qed

lemma app_step_ok:
  assumes "app_step E s s'" "app_ok (fst s)"
  shows "app_ok (fst s')"
  using assms
proof (induction rule: app_step.cases)
  case (pressed s key)
  then show ?case by (simp add: on_key_ok)
next
  case (received a ev h i k now)
  then show ?case by (simp add: on_net_event_ok)
next
  case (redrawn a k m)
  then show ?case by (simp add: with_view_ok)
next
  case (taken f a k)
  then show ?case by (simp add: drained_ok)
qed

lemma app_run_ok: "app_run E s s' \<Longrightarrow> app_ok (fst s) \<Longrightarrow> app_ok (fst s')"
  unfolding app_run_def by (induction rule: rtranclp_induct) (simp_all add: app_step_ok)

end
