(* ===== verification/App_Peers.thy ===== *)
theory App_Peers
  imports App_Turns
begin

text \<open>
  What most of the program leaves alone. A turn is quiet for a relation on peers if it relates every
  peer it leaves to the peer of that label before, and asks nothing new of the user. The operations of
  the application other than answers and the events that bring news are quiet for every relation
  that allows notes, counters and the three harmless commands; two relations of that kind, in the
  theories that follow, say that no approval is queued and that nobody is renamed.
\<close>

definition peers_rel :: "(peer \<Rightarrow> peer \<Rightarrow> bool) \<Rightarrow> app \<Rightarrow> app \<Rightarrow> bool" where
  "peers_rel R a b \<longleftrightarrow>
     (\<forall>l p'. map_of (ap_peers b) l = Some p' \<longrightarrow> (\<exists>p. map_of (ap_peers a) l = Some p \<and> R p p'))"

definition quiet :: "(peer \<Rightarrow> peer \<Rightarrow> bool) \<Rightarrow> app \<Rightarrow> app \<Rightarrow> bool" where
  "quiet R a b \<longleftrightarrow> peers_rel R a b \<and> set (ap_sas b) \<subseteq> set (ap_sas a)"

lemma quiet_after:
  "ap_peers b' = ap_peers b \<Longrightarrow> ap_sas b' = ap_sas b \<Longrightarrow> quiet R a b' \<longleftrightarrow> quiet R a b"
  by (simp add: quiet_def peers_rel_def)

lemma quiet_say [simp]: "quiet R a (say t b) \<longleftrightarrow> quiet R a b" "quiet R a (say_message l t b) \<longleftrightarrow> quiet R a b"
  "quiet R a (announce_sas b) \<longleftrightarrow> quiet R a b" "quiet R a (say_error e b) \<longleftrightarrow> quiet R a b"
  "quiet R a (say_result ok r) \<longleftrightarrow> quiet R a (snd r)" "quiet R a (b\<lparr>ap_touched := x\<rparr>) \<longleftrightarrow> quiet R a b"
  by (rule quiet_after, simp, simp)+

locale peer_relation =
  fixes R :: "peer \<Rightarrow> peer \<Rightarrow> bool"
  assumes reflexive [simp]: "R p p"
    and transitive: "R p q \<Longrightarrow> R q r \<Longrightarrow> R p r"
    and noted [simp]: "who \<noteq> ARemote \<Longrightarrow> R p (add_note who t p)"
    and flagged [simp]: "R p (p\<lparr>pr_rekeying := b\<rparr>)" "R p (p\<lparr>pr_unread := n\<rparr>)"
      "R p (p\<lparr>pr_last_data_rejection_notice := d\<rparr>)"
    and queued [simp]: "R p (p\<lparr>pr_handle := snd (send_message (pr_handle p) content)\<rparr>)"
      "R p (p\<lparr>pr_handle := snd (handle_close (pr_handle p) reason)\<rparr>)"
      "R p (p\<lparr>pr_handle := snd (handle_request_rekey (pr_handle p))\<rparr>)"
begin

lemma noted_after [simp]: "R p q \<Longrightarrow> who \<noteq> ARemote \<Longrightarrow> R p (add_note who t q)"
  using transitive noted by metis

lemma quiet_refl [simp]: "quiet R a a"
  by (simp add: quiet_def peers_rel_def)

lemma quiet_trans: "quiet R a b \<Longrightarrow> quiet R b c \<Longrightarrow> quiet R a c"
  unfolding quiet_def peers_rel_def by (blast intro: transitive)

lemma quiet_same: "ap_peers b = ap_peers a \<Longrightarrow> set (ap_sas b) \<subseteq> set (ap_sas a) \<Longrightarrow> quiet R a b"
  by (simp add: quiet_def peers_rel_def)

lemma quiet_core: "same_core b a \<Longrightarrow> quiet R a b"
  by (simp add: quiet_same same_core_def)

lemma quiet_set_peer: "map_of (ap_peers a) l = Some p \<Longrightarrow> R p p' \<Longrightarrow> quiet R a (set_peer l p' a)"
  by (simp add: quiet_def peers_rel_def)

lemma quiet_with_peer: "(\<And>p. R p (f p)) \<Longrightarrow> quiet R a (with_peer l f a)"
  by (simp add: with_peer_def quiet_set_peer split: option.split)

lemma quiet_command_peer:
  assumes "map_of (ap_peers a) l = Some p" "R p (p\<lparr>pr_handle := snd (f (pr_handle p))\<rparr>)"
  shows "quiet R a (snd (command_peer l f p a))"
  using quiet_set_peer[OF assms] by (cases "f (pr_handle p)") (simp add: command_peer_def)

lemma quiet_forget: "quiet R a (forget l a)"
  by (auto simp: quiet_def peers_rel_def forget_def delete_conv' split: option.split if_splits)

text \<open>Sessions.\<close>

lemma quiet_send_text: "quiet R a (snd (send_text l t a))"
proof (cases "map_of (ap_peers a) l")
  case (Some p)
  obtain r h where send: "send_message (pr_handle p) (utf8 t) = (r, h)" by fastforce
  then have "R p (p\<lparr>pr_handle := h\<rparr>)" using queued(1)[of p "utf8 t"] by simp
  then show ?thesis
    by (simp add: send_text_def Some send Let_def quiet_set_peer[OF Some] split: sum.split handle_error.split)
qed (simp add: send_text_def)

lemma quiet_close_session: "quiet R a (snd (close_session l a))"
  by (simp add: close_session_def find_peer_Inr quiet_command_peer split: sum.split)

lemma quiet_request_rekey: "quiet R a (snd (request_rekey l a))"
  by (simp add: request_rekey_def find_peer_Inr quiet_command_peer split: sum.split)

lemma quiet_use_target: "quiet R a (snd (use_target l a))"
  by (simp add: use_target_def quiet_same split: sum.split)

lemma quiet_notes: "who \<noteq> ARemote \<Longrightarrow> quiet R a (with_peer l (add_note who t) a)"
  by (rule quiet_with_peer) simp

text \<open>Events that bring no news of who a peer is.\<close>

lemma quiet_on_data_rejected: "quiet R a (on_data_rejected now l a)"
  by (simp add: on_data_rejected_def quiet_set_peer split: option.split)

text \<open>Keys.\<close>

lemma quiet_with_view: "quiet R a (with_view f a)"
  by (simp add: with_view_def quiet_def peers_rel_def split: mode.split)

lemma quiet_leave_chat: "quiet R a (leave_chat a)"
proof -
  let ?b = "a\<lparr>ap_terminal := False, ap_mode := Repl\<rparr>"
  have "quiet R a ?b" by (rule quiet_same) simp_all
  then have "quiet R a (forget l ?b)" for l using quiet_forget quiet_trans by blast
  with \<open>quiet R a ?b\<close> show ?thesis
    by (simp add: leave_chat_def Let_def split: mode.split option.split)
qed

lemma quiet_chat_send: "quiet R a (chat_send view a)"
proof -
  let ?t = "trim (cv_input view)" and ?l = "cv_label view"
  define b where "b = with_view (\<lambda>v. v\<lparr>cv_input := []\<rparr>) a"
  define c where "c = (if ?t \<noteq> [] then (case send_text ?l ?t b of
      (Inl e, a) \<Rightarrow> with_peer ?l (add_note ASystem (lit ''not sent: '' @ e)) a | (Inr _, a) \<Rightarrow> a) else b)"
  have sent: "quiet R b (snd (send_text ?l ?t b))" by (rule quiet_send_text)
  then have "quiet R b c" unfolding c_def
    by (cases "send_text ?l ?t b"; cases "fst (send_text ?l ?t b)")
      (auto intro: quiet_trans quiet_notes)
  moreover have "quiet R a b" unfolding b_def by (rule quiet_with_view)
  ultimately have "quiet R a (with_view (\<lambda>v. v\<lparr>cv_scroll := 0\<rparr>) c)"
    using quiet_with_view quiet_trans by blast
  then show ?thesis unfolding chat_send_def Let_def c_def b_def .
qed

lemma quiet_chat_rekey: "quiet R a (chat_rekey view a)"
  using quiet_request_rekey[of a "cv_label view"]
  by (cases "request_rekey (cv_label view) a"; cases "fst (request_rekey (cv_label view) a)")
    (auto simp: chat_rekey_def intro: quiet_trans quiet_notes)

lemma quiet_try_enter_chat: "quiet R a (snd (try_enter_chat terminal draw l a))"
proof -
  let ?b = "a\<lparr>ap_terminal := True, ap_default_target := Some l, ap_touched := True\<rparr>"
  have "quiet R a ?b" by (rule quiet_same) simp_all
  moreover have "quiet R ?b (with_peer l (\<lambda>p. p\<lparr>pr_unread := 0\<rparr>) ?b)" by (rule quiet_with_peer) simp
  ultimately have "quiet R a (with_peer l (\<lambda>p. p\<lparr>pr_unread := 0\<rparr>) ?b)" by (rule quiet_trans)
  then show ?thesis
    by (auto simp: try_enter_chat_def Let_def quiet_def peers_rel_def split: sum.split)
qed

lemma quiet_open_chat: "quiet R a (open_chat E l a)"
proof -
  have opened: "quiet R a b" if "try_enter_chat t d target a = (r, b)" for t d target r b
    using quiet_try_enter_chat[of a t d target] that by simp
  show ?thesis
    by (auto simp: open_chat_def Let_def dest: opened split: option.split prod.split sum.split)
qed

lemma quiet_execute_profile: "quiet R (fst s) (fst (execute_profile E c s))"
proof -
  have opened: "quiet R (fst s) a" if "profile_open X K native fresh name create s = (r, a, k)"
    for X K native fresh name create r a k
    using quiet_core[OF profile_open_core, of s X K native fresh name create] that by simp
  show ?thesis
    by (cases c) (auto simp: execute_profile_def profile_init_def profile_use_def dest: opened split: prod.split)
qed

lemma quiet_dispatch_command: "quiet R a (fst (dispatch_command E c (a, k)))"
proof (cases c)
  case (Message l t)
  show ?thesis using quiet_send_text[of a l t]
    by (cases "send_text l t a"; cases "fst (send_text l t a)") (simp_all add: dispatch_command_def Message)
next
  case (Profile p)
  then show ?thesis using quiet_execute_profile[of "(a, k)" E p] by (simp add: dispatch_command_def)
next
  case (StartCmd addr)
  have started: "quiet R a b" if "app_start bound a = (r, b)" for bound r b
    using quiet_core[OF app_start_core, of a bound] that by simp
  show ?thesis
    by (auto simp: dispatch_command_def StartCmd start_listening_def Let_def dest: started split: prod.split sum.split)
next
  case Quit
  then show ?thesis by (simp add: dispatch_command_def quiet_same)
qed (simp_all add: dispatch_command_def quiet_open_chat quiet_use_target quiet_close_session quiet_request_rekey
      quiet_core[OF app_stop_core] quiet_core[OF app_dial_core])

lemma quiet_dispatch: "quiet R a (fst (dispatch E line (a, k)))"
  by (simp add: dispatch_def quiet_dispatch_command split: sum.split)

lemma quiet_input: "ap_sas b = ap_sas a \<Longrightarrow> ap_peers b = ap_peers a \<Longrightarrow> quiet R a b"
  by (rule quiet_same) simp_all

lemma quiet_entered: "quiet R a (fst (dispatch E line (a\<lparr>ap_input := t\<rparr>, k)))"
  by (rule quiet_trans[OF quiet_input quiet_dispatch]) simp_all

lemma quiet_repl_key:
  assumes "ap_sas a = []"
  shows "quiet R a (fst (repl_key E key (a, k)))"
proof (cases "ke_control key \<and> (ke_code key = CodeChar 99 \<or> ke_code key = CodeChar 100)")
  case True
  then have "fst (repl_key E key (a, k)) = a\<lparr>ap_quit := True\<rparr>" by (simp add: repl_key_def)
  then show ?thesis by (simp add: quiet_input)
next
  case other: False
  show ?thesis
  proof (cases "ke_code key")
    case CodeEnter
    have "quiet R a (fst (if trim (ap_input a) \<noteq> [] then dispatch E (trim (ap_input a)) (a\<lparr>ap_input := []\<rparr>, k)
        else (a\<lparr>ap_input := []\<rparr>, k)))"
      by (simp add: quiet_entered quiet_input)
    then show ?thesis by (simp only: repl_key_def Let_def prod.case assms other CodeEnter key_code.case) (simp add: assms)
  next
    case (CodeChar c)
    have "fst (repl_key E key (a, k)) = a \<or> fst (repl_key E key (a, k)) = a\<lparr>ap_input := ap_input a @ [c]\<rparr>"
      using other assms by (auto simp: repl_key_def CodeChar)
    then show ?thesis using quiet_input[of "a\<lparr>ap_input := ap_input a @ [c]\<rparr>" a] by auto
  qed (simp_all add: repl_key_def assms quiet_input)
qed

end

text \<open>Relations that also let a peer be heard and close.\<close>

locale news_relation = peer_relation +
  assumes heard [simp]: "R p (add_note ARemote t p)"
    and closed [simp]: "R p (p\<lparr>pr_status := PsClosed, pr_rekeying := False, pr_close_note := c\<rparr>)"
begin

lemma heard_after [simp]: "R p q \<Longrightarrow> R p (add_note ARemote t q)"
  using transitive heard by metis

lemma quiet_on_message: "quiet R a (on_message l content a)"
proof -
  define b where "b = (if \<not> open_label (a\<lparr>ap_touched := True\<rparr>) l
    then say_message l (ingest content) (a\<lparr>ap_touched := True\<rparr>) else a\<lparr>ap_touched := True\<rparr>)"
  define c where "c = with_peer l (\<lambda>p. add_note ARemote (ingest content)
    (if \<not> open_label (a\<lparr>ap_touched := True\<rparr>) l then p\<lparr>pr_unread := pr_unread p + 1\<rparr> else p)) b"
  have "quiet R a b" by (simp add: b_def)
  moreover have "quiet R b c" unfolding c_def by (rule quiet_with_peer) simp
  ultimately have "quiet R a c" by (rule quiet_trans)
  moreover have "on_message l content a =
      (case ap_mode c of Chat view \<Rightarrow> if cv_label view = l then c\<lparr>ap_mode := Chat (view\<lparr>cv_scroll := 0\<rparr>)\<rparr> else c | Repl \<Rightarrow> c)"
    unfolding on_message_def Let_def c_def b_def open_label_def by (rule refl)
  ultimately show ?thesis by (simp add: quiet_def peers_rel_def split: mode.split)
qed

lemma quiet_on_closed: "quiet R a (on_closed i l cause a)"
proof -
  let ?s = "a\<lparr>ap_sas := filter (\<lambda>p. ps_id p \<noteq> i) (ap_sas a)\<rparr>"
  have "quiet R a ?s" by (rule quiet_same) auto
  moreover have "quiet R ?s (closing i l cause a)"
  proof -
    have "quiet R ?s (with_peer l (\<lambda>p. add_note ASystem (cause_text cause)
        (p\<lparr>pr_status := PsClosed, pr_rekeying := False, pr_close_note := Some (cause_text cause)\<rparr>)) ?s)"
      by (rule quiet_with_peer) simp
    then show ?thesis by (simp add: closing_def Let_def quiet_def peers_rel_def)
  qed
  ultimately have "quiet R a (closing i l cause a)" by (rule quiet_trans)
  then have "quiet R a (if \<not> open_label a l then forget l (closing i l cause a) else closing i l cause a)"
    using quiet_trans[OF _ quiet_forget] by simp
  with on_closed_closing[of i l cause a] show ?thesis by (auto simp: Let_def)
qed

end

text \<open>Relations that say nothing of the queues hold across every key, answers included.\<close>

locale handle_relation = peer_relation +
  assumes handled [simp]: "R p (p\<lparr>pr_handle := h\<rparr>)"
begin

lemma quiet_answer_sas: "quiet R a (answer_sas y a)"
proof (cases "ap_sas a")
  case (Cons q rest)
  let ?b = "a\<lparr>ap_sas := rest\<rparr>"
  have "quiet R a ?b" by (rule quiet_same) (auto simp: Cons)
  moreover have "quiet R ?b (with_peer (ps_label q) (\<lambda>p. p\<lparr>pr_handle := snd (handle_answer_sas (pr_handle p) y)\<rparr>) ?b)"
    by (rule quiet_with_peer) simp
  ultimately show ?thesis by (simp add: answer_sas_def Cons quiet_trans)
qed (simp add: answer_sas_def)

lemma peers_type_sas: "peers_rel R a (type_sas f a)"
  by (simp add: type_sas_def peers_rel_def split: list.split)

lemma quiet_peers: "quiet R a b \<Longrightarrow> peers_rel R a b"
  by (simp add: quiet_def)

lemma peers_sas_keys: "peers_rel R a (repl_sas_key key a)" "peers_rel R a (chat_sas_key key a)"
  by (cases "ke_code key";
      simp add: repl_sas_key_def chat_sas_key_def quiet_peers quiet_answer_sas peers_type_sas)+

lemma peers_chat_key: "peers_rel R a (chat_key key a)"
  unfolding chat_key_def
  by (auto simp: peers_sas_keys quiet_leave_chat quiet_chat_send quiet_chat_rekey quiet_with_view
      intro!: quiet_peers split: mode.split option.split)

lemma peers_repl_key: "peers_rel R a (fst (repl_key E key (a, k)))"
proof (cases "ap_sas a = []")
  case True
  then show ?thesis by (intro quiet_peers quiet_repl_key)
next
  case False
  have "peers_rel R a (a\<lparr>ap_quit := True\<rparr>)" by (rule quiet_peers) (simp add: quiet_same)
  with False show ?thesis by (simp add: repl_key_def peers_sas_keys)
qed

lemma peers_on_key: "peers_rel R (fst s) (fst (on_key E key s))"
  by (cases s) (simp add: on_key_def peers_chat_key peers_repl_key split: mode.split)

lemma peers_drained: "peers_rel R a (drained f a)"
  by (auto simp: peers_rel_def drained_def map_of_map_values)

end

end
