(* ===== verification/App_Approval.thy ===== *)
theory App_Approval
  imports App_Peers
begin

text \<open>
  Which turns of the main loop put an approval into the queue of a connection, and which change the
  verifications that are pending: only Enter on a typed yes approves, and only the connection whose
  words are shown; a prompt starts empty and is typed into only while it is the one shown.
\<close>

definition queued_yes :: "app \<Rightarrow> ustr \<Rightarrow> bool" where
  "queued_yes a l \<longleftrightarrow> (\<exists>p. map_of (ap_peers a) l = Some p \<and> ControlSas True \<in> set (hd_control (pr_handle p)))"

text \<open>A turn that neither approves nor asks is quiet for this relation.\<close>

definition yes_kept :: "peer \<Rightarrow> peer \<Rightarrow> bool" where
  "yes_kept p p' \<longleftrightarrow>
     (ControlSas True \<in> set (hd_control (pr_handle p')) \<longrightarrow> ControlSas True \<in> set (hd_control (pr_handle p)))"

lemma queued_yes_cong: "ap_peers a = ap_peers b \<Longrightarrow> queued_yes a l \<longleftrightarrow> queued_yes b l"
  by (simp add: queued_yes_def)

lemma yesD:
  assumes "quiet yes_kept a b"
  shows "queued_yes b l \<longrightarrow> queued_yes a l" "q \<in> set (ap_sas b) \<longrightarrow> q \<in> set (ap_sas a)"
  using assms unfolding quiet_def peers_rel_def queued_yes_def yes_kept_def by blast+

section \<open>Queues\<close>

lemma control_queues [simp]:
  "hd_control (snd (send_message h b)) = hd_control h"
  "ControlSas True \<in> set (hd_control (snd (handle_close h r))) \<longleftrightarrow> ControlSas True \<in> set (hd_control h)"
  "ControlSas True \<in> set (hd_control (snd (handle_request_rekey h))) \<longleftrightarrow> ControlSas True \<in> set (hd_control h)"
  "ControlSas True \<in> set (hd_control (snd (handle_answer_sas h False))) \<longleftrightarrow> ControlSas True \<in> set (hd_control h)"
  by (simp_all add: send_message_def handle_close_def handle_request_rekey_def handle_answer_sas_def
      send_control_def try_send_def)

lemma queued_set_peer: "queued_yes (set_peer l p a) l' \<longleftrightarrow>
    (if l' = l then ControlSas True \<in> set (hd_control (pr_handle p)) else queued_yes a l')"
  by (simp add: queued_yes_def)

interpretation yes: news_relation yes_kept
  by unfold_locales (auto simp: yes_kept_def)

section \<open>Events\<close>

lemma yes_on_opened:
  assumes "hd_control h = []"
  shows "queued_yes (on_opened i h remote outbound a) l \<Longrightarrow> queued_yes a l"
    "ap_sas (on_opened i h remote outbound a) = ap_sas a"
  using assms by (cases "l = label_of (Suc (ap_next_label a))")
    (simp_all add: on_opened_def fresh_label_def Let_def queued_yes_def)

lemma sas_on_sas_required:
  "(\<forall>l'. queued_yes (on_sas_required now i l words identity a) l' \<longrightarrow> queued_yes a l') \<and>
   (\<forall>q \<in> set (ap_sas (on_sas_required now i l words identity a)). q \<in> set (ap_sas a) \<or> ps_typed q = [])"
proof (cases "map_of (ap_peers a) l")
  case None
  then show ?thesis
    by (auto simp: on_sas_required_def Let_def queued_yes_def split: if_splits)
next
  case (Some p)
  let ?f = "Some (fingerprint identity)"
  have keep: "quiet yes_kept a (set_peer l (p\<lparr>pr_fingerprint := ?f\<rparr>) a)" by (rule yes.quiet_set_peer[OF Some]) (simp add: yes_kept_def)
  have answered: "quiet yes_kept a (set_peer l (p\<lparr>pr_fingerprint := ?f, pr_handle := snd (handle_answer_sas (pr_handle p) False)\<rparr>) a)"
    by (rule yes.quiet_set_peer[OF Some]) (simp add: yes_kept_def)
  show ?thesis
  proof (cases "length (ap_sas a) \<ge> MAX_UNAUTHENTICATED_HANDSHAKES")
    case True
    obtain r h where rh: "handle_answer_sas (pr_handle p) False = (r, h)" by fastforce
    have "quiet yes_kept a (on_sas_required now i l words identity a)"
      using yes.quiet_trans[OF answered yes.quiet_notes] True
      by (simp add: on_sas_required_def Some rh Let_def)
    then show ?thesis by (auto dest: yesD)
  next
    case False
    then show ?thesis using keep
      by (auto simp: on_sas_required_def Some Let_def quiet_def queued_yes_def split: if_splits)
  qed
qed

lemma event_yes:
  assumes "hd_control h = []"
  shows "(\<forall>l. queued_yes (on_net_event now h ev a) l \<longrightarrow> queued_yes a l) \<and>
    (\<forall>q \<in> set (ap_sas (on_net_event now h ev a)). q \<in> set (ap_sas a) \<or> ps_typed q = [])"
proof -
  have via_quiet: "quiet yes_kept a b \<Longrightarrow> (\<forall>l. queued_yes b l \<longrightarrow> queued_yes a l) \<and>
      (\<forall>q \<in> set (ap_sas b). q \<in> set (ap_sas a) \<or> ps_typed q = [])" for b
    by (auto dest: yesD)
  show ?thesis
  proof (cases ev)
    case (Opened i r out)
    show ?thesis unfolding Opened on_net_event_def net_event.case
      using yes_on_opened[OF assms, of i "lit r"] by auto
  next
    case (DialFailed addr e)
    then show ?thesis by (intro via_quiet) (simp add: on_net_event_def)
  next
    case (ListenerStopped addr e)
    then show ?thesis by (intro via_quiet) (simp add: on_net_event_def yes.quiet_same)
  next
    case (Conn i ce)
    show ?thesis
    proof (cases "map_of (ap_by_id a) i")
      case None
      then show ?thesis by (simp add: Conn on_net_event_def on_conn_event_def)
    next
      case (Some l)
      show ?thesis
      proof (cases "\<exists>words identity. ce = CSasRequired words identity")
        case True
        then obtain words identity where "ce = CSasRequired words identity" by blast
        then have "on_net_event now h ev a = on_sas_required now i l words identity a"
          by (simp add: Conn Some on_net_event_def on_conn_event_def)
        then show ?thesis using sas_on_sas_required[of now i l words identity a] by simp
      next
        case False
        have "quiet yes_kept a (on_net_event now h ev a)"
          using False unfolding Conn on_net_event_def net_event.case on_conn_event_def
          by (cases ce)
            (simp_all add: Some Let_def yes.quiet_on_message yes.quiet_on_data_rejected yes.quiet_on_closed
              yes.quiet_with_peer yes.quiet_notes yes_kept_def)
        then show ?thesis by (rule via_quiet)
      qed
    qed
  qed
qed

section \<open>Answers\<close>

lemma answer_sas_yes:
  assumes "queued_yes (answer_sas y a) l" "\<not> queued_yes a l"
  shows "\<exists>q rest. y \<and> ap_sas a = q # rest \<and> ps_label q = l \<and> map_of (ap_peers a) l \<noteq> None"
proof (cases "ap_sas a")
  case (Cons q rest)
  let ?b = "a\<lparr>ap_sas := rest\<rparr>"
  let ?f = "\<lambda>p. p\<lparr>pr_handle := snd (handle_answer_sas (pr_handle p) y)\<rparr>"
  have peers: "ap_peers (answer_sas y a) = ap_peers (with_peer (ps_label q) ?f ?b)"
    by (simp add: answer_sas_def Cons)
  with assms(1) have new: "queued_yes (with_peer (ps_label q) ?f ?b) l" by (simp add: queued_yes_def)
  show ?thesis
  proof (cases "y \<and> l = ps_label q")
    case True
    with new have "map_of (ap_peers a) l \<noteq> None"
      by (cases "map_of (ap_peers a) (ps_label q)") (auto simp: with_peer_def queued_yes_def)
    with True Cons show ?thesis by blast
  next
    case False
    have "queued_yes ?b l"
    proof (cases y)
      case True
      with False new show ?thesis
        by (simp add: with_peer_def queued_set_peer split: option.splits)
    next
      case no: False
      have "quiet yes_kept ?b (with_peer (ps_label q) ?f ?b)" by (rule yes.quiet_with_peer) (simp add: no yes_kept_def)
      with new yesD(1) show ?thesis by blast
    qed
    moreover have "queued_yes ?b l \<longleftrightarrow> queued_yes a l" by (rule queued_yes_cong) simp
    ultimately show ?thesis using assms(2) by blast
  qed
next
  case Nil
  then have "answer_sas y a = a" by (simp add: answer_sas_def)
  with assms show ?thesis by simp
qed

lemma sas_answer_sas: "ap_sas (answer_sas y a) = tl (ap_sas a)"
  by (simp add: answer_sas_def Let_def split: list.split)

lemma type_sas_peers [simp]: "queued_yes (type_sas f a) l \<longleftrightarrow> queued_yes a l"
  by (simp add: type_sas_def queued_yes_def split: list.split)

text \<open>What a key may change: an answer on Enter, the prompt shown, or nothing of the two.\<close>

definition key_effect :: "key_event \<Rightarrow> app \<Rightarrow> app \<Rightarrow> bool" where
  "key_effect key a b \<longleftrightarrow>
     (\<forall>l. queued_yes b l \<longrightarrow> \<not> queued_yes a l \<longrightarrow>
        (\<exists>q rest. ke_code key = CodeEnter \<and> ap_sas a = q # rest \<and> ps_label q = l \<and> is_approval (ps_typed q) \<and>
           map_of (ap_peers a) l \<noteq> None)) \<and>
     (set (ap_sas b) \<subseteq> set (ap_sas a) \<or>
        (\<exists>q rest t. ap_sas a = q # rest \<and> ap_sas b = q\<lparr>ps_typed := t\<rparr> # rest))"

lemma key_effect_quiet: "quiet yes_kept a b \<Longrightarrow> key_effect key a b"
  using yesD[of a b] by (auto simp: key_effect_def)

lemma key_effect_answer:
  assumes "y \<longrightarrow> ke_code key = CodeEnter \<and> front_approves a"
  shows "key_effect key a (answer_sas y a)"
  unfolding key_effect_def
proof (intro conjI allI impI)
  fix l assume "queued_yes (answer_sas y a) l" "\<not> queued_yes a l"
  then obtain q rest where "y" "ap_sas a = q # rest" "ps_label q = l" "map_of (ap_peers a) l \<noteq> None"
    using answer_sas_yes by blast
  with assms show "\<exists>q rest. ke_code key = CodeEnter \<and> ap_sas a = q # rest \<and> ps_label q = l \<and> is_approval (ps_typed q) \<and>
      map_of (ap_peers a) l \<noteq> None"
    by (auto simp: front_approves_def)
next
  show "set (ap_sas (answer_sas y a)) \<subseteq> set (ap_sas a) \<or>
      (\<exists>q rest t. ap_sas a = q # rest \<and> ap_sas (answer_sas y a) = q\<lparr>ps_typed := t\<rparr> # rest)"
    by (cases "ap_sas a") (auto simp: sas_answer_sas)
qed

lemma key_effect_type: "key_effect key a (type_sas f a)"
  by (cases "ap_sas a") (auto simp: key_effect_def type_sas_def queued_yes_def)

lemma key_effect_sas_keys: "key_effect key a (repl_sas_key key a)" "key_effect key a (chat_sas_key key a)"
  by (cases "ke_code key";
      simp add: repl_sas_key_def chat_sas_key_def key_effect_answer key_effect_type key_effect_quiet)+

lemma key_effect_chat: "key_effect key a (chat_key key a)"
  unfolding chat_key_def
  by (auto simp: key_effect_sas_keys yes.quiet_leave_chat yes.quiet_chat_send yes.quiet_chat_rekey yes.quiet_with_view
      intro!: key_effect_quiet split: mode.split option.split)

lemma key_effect_repl: "key_effect key a (fst (repl_key E key (a, k)))"
proof (cases "ap_sas a")
  case Nil
  then show ?thesis by (intro key_effect_quiet yes.quiet_repl_key)
next
  case Cons
  have "quiet yes_kept a (a\<lparr>ap_quit := True\<rparr>)" by (simp add: yes.quiet_input)
  with Cons show ?thesis by (simp add: repl_key_def key_effect_sas_keys key_effect_quiet)
qed

lemma key_effect_on_key: "key_effect key (fst s) (fst (on_key E key s))"
  by (cases s) (simp add: on_key_def key_effect_chat key_effect_repl split: mode.split)

section \<open>Turns\<close>

lemma quiet_drained:
  assumes "drains f"
  shows "quiet yes_kept a (drained f a)"
proof -
  have "x \<in> set (hd_control h)" if "x \<in> set (hd_control (f h))" for x h
    using assms that unfolding drains_def by (metis in_set_dropD)
  then show ?thesis
    by (auto simp: quiet_def peers_rel_def yes_kept_def drained_def map_of_map_values)
qed

lemma step_approval:
  assumes "app_step E s s'"
  shows "(\<exists>key. s' = on_key E key s) \<or>
    (\<forall>l. queued_yes (fst s') l \<longrightarrow> queued_yes (fst s) l) \<and>
    (\<forall>q \<in> set (ap_sas (fst s')). q \<in> set (ap_sas (fst s)) \<or> ps_typed q = [])"
  using assms
proof (induction rule: app_step.cases)
  case (pressed s key)
  then show ?case by blast
next
  case (received a ev h i k now)
  then show ?case using event_yes by auto
next
  case (redrawn a k m)
  then show ?case using yesD[OF yes.quiet_with_view[of a]] by auto
next
  case (taken f a k)
  then show ?case using yesD[OF quiet_drained[of f a]] by auto
qed

end
