(* ===== verification/App_Wipe.thy ===== *)
theory App_Wipe
  imports App_Turns
begin

text \<open>
  What is left at the end: the program notes in \<open>ap_touched\<close> that it showed a conversation, words to
  compare or a message, never forgets it, and wipes the screen when it stops; all it kept is dropped.
\<close>

section \<open>Nothing shown yet\<close>

definition unwritten :: "peer \<Rightarrow> bool" where
  "unwritten p \<longleftrightarrow> (\<forall>e \<in> set (sb_entries (pr_scrollback p)). e_author e = ASystem)"

definition hidden :: "app \<Rightarrow> bool" where
  "hidden a \<longleftrightarrow> ap_sas a = [] \<and> ap_mode a = Repl \<and> (\<forall>l p. map_of (ap_peers a) l = Some p \<longrightarrow> unwritten p)"

text \<open>An operation never forgets that something was shown, and notes it when it shows something.\<close>

definition keeps :: "app \<Rightarrow> app \<Rightarrow> bool" where
  "keeps a b \<longleftrightarrow> (ap_touched a \<longrightarrow> ap_touched b) \<and> (ap_touched b \<or> (hidden a \<longrightarrow> hidden b))"

lemma keeps_refl [simp]: "keeps a a"
  by (simp add: keeps_def)

lemma keeps_trans: "keeps a b \<Longrightarrow> keeps b c \<Longrightarrow> keeps a c"
  by (auto simp: keeps_def)

lemma keeps_touched: "ap_touched b \<Longrightarrow> keeps a b"
  by (simp add: keeps_def)

lemma keeps_same:
  "ap_touched b = ap_touched a \<Longrightarrow> ap_peers b = ap_peers a \<Longrightarrow> ap_sas b = ap_sas a \<Longrightarrow> ap_mode b = ap_mode a \<Longrightarrow> keeps a b"
  by (simp add: keeps_def hidden_def)

lemma touched_say [simp]:
  "ap_touched (say t a) = ap_touched a" "ap_touched (say_message l t a) = ap_touched a"
  "ap_touched (announce_sas a) = ap_touched a" "ap_touched (say_error e a) = ap_touched a"
  "ap_touched (say_result ok r) = ap_touched (snd r)"
  by (simp_all add: say_def say_message_def announce_sas_def say_error_def say_result_def
      split: mode.split list.split sum.split)

lemma keeps_after:
  "ap_touched b' = ap_touched b \<Longrightarrow> same_core b' b \<Longrightarrow> keeps a b' \<longleftrightarrow> keeps a b"
  by (simp add: keeps_def hidden_def same_core_def)

lemma keeps_say [simp]: "keeps a (say t b) \<longleftrightarrow> keeps a b" "keeps a (say_message l t b) \<longleftrightarrow> keeps a b"
  "keeps a (announce_sas b) \<longleftrightarrow> keeps a b" "keeps a (say_error e b) \<longleftrightarrow> keeps a b"
  "keeps a (say_result ok r) \<longleftrightarrow> keeps a (snd r)"
  by (rule keeps_after, simp, simp)+

section \<open>Peers\<close>

lemma unwritten_system_note [simp]: "unwritten p \<Longrightarrow> unwritten (add_note ASystem t p)"
  using set_evict by (fastforce simp: unwritten_def add_note_def push_def Let_def)

lemma unwritten_fields [simp]:
  "unwritten (p\<lparr>pr_handle := h\<rparr>) = unwritten p" "unwritten (p\<lparr>pr_status := st\<rparr>) = unwritten p"
  "unwritten (p\<lparr>pr_fingerprint := f\<rparr>) = unwritten p" "unwritten (p\<lparr>pr_rekeying := r\<rparr>) = unwritten p"
  "unwritten (p\<lparr>pr_last_data_rejection_notice := d\<rparr>) = unwritten p" "unwritten (p\<lparr>pr_unread := u\<rparr>) = unwritten p"
  "unwritten (p\<lparr>pr_close_note := c\<rparr>) = unwritten p"
  by (simp_all add: unwritten_def)

lemma touched_set_peer [simp]: "ap_touched (set_peer l p a) = ap_touched a"
  by (simp add: set_peer_def)

lemma touched_with_peer [simp]: "ap_touched (with_peer l f a) = ap_touched a"
  by (simp add: with_peer_def split: option.split)

lemma keeps_set_peer:
  assumes "map_of (ap_peers a) l = Some p" "unwritten p \<Longrightarrow> unwritten p'"
  shows "keeps a (set_peer l p' a)"
  using assms by (auto simp: keeps_def hidden_def)

lemma keeps_with_peer:
  assumes "\<And>p. unwritten p \<Longrightarrow> unwritten (f p)"
  shows "keeps a (with_peer l f a)"
  using keeps_set_peer[of a l] assms by (simp add: with_peer_def split: option.split)

lemma keeps_note: "keeps a (with_peer l (add_note ASystem t) a)"
  by (rule keeps_with_peer) simp

lemma keeps_command_peer:
  assumes "map_of (ap_peers a) l = Some p"
  shows "keeps a (snd (command_peer l f p a))"
  using keeps_set_peer[OF assms] by (cases "f (pr_handle p)") (simp add: command_peer_def)

lemma keeps_forget: "keeps a (forget l a)"
  by (auto simp: keeps_def hidden_def forget_def delete_conv' split: option.split if_splits)

section \<open>Sessions\<close>

lemma keeps_send_text: "keeps a (snd (send_text l t a))"
proof (cases "map_of (ap_peers a) l")
  case (Some p)
  obtain r h where "send_message (pr_handle p) (utf8 t) = (r, h)" by fastforce
  then show ?thesis
    by (simp add: send_text_def Some Let_def keeps_set_peer[OF Some] keeps_touched split: sum.split handle_error.split)
qed (simp add: send_text_def)

lemma keeps_close_session: "keeps a (snd (close_session l a))"
  by (simp add: close_session_def find_peer_Inr keeps_command_peer split: sum.split)

lemma keeps_request_rekey: "keeps a (snd (request_rekey l a))"
  by (simp add: request_rekey_def find_peer_Inr keeps_command_peer split: sum.split)

lemma keeps_use_target: "keeps a (snd (use_target l a))"
  by (simp add: use_target_def keeps_same split: sum.split)

lemma keeps_answer_sas: "keeps a (answer_sas y a)"
proof (cases "ap_sas a")
  case (Cons q rest)
  let ?b = "a\<lparr>ap_sas := rest\<rparr>"
  have "keeps a ?b" by (simp add: keeps_def hidden_def Cons)
  moreover have "keeps ?b (with_peer (ps_label q) (\<lambda>p. p\<lparr>pr_handle := snd (handle_answer_sas (pr_handle p) y)\<rparr>) ?b)"
    by (rule keeps_with_peer) simp
  ultimately show ?thesis using keeps_trans by (simp add: answer_sas_def Cons Let_def)
qed (simp add: answer_sas_def)

section \<open>Events\<close>

lemma keeps_on_opened: "keeps a (on_opened i h remote outbound a)"
proof -
  obtain label b where fresh: "fresh_label a = (label, b)" "keeps a b"
    by (simp add: fresh_label_def keeps_same)
  let ?c = "b\<lparr>ap_by_id := AList.update i label (ap_by_id b)\<rparr>"
  have "keeps b ?c" by (simp add: keeps_same)
  moreover have "keeps ?c (set_peer label p ?c)" if "unwritten p" for p
    using that by (auto simp: keeps_def hidden_def)
  ultimately have "keeps a (set_peer label p ?c)" if "unwritten p" for p
    using that fresh(2) keeps_trans by blast
  then show ?thesis
    by (simp add: on_opened_def fresh(1) Let_def unwritten_def scrollback_default_def)
qed

lemma keeps_on_sas_required: "keeps a (on_sas_required now i l words identity a)"
proof (cases "map_of (ap_peers a) l")
  case None
  then show ?thesis by (simp add: on_sas_required_def Let_def keeps_touched)
next
  case (Some p)
  show ?thesis
  proof (cases "length (ap_sas a) \<ge> MAX_UNAUTHENTICATED_HANDSHAKES")
    case True
    obtain r h where rh: "handle_answer_sas (pr_handle p) False = (r, h)" by fastforce
    have "keeps a (set_peer l (p\<lparr>pr_fingerprint := Some (fingerprint identity), pr_handle := h\<rparr>) a)"
      by (rule keeps_set_peer[OF Some]) simp
    from keeps_trans[OF this keeps_note] show ?thesis
      using True by (simp add: on_sas_required_def Some rh Let_def)
  next
    case False
    then show ?thesis by (simp add: on_sas_required_def Some Let_def keeps_touched)
  qed
qed

lemma keeps_on_message: "keeps a (on_message l content a)"
  by (rule keeps_touched) (simp add: on_message_def Let_def split: mode.split)

lemma keeps_on_data_rejected: "keeps a (on_data_rejected now l a)"
  by (simp add: on_data_rejected_def keeps_set_peer split: option.split)

lemma keeps_closing: "keeps a (closing i l cause a)"
proof -
  let ?s = "a\<lparr>ap_sas := filter (\<lambda>p. ps_id p \<noteq> i) (ap_sas a)\<rparr>"
  let ?w = "with_peer l (\<lambda>p. add_note ASystem (cause_text cause)
        (p\<lparr>pr_status := PsClosed, pr_rekeying := False, pr_close_note := Some (cause_text cause)\<rparr>)) ?s"
  have "keeps a ?s" by (simp add: keeps_def hidden_def)
  moreover have "keeps ?s ?w" by (rule keeps_with_peer) simp
  ultimately have "keeps a ?w" by (rule keeps_trans)
  then show ?thesis by (simp add: closing_def Let_def keeps_def hidden_def)
qed

lemma keeps_on_closed: "keeps a (on_closed i l cause a)"
proof -
  have "keeps a (if \<not> open_label a l then forget l (closing i l cause a) else closing i l cause a)"
    using keeps_trans[OF keeps_closing keeps_forget] keeps_closing by simp
  with on_closed_closing[of i l cause a] show ?thesis by (auto simp: Let_def)
qed

lemma keeps_on_net_event: "keeps a (on_net_event now h ev a)"
proof (cases ev)
  case (Opened i r out)
  then show ?thesis by (simp add: on_net_event_def keeps_on_opened)
next
  case (DialFailed addr e)
  then show ?thesis by (simp add: on_net_event_def)
next
  case (ListenerStopped addr e)
  then show ?thesis by (simp add: on_net_event_def keeps_same)
next
  case (Conn i ce)
  show ?thesis unfolding Conn on_net_event_def net_event.case on_conn_event_def
    by (cases ce) (simp_all add: Let_def keeps_on_sas_required keeps_on_message keeps_on_data_rejected keeps_on_closed
        keeps_with_peer keeps_note split: option.split)
qed

section \<open>Keys\<close>

lemma keeps_with_view: "keeps a (with_view f a)"
  by (simp add: with_view_def keeps_def hidden_def split: mode.split)

lemma keeps_leave_chat: "keeps a (leave_chat a)"
proof -
  let ?b = "a\<lparr>ap_terminal := False, ap_mode := Repl\<rparr>"
  have b: "keeps a ?b" by (simp add: keeps_def hidden_def)
  then have "keeps a (forget l ?b)" for l using keeps_forget keeps_trans by blast
  with b show ?thesis by (simp add: leave_chat_def Let_def split: mode.split option.split)
qed

lemma keeps_try_enter_chat: "keeps a (snd (try_enter_chat terminal draw l a))"
  by (auto simp: try_enter_chat_def Let_def keeps_touched split: sum.split)

lemma keeps_open_chat: "keeps a (open_chat E l a)"
proof -
  have opened: "keeps a b" if "try_enter_chat t d target a = (r, b)" for t d target r b
    using keeps_try_enter_chat[of a t d target] that by simp
  show ?thesis
    by (auto simp: open_chat_def Let_def dest: opened split: option.split prod.split sum.split)
qed

lemma keeps_chat_send: "keeps a (chat_send view a)"
proof -
  let ?t = "trim (cv_input view)" and ?l = "cv_label view"
  define b where "b = with_view (\<lambda>v. v\<lparr>cv_input := []\<rparr>) a"
  define c where "c = (if ?t \<noteq> [] then (case send_text ?l ?t b of
      (Inl e, a) \<Rightarrow> with_peer ?l (add_note ASystem (lit ''not sent: '' @ e)) a | (Inr _, a) \<Rightarrow> a) else b)"
  have "keeps b (snd (send_text ?l ?t b))" by (rule keeps_send_text)
  then have "keeps b c" unfolding c_def
    by (cases "send_text ?l ?t b"; cases "fst (send_text ?l ?t b)") (auto intro: keeps_trans keeps_note)
  moreover have "keeps a b" unfolding b_def by (rule keeps_with_view)
  ultimately have "keeps a (with_view (\<lambda>v. v\<lparr>cv_scroll := 0\<rparr>) c)" using keeps_with_view keeps_trans by blast
  then show ?thesis unfolding chat_send_def Let_def c_def b_def .
qed

lemma keeps_chat_rekey: "keeps a (chat_rekey view a)"
  using keeps_request_rekey[of a "cv_label view"]
  by (cases "request_rekey (cv_label view) a"; cases "fst (request_rekey (cv_label view) a)")
    (auto simp: chat_rekey_def intro: keeps_trans keeps_note)

lemma keeps_type_sas: "keeps a (type_sas f a)"
  by (simp add: type_sas_def keeps_def hidden_def split: list.split)

lemma keeps_sas_keys: "keeps a (repl_sas_key key a)" "keeps a (chat_sas_key key a)"
  by (cases "ke_code key"; simp add: repl_sas_key_def chat_sas_key_def keeps_answer_sas keeps_type_sas)+

lemma keeps_chat_key: "keeps a (chat_key key a)"
  unfolding chat_key_def
  by (auto simp: keeps_sas_keys keeps_leave_chat keeps_chat_send keeps_chat_rekey keeps_with_view
      split: mode.split option.split)

lemma keeps_execute_profile: "keeps (fst s) (fst (execute_profile E c s))"
proof -
  have "ap_touched (fst (snd (profile_open X K native fresh name create s))) = ap_touched (fst s)"
    for X K native fresh name create
    by (simp add: profile_open_def install_identity_def Let_def split: sum.split prod.split)
  then have opened: "keeps (fst s) a" if "profile_open X K native fresh name create s = (r, a, k)"
    for X K native fresh name create r a k
    using profile_open_core[of X K native fresh name create s] that keeps_after[of a "fst s" "fst s"]
    by (metis fst_conv keeps_refl snd_conv)
  show ?thesis
    by (cases c) (auto simp: execute_profile_def profile_init_def profile_use_def dest: opened split: prod.split)
qed

lemma keeps_listening: "keeps a (snd (app_start bound a))" "keeps a (snd (app_stop a))" "keeps a (snd (app_dial addr a))"
  by (simp_all add: app_start_def app_stop_def app_dial_def keeps_same split: sum.split option.split)

lemma keeps_dispatch_command: "keeps a (fst (dispatch_command E c (a, k)))"
proof (cases c)
  case (Message l t)
  show ?thesis using keeps_send_text[of a l t]
    by (cases "send_text l t a"; cases "fst (send_text l t a)") (simp_all add: dispatch_command_def Message)
next
  case (Profile p)
  then show ?thesis using keeps_execute_profile[of "(a, k)" E p] by (simp add: dispatch_command_def)
next
  case (StartCmd addr)
  have started: "keeps a b" if "app_start bound a = (r, b)" for bound r b
    using keeps_listening(1)[of a bound] that by simp
  show ?thesis
    by (auto simp: dispatch_command_def StartCmd start_listening_def Let_def dest: started split: prod.split sum.split)
next
  case Quit
  then show ?thesis by (simp add: dispatch_command_def keeps_same)
qed (simp_all add: dispatch_command_def keeps_open_chat keeps_use_target keeps_close_session keeps_request_rekey
      keeps_listening)

lemma keeps_entered: "keeps a (fst (dispatch E line (a\<lparr>ap_input := t\<rparr>, k)))"
proof -
  have "keeps (a\<lparr>ap_input := t\<rparr>) (fst (dispatch E line (a\<lparr>ap_input := t\<rparr>, k)))"
    by (simp add: dispatch_def keeps_dispatch_command split: sum.split)
  moreover have "keeps a (a\<lparr>ap_input := t\<rparr>)" by (simp add: keeps_same)
  ultimately show ?thesis using keeps_trans by blast
qed

lemma keeps_repl_key: "keeps a (fst (repl_key E key (a, k)))"
proof (cases "ap_sas a = []")
  case False
  have "keeps a (a\<lparr>ap_quit := True\<rparr>)" by (simp add: keeps_same)
  with False show ?thesis by (simp add: repl_key_def keeps_sas_keys)
next
  case empty: True
  show ?thesis
  proof (cases "ke_control key \<and> (ke_code key = CodeChar 99 \<or> ke_code key = CodeChar 100)")
    case True
    then have "fst (repl_key E key (a, k)) = a\<lparr>ap_quit := True\<rparr>" by (simp add: repl_key_def)
    then show ?thesis by (simp add: keeps_same)
  next
    case other: False
    show ?thesis
    proof (cases "ke_code key")
      case CodeEnter
      have "keeps a (fst (if trim (ap_input a) \<noteq> [] then dispatch E (trim (ap_input a)) (a\<lparr>ap_input := []\<rparr>, k)
          else (a\<lparr>ap_input := []\<rparr>, k)))"
        by (simp add: keeps_entered keeps_same)
      then show ?thesis
        by (simp only: repl_key_def Let_def prod.case empty other CodeEnter key_code.case) (simp add: empty)
    next
      case (CodeChar c)
      have "fst (repl_key E key (a, k)) = a \<or> fst (repl_key E key (a, k)) = a\<lparr>ap_input := ap_input a @ [c]\<rparr>"
        using other empty by (auto simp: repl_key_def CodeChar)
      then show ?thesis using keeps_same[of "a\<lparr>ap_input := ap_input a @ [c]\<rparr>" a] by auto
    qed (simp_all add: repl_key_def empty keeps_same)
  qed
qed

section \<open>Turns\<close>

lemma keeps_drained: "keeps a (drained f a)"
  by (auto simp: keeps_def hidden_def drained_def map_of_map_values)

lemma keeps_step: "app_step E s s' \<Longrightarrow> keeps (fst s) (fst s')"
proof (induction rule: app_step.induct)
  case (pressed s key)
  then show ?case
    by (cases s) (simp add: on_key_def keeps_chat_key keeps_repl_key split: mode.split)
qed (simp_all add: keeps_on_net_event keeps_with_view keeps_drained)

lemma keeps_run: "app_run E s s' \<Longrightarrow> keeps (fst s) (fst s')"
  unfolding app_run_def
proof (induction rule: rtranclp_induct)
  case (step m s')
  then show ?case using keeps_step keeps_trans by blast
qed simp

section \<open>Shutting down\<close>

lemma await_closed_fields [simp]:
  "ap_touched (await_closed evs a) = ap_touched a" "ap_listener (await_closed evs a) = ap_listener a"
  "ap_net_rx (await_closed evs a) = ap_net_rx a" "ap_wiped (await_closed evs a) = ap_wiped a"
  by (induction evs a rule: await_closed.induct)
    (auto simp: with_peer_def set_peer_def split: net_event.split conn_event.split option.split)

lemma app_stop_listener [simp]: "ap_listener (snd (app_stop a)) = None" "ap_touched (snd (app_stop a)) = ap_touched a"
  "ap_net_rx (snd (app_stop a)) = ap_net_rx a" "ap_peers (snd (app_stop a)) = ap_peers a"
  by (simp_all add: app_stop_def split: option.split)

lemma shutdown_clears:
  "ap_peers (shutdown evs a) = []" "ap_by_id (shutdown evs a) = []" "ap_sas (shutdown evs a) = []"
  "ap_input (shutdown evs a) = []" "ap_mode (shutdown evs a) = Repl" "ap_listener (shutdown evs a) = None"
  "\<not> ap_net_rx (shutdown evs a)"
  by (simp_all add: shutdown_def Let_def close_all_def)

lemma shutdown_wipes: "ap_touched a \<Longrightarrow> ap_wiped (shutdown evs a)"
  by (simp add: shutdown_def Let_def close_all_def)

text \<open>Every connection whose queue has room is told to close, with the reason of a shutdown.\<close>

lemma close_all_tells:
  assumes "map_of (ap_peers a) l = Some p" "\<not> hd_gone (pr_handle p)" "length (hd_control (pr_handle p)) < CONTROL_QUEUE"
  shows "\<exists>p'. map_of (ap_peers (close_all a)) l = Some p' \<and> ControlClose RShutdown \<in> set (hd_control (pr_handle p'))"
  using assms by (simp add: close_all_def map_of_map_values handle_close_def send_control_def try_send_def)

lemma app_new_keeps: "keeps (app_new c) a \<Longrightarrow> \<not> hidden a \<Longrightarrow> ap_touched a"
  by (auto simp: keeps_def hidden_def app_new_def)

lemma run_then_run_touched:
  assumes "app_run E s m" "app_run E m s'" "hidden (fst s)" "\<not> hidden (fst m)"
  shows "ap_touched (fst s')"
  using keeps_run[OF assms(1)] keeps_run[OF assms(2)] assms(3,4) by (auto simp: keeps_def)

lemma hidden_core: "same_core a b \<Longrightarrow> hidden a \<longleftrightarrow> hidden b"
  by (simp add: hidden_def same_core_def)

lemma hidden_new [simp]: "hidden (app_new c)"
  by (simp add: hidden_def app_new_def)

end
