(* ===== verification/Startup.thy ===== *)
theory Startup
  imports App_Turns
begin

text \<open>
  Starting the program, \<^verbatim>\<open>ruxmsg-cli/src/main.rs\<close>, with what it needs of
  \<^verbatim>\<open>hardening.rs\<close>, and the Tailscale commands of \<^verbatim>\<open>tailscale.rs\<close>, which print and change
  nothing. Parsing of arguments, system calls and other programs are arguments: their outcomes.
\<close>

section \<open>hardening.rs\<close>

datatype platform = Linux | OtherUnix | Windows | OtherPlatform

definition harden :: "platform \<Rightarrow> bool \<Rightarrow> bool \<Rightarrow> ustr list" where
  "harden platform core_limit_set dumpable_cleared =
     (case platform of
        Windows \<Rightarrow>
          [lit ''Windows does not expose an application-controlled equivalent to Linux non-dumpable mode; crash-dump/inspection hardening is unavailable'']
      | OtherPlatform \<Rightarrow> []
      | OtherUnix \<Rightarrow> if \<not> core_limit_set then [lit ''could not disable core dumps''] else []
      | Linux \<Rightarrow>
          (if \<not> core_limit_set then [lit ''could not disable core dumps''] else []) @
          (if \<not> dumpable_cleared then [lit ''could not mark the process non-dumpable''] else []))"

section \<open>main.rs\<close>

text \<open>
  The configuration and the error to warn about. \<open>read\<close> opens a path; the path is that of the
  argument, else the default one.
\<close>

definition startup_config ::
  "(ustr \<Rightarrow> nat option + raw_config) \<Rightarrow> nat \<Rightarrow> (ustr \<Rightarrow> open_result) \<Rightarrow> ustr option \<Rightarrow> ustr option \<Rightarrow> config \<times> config_error option" where
  "startup_config toml uid read arg_path standard =
     (case (case arg_path of Some p \<Rightarrow> Some p | None \<Rightarrow> standard) of
        None \<Rightarrow> (config_default, None)
      | Some p \<Rightarrow>
          (case load_from toml uid (read p) of
             Inr c \<Rightarrow> (c, None)
           | Inl e \<Rightarrow> (config_default, Some e)))"

definition warning :: "ustr \<Rightarrow> ustr" where
  "warning t = lit ''warning: '' @ t"

text \<open>
  The state the main loop starts from, and the lines printed before it between the banner and the
  help text.
\<close>

definition startup ::
  "'k shell \<Rightarrow> ustr list \<Rightarrow> config \<times> config_error option \<Rightarrow> ustr option \<Rightarrow> 'k \<Rightarrow> (app \<times> 'k) \<times> ustr list" where
  "startup E warnings config profile k =
     (let a = app_new (fst config);
          printed = map warning warnings @
            (case snd config of
               None \<Rightarrow> []
             | Some e \<Rightarrow> [warning (lit ''configuration ignored, using defaults: '' @ config_error_text e)])
      in case profile of
           None \<Rightarrow> ((a, k), printed)
         | Some name \<Rightarrow>
             (case profile_use (sh_ext E) (sh_keyring E) (sh_native E) name (a, k) of
                (Inr f, a, k) \<Rightarrow>
                  ((a, k), printed @ [lit ''loaded profile '' @ quoted name @ lit '', fingerprint '' @ f])
              | (Inl e, a, k) \<Rightarrow>
                  ((a, k), printed @
                     [lit ''could not load profile '' @ quoted name @ lit '': '' @ e,
                      lit ''run `profile init '' @ name @ lit ''` first if it does not exist''])))"

section \<open>tailscale.rs\<close>

fun contains :: "ustr \<Rightarrow> ustr \<Rightarrow> bool" where
  "contains needle [] = (needle = [])"
| "contains needle (c # s) = (take (length needle) (c # s) = needle \<or> contains needle s)"

text \<open>How another program ended: not started, or with success or not, and what it wrote.\<close>

record process_output =
  po_success :: bool
  po_stdout :: bytes
  po_stderr :: bytes
  po_status :: ustr

definition tailscale_missing_message :: ustr where
  "tailscale_missing_message =
     lit ''tailscale not found on PATH '' @ [8212] @ lit '' install it from https://tailscale.com/download and try again''"

text \<open>A member of the JSON object, as it is searched for; 34 is the quotation mark.\<close>

definition backend_state :: "ustr \<Rightarrow> ustr" where
  "backend_state v = [34] @ lit ''BackendState'' @ [34] @ lit '':'' @ [34] @ v @ [34]"

definition tailscale_status :: "process_output option \<Rightarrow> ustr" where
  "tailscale_status r =
     (case r of
        None \<Rightarrow> tailscale_missing_message @ [10]
      | Some out \<Rightarrow>
          if po_success out then
            let t = filter (\<lambda>c. \<not> is_control c) (from_utf8_lossy (po_stdout out)) in
            (if contains (backend_state (lit ''Running'')) t then lit ''tailscale: running''
             else if contains (backend_state (lit ''NeedsLogin'')) t
             then lit ''tailscale: installed, not logged in '' @ [8212] @ lit '' run `tailscale up`''
             else lit ''tailscale: installed, not running'') @ [10]
          else lit ''tailscale status failed: '' @ sanitize_for_display (from_utf8_lossy (po_stderr out)) @ [10])"

definition tailscale_up :: "process_output option \<Rightarrow> ustr" where
  "tailscale_up r =
     (case r of
        None \<Rightarrow> tailscale_missing_message @ [10]
      | Some out \<Rightarrow>
          if po_success out then lit ''tailscale is up'' @ [10]
          else lit ''`tailscale up` exited with '' @ po_status out @ [10])"

definition tailscale_ip :: "process_output option \<Rightarrow> ustr" where
  "tailscale_ip r =
     (case r of
        None \<Rightarrow> tailscale_missing_message @ [10]
      | Some out \<Rightarrow>
          if po_success out then sanitize_for_display (from_utf8_lossy (po_stdout out))
          else lit ''tailscale ip failed: '' @ sanitize_for_display (from_utf8_lossy (po_stderr out)) @ [10])"

definition run_tailscale :: "tailscale_command \<Rightarrow> process_output option \<Rightarrow> ustr" where
  "run_tailscale c r =
     [10] @ (case c of TsStatus \<Rightarrow> tailscale_status r | TsUp \<Rightarrow> tailscale_up r | TsIp \<Rightarrow> tailscale_ip r)"

section \<open>Facts about starting\<close>

text \<open>The configuration in use is well formed, whatever the file holds.\<close>

lemma startup_config_ok: "config_ok (fst (startup_config toml uid read arg_path standard))"
  by (auto simp: startup_config_def config_default_ok load_from_ok split: option.split sum.split)

lemma startup_config_default:
  "snd (startup_config toml uid read arg_path standard) \<noteq> None \<Longrightarrow> fst (startup_config toml uid read arg_path standard) = config_default"
  by (auto simp: startup_config_def split: option.splits sum.splits)

lemma startup_core: "same_core (fst (fst (startup E warnings config profile k))) (app_new (fst config))"
proof (cases profile)
  case None
  then show ?thesis by (simp add: startup_def)
next
  case (Some name)
  obtain r a k' where r: "profile_use (sh_ext E) (sh_keyring E) (sh_native E) name (app_new (fst config), k) = (r, a, k')"
    by (metis prod_cases3)
  then have "same_core a (app_new (fst config))"
    using profile_open_core[of "sh_ext E" "sh_keyring E" "sh_native E" "[]" name False "(app_new (fst config), k)"]
    by (simp add: profile_use_def)
  with Some r show ?thesis by (simp add: startup_def Let_def split: sum.split)
qed

lemma startup_ok: "app_ok (fst (fst (startup E warnings config profile k)))"
  by (simp add: same_core_ok[OF startup_core] app_new_ok)

section \<open>Facts about the Tailscale commands\<close>

text \<open>
  \<^verbatim>\<open>tailscale status --json\<close> writes indented JSON, with a space behind the colon. The control
  characters are dropped before the search, the space is not, and the state is never recognised.
\<close>

lemma contains_Cons_skip: "needle \<noteq> [] \<Longrightarrow> hd needle \<noteq> c \<Longrightarrow> contains needle (c # s) \<longleftrightarrow> contains needle s"
  by (cases needle) auto

lemma tailscale_indented_unrecognised:
  assumes "po_success out"
    "po_stdout out = utf8 (lit ''{'' @ [10, 32, 32, 34] @ lit ''BackendState'' @ [34, 58, 32, 34] @ lit ''Running'' @ [34, 10] @ lit ''}'')"
  shows "tailscale_status (Some out) = lit ''tailscale: installed, not running'' @ [10]"
proof -
  let ?s = "lit ''{'' @ [10, 32, 32, 34] @ lit ''BackendState'' @ [34, 58, 32, 34] @ lit ''Running'' @ [34, 10] @ lit ''}''"
  have "from_utf8_lossy (po_stdout out) = ?s"
    unfolding assms(2) by (rule from_utf8_lossy_utf8) (simp add: lit_def scalar_value_def)
  then show ?thesis using assms(1)
    by (simp add: tailscale_status_def Let_def lit_def is_control_def backend_state_def)
qed

end
