(* ===== verification/Screen.thy ===== *)
theory Screen
  imports App_Turns
begin

text \<open>
  Drawing a conversation, \<^verbatim>\<open>ruxmsg-cli/src/tui.rs\<close> below the keys, and the prompt line of
  \<^verbatim>\<open>repl.rs\<close>. A drawing is the list of requests to the terminal library, in their order. How the
  library splits an area, the area inside a border and the columns of a character are the parameter
  \<open>screen_lib\<close>. A \<^verbatim>\<open>u16\<close> is a number, with the saturation of the code written out; the
  non-ASCII characters of the texts are 8212, the em dash, and 183, the middle dot.
\<close>

section \<open>Requests\<close>

record rect =
  rc_x :: nat
  rc_y :: nat
  rc_width :: nat
  rc_height :: nat

record span =
  sp_text :: ustr
  sp_color :: "tcolor option"
  sp_bold :: bool

datatype alignment = AlignLeft | AlignCenter | AlignRight

record line =
  li_spans :: "span list"
  li_alignment :: alignment

text \<open>A block has all four borders.\<close>

record block =
  bl_type :: border_type
  bl_color :: tcolor
  bl_titles :: "line list"

text \<open>\<open>Wrap\<close> carries whether a paragraph is wrapped, and then whether it is trimmed.\<close>

datatype draw =
    DrawParagraph "line list" "bool option" "block option" rect
  | DrawBlock block rect
  | DrawClear rect
  | DrawCursor nat nat

datatype extent = ExactLength nat | AtLeast nat

record screen_lib =
  sl_vertical :: "extent list \<Rightarrow> rect \<Rightarrow> rect list"
  sl_inner :: "rect \<Rightarrow> rect"
  sl_width :: "nat \<Rightarrow> nat"

definition raw :: "ustr \<Rightarrow> span" where
  "raw t = \<lparr>sp_text = t, sp_color = None, sp_bold = False\<rparr>"

definition styled :: "tcolor \<Rightarrow> bool \<Rightarrow> ustr \<Rightarrow> span" where
  "styled c bold t = \<lparr>sp_text = t, sp_color = Some c, sp_bold = bold\<rparr>"

definition line_of_spans :: "span list \<Rightarrow> line" where
  "line_of_spans ss = \<lparr>li_spans = ss, li_alignment = AlignLeft\<rparr>"

definition text_line :: "ustr \<Rightarrow> line" where
  "text_line t = line_of_spans [raw t]"

definition bordered :: "theme \<Rightarrow> tcolor \<Rightarrow> line list \<Rightarrow> block" where
  "bordered theme c titles = \<lparr>bl_type = tm_border_type theme, bl_color = c, bl_titles = titles\<rparr>"

section \<open>Geometry\<close>

definition MIN_WIDTH :: nat where "MIN_WIDTH = 30"
definition MIN_HEIGHT :: nat where "MIN_HEIGHT = 14"
definition GUTTER :: ustr where "GUTTER = lit ''      ''"

definition centered :: "rect \<Rightarrow> nat \<Rightarrow> nat \<Rightarrow> rect" where
  "centered area width height =
     (let width = min width (rc_width area); height = min height (rc_height area) in
      \<lparr>rc_x = rc_x area + (rc_width area - width) div 2, rc_y = rc_y area + (rc_height area - height) div 2,
       rc_width = width, rc_height = height\<rparr>)"

section \<open>The header\<close>

definition fingerprint_line :: "peer \<Rightarrow> ustr" where
  "fingerprint_line p =
     (case pr_fingerprint p of
        Some f \<Rightarrow> lit ''peer key  '' @ grouped f
      | None \<Rightarrow> lit ''peer key  (handshake in progress)'')"

definition div_ceil :: "nat \<Rightarrow> nat \<Rightarrow> nat" where
  "div_ceil n d = (n + d - 1) div d"

definition header_height :: "peer \<Rightarrow> rect \<Rightarrow> nat" where
  "header_height p area =
     (let inner = max (rc_width area - 2) 1; rows = div_ceil (length (fingerprint_line p)) inner in
      min (min ((if rows < 65536 then rows else 2) + 3) 65535) (rc_height area div 3))"

definition state_span :: "theme \<Rightarrow> peer \<Rightarrow> span" where
  "state_span theme p =
     (case pr_status p of
        PsClosed \<Rightarrow>
          styled (tm_warning theme) True
            (lit ''CLOSED '' @ [8212, 32] @ (case pr_close_note p of Some n \<Rightarrow> n | None \<Rightarrow> lit ''ended''))
      | PsHandshaking \<Rightarrow> styled (tm_warning theme) True (lit ''UNVERIFIED'')
      | PsConnected \<Rightarrow>
          if pr_rekeying p then styled (tm_system theme) False (lit ''ACTIVE '' @ [183] @ lit '' rekeying'')
          else styled (tm_local theme) False (lit ''ACTIVE''))"

definition draw_header :: "theme \<Rightarrow> rect \<Rightarrow> chat_view \<Rightarrow> peer \<Rightarrow> draw list" where
  "draw_header theme area view p =
     [DrawParagraph
        [line_of_spans
           [state_span theme p,
            styled (tm_dim theme) False (lit ''  '' @ [183] @ lit ''  '' @ direction_text (pr_outbound p)),
            styled (tm_dim theme) False (lit ''  '' @ [183] @ lit ''  '' @ pr_remote p)],
         line_of_spans [styled (tm_dim theme) False (fingerprint_line p)]]
        (Some False)
        (Some (bordered theme (tm_border theme)
           [line_of_spans [styled (tm_accent theme) True (lit '' RUXMSG '' @ [183, 32] @ cv_label view @ lit '' '')]]))
        area]"

section \<open>The messages\<close>

definition tag :: "entry \<Rightarrow> theme \<Rightarrow> ustr \<times> tcolor" where
  "tag e theme =
     (case e_author e of
        ALocal \<Rightarrow> (lit ''you   '', tm_local theme)
      | ARemote \<Rightarrow> (lit ''peer  '', tm_remote theme)
      | ASystem \<Rightarrow> (lit ''*     '', tm_system theme))"

text \<open>The rows of an entry, the first behind its tag and the others behind the gutter.\<close>

definition entry_rows :: "(nat \<Rightarrow> nat) \<Rightarrow> theme \<Rightarrow> nat \<Rightarrow> entry \<Rightarrow> line list" where
  "entry_rows w theme text_width e =
     (let (tag, c) = tag e theme in
      map (\<lambda>(index, row). line_of_spans [styled c False (if index = 0 then tag else GUTTER), raw row])
        (enumerate 0 (wrap w (e_text e) text_width)))"

definition message_rows :: "(nat \<Rightarrow> nat) \<Rightarrow> theme \<Rightarrow> nat \<Rightarrow> peer \<Rightarrow> line list" where
  "message_rows w theme text_width p = concat (map (entry_rows w theme text_width) (sb_entries (pr_scrollback p)))"

text \<open>How far the rows scroll, and the rows shown at a scroll position, with the position used.\<close>

definition max_scroll :: "'a list \<Rightarrow> nat \<Rightarrow> nat" where
  "max_scroll rows height = length rows - height"

definition shown_rows :: "'a list \<Rightarrow> nat \<Rightarrow> nat \<Rightarrow> nat \<times> 'a list" where
  "shown_rows rows height scroll =
     (let scroll = min scroll (max_scroll rows height);
          end_row = length rows - scroll;
          start = end_row - height
      in (scroll, drop start (take end_row rows)))"

definition rows_of :: "screen_lib \<Rightarrow> theme \<Rightarrow> rect \<Rightarrow> peer \<Rightarrow> line list" where
  "rows_of L theme area p = message_rows (sl_width L) theme (rc_width (sl_inner L area) - length GUTTER) p"

definition draw_messages :: "screen_lib \<Rightarrow> theme \<Rightarrow> rect \<Rightarrow> chat_view \<Rightarrow> peer \<Rightarrow> draw list" where
  "draw_messages L theme area view p =
     (let inner = sl_inner L area;
          (scroll, rows) = shown_rows (rows_of L theme area p) (rc_height inner) (cv_scroll view);
          title = (if scroll > 0 then lit '' Messages '' @ [183, 32] @ dec scroll @ lit '' rows up '' else lit '' Messages '')
      in [DrawBlock (bordered theme (tm_border theme) [text_line title]) area, DrawParagraph rows None None inner])"

section \<open>The input\<close>

text \<open>
  The loop over the characters from the last: those that fit the columns, in reverse, and the columns
  they use.
\<close>

fun fitting :: "(nat \<Rightarrow> nat) \<Rightarrow> nat \<Rightarrow> ustr \<Rightarrow> nat \<Rightarrow> ustr \<times> nat" where
  "fitting w capacity [] used = ([], used)"
| "fitting w capacity (c # s) used =
     (if used + w c > capacity then ([], used)
      else let (t, n) = fitting w capacity s (used + w c) in (c # t, n))"

definition input_tail :: "(nat \<Rightarrow> nat) \<Rightarrow> nat \<Rightarrow> ustr \<Rightarrow> ustr \<times> nat" where
  "input_tail w capacity input = (let (t, used) = fitting w capacity (rev input) 0 in (rev t, used))"

definition u16_or_0 :: "nat \<Rightarrow> nat" where
  "u16_or_0 n = (if n < 65536 then n else 0)"

definition draw_input :: "screen_lib \<Rightarrow> theme \<Rightarrow> rect \<Rightarrow> chat_view \<Rightarrow> app \<Rightarrow> draw list" where
  "draw_input L theme area view a =
     (let inner = sl_inner L area;
          (shown, used) = input_tail (sl_width L) (rc_width inner - 1) (cv_input view);
          count = (text_line (lit '' '' @ dec (str_len (cv_input view)) @ lit ''/'' @ dec MAX_CONTENT @ lit '' ''))
            \<lparr>li_alignment := AlignRight\<rparr>
      in [DrawBlock (bordered theme (tm_border theme) [text_line (lit '' Message ''), count]) area,
          DrawParagraph [text_line shown] None None inner] @
         (if ap_sas a = [] then [DrawCursor (rc_x inner + u16_or_0 used) (rc_y inner)] else []))"

section \<open>The status line\<close>

fun join_with :: "ustr \<Rightarrow> ustr list \<Rightarrow> ustr" where
  "join_with sep [] = []"
| "join_with sep [t] = t"
| "join_with sep (t # ts) = t @ sep @ join_with sep ts"

text \<open>The other conversations with unread messages, in the order of their labels.\<close>

definition unread_others :: "chat_view \<Rightarrow> app \<Rightarrow> ustr list" where
  "unread_others view a =
     map (\<lambda>(label, p). label @ lit '' +'' @ dec (pr_unread p))
       (take 3 (filter (\<lambda>(label, p). label \<noteq> cv_label view \<and> pr_unread p > 0) (sort_key fst (ap_peers a))))"

definition status_line :: "chat_view \<Rightarrow> app \<Rightarrow> ustr" where
  "status_line view a =
     (let others = unread_others view a; dot = [32, 183, 32]; keys = ap_keys a in
      lit '' Enter send'' @ dot @ key_text (km_leave keys) @ lit '' REPL'' @ dot @ key_text (km_rekey keys) @
      lit '' rekey'' @ dot @ key_text (km_page_up keys) @ lit ''/'' @ key_text (km_page_down keys) @ lit '' scroll'' @
      (if others \<noteq> [] then dot @ lit ''new: '' @ join_with (lit '', '') others else []))"

text \<open>The style of the whole paragraph is put on its only span.\<close>

definition draw_status :: "theme \<Rightarrow> rect \<Rightarrow> chat_view \<Rightarrow> app \<Rightarrow> draw list" where
  "draw_status theme area view a =
     [DrawParagraph [line_of_spans [styled (tm_dim theme) False (status_line view a)]] None None area]"

section \<open>The verification\<close>

text \<open>The clock counts nanoseconds.\<close>

definition remaining_secs :: "nat \<Rightarrow> pending_sas \<Rightarrow> nat" where
  "remaining_secs now q = SAS_DECISION_TIMEOUT_SECS - (now - ps_since q) div 1000000000"

definition sas_lines :: "nat \<Rightarrow> theme \<Rightarrow> pending_sas \<Rightarrow> line list" where
  "sas_lines now theme q =
     [text_line (ps_label q @ lit '' ('' @ direction_text (ps_outbound q) @ lit '') '' @ [183, 32] @
        dec (remaining_secs now q) @ lit '' s left''),
      text_line [],
      (line_of_spans [styled (tm_accent theme) True
        (lit (ps_words q ! 0) @ lit ''  '' @ lit (ps_words q ! 1) @ lit ''  '' @ lit (ps_words q ! 2))])
        \<lparr>li_alignment := AlignCenter\<rparr>,
      text_line [],
      text_line (lit ''Peer key (claimed until you approve):''),
      line_of_spans [styled (tm_dim theme) False (grouped (ps_fingerprint q))],
      text_line [],
      text_line (lit ''Compare the three words with your peer over a separate channel''),
      text_line (lit ''(voice, in person). Do not approve if they differ.''),
      text_line [],
      text_line (lit ''Type yes and press Enter to approve.''),
      text_line (lit ''Anything else, or Esc, rejects.'')]"

definition draw_sas :: "screen_lib \<Rightarrow> nat \<Rightarrow> theme \<Rightarrow> rect \<Rightarrow> pending_sas \<Rightarrow> draw list" where
  "draw_sas L now theme area q =
     (let modal = centered area 72 17;
          title = line_of_spans [styled (tm_warning theme) True
            (lit '' VERIFY CONNECTION '' @ [8212] @ lit '' Short Authentication String '')];
          areas = sl_vertical L [AtLeast 1, ExactLength 1] (sl_inner L modal);
          text_area = areas ! 0; input_area = areas ! 1;
          prompt = lit ''> ''
      in [DrawClear modal,
          DrawBlock (bordered theme (tm_warning theme) [title]) modal,
          DrawParagraph (sas_lines now theme q) (Some False) None text_area,
          DrawParagraph [text_line (prompt @ ps_typed q)] None None input_area,
          DrawCursor (rc_x input_area + u16_or_0 (length prompt + length (ps_typed q))) (rc_y input_area)])"

section \<open>The whole screen\<close>

definition too_small :: ustr where
  "too_small = lit ''terminal too small (need '' @ dec MIN_WIDTH @ lit ''x'' @ dec MIN_HEIGHT @ lit '')''"

text \<open>The areas of header, messages, input and status.\<close>

definition chat_areas :: "screen_lib \<Rightarrow> peer \<Rightarrow> rect \<Rightarrow> rect list" where
  "chat_areas L p area =
     sl_vertical L [ExactLength (header_height p area), AtLeast 3, ExactLength 3, ExactLength 1] area"

definition draw_chat :: "screen_lib \<Rightarrow> nat \<Rightarrow> rect \<Rightarrow> app \<Rightarrow> draw list" where
  "draw_chat L now area a =
     (case ap_mode a of
        Repl \<Rightarrow> []
      | Chat view \<Rightarrow>
          (case map_of (ap_peers a) (cv_label view) of
             None \<Rightarrow> []
           | Some p \<Rightarrow>
               if rc_width area < MIN_WIDTH \<or> rc_height area < MIN_HEIGHT
               then [DrawParagraph [text_line too_small] (Some True) None area]
               else
                 let areas = chat_areas L p area; theme = ap_theme a in
                 draw_header theme (areas ! 0) view p @
                 draw_messages L theme (areas ! 1) view p @
                 draw_input L theme (areas ! 2) view a @
                 draw_status theme (areas ! 3) view a @
                 (case ap_sas a of [] \<Rightarrow> [] | q # _ \<Rightarrow> draw_sas L now theme area q)))"

text \<open>
  \<^verbatim>\<open>redraw_chat\<close>: the requests, and the state with the new bound of the scroll position, which
  \<^verbatim>\<open>draw_messages\<close> leaves in the view.
\<close>

definition redraw_chat :: "screen_lib \<Rightarrow> nat \<Rightarrow> rect \<Rightarrow> app \<Rightarrow> draw list \<times> app" where
  "redraw_chat L now area a =
     (case ap_mode a of
        Repl \<Rightarrow> ([], a)
      | Chat view \<Rightarrow>
          if \<not> ap_terminal a then ([], a)
          else
            (draw_chat L now area a,
             (case map_of (ap_peers a) (cv_label view) of
                None \<Rightarrow> a
              | Some p \<Rightarrow>
                  if rc_width area < MIN_WIDTH \<or> rc_height area < MIN_HEIGHT then a
                  else
                    let body = chat_areas L p area ! 1;
                        m = max_scroll (rows_of L (ap_theme a) body p) (rc_height (sl_inner L body))
                    in with_view (\<lambda>v. v\<lparr>cv_max_scroll := m\<rparr>) a)))"

section \<open>The prompt\<close>

definition prompt_text :: "app \<Rightarrow> ustr" where
  "prompt_text a = (case ap_sas a of q # _ \<Rightarrow> lit ''sas['' @ ps_label q @ lit '']> '' | [] \<Rightarrow> lit ''ruxmsg> '')"

text \<open>What \<^verbatim>\<open>redraw_prompt\<close> writes behind the control sequence that clears the row.\<close>

definition redraw_prompt :: "nat \<Rightarrow> app \<Rightarrow> ustr option" where
  "redraw_prompt cols a =
     (case ap_mode a of
        Chat _ \<Rightarrow> None
      | Repl \<Rightarrow>
          let line = (case ap_sas a of q # _ \<Rightarrow> ps_typed q | [] \<Rightarrow> ap_input a);
              prompt = prompt_text a;
              max_len = cols - str_len prompt - 1;
              display_line = (if length line > max_len then drop (length line - max_len) line else line)
          in Some (prompt @ display_line))"

end
