(* ===== verification/Screen_Props.thy ===== *)
theory Screen_Props
  imports Screen
begin

text \<open>
  What the drawing shows: wrapping loses nothing and keeps to the columns, the rows shown fill the
  height and every row can be reached by scrolling, the input shows the longest tail that fits, a
  pending verification lies on top, and text from a peer is drawn in its safe form.
\<close>

section \<open>Wrapping\<close>

definition columns :: "(nat \<Rightarrow> nat) \<Rightarrow> ustr \<Rightarrow> nat" where
  "columns w s = (\<Sum>c\<leftarrow>s. w c)"

lemma columns_simps [simp]: "columns w [] = 0" "columns w (c # s) = w c + columns w s"
  "columns w (s @ t) = columns w s + columns w t" "columns w (rev s) = columns w s"
  by (simp_all add: columns_def rev_map[symmetric] sum_list_rev)

lemma concat_wrap_line: "concat (wrap_line w width s row used) = row @ s"
  by (induction w width s row used rule: wrap_line.induct) simp_all

lemma wrap_line_columns:
  assumes "\<forall>c \<in> set s. w c \<le> width" "used = columns w row" "used \<le> width"
  shows "\<forall>r \<in> set (wrap_line w width s row used). columns w r \<le> width"
  using assms
proof (induction w width s row used rule: wrap_line.induct)
  case (2 w width c s row used)
  show ?case
  proof (cases "used + w c > width \<and> row \<noteq> []")
    case True
    with 2(1)[OF True] 2(3-5) show ?thesis by simp
  next
    case False
    have "used + w c \<le> width"
    proof (cases "row = []")
      case True
      then show ?thesis using 2(3,4) by simp
    qed (use False in simp)
    with 2(2)[OF False] 2(3,4) have "\<forall>r \<in> set (wrap_line w width s (row @ [c]) (used + w c)). columns w r \<le> width"
      by simp
    moreover have "wrap_line w width (c # s) row used = wrap_line w width s (row @ [c]) (used + w c)"
      by (simp only: wrap_line.simps False if_False)
    ultimately show ?thesis by simp
  qed
qed simp

lemma concat_split_lines: "concat (split_lines s) = filter (\<lambda>c. c \<noteq> 10) s"
  by (induction s) (auto split: list.split)

lemma set_split_lines: "l \<in> set (split_lines s) \<Longrightarrow> set l \<subseteq> set s"
  using concat_split_lines[of s] by (metis filter_is_subset set_concat Sup_upper imageI order_trans)

lemma concat_wrap: "concat (wrap w t width) = filter (\<lambda>c. c \<noteq> 10) t"
proof -
  have "concat (concat (map (\<lambda>l. wrap_line w m l [] 0) ls)) = concat ls" for m ls
    by (induction ls) (simp_all add: concat_wrap_line)
  then show ?thesis by (simp add: wrap_def concat_split_lines)
qed

lemma wrap_columns:
  assumes "\<forall>c \<in> set t. w c \<le> max width 1" "r \<in> set (wrap w t width)"
  shows "columns w r \<le> max width 1"
proof -
  from assms(2) obtain l where l: "l \<in> set (split_lines t)" "r \<in> set (wrap_line w (max width 1) l [] 0)"
    by (auto simp: wrap_def)
  have "\<forall>c \<in> set l. w c \<le> max width 1" using assms(1) set_split_lines[OF l(1)] by blast
  from wrap_line_columns[OF this, of 0 "[]"] l(2) show ?thesis by simp
qed

lemma set_wrap: "r \<in> set (wrap w t width) \<Longrightarrow> set r \<subseteq> set t"
  using concat_wrap[of w t width] by (metis filter_is_subset set_concat Sup_upper imageI order_trans)

section \<open>The rows shown\<close>

lemma shown_rows_length: "length (snd (shown_rows rows height scroll)) = min height (length rows)"
  by (auto simp: shown_rows_def max_scroll_def Let_def)

lemma shown_rows_newest: "snd (shown_rows rows height 0) = drop (length rows - height) rows"
  by (simp add: shown_rows_def max_scroll_def Let_def)

lemma shown_rows_window:
  assumes "scroll \<le> max_scroll rows height"
  shows "shown_rows rows height scroll = (scroll, take height (drop (max_scroll rows height - scroll) rows))"
proof (cases "length rows \<le> height")
  case True
  then show ?thesis using assms by (simp add: shown_rows_def max_scroll_def)
next
  case False
  then have "length rows - scroll - height = length rows - height - scroll"
    "length rows - scroll - (length rows - height - scroll) = height"
    using assms by (simp_all add: max_scroll_def)
  then show ?thesis using assms
    by (simp add: shown_rows_def max_scroll_def Let_def drop_take min_absorb1)
qed

lemma every_row_shown:
  assumes "i < length rows" "0 < height"
  shows "\<exists>scroll \<le> max_scroll rows height. rows ! i \<in> set (snd (shown_rows rows height scroll))"
proof -
  let ?M = "max_scroll rows height"
  define top where "top = min i ?M"
  have top: "top \<le> ?M" "top \<le> i" "i < top + height" "i - top < length rows - top"
    using assms by (auto simp: top_def max_scroll_def)
  have "shown_rows rows height (?M - top) = (?M - top, take height (drop top rows))"
    using shown_rows_window[of "?M - top" rows height] top(1) by simp
  moreover have "rows ! i = take height (drop top rows) ! (i - top)" "i - top < length (take height (drop top rows))"
    using top by (simp_all add: nth_drop)
  ultimately show ?thesis by (intro exI[of _ "?M - top"]) (metis nth_mem snd_conv diff_le_self)
qed

section \<open>The input\<close>

lemma fitting_spec:
  "\<exists>rest. s = fst (fitting w capacity s used) @ rest \<and>
     snd (fitting w capacity s used) = used + columns w (fst (fitting w capacity s used)) \<and>
     (used \<le> capacity \<longrightarrow> snd (fitting w capacity s used) \<le> capacity) \<and>
     (rest \<noteq> [] \<longrightarrow> snd (fitting w capacity s used) + w (hd rest) > capacity)"
proof (induction s arbitrary: used)
  case Nil
  then show ?case by simp
next
  case (Cons c s)
  show ?case
  proof (cases "used + w c > capacity")
    case True
    then show ?thesis by (intro exI[of _ "c # s"]) simp
  next
    case False
    obtain t n where f: "fitting w capacity s (used + w c) = (t, n)" by fastforce
    with Cons[of "used + w c"] obtain rest where "s = t @ rest" "n = used + w c + columns w t"
      "used + w c \<le> capacity \<longrightarrow> n \<le> capacity" "rest \<noteq> [] \<longrightarrow> n + w (hd rest) > capacity" by auto
    with False f show ?thesis by (intro exI[of _ rest]) simp
  qed
qed

lemma input_tail_longest:
  obtains front where "input = front @ fst (input_tail w capacity input)"
    "snd (input_tail w capacity input) = columns w (fst (input_tail w capacity input))"
    "snd (input_tail w capacity input) \<le> capacity"
    "front \<noteq> [] \<longrightarrow> columns w (last front # fst (input_tail w capacity input)) > capacity"
proof -
  obtain t n where f: "fitting w capacity (rev input) 0 = (t, n)" by fastforce
  with fitting_spec[of "rev input" w capacity 0] obtain rest where rest: "rev input = t @ rest"
    "n = columns w t" "n \<le> capacity" "rest \<noteq> [] \<longrightarrow> n + w (hd rest) > capacity" by auto
  from rest(1) have "input = rev rest @ rev t" by (metis rev_append rev_rev_ident)
  moreover have "rev rest \<noteq> [] \<longrightarrow> last (rev rest) = hd rest" by (simp add: last_rev)
  ultimately show thesis using that[of "rev rest"] rest f by (simp add: input_tail_def add.commute)
qed

section \<open>Messages\<close>

definition row_texts :: "line list \<Rightarrow> ustr list" where
  "row_texts rows = map (\<lambda>ln. sp_text (li_spans ln ! 1)) rows"

lemma entry_row_texts: "row_texts (entry_rows w theme width e) = wrap w (e_text e) width"
proof -
  obtain t c where "tag e theme = (t, c)" by fastforce
  then show ?thesis
    by (simp add: row_texts_def entry_rows_def comp_def case_prod_beta line_of_spans_def raw_def)
qed

lemma entry_rows_whole: "concat (row_texts (entry_rows w theme width e)) = filter (\<lambda>c. c \<noteq> 10) (e_text e)"
  by (simp add: entry_row_texts concat_wrap)

lemma entry_rows_columns:
  assumes "\<forall>c \<in> set (e_text e). w c \<le> max width 1" "r \<in> set (row_texts (entry_rows w theme width e))"
  shows "columns w r \<le> max width 1"
  using wrap_columns assms by (simp add: entry_row_texts)

lemma entry_rows_safe:
  assumes "\<forall>c \<in> set (e_text e). \<not> unsafe_char c \<and> c \<noteq> 9" "r \<in> set (row_texts (entry_rows w theme width e))" "c \<in> set r"
  shows "\<not> is_control c \<and> \<not> unsafe_char c"
proof -
  have "c \<in> set (concat (row_texts (entry_rows w theme width e)))" using assms(2,3) by auto
  then have "c \<in> set (e_text e)" "c \<noteq> 10" by (simp_all add: entry_rows_whole)
  with assms(1) show ?thesis by (auto simp: unsafe_char_def)
qed

section \<open>The screen\<close>

text \<open>Redrawing changes how far the conversation scrolls, and nothing else: a turn of the main loop.\<close>

lemma redraw_chat_view:
  "snd (redraw_chat L now area a) = a \<or> (\<exists>m. snd (redraw_chat L now area a) = with_view (\<lambda>v. v\<lparr>cv_max_scroll := m\<rparr>) a)"
  by (auto simp: redraw_chat_def Let_def split: mode.split option.split)

lemma redraw_chat_step:
  "\<not> ap_quit a \<Longrightarrow> snd (redraw_chat L now area a) = a \<or> app_step E (a, k) (snd (redraw_chat L now area a), k)"
  using redraw_chat_view[of L now area a] app_step.redrawn by metis

lemma redraw_chat_ok: "app_ok a \<Longrightarrow> app_ok (snd (redraw_chat L now area a))"
  using redraw_chat_view[of L now area a] with_view_ok[of a] by auto

lemma sas_drawn_last:
  assumes "app_ok a" "ap_mode a = Chat view" "MIN_WIDTH \<le> rc_width area" "MIN_HEIGHT \<le> rc_height area" "ap_sas a = q # rest"
  shows "\<exists>before. fst (redraw_chat L now area a) = before @ draw_sas L now (ap_theme a) area q"
proof -
  have "map_of (ap_peers a) (cv_label view) \<noteq> None" "ap_terminal a"
    using assms(1,2) app_okD(4)[OF assms(1)] by (auto simp: view_ok_def app_ok_def)
  then obtain p where p: "map_of (ap_peers a) (cv_label view) = Some p" by blast
  have "draw_chat L now area a =
      (draw_header (ap_theme a) (chat_areas L p area ! 0) view p @
       draw_messages L (ap_theme a) (chat_areas L p area ! 1) view p @
       draw_input L (ap_theme a) (chat_areas L p area ! 2) view a @
       draw_status (ap_theme a) (chat_areas L p area ! 3) view a) @ draw_sas L now (ap_theme a) area q"
    using assms(2-5) p by (simp add: draw_chat_def Let_def)
  moreover have "fst (redraw_chat L now area a) = draw_chat L now area a"
    using assms(2) \<open>ap_terminal a\<close> by (simp add: redraw_chat_def)
  ultimately show ?thesis by metis
qed

lemma centered_within:
  "rc_x area \<le> rc_x (centered area w h)" "rc_y area \<le> rc_y (centered area w h)"
  "rc_x (centered area w h) + rc_width (centered area w h) \<le> rc_x area + rc_width area"
  "rc_y (centered area w h) + rc_height (centered area w h) \<le> rc_y area + rc_height area"
  by (auto simp: centered_def Let_def min_def)

text \<open>The window of a verification: where it is, and that it holds the words and the fingerprint.\<close>

lemma draw_sas_shows:
  "\<exists>lines text_area. hd (draw_sas L now theme area q) = DrawClear (centered area 72 17) \<and>
     DrawParagraph lines (Some False) None text_area \<in> set (draw_sas L now theme area q) \<and>
     [lit (ps_words q ! 0) @ lit ''  '' @ lit (ps_words q ! 1) @ lit ''  '' @ lit (ps_words q ! 2)]
       \<in> set (map (\<lambda>ln. map sp_text (li_spans ln)) lines) \<and>
     [grouped (ps_fingerprint q)] \<in> set (map (\<lambda>ln. map sp_text (li_spans ln)) lines)"
  by (rule exI[of _ "sas_lines now theme q"])
    (auto simp: draw_sas_def Let_def sas_lines_def text_line_def line_of_spans_def styled_def raw_def)

section \<open>The header\<close>

text \<open>The rows the fingerprint takes when it is cut at the border, and when the header has room for them.\<close>

definition fingerprint_rows :: "peer \<Rightarrow> rect \<Rightarrow> nat" where
  "fingerprint_rows p area = div_ceil (length (fingerprint_line p)) (max (rc_width area - 2) 1)"

lemma header_height_rows:
  "fingerprint_rows p area < 65533 \<Longrightarrow> header_height p area = min (fingerprint_rows p area + 3) (rc_height area div 3)"
  by (simp add: header_height_def fingerprint_rows_def Let_def)

lemma header_has_room:
  assumes "fingerprint_rows p area < 65533" "3 * (fingerprint_rows p area + 3) \<le> rc_height area"
  shows "header_height p area = fingerprint_rows p area + 3"
proof -
  have "fingerprint_rows p area + 3 \<le> rc_height area div 3" using assms(2) by (simp add: less_eq_div_iff_mult_less_eq)
  then show ?thesis using header_height_rows[OF assms(1)] by simp
qed

lemma length_group_from: "0 < i \<Longrightarrow> length (group_from i s) + (i - 1) div 8 = length s + (i + length s - 1) div 8"
proof (induction s arbitrary: i)
  case (Cons c s)
  have "i div 8 = (i - 1) div 8 + (if i mod 8 = 0 then 1 else 0)"
    using Cons.prems by (cases i) (simp_all add: div_Suc)
  with Cons.IH[of "i + 1"] Cons.prems show ?case by (auto split: if_splits)
qed simp

lemma length_grouped: "length (grouped s) = length s + (length s - 1) div 8"
proof (cases s)
  case (Cons c t)
  then show ?thesis using length_group_from[of 1 t] by (simp add: grouped_def)
qed (simp add: grouped_def)

text \<open>
  In the smallest terminal the program draws in, the header has two rows between its borders, one of
  them for the state: the fingerprint of a verified peer, of three rows, is cut after the first.
\<close>

lemma header_cuts_fingerprint:
  assumes "pr_fingerprint p = Some f" "length f = 64" "rc_width area = MIN_WIDTH" "rc_height area = MIN_HEIGHT"
  shows "fingerprint_rows p area = 3" "header_height p area = 4"
  using assms by (simp_all add: fingerprint_rows_def header_height_def fingerprint_line_def length_grouped div_ceil_def MIN_WIDTH_def
      MIN_HEIGHT_def Let_def)

end
