(* ===== verification/App_Demo.thy ===== *)
theory App_Demo
  imports App_Approval Startup Screen_Props Reference_Run
begin

text \<open>
  A short run of the application on concrete inputs: a connection opens, its words are shown, the
  user types yes and Enter. The properties of the application are applied to it.
\<close>

definition demo_shell :: "((ustr \<times> ustr) \<times> bytes) list shell" where
  "demo_shell = \<lparr>sh_ext = ref_ext, sh_keyring = ref_keyring, sh_native = True, sh_fresh = replicate 32 7,
     sh_bind = Inr, sh_unspecified = (\<lambda>_. False), sh_terminal = Inr (), sh_draw = Inr ()\<rparr>"

definition demo_handle :: connection_handle where
  "demo_handle = \<lparr>hd_id = 1, hd_messages = [], hd_control = [], hd_gone = False\<rparr>"

definition demo_key :: "key_code \<Rightarrow> key_event" where
  "demo_key c = \<lparr>ke_code = c, ke_control = False, ke_alt = False\<rparr>"

definition demo_peer :: peer where
  "demo_peer = \<lparr>pr_id = 1, pr_handle = demo_handle, pr_remote = lit ''there'', pr_outbound = True,
     pr_status = PsHandshaking, pr_fingerprint = Some (fingerprint [7]), pr_rekeying = False,
     pr_last_data_rejection_notice = None, pr_scrollback = scrollback_default, pr_unread = 0,
     pr_close_note = None\<rparr>"

definition demo_prompt :: "ustr \<Rightarrow> pending_sas" where
  "demo_prompt typed = \<lparr>ps_id = 1, ps_label = label_of 1, ps_words = [''word''], ps_fingerprint = fingerprint [7],
     ps_outbound = True, ps_since = 0, ps_typed = typed\<rparr>"

definition demo_opened :: app where
  "demo_opened = on_net_event 0 demo_handle (Opened 1 ''there'' True) (app_new config_default)"

definition demo_prompted :: app where
  "demo_prompted = on_net_event 0 demo_handle (Conn 1 (CSasRequired [''word''] [7])) demo_opened"

lemma demo_opened:
  "ap_peers demo_opened = [(label_of 1, demo_peer\<lparr>pr_fingerprint := None\<rparr>)]" "ap_by_id demo_opened = [(1, label_of 1)]"
  "ap_sas demo_opened = []" "ap_mode demo_opened = Repl" "\<not> ap_quit demo_opened"
  by (simp_all add: demo_opened_def on_net_event_def on_opened_def app_new_def fresh_label_def Let_def set_peer_def
      demo_peer_def demo_handle_def)

lemma demo_prompted:
  "ap_peers demo_prompted = [(label_of 1, demo_peer)]" "ap_sas demo_prompted = [demo_prompt []]"
  "ap_mode demo_prompted = Repl" "\<not> ap_quit demo_prompted"
  by (simp_all add: demo_prompted_def on_net_event_def on_conn_event_def demo_opened on_sas_required_def Let_def
      set_peer_def MAX_UNAUTHENTICATED_HANDSHAKES_def demo_prompt_def)
    (simp_all add: demo_peer_def)

lemma demo_received: "app_run demo_shell (app_new config_default, []) (demo_prompted, [])"
proof -
  have "app_step demo_shell (app_new config_default, []) (demo_opened, [])"
    unfolding demo_opened_def by (rule app_step.received[OF _ _ refl]) (simp_all add: app_new_def demo_handle_def)
  moreover have "app_step demo_shell (demo_opened, []) (demo_prompted, [])"
    unfolding demo_prompted_def
    by (rule app_step.received[OF _ _ refl]) (simp_all add: demo_opened demo_peer_def, simp_all add: demo_handle_def)
  ultimately show ?thesis unfolding app_run_def by (meson converse_rtranclp_into_rtranclp r_into_rtranclp)
qed

lemma demo_type:
  assumes "ap_sas a = [demo_prompt t]" "ap_mode a = Repl" "ap_peers a = ps" "str_len (t @ [c]) \<le> 16" "\<not> is_control c"
  obtains a' where "on_key demo_shell (demo_key (CodeChar c)) (a, k) = (a', k)" "ap_sas a' = [demo_prompt (t @ [c])]"
    "ap_mode a' = Repl" "ap_peers a' = ps" "ap_quit a' = ap_quit a"
proof
  let ?a = "a\<lparr>ap_sas := [demo_prompt (t @ [c])]\<rparr>"
  show "on_key demo_shell (demo_key (CodeChar c)) (a, k) = (?a, k)"
    using assms by (simp add: on_key_def repl_key_def repl_sas_key_def demo_key_def type_sas_def push_sas_def demo_prompt_def)
qed (use assms in simp_all)

lemma demo_typed:
  obtains a where "app_run demo_shell (app_new config_default, []) (a, [])" "ap_sas a = [demo_prompt (lit ''yes'')]"
    "ap_mode a = Repl" "ap_peers a = [(label_of 1, demo_peer)]" "\<not> ap_quit a"
proof -
  have step: "app_run E s t \<Longrightarrow> \<not> ap_quit (fst t) \<Longrightarrow> app_run E s (on_key E key t)" for E :: "((ustr \<times> ustr) \<times> bytes) list shell" and s t key
    unfolding app_run_def by (meson app_step.pressed rtranclp.rtrancl_into_rtrancl)
  obtain a where a: "on_key demo_shell (demo_key (CodeChar 121)) (demo_prompted, []) = (a, [])"
    "ap_sas a = [demo_prompt [121]]" "ap_mode a = Repl" "ap_peers a = [(label_of 1, demo_peer)]" "\<not> ap_quit a"
    by (rule demo_type[of demo_prompted "[]" _ 121 "[]"]) (simp_all add: demo_prompted len_utf8_def is_control_def)
  obtain b where b: "on_key demo_shell (demo_key (CodeChar 101)) (a, []) = (b, [])"
    "ap_sas b = [demo_prompt [121, 101]]" "ap_mode b = Repl" "ap_peers b = [(label_of 1, demo_peer)]" "\<not> ap_quit b"
    by (rule demo_type[of a "[121]" _ 101 "[]"]) (simp_all add: a len_utf8_def is_control_def)
  obtain c where c: "on_key demo_shell (demo_key (CodeChar 115)) (b, []) = (c, [])"
    "ap_sas c = [demo_prompt [121, 101, 115]]" "ap_mode c = Repl" "ap_peers c = [(label_of 1, demo_peer)]" "\<not> ap_quit c"
    by (rule demo_type[of b "[121, 101]" _ 115 "[]"]) (simp_all add: b len_utf8_def is_control_def)
  have "app_run demo_shell (app_new config_default, []) (c, [])"
    using step[OF step[OF step[OF demo_received]], of "demo_key (CodeChar 121)" "demo_key (CodeChar 101)"]
    a(1,5) b(1,5) c(1) demo_prompted(4) by (metis fst_conv)
  with c that show thesis by (simp add: lit_def)
qed

lemma demo_approved:
  assumes "ap_sas a = [demo_prompt (lit ''yes'')]" "ap_mode a = Repl" "ap_peers a = [(label_of 1, demo_peer)]"
  shows "queued_yes (fst (on_key demo_shell (demo_key CodeEnter) (a, k))) (label_of 1)" "\<not> queued_yes a (label_of 1)"
proof -
  have "front_approves a"
    by (simp add: front_approves_def assms demo_prompt_def is_approval_def trim_def trim_start_def trim_end_def
        is_whitespace_def to_ascii_lowercase_def lit_def)
  then have "fst (on_key demo_shell (demo_key CodeEnter) (a, k)) = answer_sas True a"
    by (simp add: on_key_def repl_key_def repl_sas_key_def demo_key_def assms)
  moreover have "queued_yes (answer_sas True a) (label_of 1)"
    by (simp add: answer_sas_def assms demo_prompt_def queued_yes_def Let_def with_peer_def demo_peer_def demo_handle_def
        handle_answer_sas_def send_control_def try_send_def CONTROL_QUEUE_def)
  ultimately show "queued_yes (fst (on_key demo_shell (demo_key CodeEnter) (a, k))) (label_of 1)" by simp
  show "\<not> queued_yes a (label_of 1)" by (simp add: queued_yes_def assms demo_peer_def demo_handle_def)
qed

lemma demo_start: "fst (startup demo_shell [] (config_default, None) None []) = (app_new config_default, [])"
  by (simp add: startup_def)

section \<open>A message\<close>

definition demo_with_message :: app where
  "demo_with_message = on_net_event 0 demo_handle (Conn 1 (CMessage (utf8 (lit ''hi'')))) demo_opened"

lemma demo_messaged:
  obtains s p where "app_run demo_shell (fst (startup demo_shell [] (config_default, None) None [])) s"
    "map_of (ap_peers (fst s)) (label_of 1) = Some p"
    "\<lparr>e_author = ARemote, e_text = lit ''hi''\<rparr> \<in> set (sb_entries (pr_scrollback p))" "ARemote \<noteq> ASystem"
proof -
  let ?p = "demo_peer\<lparr>pr_fingerprint := None\<rparr>"
  have "app_step demo_shell (app_new config_default, []) (demo_opened, [])"
    unfolding demo_opened_def by (rule app_step.received[OF _ _ refl]) (simp_all add: app_new_def demo_handle_def)
  moreover have "app_step demo_shell (demo_opened, []) (demo_with_message, [])"
    unfolding demo_with_message_def
    by (rule app_step.received[OF _ _ refl]) (simp_all add: demo_opened demo_peer_def, simp_all add: demo_handle_def)
  ultimately have "app_run demo_shell (app_new config_default, []) (demo_with_message, [])"
    unfolding app_run_def by (meson converse_rtranclp_into_rtranclp r_into_rtranclp)
  moreover have "ingest (utf8 (lit ''hi'')) = lit ''hi''"
    by (rule ingest_utf8) (simp add: scalar_value_def unsafe_char_def is_control_def lit_def)
  then have "map_of (ap_peers demo_with_message) (label_of 1) =
      Some (add_note ARemote (lit ''hi'') (?p\<lparr>pr_unread := pr_unread ?p + 1\<rparr>))"
    by (simp add: demo_with_message_def on_net_event_def on_conn_event_def demo_opened on_message_def Let_def
        with_peer_def split: mode.split)
  moreover have "\<lparr>e_author = ARemote, e_text = lit ''hi''\<rparr> \<in>
      set (sb_entries (pr_scrollback (add_note ARemote (lit ''hi'') (?p\<lparr>pr_unread := pr_unread ?p + 1\<rparr>))))"
    using push_last[OF scrollback_default_ok, of ARemote "lit ''hi''"]
    by (simp add: add_note_def demo_peer_def shorten_def MAX_ENTRY_BYTES_def len_utf8_def lit_def)
      (metis last_in_set)
  ultimately show thesis using that[of "(demo_with_message, [])"] by (simp add: demo_start)
qed

section \<open>A verification in a conversation\<close>

definition demo_lib :: screen_lib where
  "demo_lib = \<lparr>sl_vertical = (\<lambda>es r. map (\<lambda>_. r) es), sl_inner = (\<lambda>r. r), sl_width = (\<lambda>_. 1)\<rparr>"

definition demo_area :: rect where
  "demo_area = \<lparr>rc_x = 0, rc_y = 0, rc_width = 80, rc_height = 24\<rparr>"

definition demo_chat_state :: app where
  "demo_chat_state = demo_prompted\<lparr>ap_terminal := True,
     ap_mode := Chat \<lparr>cv_label = label_of 1, cv_input = [], cv_scroll = 0, cv_max_scroll = 0\<rparr>\<rparr>"

lemma demo_chat:
  "app_ok demo_chat_state"
  "ap_mode demo_chat_state = Chat \<lparr>cv_label = label_of 1, cv_input = [], cv_scroll = 0, cv_max_scroll = 0\<rparr>"
  "ap_sas demo_chat_state = demo_prompt [] # []"
proof -
  have "app_ok demo_prompted" using app_run_ok[OF demo_received] app_new_ok by simp
  moreover have "pr_status demo_peer \<noteq> PsClosed" by (simp add: demo_peer_def)
  ultimately show "app_ok demo_chat_state"
    by (simp add: app_ok_def demo_chat_state_def view_ok_def demo_prompted(1) split: if_splits)
qed (simp_all add: demo_chat_state_def demo_prompted)

end
