(* ===== verification/Config_Keys.thy ===== *)
theory Config_Keys
  imports Config
begin

text \<open>
  Which key bindings a configuration can name. Every binding that the checks allow has a spelling that
  is parsed back to it, with two exceptions that no rule asks for: the letter f, whose name is taken
  for a function key, and Ctrl with Alt and PageDown, whose name is longer than the limit.
\<close>

fun name_spelling :: "key_name \<Rightarrow> ustr" where
  "name_spelling Esc = lit ''esc''"
| "name_spelling KUp = lit ''up''"
| "name_spelling KDown = lit ''down''"
| "name_spelling PageUp = lit ''pageup''"
| "name_spelling PageDown = lit ''pagedown''"
| "name_spelling KHome = lit ''home''"
| "name_spelling KEnd = lit ''end''"
| "name_spelling (Function n) = lit ''f'' @ dec n"
| "name_spelling (Letter c) = [c]"

definition key_spelling :: "key_spec \<Rightarrow> ustr" where
  "key_spelling k = (if k_ctrl k then lit ''ctrl-'' else []) @ (if k_alt k then lit ''alt-'' else []) @
     name_spelling (k_key k)"

definition name_ok :: "key_name \<Rightarrow> bool" where
  "name_ok key \<longleftrightarrow>
     (case key of Letter c \<Rightarrow> 97 \<le> c \<and> c \<le> 122 \<and> c \<noteq> 102 | Function n \<Rightarrow> 1 \<le> n \<and> n \<le> 12 | _ \<Rightarrow> True)"

lemma dec_small: "n < 10 \<Longrightarrow> dec n = [48 + n]" "m < 10 \<Longrightarrow> dec (10 + m) = [49, 48 + m]"
  by (simp_all add: dec_def in_base.simps[of 10] digit_def div_add_self1)

lemma name_spelling_function:
  assumes "1 \<le> n" "n \<le> 12"
  shows "name_spelling (Function n) = (if n < 10 then [102, 48 + n] else [102, 49, 38 + n])"
proof (cases "n < 10")
  case False
  then obtain m where m: "n = 10 + m" using le_Suc_ex[of 10 n] by auto
  with assms dec_small(2)[of m] show ?thesis by (simp add: lit_def)
qed (simp add: dec_small(1) lit_def)

lemma name_spelling_stays:
  assumes "name_ok key"
  shows "strip_modifiers (name_spelling key) ctrl alt = (ctrl, alt, name_spelling key)"
    "map to_ascii_lowercase (name_spelling key) = name_spelling key"
    "list_all (\<lambda>c. c < 128) (name_spelling key)" "name_spelling key \<noteq> []"
    "str_len (name_spelling key) \<le> (if key = PageDown then 8 else 6)"
proof -
  have "strip_modifiers (name_spelling key) ctrl alt = (ctrl, alt, name_spelling key) \<and>
    map to_ascii_lowercase (name_spelling key) = name_spelling key \<and>
    list_all (\<lambda>c. c < 128) (name_spelling key) \<and> name_spelling key \<noteq> [] \<and>
    str_len (name_spelling key) \<le> (if key = PageDown then 8 else 6)"
  proof (cases key)
    case (Function n)
    with assms have n: "1 \<le> n" "n \<le> 12" by (simp_all add: name_ok_def)
    show ?thesis unfolding Function name_spelling_function[OF n]
      using n by (simp add: strip_modifiers.simps strip_prefix_def to_ascii_lowercase_def len_utf8_def lit_def)
  next
    case (Letter c)
    with assms show ?thesis
      by (simp add: name_ok_def strip_modifiers.simps strip_prefix_def to_ascii_lowercase_def len_utf8_def)
  qed (simp_all add: strip_modifiers.simps strip_prefix_def to_ascii_lowercase_def len_utf8_def lit_def)
  then show "strip_modifiers (name_spelling key) ctrl alt = (ctrl, alt, name_spelling key)"
    "map to_ascii_lowercase (name_spelling key) = name_spelling key"
    "list_all (\<lambda>c. c < 128) (name_spelling key)" "name_spelling key \<noteq> []"
    "str_len (name_spelling key) \<le> (if key = PageDown then 8 else 6)" by simp_all
qed

lemma key_name_of_spelling:
  assumes "name_ok key"
  shows "key_name_of (name_spelling key) = Inr key"
proof (cases key)
  case (Function n)
  with assms have n: "1 \<le> n" "n \<le> 12" by (simp_all add: name_ok_def)
  show ?thesis unfolding Function name_spelling_function[OF n]
    using n by (simp add: key_name_of_def strip_prefix_def parse_u8_def lit_def)
next
  case (Letter c)
  with assms show ?thesis by (simp add: name_ok_def key_name_of_single)
qed (simp_all add: key_name_of_def lit_def)

lemma strip_modifiers_spelling:
  "name_ok (k_key k) \<Longrightarrow> strip_modifiers (key_spelling k) False False = (k_ctrl k, k_alt k, name_spelling (k_key k))"
  by (cases "k_ctrl k"; cases "k_alt k")
    (simp_all only: key_spelling_def if_True if_False append_Nil append_assoc strip_modifiers_ctrl strip_modifiers_alt
      name_spelling_stays(1))

lemma parse_key_spelling:
  assumes "key_ok k" "k_key k \<noteq> Letter 102" "\<not> (k_key k = PageDown \<and> k_ctrl k \<and> k_alt k)"
  shows "parse_key (key_spelling k) = Inr k"
proof -
  have name: "name_ok (k_key k)"
    using assms(1,2) by (auto simp: key_ok_def name_ok_def split: key_name.splits)
  note stays = name_spelling_stays[OF name]
  have lower: "map to_ascii_lowercase (key_spelling k) = key_spelling k"
    by (simp add: key_spelling_def stays(2) to_ascii_lowercase_def)
  have "list_all (\<lambda>c. c < 128) (key_spelling k)" "key_spelling k \<noteq> []"
    using stays(3,4) by (simp_all add: key_spelling_def)
  moreover have "str_len (key_spelling k) \<le> 16"
    using stays(5) assms(3) by (auto simp: key_spelling_def len_utf8_def split: if_splits)
  moreover have "is_letter (k_key k) \<Longrightarrow> k_ctrl k \<or> k_alt k" "\<not> ((k_key k = Letter 99 \<or> k_key k = Letter 100) \<and> k_ctrl k)"
    using assms(1) by (auto simp: key_ok_def is_letter_def split: key_name.splits)
  ultimately show ?thesis
    by (simp add: parse_key_def lower strip_modifiers_spelling[OF name] key_name_of_spelling[OF name])
qed

lemma strip_modifiers_length:
  "strip_modifiers s ctrl alt = (ctrl', alt', rest) \<Longrightarrow>
    length rest + (if ctrl' \<and> \<not> ctrl then 5 else 0) + (if alt' \<and> \<not> alt then 4 else 0) \<le> length s"
proof (induction s ctrl alt rule: strip_modifiers.induct)
  case (1 s ctrl alt)
  have shorter: "length s = length p + length t" if "strip_prefix p s = Some t" for p t
  proof -
    from that have "s = p @ t" by (auto simp: strip_prefix_def split: if_splits) (metis append_take_drop_id)
    then show ?thesis by simp
  qed
  show ?case
  proof (cases "strip_prefix (lit ''ctrl-'') s")
    case (Some t)
    from 1(3) Some have "strip_modifiers t True alt = (ctrl', alt', rest)" by (simp add: strip_modifiers.simps[of s])
      with 1(2)[OF Some] shorter[OF Some] show ?thesis by (auto split: if_splits)
  next
    case None
    show ?thesis
    proof (cases "strip_prefix (lit ''alt-'') s")
      case (Some t)
      from 1(3) None Some have "strip_modifiers t ctrl True = (ctrl', alt', rest)" by (simp add: strip_modifiers.simps[of s])
      with 1(1)[OF None Some] shorter[OF Some] show ?thesis by (auto split: if_splits)
    next
      case none: None
      with 1(3) None show ?thesis by (simp add: strip_modifiers.simps[of s])
    qed
  qed
qed

lemma key_name_of_PageDown: "key_name_of s = Inr PageDown \<Longrightarrow> s = lit ''pagedown''"
  by (auto simp: key_name_of_def split: if_splits list.splits option.splits)

text \<open>Exactly the bindings that some text names.\<close>

lemma nameable_keys:
  "(\<exists>s. parse_key s = Inr k) \<longleftrightarrow>
     key_ok k \<and> k_key k \<noteq> Letter 102 \<and> \<not> (k_key k = PageDown \<and> k_ctrl k \<and> k_alt k)"
proof
  assume "\<exists>s. parse_key s = Inr k"
  then obtain s where s: "parse_key s = Inr k" by blast
  obtain ctrl alt rest where strip: "strip_modifiers (map to_ascii_lowercase s) False False = (ctrl, alt, rest)"
    by (metis prod_cases3)
  with s have len: "str_len s \<le> 16" and name: "key_name_of rest = Inr (k_key k)" and k: "k_ctrl k = ctrl" "k_alt k = alt"
    by (auto simp: parse_key_def res_simps split: if_splits)
  have "k_key k \<noteq> Letter 102" using key_name_of_letter[of rest 102] name by auto
  moreover have "\<not> (k_key k = PageDown \<and> k_ctrl k \<and> k_alt k)"
  proof
    assume "k_key k = PageDown \<and> k_ctrl k \<and> k_alt k"
    with name k have "rest = lit ''pagedown''" "ctrl" "alt" using key_name_of_PageDown by auto
    with strip_modifiers_length[OF strip] have "17 \<le> length s" by (simp add: lit_def)
    moreover have "length s \<le> str_len s" by (rule length_le_str_len)
    ultimately show False using len by simp
  qed
  ultimately show "key_ok k \<and> k_key k \<noteq> Letter 102 \<and> \<not> (k_key k = PageDown \<and> k_ctrl k \<and> k_alt k)"
    using parse_key_ok[OF s] by blast
qed (use parse_key_spelling in blast)

end
