(* ===== verification/App_Who.thy ===== *)
theory App_Who
  imports App_Approval
begin

text \<open>
  Who the application says its peers are: keys and commands change neither a peer's connection, nor
  its status, nor its fingerprint, nor what it was heard to say; only the
  events of its own connection do, and each by what it says.
\<close>

definition heard_from :: "peer \<Rightarrow> bool" where
  "heard_from p \<longleftrightarrow> (\<exists>e \<in> set (sb_entries (pr_scrollback p)). e_author e = ARemote)"

definition same_who :: "peer \<Rightarrow> peer \<Rightarrow> bool" where
  "same_who p p' \<longleftrightarrow> pr_id p' = pr_id p \<and> pr_status p' = pr_status p \<and> pr_fingerprint p' = pr_fingerprint p \<and>
     (heard_from p' \<longrightarrow> heard_from p)"

lemma heard_from_note: "heard_from (add_note who t p) \<Longrightarrow> who \<noteq> ARemote \<Longrightarrow> heard_from p"
  using set_push[of who t "pr_scrollback p"] unfolding heard_from_def add_note_def by fastforce

lemma heard_from_fields [simp]:
  "heard_from (p\<lparr>pr_handle := h\<rparr>) = heard_from p" "heard_from (p\<lparr>pr_status := st\<rparr>) = heard_from p"
  "heard_from (p\<lparr>pr_fingerprint := f\<rparr>) = heard_from p" "heard_from (p\<lparr>pr_rekeying := r\<rparr>) = heard_from p"
  "heard_from (p\<lparr>pr_last_data_rejection_notice := d\<rparr>) = heard_from p" "heard_from (p\<lparr>pr_unread := u\<rparr>) = heard_from p"
  "heard_from (p\<lparr>pr_close_note := c\<rparr>) = heard_from p"
  by (simp_all add: heard_from_def)

lemma note_fields [simp]: "pr_fingerprint (add_note who t p) = pr_fingerprint p"
  by (simp add: add_note_def)

interpretation who: handle_relation same_who
  by unfold_locales (auto simp: same_who_def dest: heard_from_note)

text \<open>What an event \<open>ev\<close> of connection \<open>i\<close> may change.\<close>

definition who_after :: "nat \<Rightarrow> conn_event \<Rightarrow> peer \<Rightarrow> peer \<Rightarrow> bool" where
  "who_after i ev p p' \<longleftrightarrow> pr_id p' = pr_id p \<and>
     (same_who p p' \<or>
      pr_id p = i \<and>
        (case ev of
           CSasRequired w identity \<Rightarrow> pr_status p' = pr_status p \<and> pr_fingerprint p' = Some (fingerprint identity) \<and>
             (heard_from p' \<longrightarrow> heard_from p)
         | CEstablished identity \<Rightarrow> pr_status p' = PsConnected \<and> pr_fingerprint p' = Some (fingerprint identity) \<and>
             (heard_from p' \<longrightarrow> heard_from p)
         | CMessage content \<Rightarrow> pr_status p' = pr_status p \<and> pr_fingerprint p' = pr_fingerprint p
         | CClosed cause \<Rightarrow> pr_status p' = PsClosed \<and> pr_fingerprint p' = pr_fingerprint p \<and>
             (heard_from p' \<longrightarrow> heard_from p)
         | _ \<Rightarrow> False))"

lemma who_afterI [simp]: "same_who p p' \<Longrightarrow> who_after i ev p p'"
  by (simp add: who_after_def same_who_def)

lemma peers_rel_mono: "peers_rel R a b \<Longrightarrow> (\<And>p p'. R p p' \<Longrightarrow> R' p p') \<Longrightarrow> peers_rel R' a b"
  unfolding peers_rel_def by blast

lemma peers_rel_set_peer:
  "map_of (ap_peers a) l = Some p \<Longrightarrow> R p p' \<Longrightarrow> (\<And>p. R p p) \<Longrightarrow> peers_rel R a (set_peer l p' a)"
  by (simp add: peers_rel_def)

lemma peers_rel_with_peer:
  "(\<And>p. map_of (ap_peers a) l = Some p \<Longrightarrow> R p (f p)) \<Longrightarrow> (\<And>p. R p p) \<Longrightarrow> peers_rel R a (with_peer l f a)"
  by (simp add: with_peer_def peers_rel_def split: option.split)

lemma who_after_refl [simp]: "who_after i ev p p"
  by simp

lemma peers_after [simp]: "peers_rel R a (say t b) = peers_rel R a b" "peers_rel R a (announce_sas b) = peers_rel R a b"
  by (simp_all add: peers_rel_def)

lemma who_quiet: "quiet same_who a b \<Longrightarrow> peers_rel (who_after i ev) a b"
  unfolding quiet_def by (blast intro: peers_rel_mono who_afterI)

lemma who_sas_required:
  assumes "index_ok (map_of (ap_peers a)) (map_of (ap_by_id a))" "map_of (ap_by_id a) i = Some l"
  shows "peers_rel (who_after i (CSasRequired w identity)) a (on_sas_required now i l w identity a)"
proof -
  obtain p where p: "map_of (ap_peers a) l = Some p" "pr_id p = i"
    using assms unfolding index_ok_def by blast
  let ?R = "who_after i (CSasRequired w identity)"
  let ?q = "p\<lparr>pr_fingerprint := Some (fingerprint identity)\<rparr>"
  have R: "?R p ?q" "?R p (add_note ASystem t (?q\<lparr>pr_handle := h\<rparr>))" "\<And>p. ?R p p" for t h
    using p by (auto simp: who_after_def same_who_def dest: heard_from_note)
  show ?thesis
  proof (cases "length (ap_sas a) \<ge> MAX_UNAUTHENTICATED_HANDSHAKES")
    case True
    obtain r h where "handle_answer_sas (pr_handle p) False = (r, h)" by fastforce
    with True p show ?thesis
      by (simp add: on_sas_required_def Let_def with_peer_def) (simp add: peers_rel_def R)
  next
    case False
    with p show ?thesis by (simp add: on_sas_required_def Let_def) (simp add: peers_rel_def R)
  qed
qed

lemma prompts_sas_required:
  "set (ap_sas (on_sas_required now i l w identity a)) \<subseteq> set (ap_sas a) \<union>
    {q. ps_id q = i \<and> ps_words q = w \<and> ps_fingerprint q = fingerprint identity}"
  by (auto simp: on_sas_required_def Let_def split: option.splits if_splits prod.splits sum.splits)

lemma who_closed:
  assumes "index_ok (map_of (ap_peers a)) (map_of (ap_by_id a))" "map_of (ap_by_id a) i = Some l"
  shows "peers_rel (who_after i (CClosed cause)) a (on_closed i l cause a)"
proof -
  obtain p where p: "map_of (ap_peers a) l = Some p" "pr_id p = i"
    using assms unfolding index_ok_def by blast
  let ?R = "who_after i (CClosed cause)"
  have "peers_rel ?R a (closing i l cause a)"
    using p by (auto simp: closing_def Let_def with_peer_def peers_rel_def who_after_def same_who_def say_def
        dest: heard_from_note split: mode.split)
  then have "peers_rel ?R a (forget l (closing i l cause a))"
    by (auto simp: peers_rel_def forget_def delete_conv' split: option.split if_splits)
  with \<open>peers_rel ?R a (closing i l cause a)\<close> show ?thesis
    using on_closed_closing[of i l cause a] by (auto simp: Let_def)
qed

lemma who_message:
  assumes "index_ok (map_of (ap_peers a)) (map_of (ap_by_id a))" "map_of (ap_by_id a) i = Some l"
  shows "peers_rel (who_after i (CMessage content)) a (on_message l content a)"
proof -
  define b where "b = (if \<not> open_label a l
    then say_message l (ingest content) (a\<lparr>ap_touched := True\<rparr>) else a\<lparr>ap_touched := True\<rparr>)"
  have same: "ap_peers b = ap_peers a" by (simp add: b_def)
  have "pr_id p = i" if "map_of (ap_peers a) l = Some p" for p
    using assms that unfolding index_ok_def by fastforce
  then have "peers_rel (who_after i (CMessage content)) b (with_peer l (\<lambda>p. add_note ARemote (ingest content)
      (if \<not> open_label a l then p\<lparr>pr_unread := pr_unread p + 1\<rparr> else p)) b)"
    by (intro peers_rel_with_peer) (auto simp: same who_after_def)
  then show ?thesis
    unfolding b_def by (auto simp: peers_rel_def on_message_def open_label_def Let_def split: mode.splits)
qed

lemma who_event:
  assumes "index_ok (map_of (ap_peers a)) (map_of (ap_by_id a))"
  shows "peers_rel (who_after i ev) a (on_conn_event now i ev a)"
proof (cases "map_of (ap_by_id a) i")
  case None
  then show ?thesis by (simp add: on_conn_event_def peers_rel_def)
next
  case (Some l)
  show ?thesis
  proof (cases ev)
    case (CSasRequired w identity)
    then show ?thesis using who_sas_required[OF assms Some] by (simp add: on_conn_event_def Some)
  next
    case (CClosed cause)
    then show ?thesis using who_closed[OF assms Some] by (simp add: on_conn_event_def Some)
  next
    case (CEstablished identity)
    have "pr_id p = i" if "map_of (ap_peers a) l = Some p" for p
      using assms Some that unfolding index_ok_def by fastforce
    moreover have "who_after (pr_id p) (CEstablished identity) p (add_note ASystem t
        (p\<lparr>pr_status := PsConnected, pr_fingerprint := Some (fingerprint identity)\<rparr>))" for p t
      by (auto simp: who_after_def dest: heard_from_note)
    ultimately show ?thesis
      by (auto simp: CEstablished on_conn_event_def Some Let_def intro!: peers_rel_with_peer)
  next
    case (CMessage content)
    then show ?thesis using who_message[OF assms Some] by (simp add: on_conn_event_def Some)
  qed (simp_all add: on_conn_event_def Some Let_def who_quiet who.quiet_on_data_rejected
      who.quiet_with_peer who.quiet_notes)
qed

lemma prompts_event:
  "set (ap_sas (on_conn_event now i ev a)) \<subseteq> set (ap_sas a) \<union>
    {q. \<exists>identity. ev = CSasRequired (ps_words q) identity \<and> ps_id q = i \<and> ps_fingerprint q = fingerprint identity}"
proof (cases "map_of (ap_by_id a) i")
  case None
  then show ?thesis by (simp add: on_conn_event_def)
next
  case (Some l)
  show ?thesis
  proof (cases ev)
    case (CSasRequired w identity)
    then show ?thesis
      using prompts_sas_required[of now i l w identity a] by (auto simp: on_conn_event_def Some)
  next
    case (CMessage content)
    then show ?thesis using yes.quiet_on_message[of a l content] by (auto simp: on_conn_event_def Some quiet_def)
  next
    case CDataRejected
    then show ?thesis using who.quiet_on_data_rejected[of a now l] by (auto simp: on_conn_event_def Some quiet_def)
  next
    case (CClosed cause)
    then show ?thesis using yes.quiet_on_closed[of a i l cause] by (auto simp: on_conn_event_def Some quiet_def)
  qed (simp_all add: on_conn_event_def Some Let_def)
qed

text \<open>An opened connection is a new peer, and nobody else's affair.\<close>

lemma opened_peers:
  "map_of (ap_peers (on_opened i h remote outbound a)) l = Some p \<Longrightarrow>
    map_of (ap_peers a) l = Some p \<or>
    pr_id p = i \<and> pr_handle p = h \<and> pr_status p = PsHandshaking \<and> pr_fingerprint p = None \<and> \<not> heard_from p"
  by (auto simp: on_opened_def fresh_label_def Let_def heard_from_def scrollback_default_def split: if_splits)

end
