(* ===== verification/Task_History.thy ===== *)
theory Task_History
  imports Machine_Runs
begin

text \<open>
  A connection task's events come from a run of its engine, and an approval reaches the engine only
  by the turn that takes it from the task's queue.
\<close>

definition task_history :: "ext \<Rightarrow> identity_keypair \<Rightarrow> task \<Rightarrow> history \<Rightarrow> bool" where
  "task_history X identity t h \<longleftrightarrow>
     (\<exists>role entropy remote outbound evs. engine_run X role identity entropy h (tk_engine t) \<and>
        tk_events t = Opened (tk_id t) remote outbound # map (Conn (tk_id t)) evs \<and>
        (\<forall>ev \<in> set evs. \<exists>e \<in> set (effects h). emitted e = Some ev))"

definition approving :: "history \<Rightarrow> bool" where
  "approving h \<longleftrightarrow> SasDecision True \<in> fst ` set h"

lemma approving_simps [simp]:
  "\<not> approving []" "approving (h @ h') \<longleftrightarrow> approving h \<or> approving h'"
  "approving [(inp, out)] \<longleftrightarrow> inp = SasDecision True"
  by (auto simp: approving_def)

lemma approved_approving: "approved h w p \<Longrightarrow> approving h"
  by (force simp: approved_def approving_def)

lemma task_history_fields [simp]:
  "task_history X i (t\<lparr>tk_decoder := b\<rparr>) h = task_history X i t h"
  "task_history X i (t\<lparr>tk_readings := n\<rparr>) h = task_history X i t h"
  "task_history X i (t\<lparr>tk_deadlines := d\<rparr>) h = task_history X i t h"
  by (simp_all add: task_history_def)

section \<open>One input\<close>

lemma task_handle_history:
  assumes "task_history X identity t h"
  shows "\<exists>out. task_history X identity (task_handle X E inp t) (h @ [(inp, out)])"
proof -
  obtain role entropy remote outbound evs where t: "engine_run X role identity entropy h (tk_engine t)"
    "tk_events t = Opened (tk_id t) remote outbound # map (Conn (tk_id t)) evs"
    "\<forall>ev \<in> set evs. \<exists>e \<in> set (effects h). emitted e = Some ev"
    using assms unfolding task_history_def by blast
  obtain en out where h: "handle X inp (tk_engine t) = (en, out)" by fastforce
  obtain evs' where evs': "tk_events (process E out (t\<lparr>tk_engine := en\<rparr>)) = tk_events t @ map (Conn (tk_id t)) evs'"
    "\<forall>ev \<in> set evs'. \<exists>e \<in> set out. emitted e = Some ev"
    using process_events[of E out "t\<lparr>tk_engine := en\<rparr>"] by auto
  have "task_history X identity (task_handle X E inp t) (h @ [(inp, out)])"
    unfolding task_history_def
    using engine_run.input[OF t(1) h] t(2,3) evs'
    by (intro exI[of _ role] exI[of _ entropy] exI[of _ remote] exI[of _ outbound] exI[of _ "evs @ evs'"])
      (auto simp: task_handle_def h)
  then show ?thesis by blast
qed

text \<open>
  From \<open>t\<close> to \<open>t'\<close> the events and the history grow, the history by an approval only if \<open>yes\<close>.
\<close>

definition grows :: "ext \<Rightarrow> identity_keypair \<Rightarrow> task \<Rightarrow> history \<Rightarrow> bool \<Rightarrow> task \<Rightarrow> bool" where
  "grows X identity t h yes t' \<longleftrightarrow> tk_id t' = tk_id t \<and> (\<exists>evs. tk_events t' = tk_events t @ evs) \<and>
     (\<exists>h'. task_history X identity t' (h @ h') \<and> (approving h' \<longrightarrow> yes))"

lemma grows_refl: "task_history X identity t h \<Longrightarrow> grows X identity t h yes t"
  unfolding grows_def by (intro conjI exI[of _ "[]"]) simp_all

lemma grows_fields [simp]:
  "grows X identity (t\<lparr>tk_decoder := b\<rparr>) h yes = grows X identity t h yes"
  "grows X identity (t\<lparr>tk_readings := n\<rparr>) h yes = grows X identity t h yes"
  "grows X identity (t\<lparr>tk_deadlines := d\<rparr>) h yes = grows X identity t h yes"
  by (auto simp: grows_def fun_eq_iff)

lemma grows_weaken: "grows X identity t h yes t' \<Longrightarrow> (yes \<Longrightarrow> yes') \<Longrightarrow> grows X identity t h yes' t'"
  by (auto simp: grows_def)

lemma grows_trans:
  assumes "grows X identity t h yes t1" "\<And>h. task_history X identity t1 h \<Longrightarrow> grows X identity t1 h yes t2"
  shows "grows X identity t h yes t2"
proof -
  obtain h1 where h1: "task_history X identity t1 (h @ h1)" "approving h1 \<longrightarrow> yes"
    using assms(1) by (auto simp: grows_def)
  from assms(2)[OF h1(1)] obtain h2 where "task_history X identity t2 ((h @ h1) @ h2)" "approving h2 \<longrightarrow> yes"
    unfolding grows_def by blast
  with h1(2) have "\<exists>h'. task_history X identity t2 (h @ h') \<and> (approving h' \<longrightarrow> yes)"
    by (intro exI[of _ "h1 @ h2"]) auto
  with assms(1) assms(2)[OF h1(1)] show ?thesis by (auto simp: grows_def)
qed

lemma task_handle_grows:
  assumes "task_history X identity t h"
  shows "grows X identity t h (inp = SasDecision True \<or> yes) (task_handle X E inp t)"
proof -
  obtain out where "task_history X identity (task_handle X E inp t) (h @ [(inp, out)])"
    using task_handle_history[OF assms] by blast
  moreover have "\<exists>evs. tk_events (task_handle X E inp t) = tk_events t @ evs"
    unfolding task_handle_def split_beta Let_def
    using process_events[of E "snd (handle X inp (tk_engine t))" "t\<lparr>tk_engine := fst (handle X inp (tk_engine t))\<rparr>"]
    by auto
  ultimately show ?thesis unfolding grows_def by (intro conjI exI[of _ "[(inp, out)]"]) simp_all
qed

lemma apply_input_grows:
  assumes "task_history X identity t h"
  shows "grows X identity t h (inp = SasDecision True) (apply_input X E inp t)"
proof -
  let ?yes = "inp = SasDecision True"
  have more: "task_history X identity t1 h1 \<Longrightarrow> grows X identity t1 h1 ?yes (task_handle X E i t1)"
    if "i \<noteq> SasDecision True" for t1 h1 i
    using task_handle_grows[of X identity t1 h1 i ?yes] that by simp
  have "grows X identity t h ?yes (if b then task_handle X E i t' else t')"
    if "grows X identity t h ?yes t'" "i \<noteq> SasDecision True" for b i t'
    using grows_trans[OF that(1)] more[OF that(2)] that(1) by auto
  then show ?thesis
    unfolding apply_input_def Let_def
    using task_handle_grows[OF assms, of inp ?yes] by simp
qed

section \<open>One turn\<close>

lemma drain_frames_grows:
  "drain_frames X E fuel t = Some t' \<Longrightarrow> task_history X identity t h \<Longrightarrow> grows X identity t h False t'"
proof (induction X E fuel t arbitrary: h rule: drain_frames.induct)
  case (2 X E fuel t)
  obtain r b where n: "next_frame (tk_decoder t) = (r, b)" by (cases "next_frame (tk_decoder t)")
  have applied: "grows X identity t h False (apply_input X E inp (t\<lparr>tk_decoder := b\<rparr>))"
    if "inp \<noteq> SasDecision True" for inp
    using apply_input_grows[of X identity "t\<lparr>tk_decoder := b\<rparr>" h inp E] 2(5) that by simp
  show ?case
  proof (cases "tk_closing t")
    case True
    with 2 show ?thesis by (simp add: grows_refl)
  next
    case False
    show ?thesis
    proof (cases r)
      case (Inl e)
      then show ?thesis using 2 False n applied[of "Malformed True"] applied[of "Malformed False"]
        by (cases e) (auto intro: grows_trans)
    next
      case (Inr x)
      show ?thesis
      proof (cases x)
        case None
        have "grows X identity t h False (t\<lparr>tk_decoder := b\<rparr>)"
          using grows_refl[of X identity "t\<lparr>tk_decoder := b\<rparr>" h False] 2(5) by simp
        then show ?thesis using 2 False n Inr None by auto
      next
        case (Some f)
        let ?t = "apply_input X E (FrameReceived f) (t\<lparr>tk_decoder := b\<rparr>)"
        have "grows X identity ?t h' False t'" if "task_history X identity ?t h'" for h'
          using 2 False n Inr Some that by auto
        with applied[of "FrameReceived f"] show ?thesis by (auto intro: grows_trans)
      qed
    qed
  qed
qed simp

lemma fire_due_grows:
  assumes "task_history X identity t h"
  shows "grows X identity t h False (fire_due X E t)"
proof -
  have "grows X identity t h False (fold (fire_one X E) due t)" if "task_history X identity t h" for due t h
    using that
  proof (induction due arbitrary: t h)
    case (Cons d due)
    let ?ds = "filter (\<lambda>(armed, _). armed \<noteq> snd d) (tk_deadlines t)"
    have "grows X identity t h False (fire_one X E d t)"
      using apply_input_grows[of X identity "t\<lparr>tk_deadlines := ?ds\<rparr>" h "Timeout (snd d)" E] Cons.prems
      by (simp add: fire_one_def)
    then show ?case using Cons.IH by (auto intro: grows_trans)
  qed (simp add: grows_refl)
  from this[of "t\<lparr>tk_readings := tk_readings t + 1\<rparr>"] assms show ?thesis by (simp add: fire_due_def clock_def)
qed

lemma task_turn_grows:
  assumes "task_turn X E trn t = Some t'" "task_history X identity t h"
  shows "grows X identity t h (trn = TControl (Some (ControlSas True))) t'"
proof -
  have weak: "grows X identity t h False t' \<Longrightarrow> ?thesis" by (auto intro: grows_weaken)
  show ?thesis
  proof (cases trn)
    case (TControl c)
    have "control_input c = SasDecision True \<Longrightarrow> c = Some (ControlSas True)"
      by (cases c rule: control_input.cases) auto
    with apply_input_grows[OF assms(2), of "control_input c" E] assms(1) TControl show ?thesis
      by (auto intro: grows_weaken)
  next
    case (TRead chunk)
    let ?t = "t\<lparr>tk_decoder := decoder_push (tk_decoder t) chunk\<rparr>"
    have "grows X identity ?t h False t'"
      using assms TRead by (intro drain_frames_grows[of X E "drain_fuel ?t"]) (simp_all add: Let_def)
    then show ?thesis by (intro weak) simp
  next
    case TTimer
    then show ?thesis using assms fire_due_grows by (intro weak) auto
  next
    case TReadFailed
    then show ?thesis using assms(1) apply_input_grows[OF assms(2), of TransportClosed E] by (intro weak) simp
  next
    case (TMessage content)
    then show ?thesis using assms(1) apply_input_grows[OF assms(2), of "LocalSend content" E] by (intro weak) simp
  qed
qed

text \<open>A task that has begun.\<close>

lemma task_begin_history:
  assumes "task_begin X E (Some (remote, outbound)) (task_new i (engine_new role identity entropy) permit) = Some t"
  shows "\<exists>h. task_history X identity t h \<and> \<not> approving h" "tk_id t = i"
proof -
  let ?t = "(task_new i (engine_new role identity entropy) permit)
    \<lparr>tk_emits := Suc 0, tk_events := [Opened i remote outbound]\<rparr>"
  have id: "tk_id ?t = i" by (simp add: task_new_def)
  have "task_history X identity ?t []"
    unfolding task_history_def by (auto simp: task_new_def intro: engine_run.created)
  then have "grows X identity ?t [] False (apply_input X E Start ?t)"
    using apply_input_grows[of X identity ?t "[]" Start E] by simp
  moreover have "t = apply_input X E Start ?t"
    using assms by (auto simp: task_begin_def Let_def task_new_def split: if_splits)
  ultimately have "grows X identity ?t [] False t" by simp
  with id show "\<exists>h. task_history X identity t h \<and> \<not> approving h" "tk_id t = i" unfolding grows_def by auto
qed

section \<open>What a history tells\<close>

lemma history_event:
  assumes "task_history X identity t h" "Conn i ev \<in> set (tk_events t)"
  shows "i = tk_id t \<and> (\<exists>e \<in> set (effects h). emitted e = Some ev)"
  using assms by (auto simp: task_history_def)

lemma emitted_cases [simp]:
  "emitted e = Some (CEstablished p) \<longleftrightarrow> e = Notify (Established p)"
  "emitted e = Some (CSasRequired w p) \<longleftrightarrow> e = RequestSas w p"
  "emitted e = Some (CMessage m) \<longleftrightarrow> e = Deliver m"
  by (auto simp: emitted_def split: effect.splits event.splits)

text \<open>
  A connection that was reported as established, or that delivered a message, had one question asked
  and answered with yes, about the one peer it was established with.
\<close>

lemma history_accepted:
  assumes "task_history X identity t h" "Conn i ev \<in> set (tk_events t)"
    "ev = CEstablished p \<or> (\<exists>m. ev = CMessage m)"
  shows "\<exists>p. Notify (Established p) \<in> set (effects h) \<and> accepted X h p"
proof -
  obtain role entropy where run: "engine_run X role identity entropy h (tk_engine t)"
    using assms(1) by (auto simp: task_history_def)
  consider (est) "Notify (Established p) \<in> set (effects h)" | (msg) m where "Deliver m \<in> set (effects h)"
    using history_event[OF assms(1,2)] assms(3) by auto
  then show ?thesis
  proof cases
    case est
    then show ?thesis using accepted_run[OF run] by blast
  next
    case msg
    then obtain h1 inp out h2 en1 en2 where o: "h = h1 @ (inp, out) # h2" "engine_run X role identity entropy h1 en1"
      "handle X inp en1 = (en2, out)" "Deliver m \<in> set out" using effect_origin[OF run] by blast
    obtain q where "abs_state en1 = AActive q"
      using handle_step[OF run_ok_engine[OF o(2)] o(3)] deliver_from_active o(4) by blast
    then have "established_peers (effects h1) = [q]" using run_peers[OF o(2)] by simp
    then have "Notify (Established q) \<in> set (effects h1)"
      by (simp flip: set_established_peers)
    then have "Notify (Established q) \<in> set (effects h)" by (simp add: o(1))
    then show ?thesis using accepted_run[OF run] by blast
  qed
qed

end
