(* ===== verification/Program.thy ===== *)
theory Program
  imports App_Who Startup Task_History
begin

text \<open>
  The whole program: the application, the facade with its connection tasks, and what passes between
  them. A task takes messages and commands from the queues of its handle, which the application
  fills; the application receives the events of each task in their order. Keys, the clock, sockets and
  the choice of what happens next are free, one environment \<open>V i\<close> per connection.
\<close>

section \<open>State\<close>

text \<open>
  \<open>pg_seen i\<close> counts the events of connection \<open>i\<close> that the application has received, \<open>pg_noticed\<close>
  those of the facade itself.
\<close>

record 'k program =
  pg_app :: app
  pg_store :: 'k
  pg_net :: net
  pg_seen :: "nat \<Rightarrow> nat"
  pg_noticed :: nat

abbreviation program_tasks :: "'k program \<Rightarrow> task list" where
  "program_tasks s \<equiv> net_tasks (pg_net s)"

definition program_start :: "app \<times> 'k \<Rightarrow> 'k program" where
  "program_start a0 =
     \<lparr>pg_app = fst a0, pg_store = snd a0,
      pg_net = net_new (case ap_net (fst a0) of Some identity \<Rightarrow> identity | None \<Rightarrow> []),
      pg_seen = (\<lambda>_. 0), pg_noticed = 0\<rparr>"

text \<open>The facade in use is the one of the identity that is loaded.\<close>

definition facade_loaded :: "'k program \<Rightarrow> bool" where
  "facade_loaded s \<longleftrightarrow> ap_net (pg_app s) = Some (net_identity (pg_net s))"

definition set_task :: "nat \<Rightarrow> task \<Rightarrow> 'k program \<Rightarrow> 'k program" where
  "set_task i t s = s\<lparr>pg_net := (pg_net s)\<lparr>net_tasks := (program_tasks s)[i := t]\<rparr>\<rparr>"

section \<open>Queues\<close>

definition handle_of :: "app \<Rightarrow> nat \<Rightarrow> connection_handle option" where
  "handle_of a i =
     (case map_of (ap_by_id a) i of
        None \<Rightarrow> None
      | Some label \<Rightarrow> map_option pr_handle (map_of (ap_peers a) label))"

text \<open>
  What a task finds in its queues. Before the application has received the handle, in \<open>Opened\<close>, the
  queues are empty; when it has dropped it, the queue of commands ends.
\<close>

fun turn_offered :: "'k program \<Rightarrow> nat \<Rightarrow> turn \<Rightarrow> bool" where
  "turn_offered s i (TMessage content) =
     (case handle_of (pg_app s) i of
        Some h \<Rightarrow> (case hd_messages h of m # _ \<Rightarrow> m = content | [] \<Rightarrow> False)
      | None \<Rightarrow> False)"
| "turn_offered s i (TControl (Some command)) =
     (case handle_of (pg_app s) i of
        Some h \<Rightarrow> (case hd_control h of c # _ \<Rightarrow> c = command | [] \<Rightarrow> False)
      | None \<Rightarrow> False)"
| "turn_offered s i (TControl None) = (handle_of (pg_app s) i = None \<and> 0 < pg_seen s i)"
| "turn_offered s i _ = True"

fun take_command :: "turn \<Rightarrow> connection_handle \<Rightarrow> connection_handle" where
  "take_command (TMessage content) h = h\<lparr>hd_messages := tl (hd_messages h)\<rparr>"
| "take_command (TControl (Some command)) h = h\<lparr>hd_control := tl (hd_control h)\<rparr>"
| "take_command _ h = h"

text \<open>The handle of connection \<open>i\<close> after a turn of its task; both queues close when the task ends.\<close>

definition after_turn :: "nat \<Rightarrow> turn \<Rightarrow> bool \<Rightarrow> connection_handle \<Rightarrow> connection_handle" where
  "after_turn i trn ended h =
     (if hd_id h = i then (take_command trn h)\<lparr>hd_gone := hd_gone h \<or> ended\<rparr> else h)"

text \<open>The handle that \<open>Opened\<close> carries.\<close>

definition new_handle :: "task \<Rightarrow> connection_handle" where
  "new_handle t = \<lparr>hd_id = tk_id t, hd_messages = [], hd_control = [], hd_gone = tk_closing t\<rparr>"

section \<open>Steps\<close>

text \<open>
  \<open>loaded\<close> is the new facade that goes with an identity; the application allows it only while it has
  no connection and no listener. Every other step is part of a running facade. Once
  \<open>ap_quit\<close> is set the loop has ended, and only the tasks go on.
\<close>

datatype cue = Pressed key_event | Loaded | Running

inductive program_step :: "'k shell \<Rightarrow> (nat \<Rightarrow> env) \<Rightarrow> cue \<Rightarrow> 'k program \<Rightarrow> 'k program \<Rightarrow> bool" for E V where
  pressed: "\<not> ap_quit (pg_app s) \<Longrightarrow> on_key E key (pg_app s, pg_store s) = (a, k) \<Longrightarrow>
    program_step E V (Pressed key) s (s\<lparr>pg_app := a, pg_store := k\<rparr>)"
| redrawn: "\<not> ap_quit (pg_app s) \<Longrightarrow> program_step E V Running s (s\<lparr>pg_app := with_view (\<lambda>v. v\<lparr>cv_max_scroll := m\<rparr>) (pg_app s)\<rparr>)"
| loaded: "ensure_idle (pg_app s) = Inr () \<Longrightarrow> ap_net (pg_app s) = Some identity \<Longrightarrow>
    program_step E V Loaded s (s\<lparr>pg_net := net_new identity, pg_seen := (\<lambda>_. 0), pg_noticed := 0\<rparr>)"
| accepted: "facade_loaded s \<Longrightarrow> accept_turn local r (failures, pg_net s) = Inl (failures', n) \<Longrightarrow>
    program_step E V Running s (s\<lparr>pg_net := n\<rparr>)"
| stopped: "facade_loaded s \<Longrightarrow> accept_turn local r (failures, pg_net s) = Inr n \<Longrightarrow>
    program_step E V Running s (s\<lparr>pg_net := n\<rparr>)"
| dialed: "facade_loaded s \<Longrightarrow> program_step E V Running s (s\<lparr>pg_net := dial (pg_net s) addr attempt\<rparr>)"
| begun: "i < length (program_tasks s) \<Longrightarrow> t = program_tasks s ! i \<Longrightarrow> tk_events t = [] \<Longrightarrow>
    task_begin (sh_ext E) (V (tk_id t)) (Some (remote, outbound)) t = Some t' \<Longrightarrow>
    program_step E V Running s (set_task i t' s)"
| unannounced: "i < length (program_tasks s) \<Longrightarrow> t = program_tasks s ! i \<Longrightarrow> tk_events t = [] \<Longrightarrow>
    task_begin (sh_ext E) (V (tk_id t)) (Some (remote, outbound)) t = None \<Longrightarrow>
    program_step E V Running s
      (s\<lparr>pg_net := (pg_net s)\<lparr>net_tasks := take i (program_tasks s) @ drop (Suc i) (program_tasks s)\<rparr>\<rparr>)"
| turned: "i < length (program_tasks s) \<Longrightarrow> t = program_tasks s ! i \<Longrightarrow> tk_events t \<noteq> [] \<Longrightarrow> \<not> tk_closing t \<Longrightarrow>
    turn_offered s (tk_id t) trn \<Longrightarrow> task_turn (sh_ext E) (V (tk_id t)) trn t = Some t' \<Longrightarrow>
    program_step E V Running s
      ((set_task i t' s)\<lparr>pg_app := drained (after_turn (tk_id t) trn (tk_closing t')) (pg_app s)\<rparr>)"
| received: "\<not> ap_quit (pg_app s) \<Longrightarrow> t \<in> set (program_tasks s) \<Longrightarrow> pg_seen s (tk_id t) < length (tk_events t) \<Longrightarrow>
    program_step E V Running s
      (s\<lparr>pg_app := on_net_event now (new_handle t) (tk_events t ! pg_seen s (tk_id t)) (pg_app s),
         pg_seen := (pg_seen s)(tk_id t := Suc (pg_seen s (tk_id t)))\<rparr>)"
| noticed: "\<not> ap_quit (pg_app s) \<Longrightarrow> pg_noticed s < length (net_events (pg_net s)) \<Longrightarrow>
    program_step E V Running s
      (s\<lparr>pg_app := on_net_event now h (net_events (pg_net s) ! pg_noticed s) (pg_app s),
         pg_noticed := Suc (pg_noticed s)\<rparr>)"

text \<open>
  A run, with the verifications its user has approved since the identity was loaded: those whose
  words were shown when yes had been typed and Enter was pressed.
\<close>

fun approvals :: "cue \<Rightarrow> app \<Rightarrow> pending_sas list \<Rightarrow> pending_sas list" where
  "approvals (Pressed key) a A =
     (if ke_code key = CodeEnter \<and> front_approves a then A @ [hd (ap_sas a)] else A)"
| "approvals Loaded a A = []"
| "approvals Running a A = A"

inductive program_run :: "'k shell \<Rightarrow> (nat \<Rightarrow> env) \<Rightarrow> app \<times> 'k \<Rightarrow> pending_sas list \<Rightarrow> 'k program \<Rightarrow> bool"
  for E V a0 where
  first: "program_run E V a0 [] (program_start a0)"
| step: "program_run E V a0 A s \<Longrightarrow> program_step E V c s s' \<Longrightarrow>
    program_run E V a0 (approvals c (pg_app s) A) s'"

end
