(* ===== verification/Program_Inv.thy ===== *)
theory Program_Inv
  imports Program
begin

text \<open>
  The invariant of the whole program: what the application shows of a peer, its prompts and the
  approvals of the user go back to events of that peer's own task, and an approval reaches a task only
  if its user gave it.
\<close>

section \<open>The invariant\<close>

text \<open>The task of connection \<open>i\<close> reported \<open>ev\<close>.\<close>

definition told :: "'k program \<Rightarrow> nat \<Rightarrow> conn_event \<Rightarrow> bool" where
  "told s i ev \<longleftrightarrow> (\<exists>t \<in> set (program_tasks s). tk_id t = i \<and> Conn i ev \<in> set (tk_events t))"

definition task_known :: "ext \<Rightarrow> identity_keypair \<Rightarrow> pending_sas list \<Rightarrow> task \<Rightarrow> bool" where
  "task_known X identity A t \<longleftrightarrow>
     (\<exists>role entropy permit. t = task_new (tk_id t) (engine_new role identity entropy) permit) \<or>
     task_ok X t \<and> live t \<and>
       (\<exists>h. task_history X identity t h \<and> (approving h \<longrightarrow> (\<exists>q \<in> set A. ps_id q = tk_id t)))"

definition tasks_known :: "ext \<Rightarrow> pending_sas list \<Rightarrow> 'k program \<Rightarrow> bool" where
  "tasks_known X A s \<longleftrightarrow> distinct (map tk_id (program_tasks s)) \<and>
     (\<forall>t \<in> set (program_tasks s). tk_id t < net_next_id (pg_net s) \<and> task_known X (net_identity (pg_net s)) A t)"

definition seen_known :: "'k program \<Rightarrow> bool" where
  "seen_known s \<longleftrightarrow>
     (\<forall>i. 0 < pg_seen s i \<longrightarrow> (\<exists>t \<in> set (program_tasks s). tk_id t = i \<and> pg_seen s i \<le> length (tk_events t))) \<and>
     (\<forall>ev \<in> set (net_events (pg_net s)). \<forall>i ce. ev \<noteq> Conn i ce \<and> (\<forall>remote outbound. ev \<noteq> Opened i remote outbound))"

text \<open>All there is to hear of connection \<open>i\<close> has been heard.\<close>

definition heard_out :: "'k program \<Rightarrow> nat \<Rightarrow> bool" where
  "heard_out s i \<longleftrightarrow> (\<exists>t \<in> set (program_tasks s). tk_id t = i \<and> tk_closing t \<and> pg_seen s i = length (tk_events t))"

definition peer_told :: "'k program \<Rightarrow> peer \<Rightarrow> bool" where
  "peer_told s p \<longleftrightarrow> 0 < pg_seen s (pr_id p) \<and>
     (pr_status p = PsConnected \<longrightarrow> pr_fingerprint p \<noteq> None \<and> (\<exists>identity. told s (pr_id p) (CEstablished identity))) \<and>
     (\<forall>f. pr_fingerprint p = Some f \<longrightarrow>
        (\<exists>identity. f = fingerprint identity \<and>
           (told s (pr_id p) (CEstablished identity) \<or> (\<exists>w. told s (pr_id p) (CSasRequired w identity))))) \<and>
     (heard_from p \<longrightarrow> (\<exists>m. told s (pr_id p) (CMessage m))) \<and>
     (pr_status p = PsClosed \<longrightarrow> heard_out s (pr_id p))"

definition prompt_told :: "'k program \<Rightarrow> pending_sas \<Rightarrow> bool" where
  "prompt_told s q \<longleftrightarrow>
     (\<exists>identity. told s (ps_id q) (CSasRequired (ps_words q) identity) \<and> ps_fingerprint q = fingerprint identity)"

definition yes_told :: "pending_sas list \<Rightarrow> peer \<Rightarrow> bool" where
  "yes_told A p \<longleftrightarrow> (ControlSas True \<in> set (hd_control (pr_handle p)) \<longrightarrow> (\<exists>q \<in> set A. ps_id q = pr_id p))"

definition program_ok :: "ext \<Rightarrow> pending_sas list \<Rightarrow> 'k program \<Rightarrow> bool" where
  "program_ok X A s \<longleftrightarrow> app_ok (pg_app s) \<and> tasks_known X A s \<and> seen_known s \<and>
     (\<forall>l p. map_of (ap_peers (pg_app s)) l = Some p \<longrightarrow> peer_told s p \<and> yes_told A p) \<and>
     (\<forall>q \<in> set (ap_sas (pg_app s)). prompt_told s q) \<and>
     (\<forall>q \<in> set A. is_approval (ps_typed q) \<and> prompt_told s q)"

lemma program_okD:
  assumes "program_ok X A s"
  shows "app_ok (pg_app s)" "tasks_known X A s" "seen_known s"
    "map_of (ap_peers (pg_app s)) l = Some p \<Longrightarrow> peer_told s p"
    "map_of (ap_peers (pg_app s)) l = Some p \<Longrightarrow> yes_told A p"
    "q \<in> set (ap_sas (pg_app s)) \<Longrightarrow> prompt_told s q"
    "q \<in> set A \<Longrightarrow> prompt_told s q"
    "q \<in> set A \<Longrightarrow> is_approval (ps_typed q)"
  using assms by (auto simp: program_ok_def)

lemma task_known_more: "task_known X identity A t \<Longrightarrow> set A \<subseteq> set A' \<Longrightarrow> task_known X identity A' t"
  unfolding task_known_def by blast

text \<open>What later states of the same facade keep of an earlier one.\<close>

definition later :: "'k program \<Rightarrow> 'k program \<Rightarrow> bool" where
  "later s s' \<longleftrightarrow>
     (\<forall>i. pg_seen s i \<le> pg_seen s' i) \<and>
     (\<forall>t \<in> set (program_tasks s). tk_events t \<noteq> [] \<longrightarrow>
        (\<exists>t' \<in> set (program_tasks s'). tk_id t' = tk_id t \<and> set (tk_events t) \<subseteq> set (tk_events t') \<and>
           (tk_closing t \<longrightarrow> t' = t \<and> (pg_seen s (tk_id t) = length (tk_events t) \<longrightarrow>
              pg_seen s' (tk_id t) = length (tk_events t)))))"

lemma told_later: "later s s' \<Longrightarrow> told s i ev \<Longrightarrow> told s' i ev"
  unfolding later_def told_def by (metis empty_iff empty_set subsetD)

lemma heard_out_later: "later s s' \<Longrightarrow> heard_out s i \<Longrightarrow> 0 < pg_seen s i \<Longrightarrow> heard_out s' i"
  unfolding later_def heard_out_def by (metis length_greater_0_conv)

lemma peer_told_later:
  assumes "later s s'" "peer_told s p"
  shows "peer_told s' p"
proof -
  note told = told_later[OF assms(1)] and out = heard_out_later[OF assms(1)]
  have seen: "0 < pg_seen s (pr_id p)" using assms(2) by (simp add: peer_told_def)
  then have "0 < pg_seen s' (pr_id p)" using assms(1) unfolding later_def by (metis less_le_trans)
  with seen assms(2) show ?thesis unfolding peer_told_def using told out by blast
qed

lemma prompt_told_later: "later s s' \<Longrightarrow> prompt_told s q \<Longrightarrow> prompt_told s' q"
  unfolding prompt_told_def using told_later by metis

lemma peer_told_same: "same_who p p' \<Longrightarrow> peer_told s p \<Longrightarrow> peer_told s p'"
  by (auto simp: same_who_def peer_told_def)

section \<open>What a step has to show\<close>

definition same_prompt :: "pending_sas \<Rightarrow> pending_sas \<Rightarrow> bool" where
  "same_prompt q q' \<longleftrightarrow> ps_id q' = ps_id q \<and> ps_words q' = ps_words q \<and> ps_fingerprint q' = ps_fingerprint q"

lemma prompt_told_same: "same_prompt q q' \<Longrightarrow> prompt_told s q' = prompt_told s q"
  by (simp add: same_prompt_def prompt_told_def)

lemma program_ok_step:
  assumes ok: "program_ok X A s" and later: "later s s'" and new: "app_ok (pg_app s')" "tasks_known X A' s'" "seen_known s'"
    and peers: "\<And>l p'. map_of (ap_peers (pg_app s')) l = Some p' \<Longrightarrow>
      peer_told s' p' \<or> (\<exists>p. map_of (ap_peers (pg_app s)) l = Some p \<and> same_who p p')"
    and yes: "\<And>l p'. map_of (ap_peers (pg_app s')) l = Some p' \<Longrightarrow> yes_told A' p'"
    and prompts: "\<And>q'. q' \<in> set (ap_sas (pg_app s')) \<Longrightarrow>
      prompt_told s' q' \<or> (\<exists>q \<in> set (ap_sas (pg_app s)). same_prompt q q')"
    and given: "\<And>q. q \<in> set A' \<Longrightarrow> q \<in> set A \<or> is_approval (ps_typed q) \<and> q \<in> set (ap_sas (pg_app s))"
  shows "program_ok X A' s'"
proof -
  note old = program_okD[OF ok]
  have "peer_told s' p'" if "map_of (ap_peers (pg_app s')) l = Some p'" for l p'
    using peers[OF that] peer_told_later[OF later old(4)] peer_told_same by metis
  moreover have "prompt_told s' q'" if "q' \<in> set (ap_sas (pg_app s'))" for q'
    using prompts[OF that] prompt_told_later[OF later old(6)] prompt_told_same by metis
  moreover have "is_approval (ps_typed q) \<and> prompt_told s' q" if "q \<in> set A'" for q
    using given[OF that] prompt_told_later[OF later] old(6-8) by metis
  ultimately show ?thesis using new yes unfolding program_ok_def by blast
qed

text \<open>A step of the network alone.\<close>

lemma program_ok_net:
  assumes "program_ok X A s" "later s s'" "pg_app s' = pg_app s" "tasks_known X A s'" "seen_known s'"
  shows "program_ok X A s'"
  using program_okD[OF assms(1)] assms
  by (intro program_ok_step[OF assms(1,2)]) (auto simp: same_who_def same_prompt_def)

lemma later_refl: "later s s"
  unfolding later_def by blast

lemma later_same: "pg_net s' = pg_net s \<Longrightarrow> pg_seen s' = pg_seen s \<Longrightarrow> later s s'"
  unfolding later_def by auto

lemma tasks_known_same:
  "tasks_known X A s \<Longrightarrow> pg_net s' = pg_net s \<Longrightarrow> set A \<subseteq> set A' \<Longrightarrow> tasks_known X A' s'"
  unfolding tasks_known_def using task_known_more by metis

lemma seen_known_same: "seen_known s \<Longrightarrow> pg_net s' = pg_net s \<Longrightarrow> pg_seen s' = pg_seen s \<Longrightarrow> seen_known s'"
  unfolding seen_known_def by simp

section \<open>Keys\<close>

lemma key_step_ok:
  assumes ok: "program_ok X A s" and key: "on_key E key (pg_app s, pg_store s) = (a, k)"
  shows "program_ok X (approvals (Pressed key) (pg_app s) A) (s\<lparr>pg_app := a, pg_store := k\<rparr>)"
proof (rule program_ok_step[OF ok])
  let ?s = "s\<lparr>pg_app := a, pg_store := k\<rparr>" and ?A = "approvals (Pressed key) (pg_app s) A"
  note old = program_okD[OF ok]
  have a: "fst (on_key E key (pg_app s, pg_store s)) = a" by (simp add: key)
  have more: "set A \<subseteq> set ?A" by auto
  have same: "peers_rel same_who (pg_app s) a"
    using who.peers_on_key[of "(pg_app s, pg_store s)" E key] by (simp add: key)
  have effect: "key_effect key (pg_app s) a"
    using key_effect_on_key[of key "(pg_app s, pg_store s)" E] by (simp add: key)
  show "later s ?s" by (rule later_same) simp_all
  show "app_ok (pg_app ?s)" using on_key_ok[of "(pg_app s, pg_store s)" E key] old(1) by (simp add: key)
  show "tasks_known X ?A ?s" by (rule tasks_known_same[OF old(2) _ more]) simp
  show "seen_known ?s" by (rule seen_known_same[OF old(3)]) simp_all
  show "peer_told ?s p' \<or> (\<exists>p. map_of (ap_peers (pg_app s)) l = Some p \<and> same_who p p')"
    if "map_of (ap_peers (pg_app ?s)) l = Some p'" for l p'
    using same that unfolding peers_rel_def by simp
  show "prompt_told ?s q' \<or> (\<exists>q \<in> set (ap_sas (pg_app s)). same_prompt q q')"
    if "q' \<in> set (ap_sas (pg_app ?s))" for q'
    using effect that unfolding key_effect_def same_prompt_def by fastforce
  show "q \<in> set A \<or> is_approval (ps_typed q) \<and> q \<in> set (ap_sas (pg_app s))" if "q \<in> set ?A" for q
    using that by (auto simp: front_approves_def split: if_splits list.splits)
  show "yes_told ?A p'" if p': "map_of (ap_peers (pg_app ?s)) l = Some p'" for l p'
    unfolding yes_told_def
  proof
    assume "ControlSas True \<in> set (hd_control (pr_handle p'))"
    with p' have now: "queued_yes a l" by (simp add: queued_yes_def)
    obtain p where p: "map_of (ap_peers (pg_app s)) l = Some p" "pr_id p' = pr_id p"
      using same p' unfolding peers_rel_def same_who_def by auto
    show "\<exists>q \<in> set ?A. ps_id q = pr_id p'"
    proof (cases "queued_yes (pg_app s) l")
      case True
      with p(1) old(5)[OF p(1)] obtain q where "q \<in> set A" "ps_id q = pr_id p" by (auto simp: queued_yes_def yes_told_def)
      with more p(2) show ?thesis by auto
    next
      case False
      with effect now obtain q rest where q: "ke_code key = CodeEnter" "ap_sas (pg_app s) = q # rest" "ps_label q = l"
        "is_approval (ps_typed q)" unfolding key_effect_def by blast
      have "pr_id p = ps_id q" using app_okD(3)[OF old(1)] p(1) q(2,3) by (simp add: prompts_ok_def)
      moreover have "q \<in> set ?A" using q by (simp add: front_approves_def)
      ultimately show ?thesis using p(2) by auto
    qed
  qed
qed

section \<open>The facade\<close>

lemma spawned_ok:
  assumes ok: "program_ok X A s" and n: "n = snd (net_spawn (pg_net s) role entropy permit)"
  shows "program_ok X A (s\<lparr>pg_net := n\<rparr>)"
proof (rule program_ok_net[OF ok])
  let ?t = "task_new (net_next_id (pg_net s)) (engine_new role (net_identity (pg_net s)) entropy) permit"
  have tasks: "net_tasks n = program_tasks s @ [?t]" "net_next_id n = Suc (net_next_id (pg_net s))"
    "net_identity n = net_identity (pg_net s)" "net_events n = net_events (pg_net s)"
    by (simp_all add: n net_spawn_def Let_def)
  have fields: "tk_id ?t = net_next_id (pg_net s)" by (simp add: task_new_def)
  have "task_known X (net_identity (pg_net s)) A ?t" unfolding task_known_def fields by blast
  with fields tasks program_okD(2)[OF ok] show "tasks_known X A (s\<lparr>pg_net := n\<rparr>)"
    unfolding tasks_known_def by (fastforce simp: less_Suc_eq)
  show "seen_known (s\<lparr>pg_net := n\<rparr>)" using program_okD(3)[OF ok] tasks unfolding seen_known_def by auto
  show "later s (s\<lparr>pg_net := n\<rparr>)" unfolding later_def using tasks by auto
qed simp

lemma announced_ok:
  assumes "program_ok X A s" "\<And>i ce remote outbound. ev \<noteq> Conn i ce \<and> ev \<noteq> Opened i remote outbound"
  shows "program_ok X A (s\<lparr>pg_net := (pg_net s)\<lparr>net_events := net_events (pg_net s) @ [ev]\<rparr>\<rparr>)"
  using program_okD(2,3)[OF assms(1)] assms(2)
  by (intro program_ok_net[OF assms(1)]) (auto simp: tasks_known_def seen_known_def later_def)

lemma accepted_ok:
  assumes "program_ok X A s" "accept_turn local r (failures, pg_net s) = res" "res = Inl (failures', n) \<or> res = Inr n"
  shows "program_ok X A (s\<lparr>pg_net := n\<rparr>)"
proof -
  have same: "s\<lparr>pg_net := pg_net s\<rparr> = s" by simp
  have "n = pg_net s \<or> (\<exists>entropy. n = snd (net_spawn (pg_net s) Responder entropy True)) \<or>
      (\<exists>kind. n = (pg_net s)\<lparr>net_events := net_events (pg_net s) @ [ListenerStopped local (Some kind)]\<rparr>)"
    using assms(2,3) by (auto simp: accept_turn_def Let_def split: sum.splits if_splits)
  then show ?thesis
    using assms(1) spawned_ok[OF assms(1)] announced_ok[OF assms(1)] same by (elim disjE exE) simp_all
qed

lemma dialed_ok:
  assumes "program_ok X A s"
  shows "program_ok X A (s\<lparr>pg_net := dial (pg_net s) addr attempt\<rparr>)"
  using spawned_ok[OF assms refl] announced_ok[OF assms]
  by (cases attempt) (simp_all add: dial_def)

lemma loaded_ok:
  assumes "program_ok X A s" "ensure_idle (pg_app s) = Inr ()"
  shows "program_ok X [] (s\<lparr>pg_net := net_new identity, pg_seen := (\<lambda>_. 0), pg_noticed := 0\<rparr>)"
proof -
  have ok: "app_ok (pg_app s)" by (rule program_okD(1)[OF assms(1)])
  have none: "ap_peers (pg_app s) = []" using assms(2) by (simp add: ensure_idle_def guard_def split: if_splits)
  then have "ap_sas (pg_app s) = []"
    using app_okD(3)[OF ok] by (cases "ap_sas (pg_app s)") (auto simp: prompts_ok_def)
  with none ok show ?thesis
    by (simp add: program_ok_def tasks_known_def seen_known_def net_new_def)
qed

section \<open>Tasks\<close>

lemma set_task_fields [simp]:
  "pg_app (set_task i t s) = pg_app s" "pg_store (set_task i t s) = pg_store s"
  "pg_seen (set_task i t s) = pg_seen s"
  "program_tasks (set_task i t s) = (program_tasks s)[i := t]"
  "net_identity (pg_net (set_task i t s)) = net_identity (pg_net s)"
  "net_next_id (pg_net (set_task i t s)) = net_next_id (pg_net s)"
  "net_events (pg_net (set_task i t s)) = net_events (pg_net s)"
  by (simp_all add: set_task_def)

lemma task_by_id:
  assumes "tasks_known X A s" "t \<in> set (program_tasks s)" "u \<in> set (program_tasks s)" "tk_id t = tk_id u"
  shows "t = u"
  using assms distinct_map[of tk_id "program_tasks s"] unfolding tasks_known_def inj_on_def by blast

lemma in_set_update:
  "i < length xs \<Longrightarrow> u \<in> set (xs[i := t]) \<longleftrightarrow> u = t \<or> (\<exists>j < length xs. j \<noteq> i \<and> u = xs ! j)"
  by (auto simp: in_set_conv_nth nth_list_update)

lemma in_set_split: "i < length xs \<Longrightarrow> u \<in> set xs \<longleftrightarrow> u = xs ! i \<or> (\<exists>j < length xs. j \<noteq> i \<and> u = xs ! j)"
  by (auto simp: in_set_conv_nth)

text \<open>One task goes on, and its events only grow.\<close>

lemma set_task_ok:
  assumes known: "tasks_known X A s" and seen: "seen_known s"
    and i: "i < length (program_tasks s)" "t = program_tasks s ! i"
    and t': "tk_id t' = tk_id t" "tk_events t' = tk_events t @ evs" "\<not> tk_closing t \<or> tk_events t = []"
      "task_known X (net_identity (pg_net s)) A t'"
  shows "tasks_known X A (set_task i t' s)" "seen_known (set_task i t' s)" "later s (set_task i t' s)"
proof -
  have t: "t \<in> set (program_tasks s)" using i by simp
  have "map tk_id ((program_tasks s)[i := t']) = map tk_id (program_tasks s)"
    using i t'(1) by (metis list_update_id map_update)
  then have "distinct (map tk_id ((program_tasks s)[i := t']))" using known by (simp add: tasks_known_def)
  moreover have "set ((program_tasks s)[i := t']) \<subseteq> insert t' (set (program_tasks s))" by (rule set_update_subset_insert)
  ultimately show "tasks_known X A (set_task i t' s)"
    using known t t'(1,4) unfolding tasks_known_def set_task_fields by (metis insertE subsetD)
  have kept: "\<exists>u' \<in> set ((program_tasks s)[i := t']). tk_id u' = tk_id u \<and> (\<exists>evs. tk_events u' = tk_events u @ evs) \<and>
      (tk_closing u \<and> tk_events u \<noteq> [] \<longrightarrow> u' = u)" if "u \<in> set (program_tasks s)" for u
  proof (cases "u = t")
    case True
    with i t' show ?thesis by (intro bexI[of _ t']) (auto simp: in_set_update)
  next
    case False
    with that i have "u \<in> set ((program_tasks s)[i := t'])" by (auto simp: in_set_update in_set_split)
    then show ?thesis by (intro bexI[of _ u]) auto
  qed
  show "seen_known (set_task i t' s)"
    unfolding seen_known_def set_task_fields
  proof (intro conjI allI impI)
    fix j assume "0 < pg_seen s j"
    then obtain u where u: "u \<in> set (program_tasks s)" "tk_id u = j" "pg_seen s j \<le> length (tk_events u)"
      using seen unfolding seen_known_def by blast
    from kept[OF u(1)] u show "\<exists>t \<in> set ((program_tasks s)[i := t']). tk_id t = j \<and> pg_seen s j \<le> length (tk_events t)"
      by fastforce
  qed (use seen in \<open>simp add: seen_known_def\<close>)
  show "later s (set_task i t' s)"
    unfolding later_def set_task_fields using kept by fastforce
qed

lemma begun_task:
  assumes "task_known X identity A t" "tk_events t = []"
  obtains role entropy permit where "t = task_new (tk_id t) (engine_new role identity entropy) permit"
  using assms unfolding task_known_def task_history_def by auto

lemma begun_ok:
  assumes ok: "program_ok X A s" and i: "i < length (program_tasks s)" "t = program_tasks s ! i" "tk_events t = []"
    and "task_begin X V (Some (remote, outbound)) t = Some t'"
  shows "program_ok X A (set_task i t' s)"
proof -
  note old = program_okD[OF ok]
  have "task_known X (net_identity (pg_net s)) A t" using old(2) i by (simp add: tasks_known_def)
  then obtain role entropy permit where t: "t = task_new (tk_id t) (engine_new role (net_identity (pg_net s)) entropy) permit"
    using begun_task i(3) by metis
  then have first: "task_begin X V (Some (remote, outbound)) (task_new (tk_id t) (engine_new role (net_identity (pg_net s)) entropy) permit) = Some t'"
    using assms(5) by simp
  note history = task_begin_history[OF first]
  have "task_ok X t' \<and> live t'"
    using task_begin_ok[OF task_new_ok _ first] by (simp add: task_new_def)
  with history have known: "task_known X (net_identity (pg_net s)) A t'" unfolding task_known_def by blast
  note after = set_task_ok[OF old(2,3) i(1,2) history(2) _ _ known]
  show ?thesis
    using after i(3) by (intro program_ok_net[OF ok]) simp_all
qed

lemma unannounced_ok:
  assumes ok: "program_ok X A s" and i: "i < length (program_tasks s)" "t = program_tasks s ! i" "tk_events t = []"
  shows "program_ok X A
    (s\<lparr>pg_net := (pg_net s)\<lparr>net_tasks := take i (program_tasks s) @ drop (Suc i) (program_tasks s)\<rparr>\<rparr>)"
proof (rule program_ok_net[OF ok])
  let ?ts = "take i (program_tasks s) @ drop (Suc i) (program_tasks s)"
  let ?s = "s\<lparr>pg_net := (pg_net s)\<lparr>net_tasks := ?ts\<rparr>\<rparr>"
  note old = program_okD[OF ok]
  have split: "program_tasks s = take i (program_tasks s) @ t # drop (Suc i) (program_tasks s)"
    using i by (simp add: id_take_nth_drop)
  have others: "u \<in> set ?ts" if "u \<in> set (program_tasks s)" "u \<noteq> t" for u
    using that by (subst (asm) split) auto
  have sub: "set ?ts \<subseteq> set (program_tasks s)" by (auto dest: in_set_takeD in_set_dropD)
  have "distinct (map tk_id (take i (program_tasks s) @ t # drop (Suc i) (program_tasks s)))"
    using old(2) split by (simp add: tasks_known_def)
  then have "distinct (map tk_id ?ts)" by simp
  then show "tasks_known X A ?s" using old(2) sub unfolding tasks_known_def by auto
  show "seen_known ?s" unfolding seen_known_def
  proof (intro conjI allI impI)
    fix j assume "0 < pg_seen ?s j"
    then obtain u where u: "u \<in> set (program_tasks s)" "tk_id u = j" "pg_seen s j \<le> length (tk_events u)" "0 < pg_seen s j"
      using old(3) unfolding seen_known_def by auto
    with i(3) have "u \<noteq> t" by auto
    with u others show "\<exists>t \<in> set (program_tasks ?s). tk_id t = j \<and> pg_seen ?s j \<le> length (tk_events t)" by force
  qed (use old(3) in \<open>simp add: seen_known_def\<close>)
  show "later s ?s" unfolding later_def using others i(3) by fastforce
qed simp

section \<open>A turn of a task\<close>

lemma handle_of_peer:
  assumes "app_ok a" "handle_of a i = Some h"
  obtains l p where "map_of (ap_peers a) l = Some p" "pr_id p = i" "h = pr_handle p"
proof -
  obtain l p where l: "map_of (ap_by_id a) i = Some l" "map_of (ap_peers a) l = Some p" "h = pr_handle p"
    using assms(2) by (auto simp: handle_of_def split: option.splits)
  then have "pr_id p = i" using app_okD(1)[OF assms(1)] unfolding index_ok_def by fastforce
  with l that show thesis by blast
qed

lemma take_command_queues [simp]:
  "hd_id (take_command trn h) = hd_id h"
  "\<exists>k. hd_control (take_command trn h) = drop k (hd_control h)"
  "\<exists>k. hd_messages (take_command trn h) = drop k (hd_messages h)"
proof -
  have queues: "\<exists>k. tl xs = drop k xs" "\<exists>k. xs = drop k xs" for xs :: "'b list"
    by (rule exI[of _ 1], simp add: drop_Suc) (rule exI[of _ 0], simp)
  show "hd_id (take_command trn h) = hd_id h" by (induction trn h rule: take_command.induct) simp_all
  show "\<exists>k. hd_control (take_command trn h) = drop k (hd_control h)"
    by (induction trn h rule: take_command.induct) (use queues in simp_all)
  show "\<exists>k. hd_messages (take_command trn h) = drop k (hd_messages h)"
    by (induction trn h rule: take_command.induct) (use queues in simp_all)
qed

lemma drains_after_turn: "drains (after_turn i trn ended)"
  by (auto simp: drains_def after_turn_def intro: exI[of _ 0])

lemma offered_approval:
  assumes ok: "program_ok X A s" and "turn_offered s i (TControl (Some (ControlSas True)))"
  shows "\<exists>q \<in> set A. ps_id q = i"
proof -
  obtain h where h: "handle_of (pg_app s) i = Some h" "ControlSas True \<in> set (hd_control h)"
    using assms(2) by (auto split: option.splits list.splits)
  from handle_of_peer[OF program_okD(1)[OF ok] h(1)] obtain l p where
    p: "map_of (ap_peers (pg_app s)) l = Some p" "pr_id p = i" "h = pr_handle p" by metis
  with program_okD(5)[OF ok p(1)] h(2) show ?thesis by (simp add: yes_told_def)
qed

lemma active_task:
  assumes "task_known X identity A t" "tk_events t \<noteq> []"
  obtains h where "task_ok X t" "live t" "task_history X identity t h" "approving h \<longrightarrow> (\<exists>q \<in> set A. ps_id q = tk_id t)"
proof -
  have "tk_events (task_new (tk_id t) en permit) = []" for en permit by (simp add: task_new_def)
  with assms that show thesis unfolding task_known_def by metis
qed

lemma turned_ok:
  assumes ok: "program_ok X A s" and i: "i < length (program_tasks s)" "t = program_tasks s ! i"
    and t: "tk_events t \<noteq> []" "\<not> tk_closing t" "turn_offered s (tk_id t) trn" "task_turn X V trn t = Some t'"
  shows "program_ok X A ((set_task i t' s)\<lparr>pg_app := drained (after_turn (tk_id t) trn ended) (pg_app s)\<rparr>)"
proof (rule program_ok_step[OF ok])
  let ?s = "set_task i t' s" and ?f = "after_turn (tk_id t) trn ended"
  let ?s' = "?s\<lparr>pg_app := drained ?f (pg_app s)\<rparr>"
  note old = program_okD[OF ok]
  have "task_known X (net_identity (pg_net s)) A t" using old(2) i by (simp add: tasks_known_def)
  from active_task[OF this t(1)] obtain h where h: "task_ok X t" "live t" "task_history X (net_identity (pg_net s)) t h"
    "approving h \<longrightarrow> (\<exists>q \<in> set A. ps_id q = tk_id t)" by metis
  have on: "task_ok X t'" "live t'" using task_turn_ok[OF h(1,2), of V trn] t(4) by auto
  have "grows X (net_identity (pg_net s)) t h (trn = TControl (Some (ControlSas True))) t'"
    using task_turn_grows[OF t(4) h(3)] .
  then obtain evs h' where g: "tk_id t' = tk_id t" "tk_events t' = tk_events t @ evs"
    "task_history X (net_identity (pg_net s)) t' (h @ h')" "approving h' \<longrightarrow> trn = TControl (Some (ControlSas True))"
    unfolding grows_def by blast
  have "\<exists>q \<in> set A. ps_id q = tk_id t" if "approving (h @ h')"
    using that h(4) g(4) offered_approval[OF ok] t(3) by auto
  with on g have "task_known X (net_identity (pg_net s)) A t'" unfolding task_known_def by metis
  note after = set_task_ok[OF old(2,3) i g(1,2) _ this]
  show "later s ?s'" using after(3) t(2) unfolding later_def by simp
  show "app_ok (pg_app ?s')" using drained_ok[OF old(1) drains_after_turn] by simp
  show "tasks_known X A ?s'" using after(1) t(2) unfolding tasks_known_def by simp
  show "seen_known ?s'" using after(2) t(2) unfolding seen_known_def by simp
  show "peer_told ?s' p' \<or> (\<exists>p. map_of (ap_peers (pg_app s)) l = Some p \<and> same_who p p')"
    if "map_of (ap_peers (pg_app ?s')) l = Some p'" for l p'
    using who.peers_drained[of "pg_app s" ?f] that unfolding peers_rel_def by simp
  show "yes_told A p'" if p': "map_of (ap_peers (pg_app ?s')) l = Some p'" for l p'
  proof -
    obtain p where p: "map_of (ap_peers (pg_app s)) l = Some p" "p' = p\<lparr>pr_handle := ?f (pr_handle p)\<rparr>"
      using p' by (auto simp: drained_def map_of_map_values)
    have "set (hd_control (?f (pr_handle p))) \<subseteq> set (hd_control (pr_handle p))"
      using drains_after_turn unfolding drains_def by (metis set_drop_subset)
    with old(5)[OF p(1)] p(2) show ?thesis by (auto simp: yes_told_def)
  qed
qed (auto simp: drained_def same_prompt_def)

section \<open>An event received\<close>

lemma final_is_last:
  assumes "task_ok X t" "k < length (tk_events t)" "final_event (tk_events t ! k)"
  shows "tk_closing t \<and> Suc k = length (tk_events t)"
proof (rule ccontr)
  assume "\<not> ?thesis"
  with assms(2) have "tk_events t ! k \<in> set (if tk_closing t then butlast (tk_events t) else tk_events t)"
    by (auto simp: in_set_conv_nth nth_butlast intro!: exI[of _ k])
  with assms(1,3) show False by (auto simp: task_ok_def task_at_def)
qed

text \<open>An event of a task is expected by the application.\<close>

lemma event_of_task:
  assumes "task_history X identity t h" "k < length (tk_events t)"
  shows "(k = 0 \<and> (\<exists>remote outbound. tk_events t ! k = Opened (tk_id t) remote outbound)) \<or>
    (\<exists>ev. tk_events t ! k = Conn (tk_id t) ev)"
  using assms by (cases k) (auto simp: task_history_def)

lemma peer_number:
  assumes "app_ok a" "map_of (ap_by_id a) i = Some l" "map_of (ap_peers a) l = Some p"
  shows "pr_id p = i"
  using app_okD(1)[OF assms(1)] assms(2,3) unfolding index_ok_def by fastforce

lemma unseen_unknown:
  assumes ok: "program_ok X A s" and "pg_seen s i = 0"
  shows "i \<notin> fst ` set (ap_by_id (pg_app s))"
proof
  assume "i \<in> fst ` set (ap_by_id (pg_app s))"
  then obtain l where "map_of (ap_by_id (pg_app s)) i = Some l" by (metis (no_types) domD dom_map_of_conv_image_fst)
  then obtain p where "map_of (ap_peers (pg_app s)) l = Some p" "pr_id p = i"
    using app_okD(1)[OF program_okD(1)[OF ok]] unfolding index_ok_def by blast
  with program_okD(4)[OF ok] assms(2) show False unfolding peer_told_def by (metis less_irrefl)
qed

lemma unheard_open:
  assumes ok: "program_ok X A s" and t: "t \<in> set (program_tasks s)" "pg_seen s (tk_id t) < length (tk_events t)"
    and p: "map_of (ap_peers (pg_app s)) l = Some p" "pr_id p = tk_id t"
  shows "pr_status p \<noteq> PsClosed"
proof
  assume "pr_status p = PsClosed"
  with program_okD(4)[OF ok p(1)] p(2) obtain u where "u \<in> set (program_tasks s)" "tk_id u = tk_id t"
    "pg_seen s (tk_id t) = length (tk_events u)" unfolding peer_told_def heard_out_def by auto
  with task_by_id[OF program_okD(2)[OF ok] _ t(1)] t(2) show False by auto
qed

lemma event_of_task_expected:
  assumes ok: "program_ok X A s" and t: "t \<in> set (program_tasks s)" "pg_seen s (tk_id t) < length (tk_events t)"
  shows "event_expected (pg_app s) (tk_events t ! pg_seen s (tk_id t))"
proof -
  have "task_known X (net_identity (pg_net s)) A t" using program_okD(2)[OF ok] t(1) by (simp add: tasks_known_def)
  then obtain h where "task_history X (net_identity (pg_net s)) t h" using t(2) active_task by (metis length_greater_0_conv less_zeroE not_gr_zero)
  from event_of_task[OF this t(2)] show ?thesis
  proof (elim disjE conjE exE)
    fix remote outbound
    assume "pg_seen s (tk_id t) = 0" "tk_events t ! pg_seen s (tk_id t) = Opened (tk_id t) remote outbound"
    then show ?thesis using unseen_unknown[OF ok] by simp
  next
    fix ev assume "tk_events t ! pg_seen s (tk_id t) = Conn (tk_id t) ev"
    then show ?thesis using unheard_open[OF ok t] peer_number[OF program_okD(1)[OF ok]] by auto
  qed
qed

text \<open>What a peer's task told before, it still told; an event adds to it what it says.\<close>

lemma peer_told_after:
  assumes old: "peer_told s' p" and told: "told s' i ev" and "who_after i ev p p'"
    and closed: "\<And>cause. ev = CClosed cause \<Longrightarrow> heard_out s' i"
  shows "peer_told s' p'"
proof (cases "same_who p p'")
  case True
  with old show ?thesis using peer_told_same by blast
next
  case False
  with assms(3) have i: "pr_id p = i" "pr_id p' = i" unfolding who_after_def by auto
  show ?thesis
  proof (cases ev)
    case (CSasRequired w identity)
    with False assms(3) have "pr_status p' = pr_status p" "pr_fingerprint p' = Some (fingerprint identity)"
      "heard_from p' \<longrightarrow> heard_from p"
      unfolding who_after_def by auto
    with old told i CSasRequired show ?thesis unfolding peer_told_def by auto
  next
    case (CEstablished identity)
    with False assms(3) have "pr_status p' = PsConnected" "pr_fingerprint p' = Some (fingerprint identity)"
      "heard_from p' \<longrightarrow> heard_from p"
      unfolding who_after_def by auto
    with old told i CEstablished show ?thesis unfolding peer_told_def by auto
  next
    case (CClosed cause)
    with False assms(3) have "pr_status p' = PsClosed" "pr_fingerprint p' = pr_fingerprint p"
      "heard_from p' \<longrightarrow> heard_from p"
      unfolding who_after_def by auto
    with old closed[OF CClosed] i show ?thesis unfolding peer_told_def by simp
  next
    case (CMessage content)
    with False assms(3) have "pr_status p' = pr_status p" "pr_fingerprint p' = pr_fingerprint p"
      unfolding who_after_def by auto
    with old told i CMessage show ?thesis unfolding peer_told_def by auto
  qed (use False assms(3) in \<open>auto simp: who_after_def\<close>)
qed

lemma received_later:
  assumes ok: "program_ok X A s" and t: "t \<in> set (program_tasks s)" "pg_seen s (tk_id t) < length (tk_events t)"
    and s': "pg_net s' = pg_net s" "pg_seen s' = (pg_seen s)(tk_id t := Suc (pg_seen s (tk_id t)))"
  shows "later s s'" "tasks_known X A s'" "seen_known s'"
proof -
  have "u = t" if "u \<in> set (program_tasks s)" "tk_id u = tk_id t" for u
    using task_by_id[OF program_okD(2)[OF ok] that(1) t(1) that(2)] .
  with t show "later s s'" unfolding later_def s' by fastforce
  show "tasks_known X A s'" using tasks_known_same[OF program_okD(2)[OF ok] s'(1)] by simp
  show "seen_known s'" unfolding seen_known_def s'
  proof (intro conjI allI impI)
    fix i assume "0 < ((pg_seen s)(tk_id t := Suc (pg_seen s (tk_id t)))) i"
    then show "\<exists>u \<in> set (program_tasks s). tk_id u = i \<and>
        ((pg_seen s)(tk_id t := Suc (pg_seen s (tk_id t)))) i \<le> length (tk_events u)"
      using program_okD(3)[OF ok] t unfolding seen_known_def by (cases "i = tk_id t") auto
  qed (use program_okD(3)[OF ok] in \<open>simp add: seen_known_def\<close>)
qed

lemma received_yes:
  fixes s s' :: "'k program"
  assumes "program_ok X A s" "\<And>l. queued_yes (pg_app s') l \<Longrightarrow> queued_yes (pg_app s) l"
    "map_of (ap_peers (pg_app s')) l = Some p'" "map_of (ap_peers (pg_app s)) l = Some p" "pr_id p' = pr_id p"
  shows "yes_told A p'"
  using assms(2)[of l] assms(3-5) program_okD(5)[OF assms(1,4)] by (simp add: queued_yes_def yes_told_def)

lemma received_opened:
  fixes s s' :: "'k program"
  assumes ok: "program_ok X A s" and t: "t \<in> set (program_tasks s)" "pg_seen s (tk_id t) < length (tk_events t)"
    and s': "pg_net s' = pg_net s" "pg_seen s' = (pg_seen s)(tk_id t := Suc (pg_seen s (tk_id t)))"
      "pg_app s' = on_opened (tk_id t) (new_handle t) remote outbound (pg_app s)"
    and app: "app_ok (pg_app s')"
  shows "program_ok X A s'"
proof -
  note after = received_later[OF ok t s'(1,2)]
  have control: "hd_control (new_handle t) = []" by (simp add: new_handle_def)
  have peers: "map_of (ap_peers (pg_app s)) l = Some p' \<or>
      pr_id p' = tk_id t \<and> pr_handle p' = new_handle t \<and> pr_status p' = PsHandshaking \<and> pr_fingerprint p' = None \<and> \<not> heard_from p'"
    if "map_of (ap_peers (pg_app s')) l = Some p'" for l p'
    using that unfolding s'(3) by (rule opened_peers)
  have fresh: "peer_told s' p'"
    if "pr_id p' = tk_id t" "pr_status p' = PsHandshaking" "pr_fingerprint p' = None" "\<not> heard_from p'" for p'
    using that s'(2) by (simp add: peer_told_def)
  show ?thesis
  proof (rule program_ok_step[OF ok after(1) app after(2,3)])
    fix l p' assume p': "map_of (ap_peers (pg_app s')) l = Some p'"
    from peers[OF p'] fresh show "peer_told s' p' \<or> (\<exists>p. map_of (ap_peers (pg_app s)) l = Some p \<and> same_who p p')"
      unfolding same_who_def by blast
    from peers[OF p'] program_okD(5)[OF ok] control show "yes_told A p'" by (auto simp: yes_told_def)
  next
    fix q' assume "q' \<in> set (ap_sas (pg_app s'))"
    then show "prompt_told s' q' \<or> (\<exists>q \<in> set (ap_sas (pg_app s)). same_prompt q q')"
      unfolding s'(3) yes_on_opened(2)[OF control] same_prompt_def by blast
  qed blast
qed

lemma received_conn:
  fixes s s' :: "'k program"
  assumes ok: "program_ok X A s" and t: "t \<in> set (program_tasks s)" "pg_seen s (tk_id t) < length (tk_events t)"
    and ev: "tk_events t ! pg_seen s (tk_id t) = Conn (tk_id t) ce" "task_ok X t"
    and s': "pg_net s' = pg_net s" "pg_seen s' = (pg_seen s)(tk_id t := Suc (pg_seen s (tk_id t)))"
      "pg_app s' = on_conn_event now (tk_id t) ce (pg_app s)"
    and app: "app_ok (pg_app s')" and yes: "\<And>l. queued_yes (pg_app s') l \<Longrightarrow> queued_yes (pg_app s) l"
  shows "program_ok X A s'"
proof -
  let ?i = "tk_id t"
  note old = program_okD[OF ok] and after = received_later[OF ok t s'(1,2)]
  have told: "told s' ?i ce" unfolding told_def s'(1) using t ev(1) by (metis nth_mem)
  have rel: "peers_rel (who_after ?i ce) (pg_app s) (pg_app s')"
    unfolding s'(3) by (rule who_event[OF app_okD(1)[OF old(1)]])
  have closed: "heard_out s' ?i" if "ce = CClosed cause" for cause
    using final_is_last[OF ev(2) t(2)] ev(1) that t(1) unfolding heard_out_def s'(1,2) by auto
  show ?thesis
  proof (rule program_ok_step[OF ok after(1) app after(2,3)])
    fix l p' assume p': "map_of (ap_peers (pg_app s')) l = Some p'"
    with rel obtain p where p: "map_of (ap_peers (pg_app s)) l = Some p" "who_after ?i ce p p'"
      unfolding peers_rel_def by blast
    have "peer_told s' p'"
      using peer_told_after[OF peer_told_later[OF after(1) old(4)[OF p(1)]] told p(2)] closed by blast
    then show "peer_told s' p' \<or> (\<exists>p. map_of (ap_peers (pg_app s)) l = Some p \<and> same_who p p')" by blast
    show "yes_told A p'" using received_yes[OF ok yes p' p(1)] p(2) unfolding who_after_def by blast
  next
    fix q' assume "q' \<in> set (ap_sas (pg_app s'))"
    then have "q' \<in> set (ap_sas (pg_app s)) \<or>
        (\<exists>identity. ce = CSasRequired (ps_words q') identity \<and> ps_id q' = ?i \<and> ps_fingerprint q' = fingerprint identity)"
      unfolding s'(3) using prompts_event[of now ?i ce "pg_app s"] by blast
    then show "prompt_told s' q' \<or> (\<exists>q \<in> set (ap_sas (pg_app s)). same_prompt q q')"
      using told by (elim disjE exE) (auto simp: prompt_told_def same_prompt_def)
  qed blast
qed

lemma received_ok:
  fixes s s' :: "'k program"
  assumes ok: "program_ok X A s" and t: "t \<in> set (program_tasks s)" "pg_seen s (tk_id t) < length (tk_events t)"
    and s': "pg_net s' = pg_net s" "pg_seen s' = (pg_seen s)(tk_id t := Suc (pg_seen s (tk_id t)))"
      "pg_app s' = on_net_event now (new_handle t) (tk_events t ! pg_seen s (tk_id t)) (pg_app s)"
  shows "program_ok X A s'"
proof -
  let ?ev = "tk_events t ! pg_seen s (tk_id t)"
  have control: "hd_control (new_handle t) = []" "hd_id (new_handle t) = tk_id t" by (simp_all add: new_handle_def)
  have known: "task_known X (net_identity (pg_net s)) A t" using program_okD(2)[OF ok] t(1) by (simp add: tasks_known_def)
  have "tk_events t \<noteq> []" using t(2) by auto
  then obtain h where h: "task_ok X t" "task_history X (net_identity (pg_net s)) t h"
    using active_task[OF known] by metis
  from event_of_task[OF h(2) t(2)]
  consider (opened) remote outbound where "?ev = Opened (tk_id t) remote outbound" | (conn) ce where "?ev = Conn (tk_id t) ce"
    by blast
  then show ?thesis
  proof cases
    case opened
    have "app_ok (pg_app s')"
      unfolding s'(3)
      using on_net_event_ok[OF program_okD(1)[OF ok] event_of_task_expected[OF ok t]] opened control(2) by simp
    with received_opened[OF ok t s'(1,2)] show ?thesis by (simp add: s'(3) opened on_net_event_def)
  next
    case conn
    have "app_ok (pg_app s')"
      unfolding s'(3)
      using on_net_event_ok[OF program_okD(1)[OF ok] event_of_task_expected[OF ok t]] conn by simp
    moreover have "queued_yes (pg_app s') l \<Longrightarrow> queued_yes (pg_app s) l" for l
      unfolding s'(3) using event_yes[OF control(1)] by blast
    moreover have "pg_app s' = on_conn_event now (tk_id t) ce (pg_app s)" by (simp add: s'(3) conn on_net_event_def)
    ultimately show ?thesis using received_conn[OF ok t conn h(1) s'(1,2)] by blast
  qed
qed

lemma noticed_ok:
  fixes s s' :: "'k program"
  assumes ok: "program_ok X A s" and n: "pg_noticed s < length (net_events (pg_net s))"
    and s': "pg_net s' = pg_net s" "pg_seen s' = pg_seen s"
      "pg_app s' = on_net_event now h (net_events (pg_net s) ! pg_noticed s) (pg_app s)"
  shows "program_ok X A s'"
proof (rule program_ok_step[OF ok])
  let ?ev = "net_events (pg_net s) ! pg_noticed s"
  note old = program_okD[OF ok]
  have ev: "?ev \<noteq> Conn i ce \<and> ?ev \<noteq> Opened i remote outbound" for i ce remote outbound
    using old(3) n unfolding seen_known_def by (meson nth_mem)
  then have same: "ap_peers (pg_app s') = ap_peers (pg_app s)" "ap_sas (pg_app s') = ap_sas (pg_app s)"
    unfolding s'(3) by (cases ?ev; simp add: on_net_event_def)+
  have "event_expected (pg_app s) ?ev" using ev by (cases ?ev) auto
  then show "app_ok (pg_app s')" unfolding s'(3) using on_net_event_ok[OF old(1)] ev by blast
  show "later s s'" by (rule later_same) (simp_all add: s')
  show "tasks_known X A s'" by (rule tasks_known_same[OF old(2)]) (simp_all add: s')
  show "seen_known s'" by (rule seen_known_same[OF old(3)]) (simp_all add: s')
  show "peer_told s' p' \<or> (\<exists>p. map_of (ap_peers (pg_app s)) l = Some p \<and> same_who p p')"
    if "map_of (ap_peers (pg_app s')) l = Some p'" for l p'
    using that unfolding same same_who_def by blast
  show "yes_told A p'" if "map_of (ap_peers (pg_app s')) l = Some p'" for l p'
    using that old(5) unfolding same by blast
  show "prompt_told s' q' \<or> (\<exists>q \<in> set (ap_sas (pg_app s)). same_prompt q q')" if "q' \<in> set (ap_sas (pg_app s'))" for q'
    using that unfolding same same_prompt_def by blast
qed blast

section \<open>Whole runs\<close>

lemma program_step_ok:
  assumes "program_step E V c s s'" "program_ok (sh_ext E) A s"
  shows "program_ok (sh_ext E) (approvals c (pg_app s) A) s'"
  using assms(1)
proof cases
  case (pressed key a k)
  with key_step_ok[OF assms(2)] show ?thesis by simp
next
  case (redrawn m)
  let ?s = "s\<lparr>pg_app := with_view (\<lambda>v. v\<lparr>cv_max_scroll := m\<rparr>) (pg_app s)\<rparr>"
  have same: "ap_peers (pg_app ?s) = ap_peers (pg_app s)" "ap_sas (pg_app ?s) = ap_sas (pg_app s)"
    by (simp_all add: with_view_def split: mode.split)
  note old = program_okD[OF assms(2)]
  have "program_ok (sh_ext E) A ?s"
  proof (rule program_ok_step[OF assms(2) later_same])
    show "app_ok (pg_app ?s)" using with_view_ok[OF old(1), of "\<lambda>v. v\<lparr>cv_max_scroll := m\<rparr>"] by simp
    show "tasks_known (sh_ext E) A ?s" by (rule tasks_known_same[OF old(2)]) simp_all
    show "seen_known ?s" by (rule seen_known_same[OF old(3)]) simp_all
  qed (use old(5) same in \<open>auto simp: same_who_def same_prompt_def\<close>)
  with redrawn show ?thesis by simp
next
  case (loaded identity)
  with loaded_ok[OF assms(2)] show ?thesis by simp
next
  case (accepted local r failures failures' n)
  with accepted_ok[OF assms(2)] show ?thesis by simp
next
  case (stopped local r failures n)
  with accepted_ok[OF assms(2)] show ?thesis by simp
next
  case (dialed addr attempt)
  with dialed_ok[OF assms(2)] show ?thesis by simp
next
  case (begun i t remote outbound t')
  with begun_ok[OF assms(2)] show ?thesis by simp
next
  case (unannounced i t remote outbound)
  with unannounced_ok[OF assms(2)] show ?thesis by simp
next
  case (turned i t trn t')
  with turned_ok[OF assms(2)] show ?thesis by simp
next
  case (received t now)
  show ?thesis unfolding received(1,2) approvals.simps by (rule received_ok[OF assms(2) received(4,5)]) simp_all
next
  case (noticed now h)
  show ?thesis unfolding noticed(1,2) approvals.simps by (rule noticed_ok[OF assms(2) noticed(4)]) simp_all
qed

lemma program_start_ok:
  assumes "app_ok (fst a0)" "ap_peers (fst a0) = []" "ap_sas (fst a0) = []"
  shows "program_ok X [] (program_start a0)"
  using assms by (simp add: program_ok_def program_start_def tasks_known_def seen_known_def net_new_def)

lemma program_run_ok:
  assumes "program_run E V (fst (startup E warnings config profile k)) A s"
  shows "program_ok (sh_ext E) A s"
  using assms
proof (induction rule: program_run.induct)
  case first
  have "ap_peers (fst (fst (startup E warnings config profile k))) = []"
    "ap_sas (fst (fst (startup E warnings config profile k))) = []"
    using startup_core[of E warnings config profile k] by (simp_all add: same_core_def app_new_def)
  then show ?case by (rule program_start_ok[OF startup_ok])
next
  case (step A s c s')
  then show ?case using program_step_ok by blast
qed

end
