(* ===== verification/Program_Props.thy ===== *)
theory Program_Props
  imports Program_Inv
begin

text \<open>
  What the parts owe each other, and what that gives: the application meets only the events it
  expects, so its own runs account for those of the program; no task is ever stuck; and what is shown
  of a peer goes back to words that the user compared.
\<close>

section \<open>The application in the program\<close>

lemma program_step_app:
  assumes "program_step E V c s s'" and ok: "program_ok (sh_ext E) A s"
  shows "app_run E (pg_app s, pg_store s) (pg_app s', pg_store s')"
  using assms(1)
proof cases
  case (pressed key a k)
  have "app_step E (pg_app s, pg_store s) (on_key E key (pg_app s, pg_store s))"
    using pressed by (intro app_step.pressed) simp
  with pressed show ?thesis by (simp add: app_run_def)
next
  case (redrawn m)
  then show ?thesis by (auto simp: app_run_def intro: app_step.redrawn)
next
  case (turned i t trn t')
  then show ?thesis using app_step.taken[OF drains_after_turn, of E] by (auto simp: app_run_def)
next
  case (received t now)
  let ?ev = "tk_events t ! pg_seen s (tk_id t)"
  have known: "task_known (sh_ext E) (net_identity (pg_net s)) A t"
    using program_okD(2)[OF ok] received(4) by (simp add: tasks_known_def)
  have "tk_events t \<noteq> []" using received(5) by auto
  then obtain h where "task_history (sh_ext E) (net_identity (pg_net s)) t h" using active_task[OF known] by metis
  from event_of_task[OF this received(5)]
  have "\<forall>remote outbound j. ?ev = Opened j remote outbound \<longrightarrow> j = tk_id t" by auto
  then have "app_step E (pg_app s, pg_store s) (on_net_event now (new_handle t) ?ev (pg_app s), pg_store s)"
    by (intro app_step.received[OF received(3) event_of_task_expected[OF ok received(4,5)]]) (simp_all add: new_handle_def)
  with received(2) show ?thesis by (simp add: app_run_def)
next
  case (noticed now h)
  let ?ev = "net_events (pg_net s) ! pg_noticed s"
  have ev: "?ev \<noteq> Conn i ce \<and> ?ev \<noteq> Opened i remote outbound" for i ce remote outbound
    using program_okD(3)[OF ok] noticed(4) unfolding seen_known_def by (meson nth_mem)
  then have "event_expected (pg_app s) ?ev" by (cases ?ev) auto
  then have "app_step E (pg_app s, pg_store s)
      (on_net_event now \<lparr>hd_id = 0, hd_messages = [], hd_control = [], hd_gone = False\<rparr> ?ev (pg_app s), pg_store s)"
    using ev noticed(3) by (intro app_step.received) auto
  moreover have "on_net_event now h' ?ev a = on_net_event now h'' ?ev a" for h' h'' a
    using ev by (cases ?ev) (auto simp: on_net_event_def)
  ultimately show ?thesis using noticed(2) by (auto simp: app_run_def) (metis r_into_rtranclp)
qed (simp_all add: app_run_def set_task_def)

lemma program_run_app:
  assumes "program_run E V (fst (startup E warnings config profile k)) A s"
  shows "app_run E (fst (startup E warnings config profile k)) (pg_app s, pg_store s)"
  using assms
proof (induction rule: program_run.induct)
  case first
  then show ?case by (simp add: program_start_def app_run_def)
next
  case (step A s c s')
  with program_step_app[OF step.hyps(2) program_run_ok[OF step.hyps(1)]] show ?case
    by (auto simp: app_run_def)
qed

text \<open>A task that has begun has its engine's run behind it, and can take a turn that it is offered.\<close>

lemma program_turns:
  assumes ok: "program_ok (sh_ext E) A s" and i: "i < length (program_tasks s)" "t = program_tasks s ! i" "tk_events t \<noteq> []"
  shows "\<exists>h. task_history (sh_ext E) (net_identity (pg_net s)) t h"
    and "\<not> tk_closing t \<Longrightarrow> turn_offered s (tk_id t) trn \<Longrightarrow> \<exists>t'. task_turn (sh_ext E) (V (tk_id t)) trn t = Some t' \<and>
      program_step E V Running s
        ((set_task i t' s)\<lparr>pg_app := drained (after_turn (tk_id t) trn (tk_closing t')) (pg_app s)\<rparr>)"
proof -
  have "task_known (sh_ext E) (net_identity (pg_net s)) A t"
    using program_okD(2)[OF ok] i(1,2) by (simp add: tasks_known_def)
  from active_task[OF this i(3)] have task: "task_ok (sh_ext E) t" "live t"
    and h: "\<exists>h. task_history (sh_ext E) (net_identity (pg_net s)) t h" by metis+
  show "\<exists>h. task_history (sh_ext E) (net_identity (pg_net s)) t h" by (rule h)
  assume "\<not> tk_closing t" "turn_offered s (tk_id t) trn"
  then show "\<exists>t'. task_turn (sh_ext E) (V (tk_id t)) trn t = Some t' \<and> program_step E V Running s
      ((set_task i t' s)\<lparr>pg_app := drained (after_turn (tk_id t) trn (tk_closing t')) (pg_app s)\<rparr>)"
    using task_turn_ok[OF task] program_step.turned[OF i] by metis
qed

section \<open>Compared words\<close>

lemma accepted_unique:
  assumes "accepted X h p" "RequestSas w q \<in> set (effects h)"
  obtains hash where "w = sas_words X hash" "q = p" "approved h w p"
  using assms unfolding accepted_def only_question_def by metis

text \<open>The session of the run's peer began with the keys of the transcript with this hash.\<close>

definition session_began :: "ext \<Rightarrow> identity_keypair \<Rightarrow> history \<Rightarrow> bytes \<Rightarrow> peer_identity \<Rightarrow> bool" where
  "session_began X identity h hash p \<longleftrightarrow>
     (\<exists>role entropy h1 inp out h2 en1 en2. h = h1 @ (inp, out) # h2 \<and> engine_run X role identity entropy h1 en1 \<and>
        handle X inp en1 = (en2, out) \<and> Notify (Established p) \<in> set out \<and> first_session X hash p en2)"

lemma established_began:
  assumes "engine_run X role identity entropy h en" "Notify (Established p) \<in> set (effects h)"
    "RequestSas w q \<in> set (effects h)"
  shows "\<exists>hash. w = sas_words X hash \<and> q = p \<and> session_began X identity h hash p"
proof -
  have acc: "accepted X h p" by (rule accepted_run[OF assms(1,2)])
  obtain h1 inp out h2 en1 en2 where o: "h = h1 @ (inp, out) # h2" "engine_run X role identity entropy h1 en1"
    "handle X inp en1 = (en2, out)" "Notify (Established p) \<in> set out" using effect_origin[OF assms(1,2)] by blast
  from established_step[OF o(2-4)] obtain hash where hash: "approved h1 (sas_words X hash) p" "first_session X hash p en2"
    by blast
  have "RequestSas (sas_words X hash) p \<in> set (effects h)"
    using hash(1) unfolding approved_def asked_def o(1) by auto
  then have "w = sas_words X hash \<and> q = p" using assms(3) acc unfolding accepted_def only_question_def by metis
  then show ?thesis unfolding session_began_def using o hash(2) by blast
qed

lemma accepted_asked: "accepted X h p \<Longrightarrow> \<exists>w. RequestSas w p \<in> set (effects h)"
proof -
  assume "accepted X h p"
  then obtain w where "approved h w p" by (auto simp: accepted_def)
  then obtain a out b where "h = a @ (SasDecision True, out) # b" "asked a w p" by (auto simp: approved_def)
  then show ?thesis unfolding asked_def by fastforce
qed

lemma peer_compared:
  assumes ok: "program_ok X A s" and p: "map_of (ap_peers (pg_app s)) l = Some p"
    and shown: "pr_status p = PsConnected \<or> heard_from p"
  shows "\<exists>t h identity q hash. t \<in> set (program_tasks s) \<and> tk_id t = pr_id p \<and>
    task_history X (net_identity (pg_net s)) t h \<and> session_began X (net_identity (pg_net s)) h hash identity \<and>
    q \<in> set A \<and> ps_id q = pr_id p \<and> is_approval (ps_typed q) \<and>
    ps_words q = sas_words X hash \<and> approved h (ps_words q) identity \<and> ps_fingerprint q = fingerprint identity \<and>
    (\<forall>f. pr_fingerprint p = Some f \<longrightarrow> f = fingerprint identity) \<and>
    (pr_status p = PsConnected \<longrightarrow> pr_fingerprint p \<noteq> None)"
proof -
  have told: "peer_told s p" by (rule program_okD(4)[OF ok p])
  obtain ev where ev: "told s (pr_id p) ev" "(\<exists>i. ev = CEstablished i) \<or> (\<exists>m. ev = CMessage m)"
    using told shown unfolding peer_told_def by blast
  then obtain t where t: "t \<in> set (program_tasks s)" "tk_id t = pr_id p" "Conn (pr_id p) ev \<in> set (tk_events t)"
    unfolding told_def by blast
  have mine: "Conn (pr_id p) e \<in> set (tk_events t)" if "told s (pr_id p) e" for e
    using that task_by_id[OF program_okD(2)[OF ok] _ t(1)] t(2) unfolding told_def by auto
  have known: "task_known X (net_identity (pg_net s)) A t" using program_okD(2)[OF ok] t(1) by (simp add: tasks_known_def)
  have "tk_events t \<noteq> []" using t(3) by auto
  then obtain h where h: "task_history X (net_identity (pg_net s)) t h"
    "approving h \<longrightarrow> (\<exists>q \<in> set A. ps_id q = tk_id t)" using active_task[OF known] by metis
  obtain identity where id: "Notify (Established identity) \<in> set (effects h)" "accepted X h identity"
    using history_accepted[OF h(1) t(3)] ev(2) by auto
  then obtain w where w: "approved h w identity" by (auto simp: accepted_def)
  then obtain q where q: "q \<in> set A" "ps_id q = pr_id p" using h(2) t(2) approved_approving by metis
  obtain who where who: "told s (pr_id p) (CSasRequired (ps_words q) who)" "ps_fingerprint q = fingerprint who"
    using program_okD(7)[OF ok q(1)] q(2) unfolding prompt_told_def by auto
  have "RequestSas (ps_words q) who \<in> set (effects h)" using history_event[OF h(1) mine[OF who(1)]] by auto
  moreover obtain role entropy where run: "engine_run X role (net_identity (pg_net s)) entropy h (tk_engine t)"
    using h(1) unfolding task_history_def by blast
  ultimately have "\<exists>hash. ps_words q = sas_words X hash \<and> who = identity \<and>
      session_began X (net_identity (pg_net s)) h hash identity \<and> approved h (ps_words q) identity"
    using established_began[OF run id(1)] accepted_unique[OF id(2)] by metis
  then obtain hash where hash: "ps_words q = sas_words X hash" "who = identity"
    "session_began X (net_identity (pg_net s)) h hash identity" "approved h (ps_words q) identity" by blast
  have "i = identity" if "told s (pr_id p) (CEstablished i) \<or> (\<exists>w. told s (pr_id p) (CSasRequired w i))" for i
  proof -
    have "Notify (Established i) \<in> set (effects h) \<or> (\<exists>w. RequestSas w i \<in> set (effects h))"
      using that history_event[OF h(1)] mine by fastforce
    then have "\<exists>w. RequestSas w i \<in> set (effects h)" using accepted_run[OF run] accepted_asked by blast
    then show ?thesis using accepted_unique[OF id(2)] by metis
  qed
  then have "\<forall>f. pr_fingerprint p = Some f \<longrightarrow> f = fingerprint identity"
    using told unfolding peer_told_def by metis
  moreover have "pr_status p = PsConnected \<longrightarrow> pr_fingerprint p \<noteq> None" using told unfolding peer_told_def by blast
  ultimately show ?thesis using t(1,2) h(1) q program_okD(8)[OF ok q(1)] hash who(2) by blast
qed

end
