(* ===== verification/Program_Connect.thy ===== *)
theory Program_Connect
  imports Program_Props Machine_Handshake App_Demo
begin

text \<open>
  The whole program at work: over a network that delivers, with a peer that keeps to the protocol and
  a user who types yes when the words are shown, a dialed connection is shown as connected to that
  peer.
\<close>

section \<open>A task without failures\<close>

definition reports :: "effect list \<Rightarrow> conn_event list" where
  "reports out = List.map_filter emitted out"

lemma reports_notices: "reports out = reports (notices out)"
proof -
  have "emitted e = None" if "\<not> noticed e" for e using that by (cases e) (simp_all add: emitted_def)
  then show ?thesis unfolding reports_def
    by (induction out) (auto simp: map_filter_simps split: option.split)
qed

lemma reports_simps [simp]:
  "reports [] = []" "reports [RequestSas w p] = [CSasRequired w p]" "reports [Notify (Established p)] = [CEstablished p]"
  by (simp_all add: reports_def map_filter_simps emitted_def)

definition env_fine :: "env \<Rightarrow> bool" where
  "env_fine V \<longleftrightarrow> (\<forall>n. env_write_ok V n \<and> env_event_ok V n)"

definition encoded :: "frame \<Rightarrow> bytes" where
  "encoded f = (case frame_encode f of Inr bs \<Rightarrow> bs | Inl _ \<Rightarrow> [])"

lemma frame_encode_encoded: "frame_ok f \<Longrightarrow> frame_encode f = Inr (encoded f)"
  by (simp add: encoded_def frame_encode_ok)

lemma process_fine:
  assumes "env_fine V" "\<forall>f \<in> set (sends out). frame_ok f" "\<not> tk_lost t" "\<not> tk_orphaned t"
  shows "tk_events (process V out t) = tk_events t @ map (Conn (tk_id t)) (reports out) \<and>
    tk_written (process V out t) = tk_written t @ map encoded (sends out) \<and> \<not> tk_lost (process V out t) \<and> \<not> tk_orphaned (process V out t)"
  using assms(2-)
proof (induction out arbitrary: t)
  case (Cons e out)
  have "tk_events (process_effect V e t) = tk_events t @ map (Conn (tk_id t)) (reports [e]) \<and>
      tk_written (process_effect V e t) = tk_written t @ map encoded (sent e) \<and> \<not> tk_lost (process_effect V e t) \<and> \<not> tk_orphaned (process_effect V e t)"
    using assms(1) Cons.prems
    by (simp add: process_defs env_fine_def reports_def map_filter_simps emitted_def frame_encode_encoded
        split: effect.split event.split)
  moreover have "reports (e # out) = reports [e] @ reports out"
    by (simp add: reports_def map_filter_simps split: option.split)
  ultimately show ?case using Cons.IH[of "process_effect V e t"] Cons.prems(1) by (simp add: process_def)
qed (simp add: process_def)

text \<open>A task between turns, with what its engine is, what it wrote and what it reported.\<close>

definition calm :: "nat \<Rightarrow> engine \<Rightarrow> bytes list \<Rightarrow> net_event list \<Rightarrow> task \<Rightarrow> bool" where
  "calm i en ws evs t \<longleftrightarrow> tk_id t = i \<and> tk_engine t = en \<and> tk_written t = ws \<and> tk_events t = evs \<and> tk_decoder t = [] \<and>
     \<not> tk_lost t \<and> \<not> tk_orphaned t \<and> \<not> tk_closing t"

lemma calm_input:
  assumes "calm i en ws evs t" "env_fine V" "handle X inp en = (en', out)" "\<forall>f \<in> set (sends out). frame_ok f"
    "notices out = l" "CloseTransport \<notin> set l"
  shows "calm i en' (ws @ map encoded (sends out)) (evs @ map (Conn i) (reports l)) (apply_input X V inp t)"
proof -
  have t: "tk_engine t = en" "\<not> tk_lost t" "\<not> tk_orphaned t" using assms(1) by (simp_all add: calm_def)
  have p: "task_handle X V inp t = process V out (t\<lparr>tk_engine := en'\<rparr>)" using assms(3) t(1) by (simp add: task_handle_def)
  have "CloseTransport \<in> set out \<longleftrightarrow> CloseTransport \<in> set (notices out)" by simp
  then have "CloseTransport \<notin> set out" using assms(5,6) by simp
  moreover have "reports out = reports l" using reports_notices[of out] assms(5) by simp
  ultimately show ?thesis
    using process_fine[OF assms(2,4), of "t\<lparr>tk_engine := en'\<rparr>"] assms(1) t
    by (simp add: calm_def apply_input_def p)
qed

lemma calm_frame:
  assumes "calm i en ws evs t" "env_fine V" "frame_ok f" "handle X (FrameReceived f) en = (en', out)"
    "\<forall>f \<in> set (sends out). frame_ok f" "notices out = l" "CloseTransport \<notin> set l"
  obtains bs t' where "task_turn X V (TRead bs) t = Some t'" "calm i en' (ws @ map encoded (sends out)) (evs @ map (Conn i) (reports l)) t'"
proof -
  obtain bs where bs: "frame_encode f = Inr bs" using frame_encode_ok[OF assms(3)] by blast
  let ?t = "apply_input X V (FrameReceived f) t"
  have c: "calm i en' (ws @ map encoded (sends out)) (evs @ map (Conn i) (reports l)) ?t" by (rule calm_input[OF assms(1,2,4-7)])
  have t: "t\<lparr>tk_decoder := []\<rparr> = t" "tk_decoder t = []" "\<not> tk_closing t" using assms(1) by (simp_all add: calm_def)
  have next_t: "next_frame bs = (Inr (Some f), [])" using next_frame_encoded[OF bs, of "[]"] by simp
  have "next_frame (tk_decoder ?t) = (Inr None, [])" using c by (simp add: calm_def next_frame_def HEADER_SIZE_def)
  then have stop: "drain_frames X V (Suc n) ?t = Some (?t\<lparr>tk_decoder := []\<rparr>)" for n using c by (simp add: calm_def)
  have "drain_frames X V (Suc (Suc n)) (t\<lparr>tk_decoder := bs\<rparr>) = drain_frames X V (Suc n) ?t" for n
    by (subst drain_frames.simps(2)) (simp add: t next_t del: drain_frames.simps)
  then have "task_turn X V (TRead bs) t = Some (?t\<lparr>tk_decoder := []\<rparr>)"
    using stop t(2) by (simp add: decoder_push_def drain_fuel_def numeral_3_eq_3 del: drain_frames.simps)
  moreover have "calm i en' (ws @ map encoded (sends out)) (evs @ map (Conn i) (reports l)) (?t\<lparr>tk_decoder := []\<rparr>)" using c by (simp add: calm_def)
  ultimately show thesis by (rule that)
qed

lemma calm_begin:
  assumes "env_fine V" "handle X Start (engine_new role identity entropy) = (en, out)"
    "\<forall>f \<in> set (sends out). frame_ok f" "notices out = []"
  obtains t where "task_begin X V (Some (remote, outbound)) (task_new i (engine_new role identity entropy) permit) = Some t"
    "calm i en (map encoded (sends out)) [Opened i remote outbound] t"
proof
  let ?t = "(task_new i (engine_new role identity entropy) permit)\<lparr>tk_emits := 1, tk_events := [Opened i remote outbound]\<rparr>"
  show "task_begin X V (Some (remote, outbound)) (task_new i (engine_new role identity entropy) permit) =
      Some (apply_input X V Start ?t)"
    using assms(1) by (simp add: task_begin_def env_fine_def task_new_def)
  have "calm i (engine_new role identity entropy) [] [Opened i remote outbound] ?t" by (simp add: calm_def task_new_def)
  from calm_input[OF this assms(1,2,3,4)] show "calm i en (map encoded (sends out)) [Opened i remote outbound] (apply_input X V Start ?t)" by simp
qed

section \<open>The program with one connection\<close>

definition reached ::
  "'k shell \<Rightarrow> (nat \<Rightarrow> env) \<Rightarrow> app \<times> 'k \<Rightarrow> pending_sas list \<Rightarrow> app \<Rightarrow> task \<Rightarrow> nat \<Rightarrow> bool" where
  "reached E V a0 A a t n \<longleftrightarrow>
     (\<exists>s. program_run E V a0 A s \<and> pg_app s = a \<and> program_tasks s = [t] \<and> pg_seen s (tk_id t) = n)"

lemma reached_step:
  assumes "reached E V a0 A a t n"
    "\<And>s. pg_app s = a \<Longrightarrow> program_tasks s = [t] \<Longrightarrow> pg_seen s (tk_id t) = n \<Longrightarrow>
       \<exists>s'. program_step E V c s s' \<and> pg_app s' = a' \<and> program_tasks s' = [t'] \<and> pg_seen s' (tk_id t') = n'"
  shows "reached E V a0 (approvals c a A) a' t' n'"
  using assms program_run.step unfolding reached_def by metis

lemma reach_dialed:
  assumes "ap_net a = Some identity"
  shows "reached E V (a, k) [] a (task_new 1 (engine_new Initiator identity entropy) False) 0"
proof -
  let ?s = "program_start (a, k)"
  have "facade_loaded ?s" using assms by (simp add: facade_loaded_def program_start_def net_new_def)
  from program_run.step[OF program_run.first program_step.dialed[OF this, of E V "[]" "Inr entropy"]]
  show ?thesis
    unfolding reached_def using assms
    by (intro exI[of _ "?s\<lparr>pg_net := dial (pg_net ?s) [] (Inr entropy)\<rparr>"])
      (simp add: program_start_def dial_def net_spawn_def net_new_def Let_def)
qed

lemma reach_begun:
  assumes "reached E V a0 A a t n" "tk_events t = []" "tk_id t' = tk_id t"
    "task_begin (sh_ext E) (V (tk_id t)) (Some (remote, outbound)) t = Some t'"
  shows "reached E V a0 A a t' n"
proof -
  have "\<exists>s'. program_step E V Running s s' \<and> pg_app s' = a \<and> program_tasks s' = [t'] \<and> pg_seen s' (tk_id t') = n"
    if s: "pg_app s = a" "program_tasks s = [t]" "pg_seen s (tk_id t) = n" for s
  proof (intro exI conjI)
    show "program_step E V Running s (set_task 0 t' s)"
      by (rule program_step.begun[of 0 s t E V remote outbound]) (simp_all add: s(2) assms(2,4))
  qed (simp_all add: s assms(3))
  from reached_step[OF assms(1) this] show ?thesis unfolding approvals.simps .
qed

lemma reach_turned:
  fixes E :: "'k shell"
  assumes "reached E V a0 A a t n" "tk_events t \<noteq> []" "\<not> tk_closing t" "tk_id t' = tk_id t" "\<not> tk_closing t'"
    "task_turn (sh_ext E) (V (tk_id t)) trn t = Some t'"
    and offered: "\<And>s :: 'k program. pg_app s = a \<Longrightarrow> turn_offered s (tk_id t) trn"
  shows "reached E V a0 A (drained (after_turn (tk_id t) trn False) a) t' n"
proof -
  have "\<exists>s'. program_step E V Running s s' \<and> pg_app s' = drained (after_turn (tk_id t) trn False) a \<and>
      program_tasks s' = [t'] \<and> pg_seen s' (tk_id t') = n"
    if s: "pg_app s = a" "program_tasks s = [t]" "pg_seen s (tk_id t) = n" for s
  proof (intro exI conjI)
    show "program_step E V Running s
        ((set_task 0 t' s)\<lparr>pg_app := drained (after_turn (tk_id t) trn (tk_closing t')) (pg_app s)\<rparr>)"
      by (rule program_step.turned[of 0 s t]) (simp_all add: s(2) assms(2,3,6) offered[OF s(1)])
  qed (simp_all add: s assms(4,5))
  from reached_step[OF assms(1) this] show ?thesis unfolding approvals.simps .
qed

lemma reach_received:
  assumes "reached E V a0 A a t n" "n < length (tk_events t)" "\<not> ap_quit a"
  shows "reached E V a0 A (on_net_event now (new_handle t) (tk_events t ! n) a) t (Suc n)"
proof -
  have "\<exists>s'. program_step E V Running s s' \<and> pg_app s' = on_net_event now (new_handle t) (tk_events t ! n) a \<and>
      program_tasks s' = [t] \<and> pg_seen s' (tk_id t) = Suc n"
    if s: "pg_app s = a" "program_tasks s = [t]" "pg_seen s (tk_id t) = n" for s
  proof (intro exI conjI)
    show "program_step E V Running s
        (s\<lparr>pg_app := on_net_event now (new_handle t) (tk_events t ! pg_seen s (tk_id t)) (pg_app s),
           pg_seen := (pg_seen s)(tk_id t := Suc (pg_seen s (tk_id t)))\<rparr>)"
      by (rule program_step.received) (use s assms(2,3) in auto)
  qed (simp_all add: s)
  from reached_step[OF assms(1) this] show ?thesis unfolding approvals.simps .
qed

lemma reach_pressed:
  fixes E :: "'k shell"
  assumes "reached E V a0 A a t n" "\<And>k :: 'k. fst (on_key E key (a, k)) = a'" "\<not> ap_quit a"
  shows "reached E V a0 (approvals (Pressed key) a A) a' t n"
proof (rule reached_step[OF assms(1)])
  fix s :: "'k program" assume s: "pg_app s = a" "program_tasks s = [t]" "pg_seen s (tk_id t) = n"
  let ?s' = "s\<lparr>pg_app := a', pg_store := snd (on_key E key (a, pg_store s))\<rparr>"
  have "program_step E V (Pressed key) s ?s'"
    using assms(2)[of "pg_store s"] assms(3) s(1) by (intro program_step.pressed) (auto simp: prod_eq_iff)
  with s show "\<exists>s'. program_step E V (Pressed key) s s' \<and> pg_app s' = a' \<and> program_tasks s' = [t] \<and> pg_seen s' (tk_id t) = n"
    by (intro exI[of _ ?s']) simp
qed

section \<open>The application with one connection\<close>

definition plain_key :: "key_code \<Rightarrow> key_event" where
  "plain_key c = \<lparr>ke_code = c, ke_control = False, ke_alt = False\<rparr>"

abbreviation established_note :: "author \<times> ustr" where
  "established_note \<equiv> (ASystem, lit ''secure session established'')"

text \<open>One peer, with its handle, its claimed fingerprint, its status and all its conversation; the prompts;
  the prompt of the terminal.\<close>

definition single ::
  "nat \<Rightarrow> connection_handle \<Rightarrow> ustr option \<Rightarrow> peer_status \<Rightarrow> (author \<times> ustr) list \<Rightarrow> pending_sas list \<Rightarrow> app \<Rightarrow> bool" where
  "single i h f st hs qs a \<longleftrightarrow>
     (\<exists>p. ap_peers a = [(label_of 1, p)] \<and> pr_id p = i \<and> pr_handle p = h \<and> pr_fingerprint p = f \<and> pr_status p = st \<and>
        pr_scrollback p = pushed hs) \<and>
     ap_by_id a = [(i, label_of 1)] \<and> ap_sas a = qs \<and> ap_mode a = Repl \<and> ap_input a = [] \<and> \<not> ap_quit a"

lemma input_fields [simp]: "ap_input (say t a) = ap_input a" "ap_input (announce_sas a) = ap_input a"
  by (simp_all add: say_def announce_sas_def split: mode.split list.split)

lemma single_quit: "single i h f st hs qs a \<Longrightarrow> \<not> ap_quit a"
  by (simp add: single_def)

lemma single_handle: "single i h f st hs qs a \<Longrightarrow> handle_of a i = Some h"
  by (auto simp: single_def handle_of_def)

lemma single_opened:
  assumes "ap_peers a = []" "ap_by_id a = []" "ap_sas a = []" "ap_mode a = Repl" "ap_next_label a = 0"
    "ap_input a = []" "\<not> ap_quit a"
  shows "single i h None PsHandshaking [] [] (on_net_event now h (Opened i remote outbound) a)"
  using assms by (simp add: single_def on_net_event_def on_opened_def fresh_label_def Let_def set_peer_def
      pushed_def)

lemma single_asked:
  assumes "single i h f st hs [] a"
  obtains q where "single i h (Some (fingerprint who)) st hs [q] (on_net_event now h' (Conn i (CSasRequired w who)) a)"
    "ps_id q = i" "ps_label q = label_of 1" "ps_typed q = []"
proof -
  obtain p where p: "ap_peers a = [(label_of 1, p)]" "pr_id p = i" "pr_handle p = h" "pr_status p = st"
    "ap_by_id a = [(i, label_of 1)]" "ap_sas a = []" "ap_mode a = Repl" "ap_input a = []" "\<not> ap_quit a"
    "pr_scrollback p = pushed hs"
    using assms by (auto simp: single_def)
  let ?q = "\<lparr>ps_id = i, ps_label = label_of 1, ps_words = w, ps_fingerprint = fingerprint who,
    ps_outbound = pr_outbound p, ps_since = now, ps_typed = []\<rparr>"
  have "single i h (Some (fingerprint who)) st hs [?q] (on_net_event now h' (Conn i (CSasRequired w who)) a)"
    using p by (simp add: single_def on_net_event_def on_conn_event_def on_sas_required_def Let_def set_peer_def
        MAX_UNAUTHENTICATED_HANDSHAKES_def)
  from that[OF this] show thesis by simp
qed

lemma single_typed:
  assumes "single i h f st hs [q] a" "str_len (ps_typed q @ [c]) \<le> 16" "\<not> is_control c"
  shows "single i h f st hs [q\<lparr>ps_typed := ps_typed q @ [c]\<rparr>] (fst (on_key E (plain_key (CodeChar c)) (a, k)))"
  using assms by (auto simp: single_def on_key_def repl_key_def repl_sas_key_def plain_key_def type_sas_def push_sas_def)

lemma single_answered:
  assumes "single i h f st hs [q] a" "is_approval (ps_typed q)" "ps_label q = label_of 1" "hd_control h = []" "\<not> hd_gone h"
  shows "single i (h\<lparr>hd_control := [ControlSas True]\<rparr>) f st hs [] (fst (on_key E (plain_key CodeEnter) (a, k)))"
  using assms
  by (auto simp: single_def on_key_def repl_key_def repl_sas_key_def plain_key_def front_approves_def answer_sas_def
      with_peer_def set_peer_def handle_answer_sas_def send_control_def try_send_def CONTROL_QUEUE_def Let_def)

lemma single_established:
  "single i h f st hs [] a \<Longrightarrow>
   single i h (Some (fingerprint who)) PsConnected (hs @ [established_note]) []
     (on_net_event now h' (Conn i (CEstablished who)) a)"
  by (auto simp: single_def on_net_event_def on_conn_event_def with_peer_def set_peer_def Let_def add_note_def pushed_snoc)

lemma single_drained: "single i h f st hs qs a \<Longrightarrow> single i (g h) f st hs qs (drained g a)"
  by (auto simp: single_def drained_def)

section \<open>From dialing to connected\<close>

lemma honest_frames_ok:
  assumes "setting X sa ea sb eb ha hb shared keys"
  shows "frame_ok (commit_frame (party_commit X ha))" "frame_ok (hello_frame ha)" "frame_ok (hello_frame hb)"
    "frame_ok (auth_frame (initiator_auth X sa ha hb))" "frame_ok (auth_frame (responder_auth X sa sb ha hb))"
    "frame_ok (confirm_frame (party_confirm X keys hash role))"
proof -
  have X: "cbor_ok X" "crypto_ok X" "length sa = 32" "length sb = 32"
    and h: "ha = party_hello X Initiator sa ea" "hb = party_hello X Responder sb eb"
    using assms by (auto simp: setting_def honest_pair_def)
  show "frame_ok (commit_frame (party_commit X ha))" by (rule commit_encode_frame_ok[OF commit_codec(1)[OF X(1,2)]])
  show "frame_ok (hello_frame ha)" "frame_ok (hello_frame hb)"
    unfolding h using hello_codec(1)[OF X(1,2)] X(3,4) hello_encode_frame_ok by blast+
  show "frame_ok (auth_frame (initiator_auth X sa ha hb))" "frame_ok (auth_frame (responder_auth X sa sb ha hb))"
    using auth_frames(1,3)[OF assms] auth_encode_frame_ok by blast+
  show "frame_ok (confirm_frame (party_confirm X keys hash role))"
    by (rule confirm_encode_frame_ok[OF confirm_frames(1)[OF assms]])
qed

lemma yes_approves: "is_approval [121, 101, 115]"
  by (simp add: is_approval_def trim_def trim_start_def trim_end_def is_whitespace_def to_ascii_lowercase_def lit_def)

lemma after_read [simp]: "after_turn j (TRead bs) False h = h"
  by (cases h) (simp add: after_turn_def)

text \<open>The task reads a frame, and takes the answer from its queue.\<close>

lemma reach_read:
  fixes E :: "'k shell"
  assumes "reached E V a0 A a t n" "calm i en ws evs t" "single i h f st hs qs a" "env_fine (V i)" "evs \<noteq> []"
    "handle (sh_ext E) (FrameReceived fr) en = (en', out)" "frame_ok fr" "\<forall>f \<in> set (sends out). frame_ok f"
    "notices out = l" "CloseTransport \<notin> set l"
  obtains a' t' where "reached E V a0 A a' t' n"
    "calm i en' (ws @ map encoded (sends out)) (evs @ map (Conn i) (reports l)) t'" "single i h f st hs qs a'"
proof -
  obtain bs t' where t': "task_turn (sh_ext E) (V i) (TRead bs) t = Some t'" "calm i en' (ws @ map encoded (sends out)) (evs @ map (Conn i) (reports l)) t'"
    by (rule calm_frame[OF assms(2,4,7,6,8-10)])
  have t: "tk_id t = i" "tk_events t \<noteq> []" "\<not> tk_closing t" "tk_id t' = i" "\<not> tk_closing t'"
    using assms(2,5) t'(2) by (simp_all add: calm_def)
  have "reached E V a0 A (drained (after_turn (tk_id t) (TRead bs) False) a) t' n"
    by (rule reach_turned[OF assms(1) t(2,3) _ t(5)]) (simp_all add: t(1,4) t'(1) del: task_turn.simps)
  moreover have "single i h f st hs qs (drained (after_turn (tk_id t) (TRead bs) False) a)"
    using single_drained[OF assms(3), of "after_turn (tk_id t) (TRead bs) False"] by simp
  ultimately show thesis using that t'(2) by metis
qed

lemma reach_command:
  fixes E :: "'k shell"
  assumes "reached E V a0 A a t n" "calm i en ws evs t" "single i h f st hs qs a" "env_fine (V i)" "evs \<noteq> []"
    "task_turn (sh_ext E) (V i) trn t = Some (apply_input (sh_ext E) (V i) inp t)"
    "\<And>s :: 'k program. handle_of (pg_app s) i = Some h \<Longrightarrow> turn_offered s i trn"
    "handle (sh_ext E) inp en = (en', out)" "\<forall>f \<in> set (sends out). frame_ok f" "notices out = []"
  obtains a' t' where "reached E V a0 A a' t' n" "calm i en' (ws @ map encoded (sends out)) evs t'"
    "single i (after_turn i trn False h) f st hs qs a'"
proof -
  let ?t' = "apply_input (sh_ext E) (V i) inp t"
  have t': "calm i en' (ws @ map encoded (sends out)) evs ?t'" using calm_input[OF assms(2,4,8-10)] by simp
  have t: "tk_id t = i" "tk_events t \<noteq> []" "\<not> tk_closing t" "tk_id ?t' = i" "\<not> tk_closing ?t'"
    using assms(2,5) t' by (simp_all add: calm_def)
  have "reached E V a0 A (drained (after_turn (tk_id t) trn False) a) ?t' n"
    by (rule reach_turned[OF assms(1) t(2,3) _ t(5)]) (simp_all add: t(1,4) assms(6,7) single_handle[OF assms(3)])
  moreover have "single i (after_turn i trn False h) f st hs qs (drained (after_turn (tk_id t) trn False) a)"
    using single_drained[OF assms(3), of "after_turn (tk_id t) trn False"] t(1) by simp
  ultimately show thesis using that t' by metis
qed

lemma reach_answer:
  fixes E :: "'k shell"
  assumes "reached E V a0 A a t n" "calm i en ws evs t" "single i (h\<lparr>hd_control := [ControlSas True]\<rparr>) f st hs qs a"
    "hd_id h = i" "\<not> hd_gone h" "env_fine (V i)" "evs \<noteq> []"
    "handle (sh_ext E) (SasDecision True) en = (en', out)" "\<forall>f \<in> set (sends out). frame_ok f" "notices out = []"
  obtains a' t' where "reached E V a0 A a' t' n" "calm i en' (ws @ map encoded (sends out)) evs t'"
    "single i (h\<lparr>hd_control := []\<rparr>) f st hs qs a'"
proof -
  have "after_turn i (TControl (Some (ControlSas True))) False (h\<lparr>hd_control := [ControlSas True]\<rparr>) = h\<lparr>hd_control := []\<rparr>"
    using assms(4,5) by (cases h) (simp add: after_turn_def)
  note after = this
  obtain a' t' where "reached E V a0 A a' t' n" "calm i en' (ws @ map encoded (sends out)) evs t'"
    "single i (after_turn i (TControl (Some (ControlSas True))) False (h\<lparr>hd_control := [ControlSas True]\<rparr>)) f st hs qs a'"
    by (rule reach_command[OF assms(1-3,6,7) _ _ assms(8-10), of "TControl (Some (ControlSas True))"]) simp_all
  then show thesis unfolding after by (rule that)
qed

text \<open>The user types yes and presses Enter.\<close>

lemma reach_yes:
  fixes E :: "'k shell"
  assumes "reached E V a0 A a t n" "single i h f st hs [q] a" "ps_typed q = []" "ps_label q = label_of 1"
    "hd_control h = []" "\<not> hd_gone h"
  obtains a' where "reached E V a0 (A @ [q\<lparr>ps_typed := [121, 101, 115]\<rparr>]) a' t n"
    "single i (h\<lparr>hd_control := [ControlSas True]\<rparr>) f st hs [] a'"
proof -
  let ?key = "\<lambda>c a. fst (on_key E (plain_key c) (a, undefined :: 'k))"
  have keyed: "reached E V a0 (approvals (Pressed (plain_key c)) b A) (?key c b) t n"
    if "reached E V a0 A b t n" "single i h f st hs [p] b" for b c p
  proof (rule reach_pressed[OF that(1) _ single_quit[OF that(2)]])
    show "fst (on_key E (plain_key c) (b, k)) = ?key c b" for k
      using that(2) by (auto simp: single_def on_key_def repl_key_def plain_key_def)
  qed
  have typed: "reached E V a0 A (?key (CodeChar c) b) t n \<and> single i h f st hs [p\<lparr>ps_typed := ps_typed p @ [c]\<rparr>] (?key (CodeChar c) b)"
    if "reached E V a0 A b t n" "single i h f st hs [p] b" "str_len (ps_typed p @ [c]) \<le> 16" "\<not> is_control c" for b c p
    using keyed[OF that(1,2), of "CodeChar c"] single_typed[OF that(2-4)] by (simp add: plain_key_def)
  let ?a1 = "?key (CodeChar 121) a" let ?a2 = "?key (CodeChar 101) ?a1" let ?a3 = "?key (CodeChar 115) ?a2"
  have 1: "reached E V a0 A ?a1 t n" "single i h f st hs [q\<lparr>ps_typed := [121]\<rparr>] ?a1"
    using typed[OF assms(1,2), of 121] assms(3) by (simp_all add: len_utf8_def is_control_def)
  have 2: "reached E V a0 A ?a2 t n" "single i h f st hs [q\<lparr>ps_typed := [121, 101]\<rparr>] ?a2"
    using typed[OF 1, of 101] by (simp_all add: len_utf8_def is_control_def)
  have 3: "reached E V a0 A ?a3 t n" "single i h f st hs [q\<lparr>ps_typed := [121, 101, 115]\<rparr>] ?a3"
    using typed[OF 2, of 115] by (simp_all add: len_utf8_def is_control_def)
  have "ap_sas ?a3 = [q\<lparr>ps_typed := [121, 101, 115]\<rparr>]" using 3(2) by (simp add: single_def)
  then have "approvals (Pressed (plain_key CodeEnter)) ?a3 A = A @ [q\<lparr>ps_typed := [121, 101, 115]\<rparr>]"
    by (simp add: plain_key_def front_approves_def yes_approves)
  then have "reached E V a0 (A @ [q\<lparr>ps_typed := [121, 101, 115]\<rparr>]) (?key CodeEnter ?a3) t n"
    using keyed[OF 3, of CodeEnter] by simp
  moreover have "single i (h\<lparr>hd_control := [ControlSas True]\<rparr>) f st hs [] (?key CodeEnter ?a3)"
    using single_answered[OF 3(2)] assms(4-6) yes_approves by simp
  ultimately show thesis by (rule that)
qed

lemma startup_quit: "\<not> ap_quit (fst (fst (startup E warnings config profile k)))"
  by (simp add: startup_def profile_use_def profile_open_def install_identity_def app_new_def Let_def
      split: option.split sum.split prod.split)

text \<open>The handle of the first connection.\<close>

abbreviation first_handle :: connection_handle where
  "first_handle \<equiv> \<lparr>hd_id = 1, hd_messages = [], hd_control = [], hd_gone = False\<rparr>"

lemma reach_asked:
  fixes E :: "'k shell"
  assumes "fst (startup E warnings config profile k) = (a0, k0)" "ap_net a0 = Some sa" "env_fine (V 1)"
    "handle (sh_ext E) Start (engine_new Initiator sa ea) = (en1, o1)" "\<forall>f \<in> set (sends o1). frame_ok f" "notices o1 = []"
    "handle (sh_ext E) (FrameReceived f) en1 = (en2, o2)" "frame_ok f" "\<forall>f \<in> set (sends o2). frame_ok f"
    "notices o2 = [RequestSas w p]"
  obtains b t q where "reached E V (a0, k0) [] b t 2" "calm 1 en2 (map encoded (sends o1 @ sends o2)) [Opened 1 [] True, Conn 1 (CSasRequired w p)] t"
    "single 1 first_handle (Some (fingerprint p)) PsHandshaking [] [q] b" "ps_id q = 1" "ps_label q = label_of 1" "ps_typed q = []"
proof -
  have a0: "ap_peers a0 = []" "ap_by_id a0 = []" "ap_sas a0 = []" "ap_mode a0 = Repl" "ap_next_label a0 = 0"
    "ap_input a0 = []" "\<not> ap_quit a0"
    using startup_core[of E warnings config profile k] startup_quit[of E warnings config profile k] assms(1)
    by (simp_all add: same_core_def app_new_def)
  obtain t where t: "task_begin (sh_ext E) (V 1) (Some ([], True)) (task_new 1 (engine_new Initiator sa ea) False) = Some t"
    "calm 1 en1 (map encoded (sends o1)) [Opened 1 [] True] t" by (rule calm_begin[OF assms(3-6)])
  have "reached E V (a0, k0) [] a0 t 0"
    using reach_begun[OF reach_dialed[OF assms(2)], where t' = t] t by (simp add: calm_def task_new_def)
  moreover have "new_handle t = first_handle" "tk_events t = [Opened 1 [] True]"
    using t(2) by (simp_all add: calm_def new_handle_def)
  ultimately have r: "reached E V (a0, k0) [] (on_net_event 0 first_handle (Opened 1 [] True) a0) t 1"
    using reach_received[of E V "(a0, k0)" "[]" a0 t 0 0] a0(7) by simp
  obtain b1 t1 where b1: "reached E V (a0, k0) [] b1 t1 1"
    "calm 1 en2 (map encoded (sends o1) @ map encoded (sends o2)) ([Opened 1 [] True] @ map (Conn 1) (reports [RequestSas w p])) t1" "single 1 first_handle None PsHandshaking [] [] b1"
    by (rule reach_read[OF r t(2) single_opened[OF a0] assms(3) _ assms(7-10)]) simp_all
  then have "reached E V (a0, k0) [] (on_net_event 0 (new_handle t1) (Conn 1 (CSasRequired w p)) b1) t1 2"
    using reach_received[OF b1(1) _ single_quit[OF b1(3)], of 0] by (simp add: calm_def numeral_2_eq_2)
  moreover obtain q where "single 1 first_handle (Some (fingerprint p)) PsHandshaking [] [q]
      (on_net_event 0 (new_handle t1) (Conn 1 (CSasRequired w p)) b1)"
    "ps_id q = 1" "ps_label q = label_of 1" "ps_typed q = []" by (rule single_asked[OF b1(3)])
  moreover have "calm 1 en2 (map encoded (sends o1 @ sends o2)) [Opened 1 [] True, Conn 1 (CSasRequired w p)] t1"
    using b1(2) by simp
  ultimately show thesis by (intro that)
qed

lemma reach_connected:
  fixes E :: "'k shell"
  assumes "reached E V a0 A b t 2" "calm 1 en2 ws [e1, e2] t"
    "single 1 (first_handle\<lparr>hd_control := [ControlSas True]\<rparr>) fp st hs [] b" "env_fine (V 1)"
    "handle (sh_ext E) (SasDecision True) en2 = (en3, o3)" "\<forall>f \<in> set (sends o3). frame_ok f" "notices o3 = []"
    "handle (sh_ext E) (FrameReceived f) en3 = (en4, o4)" "frame_ok f" "\<forall>f \<in> set (sends o4). frame_ok f" "notices o4 = []"
    "handle (sh_ext E) (FrameReceived g) en4 = (en5, o5)" "frame_ok g" "\<forall>f \<in> set (sends o5). frame_ok f"
    "notices o5 = [Notify (Established p)]"
  obtains b' t' where "reached E V a0 A b' t' 3" "calm 1 en5 (ws @ map encoded (sends o3 @ sends o4 @ sends o5)) [e1, e2, Conn 1 (CEstablished p)] t'"
    "single 1 first_handle (Some (fingerprint p)) PsConnected (hs @ [established_note]) [] b'"
proof -
  obtain b1 t1 where 1: "reached E V a0 A b1 t1 2" "calm 1 en3 (ws @ map encoded (sends o3)) [e1, e2] t1"
    "single 1 (first_handle\<lparr>hd_control := []\<rparr>) fp st hs [] b1"
    by (rule reach_answer[OF assms(1-3) _ _ assms(4) _ assms(5-7)]) simp_all
  obtain b2 t2 where 2: "reached E V a0 A b2 t2 2" "calm 1 en4 ((ws @ map encoded (sends o3)) @ map encoded (sends o4)) ([e1, e2] @ map (Conn 1) (reports [])) t2"
    "single 1 (first_handle\<lparr>hd_control := []\<rparr>) fp st hs [] b2"
    by (rule reach_read[OF 1 assms(4) _ assms(8-11)]) simp_all
  obtain b3 t3 where 3: "reached E V a0 A b3 t3 2"
    "calm 1 en5 (((ws @ map encoded (sends o3)) @ map encoded (sends o4)) @ map encoded (sends o5)) (([e1, e2] @ map (Conn 1) (reports [])) @ map (Conn 1) (reports [Notify (Established p)])) t3"
    "single 1 (first_handle\<lparr>hd_control := []\<rparr>) fp st hs [] b3"
    by (rule reach_read[OF 2 assms(4) _ assms(12-15)]) simp_all
  have "reached E V a0 A (on_net_event 0 (new_handle t3) (Conn 1 (CEstablished p)) b3) t3 3"
    using reach_received[OF 3(1) _ single_quit[OF 3(3)], of 0] 3(2) by (simp add: calm_def numeral_3_eq_3 numeral_2_eq_2)
  moreover have "single 1 first_handle (Some (fingerprint p)) PsConnected (hs @ [established_note]) []
      (on_net_event 0 (new_handle t3) (Conn 1 (CEstablished p)) b3)"
    using single_established[OF 3(3)] by simp
  ultimately show thesis using that 3(2) by simp
qed

text \<open>
  The connected program: one peer, whose engine is the one of the two-party handshake, nothing queued,
  and the handshake's four frames written.
\<close>

lemma reach_talk:
  fixes E :: "'k shell"
  assumes hp: "honest_pair (sh_ext E) sa ea sb eb"
    and start: "fst (startup E warnings config profile k) = (a0, k0)" "ap_net a0 = Some sa"
    and fine: "env_fine (V 1)"
  obtains q c t ws evs keys a oa b ob where
    "reached E V (a0, k0) [q] c t (length evs)" "calm 1 a ws evs t" "length ws = 4" "evs \<noteq> []" "ps_id q = 1"
    "single 1 first_handle (Some (fingerprint (identity_of (sh_ext E) sb))) PsConnected [established_note] [] c"
    "connect (sh_ext E) sa ea sb eb = ((a, oa), (b, ob))" "length (k_session_id keys) = 16"
    "engine_state a = SActive" "en_active a = Some (session_new keys Initiator (identity_of (sh_ext E) sb))" "fresh_count a"
    "engine_state b = SActive" "en_active b = Some (session_new keys Responder (identity_of (sh_ext E) sa))" "fresh_count b"
proof (rule honest_steps[OF hp refl refl], goal_cases)
  case (1 S keys a1 o1 a2 o3 a3 o5 a4 o8 a5 o10 b1 o0 b2 o2 b3 o4 b4 o6 b5 o7 b6 o9)
  let ?p = "identity_of (sh_ext E) sb"
  note ok = honest_frames_ok[OF 1(2)] and n = 1(4,7,10,13,16)
  obtain b t q where b: "reached E V (a0, k0) [] b t 2" 
    "calm 1 a2 (map encoded (sends o1 @ sends o3)) [Opened 1 [] True, Conn 1 (CSasRequired (sas_words (sh_ext E) (joint_hash (sh_ext E)
      (party_hello (sh_ext E) Initiator sa ea) (party_hello (sh_ext E) Responder sb eb))) ?p)] t"
    "single 1 first_handle (Some (fingerprint ?p)) PsHandshaking [] [q] b"
    and q: "ps_id q = 1" "ps_label q = label_of 1" "ps_typed q = []"
    by (rule reach_asked[where V = V, OF start fine 1(3) _ 1(5,6) ok(3) _ 1(8)]) (simp_all add: n ok)
  obtain b' where b': "reached E V (a0, k0) ([] @ [q\<lparr>ps_typed := [121, 101, 115]\<rparr>]) b' t 2"
    "single 1 (first_handle\<lparr>hd_control := [ControlSas True]\<rparr>) (Some (fingerprint ?p)) PsHandshaking [] [] b'"
    by (rule reach_yes[OF b(1,3) q(3,2)]) simp_all
  obtain c u where c: "reached E V (a0, k0) ([] @ [q\<lparr>ps_typed := [121, 101, 115]\<rparr>]) c u 3"
    "calm 1 a5 (map encoded (sends o1 @ sends o3) @ map encoded (sends o5 @ sends o8 @ sends o10))
      [Opened 1 [] True, Conn 1 (CSasRequired (sas_words (sh_ext E) (joint_hash (sh_ext E)
      (party_hello (sh_ext E) Initiator sa ea) (party_hello (sh_ext E) Responder sb eb))) ?p), Conn 1 (CEstablished ?p)] u"
    "single 1 first_handle (Some (fingerprint ?p)) PsConnected ([] @ [established_note]) [] c"
    by (rule reach_connected[where V = V, OF b'(1) b(2) b'(2) fine 1(9) _ 1(11,12) ok(5) _ 1(14,15) ok(6) _ 1(17)]) (simp_all add: n ok)
  show ?case
    by (rule 1(1)[of "q\<lparr>ps_typed := [121, 101, 115]\<rparr>" c u, OF _ c(2) _ _ _ _ 1(38) session_key_lengths[OF 1(2)] 1(18-20) 1(35-37)])
      (use c(1,3) q(1) in \<open>simp_all add: n numeral_3_eq_3\<close>)
qed

section \<open>One run\<close>

definition demo_store :: "((ustr \<times> ustr) \<times> bytes) list" where
  "demo_store = [((lit ''ruxmsg-me'', lit ''identity''), seed 1)]"

definition demo_env :: "nat \<Rightarrow> env" where
  "demo_env _ = \<lparr>env_write_ok = (\<lambda>_. True), env_event_ok = (\<lambda>_. True), env_now = (\<lambda>_. 0)\<rparr>"

abbreviation demo_begin where
  "demo_begin \<equiv> fst (startup demo_shell [] (config_default, None) (Some (lit ''me'')) demo_store)"

lemma demo_loaded: "ap_net (fst demo_begin) = Some (seed 1)"
proof -
  have "load_identity ref_keyring True [] (lit ''me'') False demo_store = (Inr (seed 1), demo_store)"
    unfolding demo_store_def seed_def by code_simp
  then show ?thesis
    by (simp add: startup_def profile_use_def profile_open_def ensure_idle_def guard_def app_new_def demo_shell_def
        install_identity_def Let_def)
qed

end
