(* ===== verification/Program_Chat.thy ===== *)
theory Program_Chat
  imports Program_Connect Machine_Chat
begin

text \<open>
  A conversation through the whole program: lines typed at the prompt reach the peer's engine in the
  bytes that the task writes, and what the peer sends is appended to the history.
\<close>

section \<open>One message between two engines\<close>

definition counted :: "nat \<Rightarrow> engine \<Rightarrow> bool" where
  "counted k en \<longleftrightarrow> en_messages en = k \<and> en_rekey_message_limit en = REKEY_MESSAGE_LIMIT"

text \<open>\<open>a\<close> has sent \<open>n\<close> messages to \<open>b\<close>, and \<open>b\<close> has sent \<open>m\<close> to \<open>a\<close>.\<close>

definition talks ::
  "ext \<Rightarrow> direction_id \<times> bytes \<Rightarrow> nat \<Rightarrow> direction_id \<times> bytes \<Rightarrow> nat \<Rightarrow> engine \<Rightarrow> engine \<Rightarrow> bool" where
  "talks X p n q m a b \<longleftrightarrow> linked X (fst p) (snd p) n a b \<and> linked X (fst q) (snd q) m b a \<and>
     counted (n + m) a \<and> counted (n + m) b"

lemma talks_sym: "talks X p n q m a b \<Longrightarrow> talks X q m p n b a"
  by (simp add: talks_def add.commute)

lemma below_limit:
  "counted k (fst c) \<Longrightarrow> Suc k < REKEY_MESSAGE_LIMIT \<Longrightarrow>
   maybe_trigger_rekey X (count_message c) = ((fst c)\<lparr>en_messages := Suc k\<rparr>, snd c)"
  by (simp add: counted_def maybe_trigger_rekey_def count_message_def REKEY_MESSAGE_LIMIT_def u64_max_def)

lemma talks_step:
  assumes X: "cbor_ok X" "crypto_ok X" and both: "talks X p n q m a b" and limit: "Suc (n + m) < REKEY_MESSAGE_LIMIT"
    and len: "length content \<le> MAX_CONTENT"
  obtains f a' b' where "handle X (LocalSend content) a = (a', [Send f])" "frame_ok f"
    "handle X (FrameReceived f) b = (b', [Deliver content])" "talks X p (Suc n) q m a' b'"
proof -
  have link: "linked X (fst p) (snd p) n a b" and count: "counted (n + m) a" "counted (n + m) b"
    using both by (simp_all add: talks_def)
  have n: "n < u64_max" using limit by (simp add: u64_max_def REKEY_MESSAGE_LIMIT_def)
  show thesis
  proof (rule linked_sealed[OF X link n len], goal_cases)
    case (1 sa sb f s' r')
    let ?a = "a\<lparr>en_active := Some (sa\<lparr>sn_sender := s'\<rparr>), en_messages := Suc (n + m)\<rparr>"
    let ?b = "b\<lparr>en_active := Some (sb\<lparr>sn_receiver := r'\<rparr>), en_messages := Suc (n + m)\<rparr>"
    have ha: "handle X (LocalSend content) a = (?a, [Send f])"
      using 1 len count below_limit[OF _ limit, of "(a\<lparr>en_active := Some (sa\<lparr>sn_sender := s'\<rparr>)\<rparr>, [Send f])"]
      by (simp add: handle_def on_send_def Let_def counted_def)
    have hb: "handle X (FrameReceived f) b = (?b, [Deliver content])"
      using 1 count below_limit[OF _ limit, of "(b\<lparr>en_active := Some (sb\<lparr>sn_receiver := r'\<rparr>)\<rparr>, [Deliver content])"]
      by (simp add: handle_def on_frame_def on_data_def Let_def counted_def)
    have "linked X (fst p) (snd p) (Suc n) ?a ?b" using 1 by simp
    moreover have "linked X (fst q) (snd q) m ?b ?a" using both 1(1-4) by (auto simp: talks_def linked_def)
    ultimately have "talks X p (Suc n) q m ?a ?b" using count by (simp add: talks_def counted_def)
    then show ?case by (rule that[OF ha 1(6) hb])
  qed
qed

lemma talks_connect:
  assumes "en_active a = Some (session_new keys Initiator p)" "en_active b = Some (session_new keys Responder q)"
    "engine_state a = SActive" "engine_state b = SActive" "length (k_session_id keys) = 16" "fresh_count a" "fresh_count b"
  shows "talks X (send_direction Initiator, send_key Initiator keys) 0 (send_direction Responder, send_key Responder keys) 0 a b"
  using assms linked_connect[of a keys Initiator p b q X] linked_connect[of b keys Responder q a p X]
  by (simp add: talks_def counted_def fresh_count_def other_role_def)

section \<open>Conversations\<close>

text \<open>What the user types with \<^verbatim>\<open>msg peer1\<close>, and what the peer's user sends.\<close>

datatype talk = Said ustr | Heard bytes

fun talk_ok :: "talk \<Rightarrow> bool" where
  "talk_ok (Said t) \<longleftrightarrow> trimmed t \<and> (\<forall>c \<in> set t. \<not> is_control c) \<and>
     str_len (render (Message (label_of 1) t)) \<le> MAX_CONTENT"
| "talk_ok (Heard content) \<longleftrightarrow> length content \<le> MAX_CONTENT"

fun talk_note :: "talk \<Rightarrow> author \<times> ustr" where
  "talk_note (Said t) = (ALocal, ingest (utf8 t))"
| "talk_note (Heard content) = (ARemote, ingest content)"

fun talk_said :: "talk \<Rightarrow> bytes list" where
  "talk_said (Said t) = [utf8 t]"
| "talk_said (Heard content) = []"

text \<open>
  The peer, which reads the program's writes one by one and sends its own messages between them: what
  its engine delivers.
\<close>

definition read_write :: "bytes \<Rightarrow> frame list" where
  "read_write w = (case next_frame w of (Inr (Some f), _) \<Rightarrow> [f] | _ \<Rightarrow> [])"

fun partner :: "ext \<Rightarrow> talk list \<Rightarrow> bytes list \<Rightarrow> engine \<Rightarrow> bytes list" where
  "partner X [] ws b = []"
| "partner X (Heard content # ms) ws b = partner X ms ws (fst (handle X (LocalSend content) b))"
| "partner X (Said t # ms) [] b = []"
| "partner X (Said t # ms) (w # ws) b =
     (let (b, out) = feed X (read_write w) b in delivered out @ partner X ms ws b)"

lemma read_encoded: "frame_ok f \<Longrightarrow> read_write (encoded f) = [f]"
  using next_frame_encoded[OF frame_encode_encoded, of f "[]"] by (simp add: read_write_def)

section \<open>A line at the prompt\<close>

definition typed_so_far :: "nat \<Rightarrow> connection_handle \<Rightarrow> ustr option \<Rightarrow> (author \<times> ustr) list \<Rightarrow> ustr \<Rightarrow> app \<Rightarrow> bool" where
  "typed_so_far i h f hs line a \<longleftrightarrow> ap_input a = line \<and> single i h f PsConnected hs [] (a\<lparr>ap_input := []\<rparr>)"

lemma typed_nothing: "typed_so_far i h f hs [] a \<longleftrightarrow> single i h f PsConnected hs [] a"
  by (auto simp: typed_so_far_def single_def)

lemma typed_fields:
  "typed_so_far i h f hs line a \<Longrightarrow> ap_mode a = Repl \<and> ap_sas a = [] \<and> \<not> ap_quit a \<and> ap_input a = line"
  by (auto simp: typed_so_far_def single_def)

lemma reach_letter:
  fixes E :: "'k shell"
  assumes "reached E V a0 A a t n" "typed_so_far i h f hs line a" "\<not> is_control c" "str_len (line @ [c]) \<le> MAX_CONTENT"
  shows "reached E V a0 A (a\<lparr>ap_input := line @ [c]\<rparr>) t n \<and> typed_so_far i h f hs (line @ [c]) (a\<lparr>ap_input := line @ [c]\<rparr>)"
proof -
  note a = typed_fields[OF assms(2)]
  have "fst (on_key E (plain_key (CodeChar c)) (a, k)) = a\<lparr>ap_input := line @ [c]\<rparr>" for k
    using a assms(3,4) by (simp add: on_key_def repl_key_def plain_key_def)
  from reach_pressed[OF assms(1) this] a have "reached E V a0 A (a\<lparr>ap_input := line @ [c]\<rparr>) t n"
    by (simp add: front_approves_def)
  with assms(2) show ?thesis by (simp add: typed_so_far_def)
qed

lemma reach_line:
  fixes E :: "'k shell"
  assumes "reached E V a0 A a t n" "single i h f PsConnected hs [] a" "\<forall>c \<in> set line. \<not> is_control c" "str_len line \<le> MAX_CONTENT"
  obtains a' where "reached E V a0 A a' t n" "typed_so_far i h f hs line a'"
proof -
  have "\<exists>a'. reached E V a0 A a' t n \<and> typed_so_far i h f hs line a'" using assms(3,4)
  proof (induction line rule: rev_induct)
    case Nil
    then show ?case using assms(1,2) typed_nothing by blast
  next
    case (snoc c line)
    then obtain a' where "reached E V a0 A a' t n" "typed_so_far i h f hs line a'" by auto
    with reach_letter[of E V a0 A a' t n i h f hs line c] snoc.prems show ?case by auto
  qed
  with that show thesis by blast
qed

lemma word_ok_peer: "word_ok (label_of 1)"
  by (simp add: label_of_def dec_def word_ok_def is_whitespace_def in_base.simps digit_def)

lemma single_sent:
  assumes "single i h f PsConnected hs [] a" "hd_messages h = []" "\<not> hd_gone h" "str_len t \<le> MAX_CONTENT"
  shows "fst (send_text (label_of 1) t a) = Inr () \<and>
    single i (h\<lparr>hd_messages := [utf8 t]\<rparr>) f PsConnected (hs @ [(ALocal, ingest (utf8 t))]) [] (snd (send_text (label_of 1) t a))"
  using assms by (auto simp: single_def send_text_def send_message_def try_send_def MESSAGE_QUEUE_def map_try_send_def
      add_note_def pushed_snoc Let_def set_peer_def)

lemma reach_sent:
  fixes E :: "'k shell"
  assumes "reached E V a0 A a t n" "single i h f PsConnected hs [] a" "hd_messages h = []" "\<not> hd_gone h" "talk_ok (Said m)"
  obtains a' where "reached E V a0 A a' t n"
    "single i (h\<lparr>hd_messages := [utf8 m]\<rparr>) f PsConnected (hs @ [(ALocal, ingest (utf8 m))]) [] a'"
proof -
  let ?c = "Message (label_of 1) m" and ?key = "plain_key CodeEnter"
  have ok: "command_ok ?c" using assms(5) word_ok_peer by simp
  have "set (render ?c) \<subseteq> set (lit ''msg '') \<union> set (label_of 1) \<union> {32} \<union> set m" by auto
  then have "\<forall>c \<in> set (render ?c). \<not> is_control c"
    using assms(5) by (auto simp: is_control_def label_of_def dec_def in_base.simps digit_def)
  then obtain b where b: "reached E V a0 A b t n" "typed_so_far i h f hs (render ?c) b"
    by (rule reach_line[OF assms(1,2)]) (use assms(5) in simp)
  note f = typed_fields[OF b(2)]
  let ?b = "snd (send_text (label_of 1) m (b\<lparr>ap_input := []\<rparr>))"
  have sent: "fst (send_text (label_of 1) m (b\<lparr>ap_input := []\<rparr>)) = Inr ()"
    "single i (h\<lparr>hd_messages := [utf8 m]\<rparr>) f PsConnected (hs @ [(ALocal, ingest (utf8 m))]) [] ?b"
    using b(2) assms(3-5) single_sent[of i h f hs "b\<lparr>ap_input := []\<rparr>" m] by (auto simp: typed_so_far_def)
  have "fst (on_key E ?key (b, k)) = ?b" for k
    using sent(1) f parse_render[OF ok] trim_trimmed[OF render_trimmed[OF ok]] render_trimmed[OF ok]
    by (simp add: on_key_def repl_key_def plain_key_def dispatch_def dispatch_command_def trimmed_def Let_def split_beta del: render.simps)
  from reach_pressed[OF b(1) this] f have "reached E V a0 A ?b t n"
    by (simp add: plain_key_def front_approves_def)
  then show thesis using sent(2) by (rule that)
qed

section \<open>The conversation\<close>

text \<open>A line is typed, queued, taken by the task, sealed and written.\<close>

lemma reach_said:
  fixes E :: "'k shell"
  assumes "reached E V a0 A a t n" "calm i en ws evs t" "single i h f PsConnected hs [] a"
    "hd_id h = i" "hd_messages h = []" "\<not> hd_gone h" "env_fine (V i)" "evs \<noteq> []" "talk_ok (Said m)"
    "handle (sh_ext E) (LocalSend (utf8 m)) en = (en', [Send fr])" "frame_ok fr"
  obtains a' t' where "reached E V a0 A a' t' n" "calm i en' (ws @ [encoded fr]) evs t'"
    "single i h f PsConnected (hs @ [talk_note (Said m)]) [] a'"
proof -
  let ?h = "h\<lparr>hd_messages := [utf8 m]\<rparr>" and ?hs = "hs @ [talk_note (Said m)]"
  obtain b where b: "reached E V a0 A b t n" "single i ?h f PsConnected ?hs [] b"
    using reach_sent[OF assms(1,3,5,6,9)] by auto
  have after: "after_turn i (TMessage (utf8 m)) False ?h = h"
    using assms(4-6) by (cases h) (simp add: after_turn_def)
  obtain a' t' where "reached E V a0 A a' t' n" "calm i en' (ws @ map encoded (sends [Send fr])) evs t'"
    "single i (after_turn i (TMessage (utf8 m)) False ?h) f PsConnected ?hs [] a'"
    by (rule reach_command[OF b(1) assms(2) b(2) assms(7,8) _ _ assms(10), of "TMessage (utf8 m)"])
      (simp_all add: assms(11))
  then show thesis unfolding after by (intro that) simp_all
qed

lemma single_heard:
  "single i h f st hs [] a \<Longrightarrow>
   single i h f st (hs @ [talk_note (Heard content)]) [] (on_net_event now h' (Conn i (CMessage content)) a)"
  by (auto simp: single_def on_net_event_def on_conn_event_def on_message_def with_peer_def set_peer_def Let_def
      add_note_def pushed_snoc say_message_def split: list.split)

text \<open>The task reads the peer's frame, and the application receives what it delivers.\<close>

lemma reach_heard:
  fixes E :: "'k shell"
  assumes "reached E V a0 A a t (length evs)" "calm i en ws evs t" "single i h f PsConnected hs [] a"
    "env_fine (V i)" "evs \<noteq> []" "handle (sh_ext E) (FrameReceived fr) en = (en', [Deliver content])" "frame_ok fr"
  obtains a' t' where "reached E V a0 A a' t' (length (evs @ [Conn i (CMessage content)]))"
    "calm i en' ws (evs @ [Conn i (CMessage content)]) t'"
    "single i h f PsConnected (hs @ [talk_note (Heard content)]) [] a'"
proof -
  have r: "reports [Deliver content] = [CMessage content]" by (simp add: reports_def map_filter_simps emitted_def)
  obtain b t' where b: "reached E V a0 A b t' (length evs)"
    "calm i en' (ws @ map encoded (sends [Deliver content])) (evs @ map (Conn i) (reports [Deliver content])) t'"
    "single i h f PsConnected hs [] b"
    by (rule reach_read[OF assms(1-7)]) (simp_all del: filter.simps, simp_all)
  let ?evs = "evs @ [Conn i (CMessage content)]" and ?b = "on_net_event 0 (new_handle t') (Conn i (CMessage content)) b"
  have t': "calm i en' ws ?evs t'" using b(2) by (simp add: r)
  have "reached E V a0 A ?b t' (Suc (length evs))"
    using reach_received[OF b(1) _ single_quit[OF b(3)], of 0] t' by (simp add: calm_def nth_append)
  then show thesis using that t' single_heard[OF b(3)] by simp
qed

theorem reach_conversation:
  fixes E :: "'k shell"
  assumes "cbor_ok (sh_ext E)" "crypto_ok (sh_ext E)" "env_fine (V 1)"
    and "reached E V a0 A c t (length evs)" "calm 1 a ws evs t" "evs \<noteq> []"
      "single 1 first_handle f PsConnected hs [] c" "talks (sh_ext E) p n q m a b"
      "\<forall>x \<in> set ms. talk_ok x" "n + m + length ms < REKEY_MESSAGE_LIMIT"
  shows "\<exists>c' t' a' ws' evs'. reached E V a0 A c' t' (length evs') \<and> calm 1 a' (ws @ ws') evs' t' \<and>
    single 1 first_handle f PsConnected (hs @ map talk_note ms) [] c' \<and>
    partner (sh_ext E) ms ws' b = concat (map talk_said ms)"
  using assms(4-)
proof (induction ms arbitrary: c t a ws evs hs n m b)
  case Nil
  then show ?case by (intro exI[of _ c] exI[of _ t] exI[of _ a] exI[of _ "[]"] exI[of _ evs]) simp
next
  case (Cons x ms)
  note prems = Cons.prems
  have limit: "Suc (n + m) < REKEY_MESSAGE_LIMIT" "Suc (m + n) < REKEY_MESSAGE_LIMIT" using prems(7) by simp_all
  show ?case
  proof (cases x)
    case (Said u)
    have len: "length (utf8 u) \<le> MAX_CONTENT" using prems(6) Said by (simp add: length_utf8)
    obtain fr a' b' where s: "handle (sh_ext E) (LocalSend (utf8 u)) a = (a', [Send fr])" "frame_ok fr"
      "handle (sh_ext E) (FrameReceived fr) b = (b', [Deliver (utf8 u)])" "talks (sh_ext E) p (Suc n) q m a' b'"
      by (rule talks_step[OF assms(1,2) prems(5) limit(1) len])
    obtain c' t' where c': "reached E V a0 A c' t' (length evs)" "calm 1 a' (ws @ [encoded fr]) evs t'"
      "single 1 first_handle f PsConnected (hs @ [talk_note (Said u)]) [] c'"
      by (rule reach_said[OF prems(1,2,4) _ _ _ assms(3) prems(3) _ s(1,2)]) (use prems(6) Said in simp_all)
    from Cons.IH[OF c'(1,2) prems(3) c'(3) s(4)] prems(6,7) obtain c2 t2 a2 ws2 evs2 where
      "reached E V a0 A c2 t2 (length evs2)" "calm 1 a2 ((ws @ [encoded fr]) @ ws2) evs2 t2"
      "single 1 first_handle f PsConnected ((hs @ [talk_note (Said u)]) @ map talk_note ms) [] c2"
      "partner (sh_ext E) ms ws2 b' = concat (map talk_said ms)" by auto
    then show ?thesis
      using s(3) Said read_encoded[OF s(2)]
      by (intro exI[of _ c2] exI[of _ t2] exI[of _ a2] exI[of _ "encoded fr # ws2"] exI[of _ evs2]) simp
  next
    case (Heard content)
    then have len: "length content \<le> MAX_CONTENT" using prems(6) by simp
    obtain fr a' b' where s: "handle (sh_ext E) (LocalSend content) b = (b', [Send fr])" "frame_ok fr"
      "handle (sh_ext E) (FrameReceived fr) a = (a', [Deliver content])" "talks (sh_ext E) q (Suc m) p n b' a'"
      by (rule talks_step[OF assms(1,2) talks_sym[OF prems(5)] limit(2) len])
    obtain c' t' where c': "reached E V a0 A c' t' (length (evs @ [Conn 1 (CMessage content)]))"
      "calm 1 a' ws (evs @ [Conn 1 (CMessage content)]) t'"
      "single 1 first_handle f PsConnected (hs @ [talk_note (Heard content)]) [] c'"
      by (rule reach_heard[OF prems(1,2,4) assms(3) prems(3) s(3,2)])
    from Cons.IH[OF c'(1,2) _ c'(3) talks_sym[OF s(4)]] prems(6,7) obtain c2 t2 a2 ws2 evs2 where
      "reached E V a0 A c2 t2 (length evs2)" "calm 1 a2 (ws @ ws2) evs2 t2"
      "single 1 first_handle f PsConnected ((hs @ [talk_note (Heard content)]) @ map talk_note ms) [] c2"
      "partner (sh_ext E) ms ws2 b' = concat (map talk_said ms)" by auto
    then show ?thesis
      using s(1) Heard by (intro exI[of _ c2] exI[of _ t2] exI[of _ a2] exI[of _ ws2] exI[of _ evs2]) simp
  qed
qed

theorem program_converses:
  fixes E :: "'k shell"
  assumes hp: "honest_pair (sh_ext E) sa ea sb eb"
    and start: "fst (startup E warnings config profile k) = (a0, k0)" "ap_net a0 = Some sa"
    and fine: "env_fine (V 1)" and ms: "\<forall>x \<in> set ms. talk_ok x" "length ms < REKEY_MESSAGE_LIMIT"
  obtains s p q t where "program_run E V (a0, k0) [q] s" "map_of (ap_peers (pg_app s)) (label_of 1) = Some p"
    "pr_status p = PsConnected" "pr_fingerprint p = Some (fingerprint (identity_of (sh_ext E) sb))" "ps_id q = pr_id p"
    "pr_scrollback p = pushed (established_note # map talk_note ms)" "program_tasks s = [t]"
    "partner (sh_ext E) ms (drop 4 (tk_written t)) (fst (snd (connect (sh_ext E) sa ea sb eb))) = concat (map talk_said ms)"
proof (rule reach_talk[where V = V, OF hp start fine], goal_cases)
  case (1 q c t ws evs keys a oa b ob)
  have X: "cbor_ok (sh_ext E)" "crypto_ok (sh_ext E)" using hp by (simp_all add: honest_pair_def)
  from reach_conversation[OF X fine 1(2,3,5,7) talks_connect[OF 1(11,14,10,13,9,12,15)] ms(1)] ms(2)
  obtain c' t' a' ws' evs' where c': "reached E V (a0, k0) [q] c' t' (length evs')" "calm 1 a' (ws @ ws') evs' t'"
    "single 1 first_handle (Some (fingerprint (identity_of (sh_ext E) sb))) PsConnected (established_note # map talk_note ms) [] c'"
    "partner (sh_ext E) ms ws' b = concat (map talk_said ms)" by auto
  obtain s p where "program_run E V (a0, k0) [q] s" "program_tasks s = [t']" "ap_peers (pg_app s) = [(label_of 1, p)]"
    "pr_id p = 1" "pr_fingerprint p = Some (fingerprint (identity_of (sh_ext E) sb))" "pr_status p = PsConnected"
    "pr_scrollback p = pushed (established_note # map talk_note ms)"
    using c'(1,3) unfolding reached_def single_def by metis
  then show ?case
    using 1(4,6,8) c'(2,4) by (intro 1(1)[of q s p t']) (simp_all add: calm_def)
qed

section \<open>One run\<close>

lemma demo_assumptions:
  "honest_pair (sh_ext demo_shell) (seed 1) (steady 1) (seed 2) (steady 2)" "env_fine (demo_env 1)"
  "demo_begin = (fst demo_begin, snd demo_begin)" "sh_ext demo_shell = ref_ext"
  using demo_pair by (simp_all add: demo_shell_def env_fine_def demo_env_def)

lemma demo_program:
  obtains s p q where "program_run demo_shell demo_env demo_begin [q] s"
    "map_of (ap_peers (pg_app s)) (label_of 1) = Some p" "pr_status p = PsConnected"
    "pr_fingerprint p = Some (fingerprint (identity_of ref_ext (seed 2)))" "ps_id q = pr_id p"
proof (rule program_converses[where V = demo_env, OF demo_assumptions(1,3) demo_loaded demo_assumptions(2), of "[]"])
qed (use that in \<open>simp_all add: demo_assumptions(4) REKEY_MESSAGE_LIMIT_def\<close>)

text \<open>A line, an answer and another line.\<close>

definition demo_talk :: "talk list" where
  "demo_talk = [Said (lit ''hello there''), Heard [104, 105], Said (lit ''bye'')]"

lemma demo_talk_ok: "\<forall>x \<in> set demo_talk. talk_ok x" "length demo_talk < REKEY_MESSAGE_LIMIT"
  by (simp_all add: demo_talk_def trimmed_def is_whitespace_def is_control_def label_of_def dec_def in_base.simps
      digit_def len_utf8_def MAX_CONTENT_def REKEY_MESSAGE_LIMIT_def)

end
