(* ===== verification/Spec2Isabelle.thy ===== *)
theory Spec2Isabelle
  imports Machine_Runs Machine_Glare Data_Stream Crypto_Sas Net_Task App_Approval App_Wipe App_Demo
    Config_Keys Screen_Props Program_Chat
begin

text \<open>
  RUXMSG is an end-to-end encrypted messenger for two peers over TCP, in Rust. The library crate
  \<^verbatim>\<open>ruxmsg-core\<close> holds the protocol as a sans-IO engine: it takes inputs (frames, user decisions,
  timeouts) and returns effects (frames to send, deadlines to arm, events). The crate
  \<^verbatim>\<open>ruxmsg-net\<close> drives one engine per connection in a task and owns the listener. The crate
  \<^verbatim>\<open>ruxmsg-cli\<close> is the program of the user: it keeps the peers, shows the words to compare,
  and turns keys and commands into requests to the connections. This development models the three
  crates by their own definitions, and this theory states the properties, the \<open>C\<close>-numbered
  theorems below; each rests on lemmas of the theory of its component.

  Code and theories. A struct is a record, an enum a datatype, an integer that can wrap a word, a
  \<^verbatim>\<open>Result\<close> a sum with the error on the left; a method that takes \<^verbatim>\<open>&mut self\<close> returns the
  state updated, also where it fails. Names are those of the source, with a suffix or prefix where a
  name is taken.

  \<^item> \<open>Prelude\<close>, \<open>Protocol\<close>: machine types, the error monad, the error type; registries and
    limits (\<^verbatim>\<open>protocol.rs\<close>).
  \<^item> \<open>External\<close>: the third-party functions as the record \<open>ext\<close>, an argument of every
    definition that calls one (CBOR, SHA-256, HKDF, HMAC, X25519, Ed25519, ChaCha20-Poly1305, the word
    list). What the program relies on is stated as the predicates \<open>cbor_ok\<close> and \<open>crypto_ok\<close>,
    and \<open>Reference_Ext\<close> gives a concrete instance that meets them, used by witnesses only.
  \<^item> \<open>Wire\<close>, \<open>Wire_Canonical\<close> (\<^verbatim>\<open>wire.rs\<close>): frames; the structural CBOR pass with its
    stack, the canonical check; that what is accepted is the deterministic encoding of its entries,
    and that the pass stops.
  \<^item> \<open>Encoding\<close>, \<open>Close_Payload\<close>, \<open>Handshake\<close>, \<open>Handshake_Codecs\<close>
    (\<^verbatim>\<open>encoding.rs, close.rs, handshake.rs\<close>): the transcript, the payloads and their round trips,
    verification of a handshake.
  \<^item> \<open>Crypto\<close>, \<open>Crypto_Sas\<close> (\<^verbatim>\<open>crypto.rs\<close>): domains, key schedule, confirmation, the
    words for the user.
  \<^item> \<open>Ratchet\<close>, \<open>Data\<close>, \<open>Data_Props\<close>, \<open>Data_Session\<close>, \<open>Data_Stream\<close>
    (\<^verbatim>\<open>ratchet.rs, data.rs\<close>): replay window, receiving chain, padding, sender and receiver; the
    refinement of the window by the set of accepted counters, single use of keys, delivery in any
    order.
  \<^item> \<open>Machine\<close> (\<^verbatim>\<open>machine.rs\<close>): the engine, one definition per method. \<open>Machine_Deadlines\<close>,
    \<open>Machine_Steps\<close>, \<open>Machine_Inv\<close>, \<open>Machine_Established\<close>: its invariant \<open>engine_ok\<close>.
    \<open>Machine_Refinement\<close>, \<open>Machine_Trace\<close>, \<open>Machine_Runs\<close>: the abstract machine of six
    states, which carries the transcript whose words are asked about, and runs with their history. \<open>Machine_Handshake\<close>, \<open>Machine_Rekey\<close>, \<open>Machine_Glare\<close>,
    \<open>Machine_Chat\<close>: two engines together. \<open>Reference_Run\<close>: a connection between two concrete
    parties.
  \<^item> \<open>Net\<close>, \<open>Net_Decode\<close>, \<open>Net_Task\<close> (\<^verbatim>\<open>ruxmsg-net/src/lib.rs\<close>): reassembly of
    frames, the connection task and its select loop, handles, facade and listener.
    \<open>Task_History\<close>: the run of its engine behind the events of a task.
  \<^item> \<open>Display\<close>, \<open>Scrollback\<close>, \<open>Storage\<close>, \<open>Commands\<close>
    (\<^verbatim>\<open>display.rs, error.rs, scrollback.rs, storage.rs, keyring_store.rs, commands.rs\<close>): text
    for the terminal, histories, identities at rest, the command language.
  \<^item> \<open>Config\<close>, \<open>Config_Keys\<close>, \<open>Theme\<close>, \<open>Startup\<close> (\<^verbatim>\<open>config.rs, theme.rs, main.rs\<close>,
    the warnings of \<^verbatim>\<open>hardening.rs\<close>, \<^verbatim>\<open>tailscale.rs\<close>): the configuration and the bindings it
    can name, the state the main loop starts from.
  \<^item> \<open>App\<close>, \<open>App_Keys\<close> (\<^verbatim>\<open>app.rs, repl.rs\<close>, the keys of \<^verbatim>\<open>tui.rs\<close>): the application's
    state, every network event, every key and command, and a turn of the main loop as the relation
    \<open>app_step\<close>. \<open>App_Inv\<close>, \<open>App_Turns\<close>: its invariant \<open>app_ok\<close>. \<open>App_Peers\<close>
    states once what a relation between a peer before and after needs to hold across every handler;
    \<open>App_Approval\<close> (where approvals come from) and \<open>App_Who\<close> (who is shown) are its instances.
    \<open>App_Wipe\<close>: what is noted as shown, and what stopping leaves.
  \<^item> \<open>Screen\<close>, \<open>Screen_Props\<close> (\<^verbatim>\<open>tui.rs\<close> below the keys): the drawing of a conversation as
    the requests to the terminal library. \<open>App_Demo\<close>: short concrete runs.
  \<^item> \<open>Program\<close>, \<open>Program_Inv\<close>, \<open>Program_Props\<close>: the three crates together, as
    \<^verbatim>\<open>App::run\<close> and the spawned tasks compose them: the application, the facade with its
    tasks, the queues of the handles and the channel of events; the invariant that ties what is shown
    of a peer to its task. \<open>Program_Connect\<close>: from dialing to connected. \<open>Program_Chat\<close>:
    a conversation from the keyboard to the peer's engine and back, and one such run.

  Interactions. The engine's effects are the task's inputs (\<open>process\<close> applies them in order), the
  task's events are the application's (\<open>on_conn_event\<close>), and the application reaches a task
  through the bounded queues of its handle (\<open>connection_handle\<close>). \<^verbatim>\<open>tokio\<close>'s select is a choice
  in the step relations \<open>task_turn\<close>, \<open>net_step\<close>, \<open>app_step\<close> and \<open>program_step\<close>: a property of every run
  holds for every order of events.

  Bounds and recursion. Every function is total. \<open>pad_search\<close> and the CBOR pass recurse on a
  measure; \<open>padding_minimal_aligned\<close> and \<open>structural_pass_bounded\<close> say how far they go: at most
  511 bytes of padding, and at most one turn per byte. \<open>drain_frames\<close> has fuel, because only the
  engine's closing ends its loop on an error; \<open>drain_fuel\<close>, the bytes buffered and three more, is
  enough, which \<open>connection_task_sound\<close> includes.

  Not modelled. The terminal library's layout and the width of characters are a parameter
  (\<open>screen_lib\<close>), and so are the outcomes of system calls, other programs, sockets, the clock, the
  keyring, the TOML parser and the file system. Control sequences of the terminal, the panic hook,
  signals and \<^verbatim>\<open>Debug\<close> output are left out. Zeroizing of memory has no value in a functional
  model, except where code reads the wiped buffer. Asynchronous functions run to their end between
  two turns of the loop that awaits them, which is what their callers do.
\<close>

section \<open>The engine\<close>

text \<open>
  C1: The SAS gate. An input establishes a peer only if the engine had asked its user to compare words
  for that very peer, in answer to a received frame, and the user then answered yes; the words are
  those of the hash of the transcript that the session's keys come from, and no others were ever shown.
\<close>

theorem sas_gate:
  assumes "engine_run X role identity entropy h en" "handle X inp en = (en', out)"
    "Notify (Established p) \<in> set out"
  shows "\<exists>hash. approved h (sas_words X hash) p \<and> only_question (effects (h @ [(inp, out)])) (sas_words X hash) p \<and>
    first_session X hash p en'"
  using assms by (rule established_step)

lemma sas_gate_witness:
  "\<exists>h hash en. approved h (sas_words ref_ext hash) (identity_of ref_ext (seed 2)) \<and>
    first_session ref_ext hash (identity_of ref_ext (seed 2)) en"
  using demo_run effect_origin[of ref_ext] sas_gate[of ref_ext] by metis

text \<open>
  C2: Every handled input is a step of the abstract machine of six states, in every run of an engine;
  and a driver that follows the deadline effects of the run keeps exactly the engine's table, which
  never holds two deadlines with one identifier, nor more than five, one of each kind.
\<close>

theorem engine_refines_abstract_machine:
  assumes "engine_run X role identity entropy h en" "handle X inp en = (en', out)"
  shows "abs_step X (abs_state en) inp out (abs_state en') \<and>
    driver (h @ [(inp, out)]) = en_deadlines en' \<and>
    distinct (map fst (en_deadlines en')) \<and> distinct (map snd (en_deadlines en')) \<and> armed_deadlines en' \<le> 5"
  using handle_step[OF run_ok_engine[OF assms(1)] assms(2)] run_driver[OF engine_run.input[OF assms]] armed_bound[of en']
  by (auto simp: engine_ok_def deadlines_ok_def)

lemma engine_refines_abstract_machine_witness:
  "abs_step ref_ext (abs_state (engine_new Responder (seed 1) (steady 1))) Start
     (snd (handle ref_ext Start (engine_new Responder (seed 1) (steady 1))))
     (abs_state (fst (handle ref_ext Start (engine_new Responder (seed 1) (steady 1)))))"
  using engine_refines_abstract_machine[OF engine_run.created, of ref_ext Start Responder "seed 1" "steady 1"]
  by (metis prod.collapse)

text \<open>
  C3: Authentication. A run establishes at most one peer. While its engine is established, its session
  is with that peer, which the user accepted by the only words ever shown; the keys were derived from a
  transcript that names both parties and that the peer signed, and sender and receiver follow the
  chains of those keys.
\<close>

theorem established_session_authentic:
  assumes "engine_run X role identity entropy h en"
  shows "length (established_peers (effects h)) \<le> 1 \<and>
    (en_phase en = PhEstablished \<longrightarrow>
       (\<exists>p a. established_peers (effects h) = [p] \<and> peer_identity en = Some p \<and> en_active en = Some a \<and>
          sn_peer a = p \<and> accepted X h p \<and> session_ok X (identity_of X (en_identity en)) a))"
proof (intro conjI impI)
  show "length (established_peers (effects h)) \<le> 1"
    using run_peers[OF assms] by (auto split: astate.splits)
  assume est: "en_phase en = PhEstablished"
  from run_session[OF assms this] run_peers[OF assms] est
  show "\<exists>p a. established_peers (effects h) = [p] \<and> peer_identity en = Some p \<and> en_active en = Some a \<and>
      sn_peer a = p \<and> accepted X h p \<and> session_ok X (identity_of X (en_identity en)) a"
    by (auto simp: abs_state_def)
qed

lemma established_session_authentic_witness:
  "\<exists>h en p. engine_run ref_ext Initiator (seed 1) (steady 1) h en \<and> established_peers (effects h) = [p] \<and>
    peer_identity en = Some p \<and> accepted ref_ext h p"
proof -
  obtain h en where r: "engine_run ref_ext Initiator (seed 1) (steady 1) h en" "engine_state en = SActive"
    using demo_run by blast
  moreover have "en_phase en = PhEstablished"
    using r(2) by (auto simp: engine_state_def split: phase.splits if_splits)
  ultimately show ?thesis using established_session_authentic[OF r(1)] by blast
qed

text \<open>
  C4: The end of a connection. A run's effects hold \<open>Closed\<close> and \<open>CloseTransport\<close> once each, as their
  last two, if the engine is closed, and not at all otherwise.
\<close>

theorem connection_ends_once:
  assumes "engine_run X role identity entropy h en"
  shows "if engine_state en = SClosed then ended_once (effects h) else not_ended (effects h)"
  by (rule run_ends[OF assms])

lemma connection_ends_once_witness:
  "ended_once (snd (handle ref_ext TransportClosed (engine_new Initiator (seed 1) (steady 1))))"
proof -
  obtain en out where h: "handle ref_ext TransportClosed (engine_new Initiator (seed 1) (steady 1)) = (en, out)"
    by (metis surj_pair)
  have "engine_run ref_ext Initiator (seed 1) (steady 1) ([] @ [(TransportClosed, out)]) en"
    using engine_run.input[OF engine_run.created h] .
  from connection_ends_once[OF this] show ?thesis
    using handle_ends(1)[of ref_ext "engine_new Initiator (seed 1) (steady 1)"] unfolding h by simp
qed

text \<open>
  C5: Nothing waits for ever. An engine that is shaking hands or rekeying has armed the total deadline;
  its timeout closes the one, and ends only the rekey of the other, which keeps both sessions as they
  are, reports it and arms the next attempt.
\<close>

theorem nothing_waits_for_ever:
  assumes "engine_run X role identity entropy h en" "engine_state en = SHandshaking \<or> engine_state en = SRekeying"
  shows "\<exists>i. (i, KHandshakeTotal) \<in> set (driver h) \<and>
    (let (en', out) = handle X (Timeout i) en in
       if engine_state en = SHandshaking then engine_state en' = SClosed
       else engine_state en' = SActive \<and> sessions_kept en en' \<and> KRekeyDue \<in> kinds en' \<and>
         Notify (RekeyFailed FTimeout) \<in> set out)"
proof (cases "engine_state en = SHandshaking")
  case True
  then have "en_phase en = PhHandshaking" by (auto simp: engine_state_def split: phase.splits if_splits)
  from handshake_times_out[OF run_ok_engine[OF assms(1)] this] run_driver[OF assms(1)] True show ?thesis
    by (auto simp: engine_state_def case_prod_beta)
next
  case False
  then have "en_phase en = PhEstablished" "en_run en \<noteq> None"
    using assms(2) by (auto simp: engine_state_def split: phase.splits if_splits)
  from rekey_times_out[OF run_ok_engine[OF assms(1)] this] run_driver[OF assms(1)] False show ?thesis by simp
qed

lemma nothing_waits_for_ever_witness: "\<exists>h i. (i, KHandshakeTotal) \<in> set (driver h) \<and>
    (\<exists>en. engine_run ref_ext Initiator (seed 1) (steady 1) h en \<and> engine_state en = SRekeying)"
  using demo_rekeying nothing_waits_for_ever by blast

text \<open>
  C6: Frames of a rekey never disturb the conversation. They leave both sessions untouched, or close
  the connection, or complete the rekey: then the old session drains, the new one is with the same
  peer under another identifier, and the completion is reported.
\<close>

theorem rekey_frames_keep_sessions:
  assumes "engine_run X role identity entropy h en" "en_phase en = PhEstablished"
    "f_type f = MRekey \<or> f_type f = MSessionConfirm" "handle X (FrameReceived f) en = (en', out)"
  shows "en_phase en' = PhClosed \<or> sessions_kept en en' \<or> replaced en en' \<and> Notify RekeyCompleted \<in> set out"
  using rekey_frame_sessions[OF run_ok_engine[OF assms(1)] assms(2-4)] .

lemma rekey_frames_keep_sessions_witness:
  "\<exists>h en en' out. engine_run ref_ext Initiator (seed 1) (steady 1) h en \<and>
    handle ref_ext (FrameReceived \<lparr>f_version = V1, f_type = MRekey, f_payload = []\<rparr>) en = (en', out) \<and>
    (en_phase en' = PhClosed \<or> sessions_kept en en' \<or> replaced en en')"
proof -
  let ?f = "\<lparr>f_version = V1, f_type = MRekey, f_payload = []\<rparr>"
  obtain h en where r: "engine_run ref_ext Initiator (seed 1) (steady 1) h en" "engine_state en = SActive"
    using demo_run by blast
  moreover have "en_phase en = PhEstablished"
    using r(2) by (auto simp: engine_state_def split: phase.splits if_splits)
  moreover obtain en' out where "handle ref_ext (FrameReceived ?f) en = (en', out)" by (metis surj_pair)
  ultimately show ?thesis using rekey_frames_keep_sessions[of _ _ _ _ h en ?f en' out] by fastforce
qed


text \<open>
  C7: Simultaneous rekeys resolve to one initiator. When two engines that face each other both
  request a rekey, each sends one offer; the one whose identity is greater ignores the other's, and
  the other answers as responder, keeping its sessions.
\<close>

theorem simultaneous_rekeys_one_initiator:
  assumes "cbor_ok X" "crypto_ok X" "facing X a b" "facing X b a"
    "identity_of X (en_identity a) \<noteq> identity_of X (en_identity b)"
  shows "\<exists>a' oa fa b' ob fb. handle X RequestRekey a = (a', oa) \<and> sends oa = [fa] \<and>
    handle X RequestRekey b = (b', ob) \<and> sends ob = [fb] \<and>
    (if bytes_greater (identity_of X (en_identity a)) (identity_of X (en_identity b))
     then one_initiator X a' fa b' fb else one_initiator X b' fb a' fa)"
  using assms by (rule simultaneous_requests)

lemma simultaneous_rekeys_one_initiator_witness:
  "\<exists>a b a' fa b' fb. handle ref_ext RequestRekey a = a' \<and> handle ref_ext RequestRekey b = b' \<and>
    (one_initiator ref_ext (fst a') fa (fst b') fb \<or> one_initiator ref_ext (fst b') fb (fst a') fa)"
proof -
  obtain a b where f: "facing ref_ext a b" "facing ref_ext b a"
    "identity_of ref_ext (en_identity a) \<noteq> identity_of ref_ext (en_identity b)" using demo_facing by blast
  from simultaneous_rekeys_one_initiator[OF ref_cbor_ok ref_crypto_ok f] show ?thesis
    by (metis fst_conv)
qed



text \<open>
  C9: Closing reaches the peer. A local close of an established engine sends one frame, which closes
  a peer engine with the same session and tells it the reason.
\<close>

theorem close_reaches_peer:
  assumes "cbor_ok X" "en_phase a = PhEstablished" "active_session_id a = Some sid" "length sid = 16"
    "en_phase b = PhEstablished" "active_session_id b = Some sid"
  shows "\<exists>f. sends (snd (handle X (LocalClose reason) a)) = [f] \<and>
    en_phase (fst (handle X (LocalClose reason) a)) = PhClosed \<and>
    en_phase (fst (handle X (FrameReceived f) b)) = PhClosed \<and>
    Notify (Closed (CPeerUnauthenticated reason)) \<in> set (snd (handle X (FrameReceived f) b))"
  using assms by (rule local_close_reaches_peer)

lemma close_reaches_peer_witness:
  "\<exists>a b f. sends (snd (handle ref_ext (LocalClose RNormal) a)) = [f] \<and>
    en_phase (fst (handle ref_ext (FrameReceived f) b)) = PhClosed"
proof -
  obtain a b where f: "facing ref_ext a b" "facing ref_ext b a" using demo_facing by blast
  then obtain sid where "active_session_id a = Some sid" "active_session_id b = Some sid" "length sid = 16"
    by (auto simp: facing_def)
  with f close_reaches_peer[OF ref_cbor_ok, of a sid b RNormal] active_phase[of a] active_phase[of b]
  show ?thesis by (auto simp: facing_def)
qed


section \<open>Messages\<close>

text \<open>
  C10: At most once. Whatever frames a receiver is given, in whatever order and however often, the
  counters of the messages it delivers are all different.
\<close>

theorem delivered_at_most_once:
  "\<exists>ns. map (frame_counter X \<circ> fst) (fst (receiver_run X (receiver_new sid d ck) fs)) = map Inr ns \<and> distinct ns"
  using receiver_run_once[OF receiver_rel_new, of X sid d ck fs] by (metis prod.collapse)

text \<open>
  C11: Any order. Up to 64 messages of a new session are all delivered, with their contents, in
  whatever order their frames arrive.
\<close>

theorem window_delivers_any_order:
  assumes "cbor_ok X" "crypto_ok X" "length sid = 16" "length cs \<le> 64" "\<forall>c \<in> set cs. length c \<le> MAX_CONTENT"
    "distinct ns" "set ns \<subseteq> {..<length cs}"
    "fs = sent_frames (fst (sender_run X (sender_new sid d ck) cs))"
  shows "map snd (fst (receiver_run X (receiver_new sid d ck) (map (\<lambda>n. fs ! n) ns))) = map (\<lambda>n. cs ! n) ns"
  by (rule stream_any_order[OF assms])

lemma window_delivers_any_order_witness:
  "\<exists>fs. fs = sent_frames (fst (sender_run ref_ext (sender_new (replicate 16 0) InitiatorToResponder (seed 3)) [[1], [2]])) \<and>
    map snd (fst (receiver_run ref_ext (receiver_new (replicate 16 0) InitiatorToResponder (seed 3))
      (map (\<lambda>n. fs ! n) [1, 0]))) = map (\<lambda>n. [[1], [2]] ! n) [1, 0]"
proof (intro exI conjI)
  let ?fs = "sent_frames (fst (sender_run ref_ext (sender_new (replicate 16 0) InitiatorToResponder (seed 3)) [[1], [2]]))"
  show "?fs = ?fs" ..
  have "length (replicate 16 (0 :: u8)) = 16" "length [[1], [2] :: bytes] \<le> 64"
    "\<forall>c \<in> set [[1], [2] :: bytes]. length c \<le> MAX_CONTENT" "distinct [1, 0 :: nat]"
    "set [1, 0] \<subseteq> {..<length [[1], [2] :: bytes]}" by (simp_all add: MAX_CONTENT_def)
  from window_delivers_any_order[OF ref_cbor_ok ref_crypto_ok this refl, of InitiatorToResponder "seed 3"]
  show "map snd (fst (receiver_run ref_ext (receiver_new (replicate 16 0) InitiatorToResponder (seed 3))
      (map (\<lambda>n. ?fs ! n) [1, 0]))) = map (\<lambda>n. [[1], [2]] ! n) [1, 0]" .
qed



text \<open>
  C13: Counters. The frames of any run of a sender carry the counters 0, 1, 2, ... without gap or
  repetition below the end of the 64-bit range, so that no nonce is used twice.
\<close>

theorem sender_counters_consecutive:
  assumes "cbor_ok X" "crypto_ok X" "length sid = 16"
  shows "\<exists>k. map (frame_counter X) (sent_frames (fst (sender_run X (sender_new sid d ck) cs))) = map Inr [0..<k] \<and>
    k \<le> u64_max \<and> distinct (map (message_nonce d) [0..<k])"
proof -
  obtain out s' where r: "sender_run X (sender_new sid d ck) cs = (out, s')" by (metis surj_pair)
  from sender_run_counters[OF assms sender_rel_new _ r] obtain k where
    "map (frame_counter X) (sent_frames out) = map Inr [0..<k]" "k \<le> u64_max" by auto
  with r consecutive_nonces[of k d] show ?thesis by auto
qed

lemma sender_counters_consecutive_witness:
  "\<exists>k. map (frame_counter ref_ext) (sent_frames (fst (sender_run ref_ext
      (sender_new (replicate 16 0) InitiatorToResponder (seed 3)) [[1], [2]]))) = map Inr [0..<k]"
proof -
  have "length (replicate 16 (0 :: u8)) = 16" by simp
  from sender_counters_consecutive[OF ref_cbor_ok ref_crypto_ok this, of InitiatorToResponder "seed 3" "[[1], [2]]"]
  show ?thesis by blast
qed

text \<open>
  C14: Padding. Every admissible content is padded with zeros, at most 511 of them, so that the
  ciphertext with its tag is a multiple of 256 bytes, and no shorter padding would do.
\<close>

theorem padding_minimal_aligned:
  assumes "length content \<le> MAX_CONTENT"
  shows "\<exists>n. padded content = Inr \<lparr>p_content = content, p_padding = replicate n 0\<rparr> \<and> n \<le> 511 \<and>
    sealed_length content n mod DEFAULT_PADDING_QUANTUM = 0 \<and>
    (\<forall>m < n. sealed_length content m mod DEFAULT_PADDING_QUANTUM \<noteq> 0)"
  using assms by (rule padded_least)

lemma padding_minimal_aligned_witness:
  "\<exists>n. padded [1, 2, 3] = Inr \<lparr>p_content = [1, 2, 3], p_padding = replicate n 0\<rparr> \<and> n \<le> 511"
  using padding_minimal_aligned[of "[1, 2, 3]"] by (auto simp: MAX_CONTENT_def)

text \<open>
  C15: The replay window. The 64-bit window answers as the set of accepted counters does: too old, a
  duplicate, or new, and accepts exactly the new ones.
\<close>

theorem window_refines_set:
  assumes "window_rel w S"
  shows "window_classify w c = spec_classify S c \<and>
    (case window_accept w c of
       Inl e \<Rightarrow> spec_classify S c \<noteq> New
     | Inr w' \<Rightarrow> spec_classify S c = New \<and> window_rel w' (insert c S))"
  using classify_refines[OF assms, of c] accept_refines[OF assms, of c] accept_new[of w c]
  by (auto split: sum.split)

lemma window_refines_set_witness: "window_classify window_new 9 = New"
  using window_refines_set[OF window_rel_new, of 9] by (simp add: spec_classify_def)




section \<open>Encodings\<close>

text \<open>
  C17: Accepted payloads are canonical. A payload is accepted only if it is the deterministic encoding
  of its entries, with strictly ascending keys and within the frame limit; so no other payload is
  accepted with the same entries.
\<close>

theorem accepted_payload_canonical:
  assumes "validate_cbor_map_payload X payload = Inr es"
  shows "cbor_ser X (CMap (map value_entry es)) = Inr payload \<and> strict_keys es \<and>
    length payload \<le> MAX_FRAME_SIZE \<and>
    (\<forall>payload'. validate_cbor_map_payload X payload' = Inr es \<longleftrightarrow> payload' = payload)"
proof (intro conjI allI)
  fix payload'
  show "validate_cbor_map_payload X payload' = Inr es \<longleftrightarrow> payload' = payload"
    using validate_sound[OF assms] validate_sound[of X payload' es] assms by (metis Inr_inject)
qed (use validate_sound[OF assms] in simp_all)

lemma accepted_payload_canonical_witness:
  "strict_keys [(0, CInteger 5), (3, CBytes [1, 2])]"
proof -
  let ?es = "[(0 :: nat, CInteger 5), (3, CBytes [1, 2])]"
  have ok: "entries_ok ?es" by (simp add: entries_ok_def strict_keys_def u64_max_def)
  moreover have "length (payload_bytes ?es) \<le> MAX_FRAME_SIZE"
    by (simp add: length_payload_bytes head_len_def MAX_FRAME_SIZE_def cbor_head_def)
  ultimately have "validate_cbor_map_payload ref_ext (payload_bytes ?es) = Inr ?es"
    by (rule validate_complete[OF ref_cbor_ok])
  then show ?thesis using accepted_payload_canonical by blast
qed



text \<open>
  C19: Frames. Decoding a byte string yields a frame and a length exactly when the string begins with
  the encoding of that frame and the length is the encoding's.
\<close>

theorem frame_decode_iff_encoded:
  "frame_decode input = Inr (f, n) \<longleftrightarrow>
    (\<exists>bs rest. frame_encode f = Inr bs \<and> input = bs @ rest \<and> n = length bs)"
proof
  assume d: "frame_decode input = Inr (f, n)"
  from frame_decode_Inr[OF d] show "\<exists>bs rest. frame_encode f = Inr bs \<and> input = bs @ rest \<and> n = length bs"
    by (intro exI[of _ "take n input"] exI[of _ "drop n input"]) simp
next
  assume "\<exists>bs rest. frame_encode f = Inr bs \<and> input = bs @ rest \<and> n = length bs"
  then show "frame_decode input = Inr (f, n)" using frame_decode_encoded by blast
qed



text \<open>
  C21: What is signed. Two transcripts with the same signed bytes are the same transcript, so a
  signature binds every field: purpose, suite, both identities, both ephemeral keys, both nonces and
  the previous session.
\<close>

theorem transcript_encoding_injective:
  assumes "cbor_ok X" "transcript_wf t" "transcript_wf t'"
  shows "transcript_encode X t = transcript_encode X t' \<longleftrightarrow> t = t'"
proof
  assume "transcript_encode X t = transcript_encode X t'"
  then have bytes: "payload_bytes (transcript_entries t) = payload_bytes (transcript_entries t')"
    using assms transcript_encode_entries by simp
  have "cbor_de X (payload_bytes es) = Inr (CMap (map value_entry es), length (payload_bytes es))"
    if "entries_ok es" for es
    unfolding payload_bytes_def using cbor_ok_de_all[OF assms(1) entries_ok_flat[OF that]] .
  from this[OF transcript_entries_ok[OF assms(2)]] this[OF transcript_entries_ok[OF assms(3)]] bytes
  have "map value_entry (transcript_entries t) = map value_entry (transcript_entries t')" by simp
  then have "transcript_entries t = transcript_entries t'"
    by (rule map_injective) (auto simp: inj_on_def value_entry_def split: prod.splits)
  moreover have "inj purpose_code" by (rule injI) (metis purpose.try_from_code Inr_inject)
  ultimately show "t = t'"
    by (cases t; cases t') (auto simp: transcript_entries_def inj_eq split: option.splits)
qed simp

lemma transcript_encoding_injective_witness:
  "let t = \<lparr>t_purpose = PInitial, t_cipher_suite = 1, t_initiator_identity = seed 1, t_responder_identity = seed 2,
      t_initiator_ephemeral = seed 3, t_responder_ephemeral = seed 4, t_initiator_nonce = replicate 16 0,
      t_responder_nonce = replicate 16 1, t_previous_session_id = None\<rparr>
   in transcript_encode ref_ext t \<noteq> transcript_encode ref_ext (t\<lparr>t_purpose := PRekey\<rparr>)"
  by (simp add: Let_def transcript_encoding_injective[OF ref_cbor_ok] transcript_wf_def seed_def u64_max_def)


section \<open>Authentication data\<close>



text \<open>
  C23: The words the users compare are the first 33 bits of the transcript hash, most significant
  first: two hashes show the same three words exactly when these bits agree.
\<close>

theorem sas_words_are_33_bits:
  assumes "crypto_ok X" "distinct (bip39_words X)" "5 \<le> length hash" "5 \<le> length hash'"
  shows "sas_words X hash = sas_words X hash' \<longleftrightarrow>
    be_value (take 5 hash) div 128 = be_value (take 5 hash') div 128"
proof -
  let ?n = "\<lambda>h. unat (sas_packed h)" and ?w = "bip39_words X"
  have len: "length ?w = 2048" using assms(1) by (simp add: crypto_ok_def)
  have bound: "?n h < 2 ^ 33" if "5 \<le> length h" for h
  proof -
    have "length (take 5 h) = 5" using that by simp
    with be_value_less[of "take 5 h"] have "be_value (take 5 h) < 2 ^ 33 * 128" by simp
    then show ?thesis by (simp only: sas_packed_bits[OF that] less_mult_imp_div_less)
  qed
  have words: "sas_words X h = [?w ! (?n h div 2 ^ 22 mod 2048), ?w ! (?n h div 2 ^ 11 mod 2048), ?w ! (?n h mod 2048)]" for h
    by (simp only: sas_words_def Let_def sas_index_values)
  have nth: "?w ! (i mod 2048) = ?w ! (j mod 2048) \<longleftrightarrow> i mod 2048 = j mod 2048" for i j
    using assms(2) len by (simp add: nth_eq_iff_index_eq)
  have "sas_words X hash = sas_words X hash' \<longleftrightarrow> ?n hash = ?n hash'"
    unfolding words list.inject nth using three_elevens bound assms(3,4) by metis
  then show ?thesis using assms(3,4) by (simp add: sas_packed_bits)
qed

lemma sas_words_are_33_bits_witness:
  "sas_words ref_ext [0, 0, 0, 0, 0, 9] = sas_words ref_ext [0, 0, 0, 0, 127, 8] \<and>
   sas_words ref_ext [0, 0, 0, 0, 0, 9] \<noteq> sas_words ref_ext [0, 0, 0, 0, 128, 9]"
proof -
  have "distinct (bip39_words ref_ext)"
  proof -
    have char: "char_of a = (char_of b :: char) \<longleftrightarrow> a = b" if "a < 256" "b < 256" for a b :: nat
      using that by (metis mod_less of_char_of)
    have "inj_on (\<lambda>i :: nat. [char_of (48 + i div 64), char_of (48 + i mod 64)] :: string) {0..<2048}"
    proof (rule inj_onI)
      fix x y :: nat
      assume xy: "x \<in> {0..<2048}" "y \<in> {0..<2048}"
        "[char_of (48 + x div 64), char_of (48 + x mod 64)] = ([char_of (48 + y div 64), char_of (48 + y mod 64)] :: string)"
      have "48 + z div 64 < 256" "48 + z mod 64 < 256" if "z < 2048" for z :: nat
        using that less_mult_imp_div_less[of z 32 64] mod_less_divisor[of 64 z] by simp_all
      with xy have "x div 64 = y div 64" "x mod 64 = y mod 64" using char by auto
      then show "x = y" by (metis div_mult_mod_eq)
    qed
    moreover have "bip39_words ref_ext = map (\<lambda>i. [char_of (48 + i div 64), char_of (48 + i mod 64)]) [0..<2048]"
      unfolding ref_ext_def by (simp only: ext.simps)
    ultimately show ?thesis by (simp only: distinct_map distinct_upt set_upt simp_thms)
  qed
  from sas_words_are_33_bits[OF ref_crypto_ok this] show ?thesis
    by (simp add: be_value_def)
qed

section \<open>The driver\<close>

text \<open>
  C24: Reassembly. However the transport cuts the bytes of encoded frames into chunks, the decoder
  returns those frames in order and keeps nothing but what follows them; and at any time what is kept
  is shorter than one frame.
\<close>

theorem stream_reassembled:
  assumes "list_all2 (\<lambda>f bs. frame_encode f = Inr bs) fs bss" "concat chunks = concat bss @ rest"
    "next_frame rest = (Inr None, rest)"
  shows "fold receive_chunk chunks ([], None, []) = (fs, None, rest) \<and> length rest < HEADER_SIZE + MAX_FRAME_SIZE"
proof -
  have "fold receive_chunk chunks (available []) = available (concat bss @ rest)"
    using chunks_available[of chunks "[]"] assms(2) by simp
  moreover have "available rest = ([], None, rest)" using assms(3) by (simp add: available.simps[of rest])
  ultimately show ?thesis
    using available_encoded[OF assms(1), of rest] next_frame_bound[OF assms(3)] by simp
qed

lemma stream_reassembled_witness:
  "fold receive_chunk [[1], [5, 0, 0, 0], [1, 7, 1, 5, 0], [0, 0, 1, 7, 1]] ([], None, []) =
     ([\<lparr>f_version = V1, f_type = MClose, f_payload = [7]\<rparr>, \<lparr>f_version = V1, f_type = MClose, f_payload = [7]\<rparr>],
      None, [1])"
proof -
  let ?f = "\<lparr>f_version = V1, f_type = MClose, f_payload = [7]\<rparr>" and ?b = "[1, 5, 0, 0, 0, 1, 7] :: bytes"
  let ?chunks = "[[1], [5, 0, 0, 0], [1, 7, 1, 5, 0], [0, 0, 1, 7, 1]] :: bytes list"
  have "be_bytes 4 1 = [0, 0, 0, 1]" by code_simp
  then have "frame_encode ?f = Inr ?b" by (simp add: frame_encode_ok frame_ok_def)
  then have "list_all2 (\<lambda>f bs. frame_encode f = Inr bs) [?f, ?f] [?b, ?b]" by simp
  moreover have "concat ?chunks = concat [?b, ?b] @ [1]" by simp
  moreover have "next_frame [1] = (Inr None, [1])" by (simp add: next_frame_def HEADER_SIZE_def)
  ultimately show ?thesis using stream_reassembled[of "[?f, ?f]" "[?b, ?b]" ?chunks "[1]"] by simp
qed

text \<open>
  C25: The connection task. In every run of a task from a new engine, whatever the transport, the
  application and the clock do, every turn ends, and the task's deadlines are its engine's, it stops
  exactly when the engine is closed, it holds a permit only while unauthenticated, its final event is
  its last, and a lost or orphaned connection is closed at once.
\<close>

theorem connection_task_sound:
  assumes "task_run X E (task_new i (engine_new role identity entropy) permit) t"
  shows "task_ok X t \<and> live t \<and> (\<exists>t'. task_turn X E trn t = Some t')"
  using task_run_ok[OF assms refl] task_turn_ok[of X t E trn] by blast

lemma connection_task_sound_witness:
  "\<exists>t. task_run ref_ext \<lparr>env_write_ok = (\<lambda>n. n < 3), env_event_ok = (\<lambda>_. True), env_now = (\<lambda>n. n)\<rparr>
      (task_new 1 (engine_new Initiator (seed 1) (steady 1)) False) t \<and> live t"
proof -
  let ?E = "\<lparr>env_write_ok = (\<lambda>n. n < 3), env_event_ok = (\<lambda>_. True), env_now = (\<lambda>n. n)\<rparr>"
  let ?t = "task_new 1 (engine_new Initiator (seed 1) (steady 1)) False"
  have "task_run ref_ext ?E ?t (apply_input ref_ext ?E Start ?t)"
    by (rule task_run.started[of _ _ None]) (simp add: task_begin_def)
  then show ?thesis using connection_task_sound by blast
qed

text \<open>
  C26: Bounded unauthenticated handshakes. No step of the facade or of a task takes the number of
  permits beyond four.
\<close>

theorem unauthenticated_bounded:
  assumes "(net_step X E)\<^sup>*\<^sup>* (net_new identity) n"
  shows "permits_taken n \<le> MAX_UNAUTHENTICATED_HANDSHAKES"
  using assms
proof (induction rule: rtranclp_induct)
  case base
  then show ?case by (simp add: permits_taken_def net_new_def)
next
  case (step n n')
  then show ?case using net_step_permits by blast
qed

lemma unauthenticated_bounded_witness:
  "permits_taken (snd (net_spawn (net_new (seed 1)) Responder (steady 1) True)) \<le> MAX_UNAUTHENTICATED_HANDSHAKES"
proof (rule unauthenticated_bounded[of ref_ext
    "\<lparr>env_write_ok = (\<lambda>_. True), env_event_ok = (\<lambda>_. True), env_now = id\<rparr>" "seed 1"], rule r_into_rtranclp, rule net_step.accepted)
  show "accept_turn ''local'' (Inr (steady 1)) (0, net_new (seed 1)) =
      Inl (0, snd (net_spawn (net_new (seed 1)) Responder (steady 1) True))"
    by (simp add: accept_turn_def permits_taken_def net_new_def MAX_UNAUTHENTICATED_HANDSHAKES_def)
qed

text \<open>
  C27: The listener survives fewer than twenty failed accepts in a row, forgets them at the next
  success, and at the twentieth stops and reports it.
\<close>

theorem listener_failures:
  "accept_loop local (map Inl errs) (0, n) =
     (if length errs < MAX_ACCEPT_FAILURES then Inl (length errs, n)
      else Inr (n\<lparr>net_events := net_events n @ [ListenerStopped local (Some (errs ! 19))]\<rparr>)) \<and>
   (\<exists>n'. accept_turn local (Inr entropy) (k, n) = Inl (0, n'))"
proof (intro conjI accept_turn_accepted)
  show "accept_loop local (map Inl errs) (0, n) =
     (if length errs < MAX_ACCEPT_FAILURES then Inl (length errs, n)
      else Inr (n\<lparr>net_events := net_events n @ [ListenerStopped local (Some (errs ! 19))]\<rparr>))"
  proof (cases "length errs < MAX_ACCEPT_FAILURES")
    case True
    then show ?thesis using accept_failures_survived[of errs 0 local n] by simp
  next
    case False
    then have split: "errs = take 19 errs @ errs ! 19 # drop (Suc 19) errs"
      by (intro id_take_nth_drop) (simp add: MAX_ACCEPT_FAILURES_def)
    have first: "accept_loop local (map Inl (take 19 errs)) (0, n) = Inl (19, n)"
      using accept_failures_survived[of "take 19 errs" 0 local n] False by (simp add: MAX_ACCEPT_FAILURES_def min_def)
    have "accept_loop local (map Inl (take 19 errs) @ map Inl (errs ! 19 # drop (Suc 19) errs)) (0, n) =
        accept_loop local (map Inl (errs ! 19 # drop (Suc 19) errs)) (19, n)"
      by (simp only: accept_loop_append first sum.case)
    then have "accept_loop local (map Inl errs) (0, n) = accept_loop local (map Inl (errs ! 19 # drop (Suc 19) errs)) (19, n)"
      using split by (metis map_append)
    also have "\<dots> = Inr (n\<lparr>net_events := net_events n @ [ListenerStopped local (Some (errs ! 19))]\<rparr>)"
      by (simp add: accept_turn_failed MAX_ACCEPT_FAILURES_def)
    finally show ?thesis using False by simp
  qed
qed

section \<open>The application\<close>

text \<open>
  C28: Approval by the user. In every run of the program, a turn of the main loop puts an approval into the queue of
  a connection only when the key is Enter, the user typed yes, and the words shown were those of that
  very connection, which is open. What a prompt holds as typed was typed while it was the one shown.
\<close>

theorem approval_needs_typed_yes:
  assumes "app_run E (fst (startup E warnings config profile k)) s" "app_step E s s'"
  shows "(\<forall>l. queued_yes (fst s') l \<and> \<not> queued_yes (fst s) l \<longrightarrow>
      (\<exists>key q rest p. s' = on_key E key s \<and> ke_code key = CodeEnter \<and> ap_sas (fst s) = q # rest \<and>
         is_approval (ps_typed q) \<and> ps_label q = l \<and> map_of (ap_peers (fst s)) l = Some p \<and>
         pr_id p = ps_id q \<and> pr_status p \<noteq> PsClosed)) \<and>
    (\<forall>q \<in> set (ap_sas (fst s')). q \<in> set (ap_sas (fst s)) \<or> ps_typed q = [] \<or>
      (\<exists>key q' rest t. s' = on_key E key s \<and> ap_sas (fst s) = q' # rest \<and> q = q'\<lparr>ps_typed := t\<rparr>))"
proof -
  have ok: "prompts_ok (map_of (ap_peers (fst s))) (ap_sas (fst s))"
    using app_run_ok[OF assms(1) startup_ok] app_okD(3) by blast
  consider (key) key where "s' = on_key E key s"
    | (other) "\<forall>l. queued_yes (fst s') l \<longrightarrow> queued_yes (fst s) l"
        "\<forall>q \<in> set (ap_sas (fst s')). q \<in> set (ap_sas (fst s)) \<or> ps_typed q = []"
    using step_approval[OF assms(2)] by blast
  then show ?thesis
  proof cases
    case key
    with key_effect_on_key[of key s E] have effect: "key_effect key (fst s) (fst s')" by simp
    have front: "\<exists>p. map_of (ap_peers (fst s)) (ps_label q) = Some p \<and> pr_id p = ps_id q \<and> pr_status p \<noteq> PsClosed"
      if "ap_sas (fst s) = q # rest" for q rest
      using ok that by (simp add: prompts_ok_def)
    show ?thesis
    proof (intro conjI allI ballI impI)
      fix l assume "queued_yes (fst s') l \<and> \<not> queued_yes (fst s) l"
      with effect obtain q rest where "ke_code key = CodeEnter" "ap_sas (fst s) = q # rest" "ps_label q = l"
        "is_approval (ps_typed q)" unfolding key_effect_def by blast
      with front key show "\<exists>key q rest p. s' = on_key E key s \<and> ke_code key = CodeEnter \<and> ap_sas (fst s) = q # rest \<and>
          is_approval (ps_typed q) \<and> ps_label q = l \<and> map_of (ap_peers (fst s)) l = Some p \<and>
          pr_id p = ps_id q \<and> pr_status p \<noteq> PsClosed" by blast
    next
      fix q assume "q \<in> set (ap_sas (fst s'))"
      with effect show "q \<in> set (ap_sas (fst s)) \<or> ps_typed q = [] \<or>
          (\<exists>key q' rest t. s' = on_key E key s \<and> ap_sas (fst s) = q' # rest \<and> q = q'\<lparr>ps_typed := t\<rparr>)"
        using key unfolding key_effect_def by fastforce
    qed
  qed blast
qed

lemma approval_needs_typed_yes_witness:
  "\<exists>s q. ps_label q = label_of 1 \<and> is_approval (ps_typed q) \<and> q \<in> set (ap_sas (fst s)) \<and>
    queued_yes (fst (on_key demo_shell (demo_key CodeEnter) s)) (label_of 1)"
proof -
  obtain a where a: "app_run demo_shell (fst (startup demo_shell [] (config_default, None) None [])) (a, [])"
    "ap_sas a = [demo_prompt (lit ''yes'')]" "ap_mode a = Repl" "ap_peers a = [(label_of 1, demo_peer)]" "\<not> ap_quit a"
    by (rule demo_typed[folded demo_start])
  let ?s = "(a, [])"
  have step: "app_step demo_shell ?s (on_key demo_shell (demo_key CodeEnter) ?s)"
    using a(5) by (intro app_step.pressed) simp
  have "queued_yes (fst (on_key demo_shell (demo_key CodeEnter) ?s)) (label_of 1)" "\<not> queued_yes a (label_of 1)"
    using demo_approved[OF a(2-4)] by simp_all
  with approval_needs_typed_yes[OF a(1) step]
  obtain q rest where "ap_sas a = q # rest" "is_approval (ps_typed q)" "ps_label q = label_of 1" by auto
  with \<open>queued_yes (fst (on_key demo_shell (demo_key CodeEnter) ?s)) (label_of 1)\<close> show ?thesis
    by (intro exI[of _ ?s] exI[of _ q]) simp
qed

text \<open>
  C29: The application's invariant. In every run of the main loop the peer table and the index by
  connection agree, labels are never given twice, at most four verifications are pending, each for an
  open connection, closed peers remain only in the conversation shown, inputs and histories are
  bounded, and the histories hold only text that is safe to display.
\<close>

theorem app_invariant:
  assumes "app_run E (fst (startup E warnings config profile k)) s"
  shows "app_ok (fst s)"
  using app_run_ok[OF assms startup_ok] .

lemma app_invariant_witness: "\<exists>a. ap_sas a = [demo_prompt (lit ''yes'')] \<and> app_ok a"
proof -
  obtain a where "app_run demo_shell (fst (startup demo_shell [] (config_default, None) None [])) (a, [])"
    "ap_sas a = [demo_prompt (lit ''yes'')]" by (rule demo_typed[folded demo_start])
  then show ?thesis using app_invariant by fastforce
qed

text \<open>
  C30: Messages on the screen. In every run, what is drawn of a message, from a peer or the user, is
  the whole text without its line feeds, in rows that keep to the columns, and holds no control
  character and none that reorders or hides text; a text without such characters is kept as it is.
\<close>

theorem messages_shown_safely:
  assumes "app_run E (fst (startup E warnings config profile k)) s" "map_of (ap_peers (fst s)) l = Some p"
    "e \<in> set (sb_entries (pr_scrollback p))" "e_author e \<noteq> ASystem"
  shows "concat (row_texts (entry_rows w theme width e)) = filter (\<lambda>c. c \<noteq> 10) (e_text e) \<and>
    (\<forall>r \<in> set (row_texts (entry_rows w theme width e)).
       (\<forall>c \<in> set r. \<not> is_control c \<and> \<not> unsafe_char c) \<and>
       ((\<forall>c. w c \<le> max width 1) \<longrightarrow> columns w r \<le> max width 1)) \<and>
    ((\<forall>c \<in> set t. scalar_value c \<and> \<not> unsafe_char c \<and> c \<noteq> 9) \<longrightarrow> ingest (utf8 t) = t)"
proof -
  have "peer_ok p"
    using app_okD(2)[OF app_run_ok[OF assms(1) startup_ok]] assms(2) by (simp add: peers_ok_def)
  then have "\<forall>c \<in> set (e_text e). \<not> unsafe_char c \<and> c \<noteq> 9"
    using assms(3,4) by (simp add: peer_ok_def displayable_def)
  then have "\<not> is_control c \<and> \<not> unsafe_char c" if "r \<in> set (row_texts (entry_rows w theme width e))" "c \<in> set r" for r c
    using entry_rows_safe that by blast
  then show ?thesis using entry_rows_whole entry_rows_columns[of e w width _ theme] ingest_utf8[of t] by blast
qed

lemma messages_shown_safely_witness:
  "concat (row_texts (entry_rows (\<lambda>_. 1) (theme_new theme_default Plain) 10 \<lparr>e_author = ARemote, e_text = lit ''hi''\<rparr>)) =
    lit ''hi''"
proof -
  obtain s p where s: "app_run demo_shell (fst (startup demo_shell [] (config_default, None) None [])) s"
    "map_of (ap_peers (fst s)) (label_of 1) = Some p"
    "\<lparr>e_author = ARemote, e_text = lit ''hi''\<rparr> \<in> set (sb_entries (pr_scrollback p))" by (rule demo_messaged)
  from messages_shown_safely[OF s] show ?thesis by (simp add: lit_def)
qed

text \<open>
  C31: The history of a conversation. After any sequence of entries the history holds the longest
  tail of them that stays within 1000 entries and 256 KiB, each cut to its bound; the newest is
  always there.
\<close>

theorem scrollback_longest_tail:
  "\<exists>k. sb_entries (pushed ms) = drop k (map as_entry ms) \<and> fits (drop k (map as_entry ms)) \<and>
     (\<forall>j < k. \<not> fits (drop j (map as_entry ms))) \<and> sb_bytes (pushed ms) = weight (sb_entries (pushed ms)) \<and>
     (ms \<noteq> [] \<longrightarrow> sb_entries (pushed ms) \<noteq> [] \<and> last (sb_entries (pushed ms)) = as_entry (last ms))"
proof -
  have ok: "fits (sb_entries (pushed ms))" "sb_bytes (pushed ms) = weight (sb_entries (pushed ms))"
    using pushed_ok by (simp_all add: scrollback_ok_def)
  have newest: "sb_entries (pushed ms) \<noteq> [] \<and> last (sb_entries (pushed ms)) = as_entry (last ms)" if "ms \<noteq> []"
  proof -
    obtain who t where "ms = butlast ms @ [(who, t)]" using \<open>ms \<noteq> []\<close> by (metis append_butlast_last_id surj_pair)
    then show ?thesis using push_last[OF pushed_ok[of "butlast ms"], of who t]
      by (metis as_entry_def fst_conv last_snoc pushed_snoc snd_conv)
  qed
  from pushed_longest_tail[of ms] ok newest show ?thesis by metis
qed

lemma scrollback_longest_tail_witness:
  "last (sb_entries (pushed [(ALocal, lit ''hi'')])) = \<lparr>e_author = ALocal, e_text = lit ''hi''\<rparr>"
  using scrollback_longest_tail[of "[(ALocal, lit ''hi'')]"]
  by (auto simp: as_entry_def shorten_def MAX_ENTRY_BYTES_def len_utf8_def lit_def)

text \<open>
  C32: Commands. Every command has a spelling that is parsed back to it, whatever white space
  surrounds it, and every line that is accepted stands for such a command.
\<close>

theorem commands_roundtrip:
  "(command_ok c \<and> (\<forall>x \<in> set p. is_whitespace x) \<and> (\<forall>x \<in> set q. is_whitespace x) \<longrightarrow>
     parse_command (p @ render c @ q) = Inr c) \<and>
   (parse_command line = Inr c' \<longrightarrow> command_ok c' \<and> parse_command (render c') = Inr c')"
  using parse_render_padded[of c p q] parse_command_ok[of line c'] parse_render by blast

lemma commands_roundtrip_witness: "parse_command ([32] @ lit ''connect a'' @ [9]) = Inr (Connect (lit ''a''))"
  using commands_roundtrip[of "Connect (lit ''a'')" "[32]" "[9]"]
  by (simp add: word_ok_def is_whitespace_def lit_def)



text \<open>
  C34: Key bindings. A binding can be named in the configuration exactly if it keeps the rules (a letter
  only with Ctrl or Alt, Ctrl with c and d reserved, F1 to F12), except that the letter f and Ctrl with
  Alt and PageDown keep them and cannot be named.
\<close>

theorem bindable_keys:
  "(\<exists>s. parse_key s = Inr b) \<longleftrightarrow>
     key_ok b \<and> k_key b \<noteq> Letter 102 \<and> \<not> (k_key b = PageDown \<and> k_ctrl b \<and> k_alt b)"
  by (rule nameable_keys)

text \<open>
  C35: Identities at rest. Creating a profile succeeds only if there was none of its name, then loading
  it gives the stored seed, creating it again is refused, and the other profiles stay as they were;
  loading changes nothing.
\<close>

theorem profile_lifecycle:
  assumes "load_identity K native fresh name True k = (Inr identity, k')" "length fresh = 32" "keyring_ok K"
  shows "identity = fresh \<and>
    load_identity K native other name False k = (Inl (lit ''profile '' @ quoted name @ lit '' does not exist''), k) \<and>
    load_identity K native other name False k' = (Inr fresh, k') \<and>
    load_identity K native other name True k' = (Inl (lit ''profile '' @ quoted name @ lit '' already exists''), k') \<and>
    (\<forall>name'. name' \<noteq> name \<longrightarrow>
       fst (load_identity K native other name' False k') = fst (load_identity K native other name' False k))"
  using load_identity_created[OF assms(1,2)] load_identity_was_absent[OF assms(1)]
    load_identity_existing[of K native fresh name k' fresh other] load_identity_other[OF assms(3), of _ name]
  by (metis assms(1) load_identity_created[OF assms(1,2)] load_identity_existing snd_conv)

lemma profile_lifecycle_witness:
  "fst (load_identity ref_keyring True (replicate 32 7) (lit ''me'') False
     (snd (load_identity ref_keyring True (replicate 32 7) (lit ''me'') True []))) = Inr (replicate 32 7)"
proof -
  have "load_identity ref_keyring True (replicate 32 7) (lit ''me'') True [] =
      (Inr (replicate 32 7), [((lit ''ruxmsg-me'', lit ''identity''), replicate 32 7)])"
    by code_simp
  from profile_lifecycle[OF this, of "replicate 32 7"] this show ?thesis using ref_keyring_ok by simp
qed

text \<open>
  C36: The words on top. While a verification is pending in a conversation of a terminal that is large
  enough, its window is the last thing drawn, within the screen, with the three words and the
  fingerprint of that verification; and drawing keeps the application's invariant.
\<close>

theorem verification_on_top:
  assumes "app_ok a" "ap_mode a = Chat view" "MIN_WIDTH \<le> rc_width area" "MIN_HEIGHT \<le> rc_height area" "ap_sas a = q # rest"
  shows "(\<exists>before. fst (redraw_chat L now area a) = before @ draw_sas L now (ap_theme a) area q) \<and>
    (\<exists>modal lines text_area. hd (draw_sas L now (ap_theme a) area q) = DrawClear modal \<and>
       rc_x area \<le> rc_x modal \<and> rc_x modal + rc_width modal \<le> rc_x area + rc_width area \<and>
       rc_y area \<le> rc_y modal \<and> rc_y modal + rc_height modal \<le> rc_y area + rc_height area \<and>
       DrawParagraph lines (Some False) None text_area \<in> set (draw_sas L now (ap_theme a) area q) \<and>
       [lit (ps_words q ! 0) @ lit ''  '' @ lit (ps_words q ! 1) @ lit ''  '' @ lit (ps_words q ! 2)]
         \<in> set (map (\<lambda>ln. map sp_text (li_spans ln)) lines) \<and>
       [grouped (ps_fingerprint q)] \<in> set (map (\<lambda>ln. map sp_text (li_spans ln)) lines)) \<and>
    app_ok (snd (redraw_chat L now area a))"
proof (intro conjI)
  show "\<exists>before. fst (redraw_chat L now area a) = before @ draw_sas L now (ap_theme a) area q"
    by (rule sas_drawn_last[OF assms])
  show "\<exists>modal lines text_area. hd (draw_sas L now (ap_theme a) area q) = DrawClear modal \<and>
       rc_x area \<le> rc_x modal \<and> rc_x modal + rc_width modal \<le> rc_x area + rc_width area \<and>
       rc_y area \<le> rc_y modal \<and> rc_y modal + rc_height modal \<le> rc_y area + rc_height area \<and>
       DrawParagraph lines (Some False) None text_area \<in> set (draw_sas L now (ap_theme a) area q) \<and>
       [lit (ps_words q ! 0) @ lit ''  '' @ lit (ps_words q ! 1) @ lit ''  '' @ lit (ps_words q ! 2)]
         \<in> set (map (\<lambda>ln. map sp_text (li_spans ln)) lines) \<and>
       [grouped (ps_fingerprint q)] \<in> set (map (\<lambda>ln. map sp_text (li_spans ln)) lines)"
    using centered_within[of area 72 17] draw_sas_shows[of L now "ap_theme a" area q] by blast
qed (rule redraw_chat_ok[OF assms(1)])

lemma verification_on_top_witness:
  "\<exists>a q rest. ap_sas a = q # rest \<and> app_ok a \<and>
    (\<exists>before. fst (redraw_chat demo_lib 0 demo_area a) = before @ draw_sas demo_lib 0 (ap_theme a) demo_area q)"
proof -
  have "MIN_WIDTH \<le> rc_width demo_area" "MIN_HEIGHT \<le> rc_height demo_area"
    by (simp_all add: demo_area_def MIN_WIDTH_def MIN_HEIGHT_def)
  from verification_on_top[OF demo_chat(1,2) this demo_chat(3), of demo_lib 0] demo_chat(1,3) show ?thesis by blast
qed

text \<open>
  C37: What is left. When the program stops, it has forgotten peers, prompts, input and conversation and
  stopped the listener; and if at any time of the run a verification was pending, a conversation was
  open, or a message was held, it has wiped the screen.
\<close>

theorem shutdown_leaves_nothing:
  assumes "app_run E (fst (startup E warnings config profile k)) m" "app_run E m s"
  shows "let b = shutdown evs (fst s) in
    ap_peers b = [] \<and> ap_by_id b = [] \<and> ap_sas b = [] \<and> ap_input b = [] \<and> ap_mode b = Repl \<and>
    ap_listener b = None \<and> \<not> ap_net_rx b \<and>
    (ap_sas (fst m) \<noteq> [] \<or> ap_mode (fst m) \<noteq> Repl \<or>
     (\<exists>l p e. map_of (ap_peers (fst m)) l = Some p \<and> e \<in> set (sb_entries (pr_scrollback p)) \<and> e_author e \<noteq> ASystem) \<longrightarrow>
     ap_wiped b)"
proof -
  have start: "hidden (fst (fst (startup E warnings config profile k)))"
    using hidden_core[OF startup_core] by simp
  have "ap_wiped (shutdown evs (fst s))" if "\<not> hidden (fst m)"
    using shutdown_wipes run_then_run_touched[OF assms start that] by blast
  then have "ap_sas (fst m) \<noteq> [] \<or> ap_mode (fst m) \<noteq> Repl \<or>
     (\<exists>l p e. map_of (ap_peers (fst m)) l = Some p \<and> e \<in> set (sb_entries (pr_scrollback p)) \<and> e_author e \<noteq> ASystem) \<longrightarrow>
     ap_wiped (shutdown evs (fst s))"
    unfolding hidden_def unwritten_def by blast
  then show ?thesis by (simp only: Let_def shutdown_clears simp_thms)
qed

lemma shutdown_leaves_nothing_witness:
  "\<exists>a. ap_sas a \<noteq> [] \<and> ap_wiped (shutdown [] a) \<and> ap_sas (shutdown [] a) = []"
proof -
  obtain a where a: "app_run demo_shell (fst (startup demo_shell [] (config_default, None) None [])) (a, [])"
    "ap_sas a = [demo_prompt (lit ''yes'')]" by (rule demo_typed[folded demo_start])
  have "app_run demo_shell (a, []) (a, [])" by (simp add: app_run_def)
  from shutdown_leaves_nothing[OF a(1) this, of "[]"] a(2) show ?thesis by (auto simp: Let_def intro!: exI[of _ a])
qed

section \<open>The whole program\<close>

text \<open>
  C38: The parts fit. In every run of the program, of the application with the connection tasks that
  its facade spawns, each with its engine, what the application goes through is a run of its main
  loop alone, so that the properties above hold of it. Behind the events of every task that has begun
  stands a run of its engine, and whatever its queues offer the task before it ends, it takes.
\<close>

theorem program_refines_application:
  assumes "program_run E V (fst (startup E warnings config profile k)) A s"
  shows "app_run E (fst (startup E warnings config profile k)) (pg_app s, pg_store s) \<and> app_ok (pg_app s) \<and>
    (\<forall>i < length (program_tasks s). let t = program_tasks s ! i in tk_events t \<noteq> [] \<longrightarrow>
       (\<exists>h. task_history (sh_ext E) (net_identity (pg_net s)) t h) \<and>
       (\<forall>trn. \<not> tk_closing t \<and> turn_offered s (tk_id t) trn \<longrightarrow>
          (\<exists>t'. task_turn (sh_ext E) (V (tk_id t)) trn t = Some t' \<and>
             program_step E V Running s
               ((set_task i t' s)\<lparr>pg_app := drained (after_turn (tk_id t) trn (tk_closing t')) (pg_app s)\<rparr>))))"
  unfolding Let_def
  using program_run_app[OF assms] program_okD(1)[OF program_run_ok[OF assms]] program_turns[OF program_run_ok[OF assms] _ refl]
  by blast

lemma program_refines_application_witness:
  "\<exists>s :: ((ustr \<times> ustr) \<times> bytes) list program. app_run demo_shell demo_begin (pg_app s, pg_store s) \<and> app_ok (pg_app s) \<and>
    (\<exists>p. map_of (ap_peers (pg_app s)) (label_of 1) = Some p \<and> pr_status p = PsConnected)"
  using demo_program program_refines_application by metis

text \<open>
  C39: No one is shown as connected unasked. In every run of the program, behind a peer that is shown
  as connected, or that a message is shown from, stands one connection whose engine began its session
  with the keys of one transcript; its user approved the connection by typing yes while the words of
  this very transcript and the fingerprint of the peer that signed it were shown, and no other
  fingerprint is shown of it.
\<close>

theorem shown_peers_were_compared:
  assumes "program_run E V (fst (startup E warnings config profile k)) A s"
    "map_of (ap_peers (pg_app s)) l = Some p" "pr_status p = PsConnected \<or> heard_from p"
  shows "\<exists>t h identity q hash. t \<in> set (program_tasks s) \<and> tk_id t = pr_id p \<and>
    task_history (sh_ext E) (net_identity (pg_net s)) t h \<and>
    session_began (sh_ext E) (net_identity (pg_net s)) h hash identity \<and>
    q \<in> set A \<and> ps_id q = pr_id p \<and> is_approval (ps_typed q) \<and>
    ps_words q = sas_words (sh_ext E) hash \<and> approved h (ps_words q) identity \<and> ps_fingerprint q = fingerprint identity \<and>
    (\<forall>f. pr_fingerprint p = Some f \<longrightarrow> f = fingerprint identity) \<and>
    (pr_status p = PsConnected \<longrightarrow> pr_fingerprint p \<noteq> None)"
  by (rule peer_compared[OF program_run_ok[OF assms(1)] assms(2,3)])

lemma shown_peers_were_compared_witness:
  "\<exists>(s :: ((ustr \<times> ustr) \<times> bytes) list program) p (q :: pending_sas) h hash identity.
    map_of (ap_peers (pg_app s)) (label_of 1) = Some p \<and> pr_status p = PsConnected \<and>
    pr_fingerprint p = Some (fingerprint identity) \<and> is_approval (ps_typed q) \<and> ps_words q = sas_words ref_ext hash \<and>
    session_began ref_ext (net_identity (pg_net s)) h hash identity"
proof -
  obtain s p q where r: "program_run demo_shell demo_env demo_begin [q] s"
    "map_of (ap_peers (pg_app s)) (label_of 1) = Some p" "pr_status p = PsConnected" by (rule demo_program)
  have X: "sh_ext demo_shell = ref_ext" by (simp add: demo_shell_def)
  obtain h identity hash and q' :: pending_sas where c: "session_began ref_ext (net_identity (pg_net s)) h hash identity"
    "is_approval (ps_typed q')" "ps_words q' = sas_words ref_ext hash" "\<forall>f. pr_fingerprint p = Some f \<longrightarrow> f = fingerprint identity"
    "pr_status p = PsConnected \<longrightarrow> pr_fingerprint p \<noteq> None"
    using shown_peers_were_compared[OF r(1,2) disjI1[OF r(3)]] unfolding X by (elim exE conjE) (rule that)
  from c(4,5) r(3) have "pr_fingerprint p = Some (fingerprint identity)" by auto
  then show ?thesis using r(2,3) c(1-3) by (intro exI conjI)
qed



end
